(* ===== verification/Prelude.thy ===== *)
theory Prelude
  imports Complex_Main "HOL-Library.AList" "HOL-Library.Char_ord" "HOL-Library.List_Lexorder" "HOL-Library.Multiset"
begin

text \<open>
  Shared vocabulary of the development: the Python exceptions the code raises or lets through,
  the programs (state transformers with an exception result) in which every handler is written,
  two proof tools for them (weakest preconditions and preservation of an invariant), JSON values
  and dictionaries, strings and instants of time.
\<close>

section \<open>Exceptions\<close>

text \<open>
  One constructor per exception class that reaches the code.  HTTP errors carry the status code
  and the detail text.
\<close>

datatype exn =
    HTTPException int string
  | ValueError string
  | TypeError string
  | AttributeError string
  | ImportError string
  | KeyError string
  | ZeroDivisionError
  | IntegrityError string
  | MultipleResultsFound
  | DataError string
  | ConnectionError
  | ResponseError string
  | StatementError string
  | RuntimeError string
  | OverflowError string
  | JWKError string
  | JWSError string
  | JWTError string
  | UnicodeError
  | AssertionError
  | LocalProtocolError string int
  | RemoteProtocolError string int

type_synonym 'a result = "exn + 'a"

section \<open>Programs\<close>

text \<open>
  A handler takes the state of the world and returns a result together with the state it leaves
  behind; an exception keeps the effects that happened before it was raised.
\<close>

type_synonym ('s, 'a) prog = "'s \<Rightarrow> 'a result \<times> 's"

named_theorems prog_simps "unfolding equations of the program combinators"
named_theorems keeps_intro "invariant preservation, one rule per combinator and operation"

definition ret :: "'a \<Rightarrow> ('s, 'a) prog" where
  "ret x = (\<lambda>s. (Inr x, s))"

definition raise :: "exn \<Rightarrow> ('s, 'a) prog" where
  "raise e = (\<lambda>s. (Inl e, s))"

definition bindE :: "('s, 'a) prog \<Rightarrow> ('a \<Rightarrow> ('s, 'b) prog) \<Rightarrow> ('s, 'b) prog" where
  "bindE m f = (\<lambda>s. case m s of (Inl e, s') \<Rightarrow> (Inl e, s') | (Inr x, s') \<Rightarrow> f x s')"

definition andThen :: "('s, 'a) prog \<Rightarrow> ('s, 'b) prog \<Rightarrow> ('s, 'b) prog" where
  "andThen m n = bindE m (\<lambda>_. n)"

definition readS :: "('s \<Rightarrow> 'a) \<Rightarrow> ('s, 'a) prog" where
  "readS f = (\<lambda>s. (Inr (f s), s))"

definition modS :: "('s \<Rightarrow> 's) \<Rightarrow> ('s, unit) prog" where
  "modS f = (\<lambda>s. (Inr (), f s))"

definition lift :: "'a result \<Rightarrow> ('s, 'a) prog" where
  "lift r = (\<lambda>s. (r, s))"

text \<open>\<open>try: m except Exception as e: h e\<close> and \<open>try: m finally: fin\<close>.\<close>

definition tryExcept :: "('s, 'a) prog \<Rightarrow> (exn \<Rightarrow> ('s, 'a) prog) \<Rightarrow> ('s, 'a) prog" where
  "tryExcept m h = (\<lambda>s. case m s of (Inl e, s') \<Rightarrow> h e s' | (Inr x, s') \<Rightarrow> (Inr x, s'))"

definition tryFinally :: "('s, 'a) prog \<Rightarrow> ('s, unit) prog \<Rightarrow> ('s, 'a) prog" where
  "tryFinally m fin = (\<lambda>s. case m s of (r, s') \<Rightarrow>
     (case fin s' of (Inl e, s'') \<Rightarrow> (Inl e, s'') | (Inr _, s'') \<Rightarrow> (r, s'')))"

text \<open>A \<open>for\<close> loop whose body yields a value; the values are collected in order.\<close>

fun forEach :: "('a \<Rightarrow> ('s, 'b) prog) \<Rightarrow> 'a list \<Rightarrow> ('s, 'b list) prog" where
  "forEach f [] = ret []"
| "forEach f (x # xs) = bindE (f x) (\<lambda>y. bindE (forEach f xs) (\<lambda>ys. ret (y # ys)))"

lemmas prog_defs = ret_def raise_def bindE_def andThen_def readS_def modS_def lift_def
  tryExcept_def tryFinally_def

lemma ret_run [simp, prog_simps]: "ret x s = (Inr x, s)"
  by (simp add: ret_def)

lemma raise_run [simp, prog_simps]: "raise e s = (Inl e, s)"
  by (simp add: raise_def)

lemma readS_run [simp, prog_simps]: "readS f s = (Inr (f s), s)"
  by (simp add: readS_def)

lemma modS_run [simp, prog_simps]: "modS f s = (Inr (), f s)"
  by (simp add: modS_def)

lemma lift_run [simp, prog_simps]: "lift r s = (r, s)"
  by (simp add: lift_def)

lemma bindE_run: "bindE m f s = (case m s of (r, s') \<Rightarrow>
    (case r of Inl e \<Rightarrow> (Inl e, s') | Inr x \<Rightarrow> f x s'))"
  by (auto simp: bindE_def split: prod.splits sum.splits)

lemma bindE_Inr [simp, prog_simps]: "m s = (Inr x, s') \<Longrightarrow> bindE m f s = f x s'"
  by (simp add: bindE_def)

lemma bindE_Inl [simp, prog_simps]: "m s = (Inl e, s') \<Longrightarrow> bindE m f s = (Inl e, s')"
  by (simp add: bindE_def)

lemma andThen_Inr [simp, prog_simps]: "m s = (Inr x, s') \<Longrightarrow> andThen m n s = n s'"
  by (simp add: andThen_def)

lemma andThen_Inl [simp, prog_simps]: "m s = (Inl e, s') \<Longrightarrow> andThen m n s = (Inl e, s')"
  by (simp add: andThen_def)

lemma bindE_assoc: "bindE (bindE m f) g = bindE m (\<lambda>x. bindE (f x) g)"
  by (rule ext) (auto simp: bindE_def split: prod.splits sum.splits)

lemma bindE_ret [simp]: "bindE m ret = m"
  by (rule ext) (auto simp: bindE_def ret_def split: prod.splits sum.splits)

lemma tryFinally_run: "tryFinally m fin s =
    (case fin (snd (m s)) of (Inl e, s') \<Rightarrow> (Inl e, s') | (Inr _, s') \<Rightarrow> (fst (m s), s'))"
  by (auto simp: tryFinally_def split: prod.splits sum.splits)

lemma tryExcept_Inr [simp, prog_simps]: "m s = (Inr x, s') \<Longrightarrow> tryExcept m h s = (Inr x, s')"
  by (simp add: tryExcept_def)

lemma tryExcept_Inl [simp, prog_simps]: "m s = (Inl e, s') \<Longrightarrow> tryExcept m h s = h e s'"
  by (simp add: tryExcept_def)

subsection \<open>Preservation of an invariant\<close>

text \<open>
  \<open>keeps I m\<close>: whatever \<open>m\<close> returns or raises, it leaves a state that satisfies \<open>I\<close> if it
  was started in one.
\<close>

definition keeps :: "('s \<Rightarrow> bool) \<Rightarrow> ('s, 'a) prog \<Rightarrow> bool" where
  "keeps I m \<longleftrightarrow> (\<forall>s. I s \<longrightarrow> I (snd (m s)))"

lemma keepsI: "(\<And>s. I s \<Longrightarrow> I (snd (m s))) \<Longrightarrow> keeps I m"
  by (simp add: keeps_def)

lemma keepsD: "keeps I m \<Longrightarrow> I s \<Longrightarrow> I (snd (m s))"
  by (simp add: keeps_def)

lemma keeps_ret [keeps_intro]: "keeps I (ret x)"
  by (simp add: keeps_def)

lemma keeps_raise [keeps_intro]: "keeps I (raise e)"
  by (simp add: keeps_def)

lemma keeps_readS [keeps_intro]: "keeps I (readS f)"
  by (simp add: keeps_def)

lemma keeps_lift [keeps_intro]: "keeps I (lift r)"
  by (simp add: keeps_def)

lemma keeps_modS: "(\<And>s. I s \<Longrightarrow> I (f s)) \<Longrightarrow> keeps I (modS f)"
  by (simp add: keeps_def)

lemma keeps_bindE [keeps_intro]: "keeps I m \<Longrightarrow> (\<And>x. keeps I (f x)) \<Longrightarrow> keeps I (bindE m f)"
  by (fastforce simp: keeps_def bindE_run split: prod.splits sum.splits)

lemma keeps_andThen [keeps_intro]: "keeps I m \<Longrightarrow> keeps I n \<Longrightarrow> keeps I (andThen m n)"
  by (simp add: andThen_def keeps_bindE)

lemma keeps_tryExcept [keeps_intro]:
  "keeps I m \<Longrightarrow> (\<And>e. keeps I (h e)) \<Longrightarrow> keeps I (tryExcept m h)"
  by (fastforce simp: keeps_def tryExcept_def split: prod.splits sum.splits)

lemma keeps_tryFinally [keeps_intro]:
  "keeps I m \<Longrightarrow> keeps I fin \<Longrightarrow> keeps I (tryFinally m fin)"
  by (fastforce simp: keeps_def tryFinally_def split: prod.splits sum.splits)

lemma keeps_if [keeps_intro]:
  "(b \<Longrightarrow> keeps I m) \<Longrightarrow> (\<not> b \<Longrightarrow> keeps I n) \<Longrightarrow> keeps I (if b then m else n)"
  by simp

lemma keeps_case_option [keeps_intro]:
  "keeps I m \<Longrightarrow> (\<And>x. keeps I (f x)) \<Longrightarrow> keeps I (case opt of None \<Rightarrow> m | Some x \<Rightarrow> f x)"
  by (cases opt) simp_all

lemma keeps_case_sum [keeps_intro]:
  "(\<And>x. keeps I (f x)) \<Longrightarrow> (\<And>x. keeps I (g x)) \<Longrightarrow>
    keeps I (case r of Inl x \<Rightarrow> f x | Inr x \<Rightarrow> g x)"
  by (cases r) simp_all

lemma keeps_case_prod [keeps_intro]:
  "(\<And>a b. keeps I (f a b)) \<Longrightarrow> keeps I (case p of (a, b) \<Rightarrow> f a b)"
  by (cases p) simp

lemma keeps_forEach [keeps_intro]: "(\<And>x. keeps I (f x)) \<Longrightarrow> keeps I (forEach f xs)"
  by (induction xs) (auto intro!: keeps_bindE keeps_ret)

section \<open>Dictionaries and JSON\<close>

text \<open>
  A Python dictionary with string keys is an association list in insertion order;
  \<^const>\<open>AList.update\<close> assigns in place or appends, as \<open>d[k] = v\<close> does.  A JSON string whose
  content is itself the text of a JSON value is \<open>JQuoted\<close> of that value, and one that holds the
  ISO 8601 text of an instant is \<open>JTime\<close> of that instant (in microseconds).  A float is a
  rational, or one of the three values \<open>JNonFinite\<close> names (\<open>NaN\<close>, \<open>Infinity\<close>, \<open>-Infinity\<close>).
\<close>

datatype json =
    JNull
  | JBool bool
  | JInt int
  | JReal rat
  | JNonFinite string
  | JStr string
  | JQuoted json
  | JTime int
  | JArr "json list"
  | JObj "(string \<times> json) list"

type_synonym dict = "(string \<times> json) list"

text \<open>
  A Python \<open>str\<close> the code handles is either an ordinary text or the text that
  \<open>json.dumps\<close> produced for a value; \<open>json.loads\<close> gives that value back.
\<close>

datatype pytext = Raw string | Dumped json

fun json_loads :: "pytext \<Rightarrow> json result" where
  "json_loads (Dumped j) = Inr j"
| "json_loads (Raw s) = Inl (ValueError ''json'')"

definition json_dumps :: "json \<Rightarrow> pytext" where
  "json_dumps j = Dumped j"

text \<open>A Python \<open>str\<close> as a JSON value.\<close>

fun text_json :: "pytext \<Rightarrow> json" where
  "text_json (Raw s) = JStr s"
| "text_json (Dumped j) = JQuoted j"

lemma json_roundtrip [simp]: "json_loads (json_dumps j) = Inr j"
  by (simp add: json_dumps_def)

section \<open>Strings\<close>

text \<open>\<open>s.split(c)\<close> for a one-character separator: always at least one part.\<close>

fun split_on :: "char \<Rightarrow> string \<Rightarrow> string list" where
  "split_on c [] = [[]]"
| "split_on c (x # xs) =
     (if x = c then [] # split_on c xs
      else (case split_on c xs of [] \<Rightarrow> [[x]] | p # ps \<Rightarrow> (x # p) # ps))"

text \<open>\<open>c.join(parts)\<close>\<close>

fun join_with :: "char \<Rightarrow> string list \<Rightarrow> string" where
  "join_with c [] = []"
| "join_with c [p] = p"
| "join_with c (p # q # ps) = p @ c # join_with c (q # ps)"

definition starts_with :: "string \<Rightarrow> string \<Rightarrow> bool" where
  "starts_with p s \<longleftrightarrow> take (length p) s = p"

lemma starts_with_append [simp]: "starts_with p (p @ s)"
  by (simp add: starts_with_def)

lemma starts_with_iff: "starts_with p s \<longleftrightarrow> (\<exists>r. s = p @ r)"
  unfolding starts_with_def by (metis append_eq_conv_conj append_take_drop_id)

lemma split_on_not_Nil [simp]: "split_on c s \<noteq> []"
  by (induction s) (auto split: list.splits)

lemma split_on_notin: "c \<notin> set p \<Longrightarrow> split_on c p = [p]"
  by (induction p) auto

lemma split_on_append: "c \<notin> set p \<Longrightarrow> split_on c (p @ c # s) = p # split_on c s"
  by (induction p) auto

lemma split_on_chars: "p \<in> set (split_on c s) \<Longrightarrow> x \<in> set p \<Longrightarrow> x \<in> set s"
  by (induction s arbitrary: p) (fastforce split: if_splits list.splits)+

lemma split_join:
  "ps \<noteq> [] \<Longrightarrow> \<forall>p \<in> set ps. c \<notin> set p \<Longrightarrow> split_on c (join_with c ps) = ps"
  by (induction c ps rule: join_with.induct) (auto simp: split_on_append split_on_notin)

lemma join_split: "join_with c (split_on c s) = s"
proof (induction s)
  case Nil
  show ?case by simp
next
  case (Cons x s)
  obtain p ps where split: "split_on c s = p # ps"
    using split_on_not_Nil by (cases "split_on c s") auto
  show ?case
    using Cons.IH split by (cases ps) auto
qed

section \<open>Threshold votes\<close>

text \<open>
  A decision taken when at least \<open>k\<close> of the votes are yes: it does not depend on the order of the
  votes, changing a vote to yes never revokes it, and enough no votes exclude it.
\<close>

locale threshold_vote =
  fixes k :: nat and decide :: "bool list \<Rightarrow> bool"
  assumes decide_iff: "decide vs \<longleftrightarrow> k \<le> length (filter id vs)"
begin

lemma decide_order: "mset vs = mset ws \<Longrightarrow> decide vs = decide ws"
  by (metis decide_iff mset_filter size_mset)

lemma decide_mono: "list_all2 (\<longrightarrow>) vs ws \<Longrightarrow> decide vs \<Longrightarrow> decide ws"
proof -
  assume all: "list_all2 (\<longrightarrow>) vs ws" and d: "decide vs"
  from all have "length (filter id vs) \<le> length (filter id ws)"
    by (induction rule: list_all2_induct) auto
  with d show "decide ws" by (simp add: decide_iff)
qed

lemma decide_excluded: "length vs < k + length (filter Not vs) \<Longrightarrow> \<not> decide vs"
proof -
  have "length (filter id vs) + length (filter Not vs) = length vs"
    using sum_length_filter_compl [of id vs] by (simp add: id_def)
  then show "length vs < k + length (filter Not vs) \<Longrightarrow> \<not> decide vs" by (simp add: decide_iff)
qed

lemma decide_three:
  "k = 2 \<Longrightarrow> decide [a, b, c] \<longleftrightarrow> (a \<and> b) \<or> (a \<and> c) \<or> (b \<and> c)"
  by (cases a; cases b; cases c) (simp_all add: decide_iff)

end

section \<open>Time\<close>

text \<open>
  An instant is a number of microseconds since the epoch (UTC); \<open>day_of\<close> is its calendar date
  as a day number and \<open>time_of_day\<close> the time of day.
\<close>

type_synonym instant = int

definition usec :: int where "usec = 1000000"
definition day_usec :: int where "day_usec = 86400 * usec"

definition day_of :: "instant \<Rightarrow> int" where "day_of t = t div day_usec"
definition time_of_day :: "instant \<Rightarrow> int" where "time_of_day t = t mod day_usec"

text \<open>\<open>time(h, m)\<close> of the standard library.\<close>

definition clock_time :: "int \<Rightarrow> int \<Rightarrow> int" where
  "clock_time h m = (h * 3600 + m * 60) * usec"

lemma time_of_day_bounds: "0 \<le> time_of_day t" "time_of_day t < day_usec"
  by (simp_all add: time_of_day_def day_usec_def usec_def)

lemma day_time_split: "t = day_of t * day_usec + time_of_day t"
  by (simp add: day_of_def time_of_day_def)

text \<open>Decimal numerals, \<open>str(n)\<close>, and the ISO 8601 texts of dates and instants.\<close>

fun digits :: "nat \<Rightarrow> string" where
  "digits n = (if n < 10 then [char_of (48 + n)] else digits (n div 10) @ [char_of (48 + n mod 10)])"

declare digits.simps [simp del]

definition show_int :: "int \<Rightarrow> string" where
  "show_int n = (if n < 0 then CHR ''-'' # digits (nat (- n)) else digits (nat n))"

definition padded :: "nat \<Rightarrow> int \<Rightarrow> string" where
  "padded k n = (let d = show_int n in replicate (k - length d) (CHR ''0'') @ d)"

text \<open>The proleptic Gregorian date of a day number (day 0 is 1970-01-01).\<close>

definition civil_date :: "int \<Rightarrow> int \<times> int \<times> int" where
  "civil_date d =
     (let z = d + 719468; era = z div 146097; doe = z mod 146097;
          yoe = (doe - doe div 1460 + doe div 36524 - doe div 146096) div 365;
          doy = doe - (365 * yoe + yoe div 4 - yoe div 100);
          mp = (5 * doy + 2) div 153;
          m = (if mp < 10 then mp + 3 else mp - 9)
      in (yoe + era * 400 + (if m \<le> 2 then 1 else 0), m, doy - (153 * mp + 2) div 5 + 1))"

definition iso_date :: "int \<Rightarrow> string" where
  "iso_date d = (case civil_date d of (y, m, dd) \<Rightarrow>
     padded 4 y @ ''-'' @ padded 2 m @ ''-'' @ padded 2 dd)"

definition iso_instant :: "instant \<Rightarrow> string" where
  "iso_instant t =
     (let s = time_of_day t div usec; u = time_of_day t mod usec
      in iso_date (day_of t) @ ''T'' @ padded 2 (s div 3600) @ '':'' @ padded 2 (s div 60 mod 60)
         @ '':'' @ padded 2 (s mod 60) @ (if u = 0 then [] else CHR ''.'' # padded 6 u) @ ''+00:00'')"

lemma iso_date_examples:
  "iso_date 0 = ''1970-01-01''" "iso_date 19782 = ''2024-02-29''" "iso_date 20453 = ''2025-12-31''"
  by code_simp+

end
