(* ===== verification/World.thy ===== *)
theory World
  imports Prelude
begin

text \<open>
  The data of the backend: the settings (config.py), the rows of the database tables
  (the models.py files of the modules, and the two tables whose classes the repository only
  refers to), the state kept in Redis, and the world a handler runs in.
\<close>

section \<open>Settings (app/config.py)\<close>

record settings =
  APP_NAME :: string
  DEBUG :: bool
  API_V1_PREFIX :: string
  ALLOWED_ORIGINS :: "string list"
  DATABASE_URL :: string
  REDIS_URL :: string
  REDIS_ENABLED :: bool
  MQTT_BROKER_HOST :: string
  MQTT_BROKER_PORT :: int
  MQTT_USERNAME :: string
  MQTT_PASSWORD :: string
  MQTT_CLIENT_ID :: string
  MQTT_ENABLED :: bool
  SECRET_KEY :: string
  ALGORITHM :: string
  ACCESS_TOKEN_EXPIRE_MINUTES :: int
  FL_MIN_DEVICES_PER_ROUND :: int
  FL_ROUND_INTERVAL_SECONDS :: int
  HEARTBEAT_TIMEOUT_SECONDS :: int
  DEFAULT_DAILY_BUDGET_SECONDS_setting :: int

text \<open>
  \<open>DEFAULT_SQLITE_PATH\<close> joins the temporary directory of the host, a parameter here, with the
  file name and turns backslashes into slashes.
\<close>

definition DEFAULT_SQLITE_PATH :: "string \<Rightarrow> string" where
  "DEFAULT_SQLITE_PATH tmpdir =
     map (\<lambda>c. if c = CHR 0x5C then CHR ''/'' else c) (tmpdir @ ''/screensync.db'')"

definition default_settings :: "string \<Rightarrow> settings" where
  "default_settings tmpdir =
     \<lparr> APP_NAME = ''ScreenSync'', DEBUG = False, API_V1_PREFIX = ''/api/v1'',
       ALLOWED_ORIGINS = [''*''],
       DATABASE_URL = ''sqlite:///'' @ DEFAULT_SQLITE_PATH tmpdir,
       REDIS_URL = ''redis://:screensync@redis:6379'', REDIS_ENABLED = True,
       MQTT_BROKER_HOST = ''mosquitto'', MQTT_BROKER_PORT = 1883,
       MQTT_USERNAME = ''screensync'', MQTT_PASSWORD = ''secret'',
       MQTT_CLIENT_ID = ''screensync-backend'', MQTT_ENABLED = True,
       SECRET_KEY = ''change-me-in-production'', ALGORITHM = ''HS256'',
       ACCESS_TOKEN_EXPIRE_MINUTES = 60 * 24,
       FL_MIN_DEVICES_PER_ROUND = 2, FL_ROUND_INTERVAL_SECONDS = 3600,
       HEARTBEAT_TIMEOUT_SECONDS = 60, DEFAULT_DAILY_BUDGET_SECONDS_setting = 14400 \<rparr>"

section \<open>Rows of the database\<close>

text \<open>auth_service/models.py\<close>

record User =
  usr_id :: string
  usr_email :: string
  usr_hashed_password :: string
  usr_created_at :: instant

text \<open>device_registry/models.py\<close>

record Device =
  dev_id :: string
  dev_user_id :: string
  dev_name :: string
  dev_type :: string
  dev_priority :: int
  dev_last_heartbeat :: "instant option"
  dev_is_online :: bool
  dev_registered_at :: instant

text \<open>usage_ingestion/models.py\<close>

record UsageEvent =
  ev_id :: int
  ev_device_id :: string
  ev_app_category :: string
  ev_duration_seconds :: int
  ev_recorded_at :: instant

text \<open>decision_engine/models.py; dates are day numbers\<close>

record Budget =
  bud_id :: string
  bud_device_id :: string
  bud_date :: int
  bud_total :: int
  bud_used :: int
  bud_rebalanced_at :: "instant option"
  bud_created_at :: instant

text \<open>
  \<open>OverrideRequest\<close> (imported by override_service/quorum.py) and \<open>FLModelUpdate\<close> (imported by
  fl_worker) are not defined in the repository; their fields are those the code reads and writes.
\<close>

datatype OverrideStatus = PENDING | APPROVED | DENIED

record OverrideRequest =
  ovr_id :: string
  ovr_device_id :: string
  ovr_requested_seconds :: int
  ovr_status :: OverrideStatus
  ovr_votes :: "(string \<times> bool) list"
  ovr_requested_at :: instant
  ovr_resolved_at :: "instant option"
  ovr_signature :: "string option"

type_synonym byte_string = "nat list"

record FLModelUpdate =
  fl_device_id :: string
  fl_gradient_delta :: byte_string
  fl_round_number :: int
  fl_submitted_at :: instant

record db =
  users :: "User list"
  devices :: "Device list"
  usage_events :: "UsageEvent list"
  budgets :: "Budget list"
  override_requests :: "OverrideRequest list"
  fl_model_updates :: "FLModelUpdate list"

definition empty_db :: db where
  "empty_db = \<lparr> users = [], devices = [], usage_events = [], budgets = [],
     override_requests = [], fl_model_updates = [] \<rparr>"

section \<open>Redis\<close>

text \<open>
  What the server keeps under a key: a string (binary safe: the text or the bytes the client
  sent), with the instant at which it expires; sets and streams live in tables of their own.
\<close>

datatype blob = BText pytext | BBin byte_string

type_synonym audit_entry = "(string \<times> string) list"

record redis_server =
  srv_up :: bool
  srv_strings :: "(string \<times> blob \<times> instant option) list"
  srv_sets :: "(string \<times> string list \<times> instant option) list"
  srv_streams :: "(string \<times> audit_entry list) list"
  srv_slack :: nat
  srv_published :: "(string \<times> pytext) list"

text \<open>
  The clients shared/redis_client.py creates: \<open>from_url\<close> with \<open>decode_responses\<close> true (replies
  are \<open>str\<close>) or false (replies are \<open>bytes\<close>), and the null object.
\<close>

datatype redis_handle = TextClient | BytesClient | NullRedis

section \<open>MQTT\<close>

text \<open>A payload handed to paho: a text or, where the code forgets to encode it, a dictionary.\<close>

datatype mqtt_payload = PText pytext | PDict dict

record mqtt_message =
  msg_topic :: string
  msg_payload :: mqtt_payload
  msg_qos :: int

section \<open>The world of a handler\<close>

text \<open>
  One invocation of a handler reads one instant, \<open>clock\<close> (UTC); \<open>tz_offset\<close> is the server's
  local offset.  \<open>uuids\<close> is the stream \<open>uuid4()\<close> draws from.  \<open>committed\<close> is the durable
  database, \<open>working\<close> what the current session sees.  \<open>db_exports\<close> is the list of names
  the module app.database defines, which its importers look up at run time, and \<open>app_modules\<close> the
  modules of the package that can be imported.
\<close>

record world =
  config :: settings
  clock :: instant
  tz_offset :: int
  uuids :: "nat \<Rightarrow> string"
  uuid_next :: nat
  db_exports :: "string list"
  app_modules :: "string list"
  committed :: db
  working :: db
  event_seq :: int
  server :: redis_server
  text_client :: "redis_handle option"
  bytes_client :: "redis_handle option"
  broker_up :: bool
  pub_client :: bool
  wrapper_client :: bool
  subscriptions :: "(string \<times> int) list"
  outbox :: "mqtt_message list"

type_synonym 'a handler = "(world, 'a) prog"

definition now_utc :: "instant handler" where
  "now_utc = readS clock"

text \<open>\<open>datetime.now(timezone.utc).date()\<close>, \<open>date.today()\<close> and \<open>datetime.now().time()\<close>\<close>

definition utc_today :: "world \<Rightarrow> int" where
  "utc_today w = day_of (clock w)"

definition local_today :: "world \<Rightarrow> int" where
  "local_today w = day_of (clock w + tz_offset w)"

definition local_time :: "world \<Rightarrow> int" where
  "local_time w = time_of_day (clock w + tz_offset w)"

definition uuid4 :: "string handler" where
  "uuid4 = (\<lambda>w. (Inr (uuids w (uuid_next w)), w\<lparr>uuid_next := Suc (uuid_next w)\<rparr>))"

lemma uuid4_run [simp]: "uuid4 w = (Inr (uuids w (uuid_next w)), w\<lparr>uuid_next := Suc (uuid_next w)\<rparr>)"
  by (simp add: uuid4_def)

lemma now_utc_run [simp]: "now_utc w = (Inr (clock w), w)"
  by (simp add: now_utc_def)

text \<open>
  A world to evaluate handlers in: every service is up, nothing has been initialised, and the
  stream of identifiers counts.
\<close>

definition ids_stream :: "nat \<Rightarrow> string" where
  "ids_stream n = ''id'' @ replicate n (CHR ''x'')"

definition sample_world :: "instant \<Rightarrow> db \<Rightarrow> world" where
  "sample_world t d =
     \<lparr> config = default_settings ''/tmp'', clock = t, tz_offset = 0, uuids = ids_stream,
       uuid_next = 0, db_exports = [], app_modules = [], committed = d, working = d, event_seq = 1,
       server = \<lparr> srv_up = True, srv_strings = [], srv_sets = [], srv_streams = [], srv_slack = 0,
         srv_published = [] \<rparr>,
       text_client = None, bytes_client = None, broker_up = True, pub_client = False,
       wrapper_client = False, subscriptions = [], outbox = [] \<rparr>"

end
