(* ===== verification/Database.thy ===== *)
theory Database
  imports World
begin

text \<open>
  app/database.py: the database URL, the session a request works in, and the queries the
  modules issue.  A table is a list of rows in insertion order; \<open>db_wf\<close> is the well-formedness
  every committed database has (unique keys, and no row that refers to a missing one).
\<close>

section \<open>The database URL\<close>

text \<open>\<open>s.replace(old, new, 1)\<close>\<close>

fun replace_once :: "string \<Rightarrow> string \<Rightarrow> string \<Rightarrow> string" where
  "replace_once old new [] = (if old = [] then new else [])"
| "replace_once old new (c # s) =
     (if starts_with old (c # s) then new @ drop (length old) (c # s)
      else c # replace_once old new s)"

definition to_async_database_url :: "string \<Rightarrow> string" where
  "to_async_database_url url =
     (if starts_with ''postgresql+asyncpg://'' url then url
      else if starts_with ''postgresql://'' url
        then replace_once ''postgresql://'' ''postgresql+asyncpg://'' url
      else if starts_with ''sqlite:///'' url
        then replace_once ''sqlite:///'' ''sqlite+aiosqlite:///'' url
      else url)"

text \<open>The arguments of \<open>create_async_engine\<close>.\<close>

definition engine_kwargs :: "settings \<Rightarrow> dict" where
  "engine_kwargs cfg =
     (let kw = [(''echo'', JBool (DEBUG cfg))]; url = to_async_database_url (DATABASE_URL cfg)
      in if \<not> starts_with ''sqlite+aiosqlite://'' url
         then AList.update ''max_overflow'' (JInt 20) (AList.update ''pool_size'' (JInt 10) kw)
         else AList.update ''connect_args'' (JObj [(''check_same_thread'', JBool False)]) kw)"

text \<open>The names the module defines at its top level (its imports included).\<close>

definition database_exports :: "string list" where
  "database_exports =
     [''AsyncSession'', ''async_sessionmaker'', ''create_async_engine'', ''DeclarativeBase'',
      ''settings'', ''_to_async_database_url'', ''_db_url'', ''engine_kwargs'', ''engine'',
      ''AsyncSessionLocal'', ''Base'', ''import_models'', ''get_db'', ''init_db'', ''get_session'']"

text \<open>\<open>from app.database import n\<close>\<close>

definition import_from_database :: "string \<Rightarrow> unit handler" where
  "import_from_database n =
     (\<lambda>w. if n \<in> set (db_exports w) then (Inr (), w) else (Inl (ImportError n), w))"

section \<open>Queries and statements\<close>

definition scalar_one_or_none :: "'r list \<Rightarrow> 'r option result" where
  "scalar_one_or_none rows =
     (case rows of [] \<Rightarrow> Inr None | [r] \<Rightarrow> Inr (Some r) | _ \<Rightarrow> Inl MultipleResultsFound)"

definition select_where :: "(db \<Rightarrow> 'r list) \<Rightarrow> ('r \<Rightarrow> bool) \<Rightarrow> 'r list handler" where
  "select_where tab p = readS (\<lambda>w. filter p (tab (working w)))"

definition select_one :: "(db \<Rightarrow> 'r list) \<Rightarrow> ('r \<Rightarrow> bool) \<Rightarrow> 'r option handler" where
  "select_one tab p = bindE (select_where tab p) (\<lambda>rows. lift (scalar_one_or_none rows))"

definition update_where ::
    "(('r list \<Rightarrow> 'r list) \<Rightarrow> db \<Rightarrow> db) \<Rightarrow> ('r \<Rightarrow> bool) \<Rightarrow> ('r \<Rightarrow> 'r) \<Rightarrow> unit handler" where
  "update_where tab p f =
     modS (\<lambda>w. w\<lparr>working := tab (map (\<lambda>r. if p r then f r else r)) (working w)\<rparr>)"

definition delete_where ::
    "(('r list \<Rightarrow> 'r list) \<Rightarrow> db \<Rightarrow> db) \<Rightarrow> ('r \<Rightarrow> bool) \<Rightarrow> unit handler" where
  "delete_where tab p = modS (\<lambda>w. w\<lparr>working := tab (filter (\<lambda>r. \<not> p r)) (working w)\<rparr>)"

text \<open>
  \<open>db.add(row)\<close> and the flush that follows it: the row is appended, unless a primary key or a
  unique constraint of its table is violated.
\<close>

definition add_row ::
    "(('r list \<Rightarrow> 'r list) \<Rightarrow> db \<Rightarrow> db) \<Rightarrow> (db \<Rightarrow> 'r list) \<Rightarrow> ('r \<Rightarrow> 'r \<Rightarrow> bool) \<Rightarrow> string \<Rightarrow>
      'r \<Rightarrow> unit handler" where
  "add_row upd tab clash name r =
     (\<lambda>w. if list_ex (clash r) (tab (working w)) then (Inl (IntegrityError name), w)
          else (Inr (), w\<lparr>working := upd (\<lambda>rs. rs @ [r]) (working w)\<rparr>))"

definition add_user :: "User \<Rightarrow> unit handler" where
  "add_user = add_row users_update users
     (\<lambda>a b. usr_id a = usr_id b \<or> usr_email a = usr_email b) ''users''"

definition add_device :: "Device \<Rightarrow> unit handler" where
  "add_device = add_row devices_update devices (\<lambda>a b. dev_id a = dev_id b) ''devices''"

definition add_event :: "UsageEvent \<Rightarrow> unit handler" where
  "add_event = add_row usage_events_update usage_events
     (\<lambda>a b. ev_id a = ev_id b) ''usage_events''"

definition add_budget :: "Budget \<Rightarrow> unit handler" where
  "add_budget = add_row budgets_update budgets
     (\<lambda>a b. bud_id a = bud_id b
        \<or> bud_device_id a = bud_device_id b \<and> bud_date a = bud_date b) ''budgets''"

definition add_override :: "OverrideRequest \<Rightarrow> unit handler" where
  "add_override = add_row override_requests_update override_requests
     (\<lambda>a b. ovr_id a = ovr_id b) ''override_requests''"

text \<open>
  The id sequence of \<open>usage_events\<close>, as PostgreSQL has it.  (SQLite numbers rows only for a primary
  key declared INTEGER, and this one is a BIGINT: there the insertion would fail.)
\<close>

definition next_event_id :: "int handler" where
  "next_event_id = (\<lambda>w. (Inr (event_seq w), w\<lparr>event_seq := event_seq w + 1\<rparr>))"

section \<open>Sessions\<close>

definition open_session :: "unit handler" where
  "open_session = modS (\<lambda>w. w\<lparr>working := committed w\<rparr>)"

definition commit :: "unit handler" where
  "commit = modS (\<lambda>w. w\<lparr>committed := working w\<rparr>)"

definition rollback :: "unit handler" where
  "rollback = modS (\<lambda>w. w\<lparr>working := committed w\<rparr>)"

text \<open>
  \<open>get_db\<close> around the body of a request: commit when it returns, roll back and re-raise when it
  raises (the exit stack of FastAPI hands the dependency the exception of the endpoint).
\<close>

definition get_db :: "'a handler \<Rightarrow> 'a handler" where
  "get_db body =
     andThen open_session
       (tryExcept (bindE body (\<lambda>r. andThen commit (ret r)))
          (\<lambda>e. andThen rollback (raise e)))"

lemma get_db_Inr:
  "body (w\<lparr>working := committed w\<rparr>) = (Inr r, w') \<Longrightarrow>
     get_db body w = (Inr r, w'\<lparr>committed := working w'\<rparr>)"
  by (simp add: get_db_def open_session_def andThen_def bindE_def tryExcept_def commit_def)

lemma get_db_Inl:
  "body (w\<lparr>working := committed w\<rparr>) = (Inl e, w') \<Longrightarrow>
     get_db body w = (Inl e, w'\<lparr>working := committed w'\<rparr>)"
  by (simp add: get_db_def open_session_def andThen_def bindE_def tryExcept_def rollback_def)

text \<open>What a request leaves in the durable database.\<close>

lemma get_db_committed:
  "committed (snd (get_db body w)) =
     (case body (w\<lparr>working := committed w\<rparr>) of
        (Inr _, w') \<Rightarrow> working w'
      | (Inl _, w') \<Rightarrow> committed w')"
  by (auto simp: get_db_def open_session_def andThen_def bindE_def tryExcept_def commit_def
      rollback_def split: prod.splits sum.splits)

lemma get_db_result: "fst (get_db body w) = fst (body (w\<lparr>working := committed w\<rparr>))"
  by (auto simp: get_db_def open_session_def andThen_def bindE_def tryExcept_def commit_def
      rollback_def split: prod.splits sum.splits)

section \<open>Well-formed databases\<close>

definition db_wf :: "db \<Rightarrow> bool" where
  "db_wf d \<longleftrightarrow>
     distinct (map usr_id (users d)) \<and> distinct (map usr_email (users d)) \<and>
     distinct (map dev_id (devices d)) \<and>
     (\<forall>x \<in> set (devices d). dev_user_id x \<in> usr_id ` set (users d)) \<and>
     distinct (map ev_id (usage_events d)) \<and>
     (\<forall>x \<in> set (usage_events d). ev_device_id x \<in> dev_id ` set (devices d)) \<and>
     distinct (map bud_id (budgets d)) \<and>
     distinct (map (\<lambda>b. (bud_device_id b, bud_date b)) (budgets d)) \<and>
     (\<forall>x \<in> set (budgets d). bud_device_id x \<in> dev_id ` set (devices d)) \<and>
     distinct (map ovr_id (override_requests d))"

definition world_wf :: "world \<Rightarrow> bool" where
  "world_wf w \<longleftrightarrow> db_wf (committed w) \<and> db_wf (working w)"

lemma db_wf_budget_device: "db_wf d \<Longrightarrow> b \<in> set (budgets d) \<Longrightarrow> bud_device_id b \<in> dev_id ` set (devices d)"
  by (simp add: db_wf_def)

lemma db_wf_event_device:
  "db_wf d \<Longrightarrow> e \<in> set (usage_events d) \<Longrightarrow> ev_device_id e \<in> dev_id ` set (devices d)"
  by (simp add: db_wf_def)

lemma db_wf_device_owner: "db_wf d \<Longrightarrow> x \<in> set (devices d) \<Longrightarrow> dev_user_id x \<in> usr_id ` set (users d)"
  by (simp add: db_wf_def)

lemma db_wf_device_unique:
  "db_wf d \<Longrightarrow> x \<in> set (devices d) \<Longrightarrow> y \<in> set (devices d) \<Longrightarrow> dev_id x = dev_id y \<Longrightarrow> x = y"
  by (auto simp: db_wf_def distinct_map inj_on_def)

lemma db_wf_empty [simp]: "db_wf empty_db"
  by (simp add: db_wf_def empty_db_def)

subsection \<open>Running the statements\<close>

lemma select_where_run [simp]:
  "select_where tab p w = (Inr (filter p (tab (working w))), w)"
  by (simp add: select_where_def)

lemma select_one_run:
  "select_one tab p w = (scalar_one_or_none (filter p (tab (working w))), w)"
  by (simp add: select_one_def bindE_def)

lemma open_session_run [simp]: "open_session w = (Inr (), w\<lparr>working := committed w\<rparr>)"
  by (simp add: open_session_def)

lemma commit_run [simp]: "commit w = (Inr (), w\<lparr>committed := working w\<rparr>)"
  by (simp add: commit_def)

lemma rollback_run [simp]: "rollback w = (Inr (), w\<lparr>working := committed w\<rparr>)"
  by (simp add: rollback_def)

text \<open>A query by a unique key finds the row, or none.\<close>

lemma scalar_unique_key:
  assumes "distinct (map f rows)"
  shows "scalar_one_or_none (filter (\<lambda>r. f r = k) rows) = Inr (map_of (map (\<lambda>r. (f r, r)) rows) k)"
  using assms
proof (induction rows)
  case Nil
  show ?case by (simp add: scalar_one_or_none_def)
next
  case (Cons r rows)
  show ?case
  proof (cases "f r = k")
    case True
    with Cons.prems have "filter (\<lambda>r. f r = k) rows = []"
      by (fastforce simp: filter_empty_conv image_iff)
    with True show ?thesis by (simp add: scalar_one_or_none_def)
  next
    case False
    with Cons show ?thesis by simp
  qed
qed

lemma scalar_Some: "scalar_one_or_none (filter p rows) = Inr (Some r) \<Longrightarrow> r \<in> set rows \<and> p r"
proof -
  assume "scalar_one_or_none (filter p rows) = Inr (Some r)"
  then have "filter p rows = [r]"
    by (auto simp: scalar_one_or_none_def split: list.splits)
  then have "r \<in> set (filter p rows)" by simp
  then show ?thesis by simp
qed

lemma scalar_None: "scalar_one_or_none (filter p rows) = Inr None \<longleftrightarrow> (\<forall>r \<in> set rows. \<not> p r)"
proof -
  have "scalar_one_or_none (filter p rows) = Inr None \<longleftrightarrow> filter p rows = []"
    by (simp add: scalar_one_or_none_def split: list.splits)
  then show ?thesis by (simp add: filter_empty_conv)
qed

lemma scalar_not_multiple:
  assumes "distinct (map f rows)" "\<And>r s. p r \<Longrightarrow> p s \<Longrightarrow> f r = f s"
  shows "\<exists>x. scalar_one_or_none (filter p rows) = Inr x"
proof -
  have "filter p rows = [] \<or> (\<exists>r. filter p rows = [r])"
    using assms(1)
  proof (induction rows)
    case (Cons r rows)
    then have IH: "filter p rows = [] \<or> (\<exists>r. filter p rows = [r])" by simp
    show ?case
    proof (cases "p r")
      case True
      have "\<not> p s" if "s \<in> set rows" for s
      proof
        assume "p s"
        with True have "f r = f s" by (rule assms(2))
        with that Cons.prems show False by auto
      qed
      then have "filter p rows = []" by (simp add: filter_empty_conv)
      with True show ?thesis by simp
    next
      case False
      with IH show ?thesis by simp
    qed
  qed simp
  then show ?thesis by (auto simp: scalar_one_or_none_def)
qed

subsection \<open>Keeping the database well formed\<close>

lemmas db_wfI = db_wf_def [THEN iffD2]

lemma keeps_world_wf_commit [keeps_intro]: "keeps world_wf commit"
  by (rule keepsI) (simp add: world_wf_def)

lemma keeps_world_wf_rollback [keeps_intro]: "keeps world_wf rollback"
  by (rule keepsI) (simp add: world_wf_def)

lemma keeps_world_wf_open [keeps_intro]: "keeps world_wf open_session"
  by (rule keepsI) (simp add: world_wf_def)

lemma keeps_select [keeps_intro]: "keeps I (select_where tab p)"
  by (simp add: select_where_def keeps_readS)

lemma keeps_select_one [keeps_intro]: "keeps I (select_one tab p)"
  by (auto simp: select_one_def intro!: keeps_intro)

lemma keeps_get_db [keeps_intro]: "keeps world_wf body \<Longrightarrow> keeps world_wf (get_db body)"
  by (auto simp: get_db_def intro!: keeps_intro)

lemma keeps_world_wf_uuid4 [keeps_intro]: "keeps world_wf uuid4"
  by (rule keepsI) (simp add: world_wf_def)

lemma keeps_world_wf_next_event_id [keeps_intro]: "keeps world_wf next_event_id"
  by (rule keepsI) (simp add: world_wf_def next_event_id_def)

lemma keeps_import [keeps_intro]: "keeps I (import_from_database n)"
  by (rule keepsI) (simp add: import_from_database_def)

lemma keeps_now [keeps_intro]: "keeps I now_utc"
  by (rule keepsI) simp

text \<open>An update that keeps the keys keeps the database well formed.\<close>

lemma map_if_key:
  "(\<And>r. key (f r) = key r) \<Longrightarrow> map key (map (\<lambda>r. if p r then f r else r) rows) = map key rows"
  by simp

lemma update_devices_wf:
  assumes "\<And>r. dev_id (f r) = dev_id r" "\<And>r. dev_user_id (f r) = dev_user_id r"
  shows "keeps world_wf (update_where devices_update p f)"
proof (rule keepsI)
  fix w assume "world_wf w"
  moreover have "map dev_id (map (\<lambda>r. if p r then f r else r) ds) = map dev_id ds" for ds
    using assms by simp
  moreover have "dev_id ` set (map (\<lambda>r. if p r then f r else r) ds) = dev_id ` set ds" for ds
    unfolding set_map image_image by (rule image_cong) (simp_all add: assms(1))
  ultimately show "world_wf (snd (update_where devices_update p f w))"
    using assms by (auto simp: world_wf_def db_wf_def update_where_def image_iff
        simp del: map_map)
qed

lemma update_budgets_wf:
  assumes "\<And>r. bud_id (f r) = bud_id r" "\<And>r. bud_device_id (f r) = bud_device_id r"
    "\<And>r. bud_date (f r) = bud_date r"
  shows "keeps world_wf (update_where budgets_update p f)"
proof (rule keepsI)
  fix w assume "world_wf w"
  moreover have "map bud_id (map (\<lambda>r. if p r then f r else r) bs) = map bud_id bs"
    "map (\<lambda>b. (bud_device_id b, bud_date b)) (map (\<lambda>r. if p r then f r else r) bs) =
       map (\<lambda>b. (bud_device_id b, bud_date b)) bs" for bs
    using assms by simp_all
  ultimately show "world_wf (snd (update_where budgets_update p f w))"
    using assms by (auto simp: world_wf_def db_wf_def update_where_def simp del: map_map)
qed

lemma update_overrides_wf:
  assumes "\<And>r. ovr_id (f r) = ovr_id r"
  shows "keeps world_wf (update_where override_requests_update p f)"
proof (rule keepsI)
  fix w assume "world_wf w"
  moreover have "map ovr_id (map (\<lambda>r. if p r then f r else r) rs) = map ovr_id rs" for rs
    using assms by simp
  ultimately show "world_wf (snd (update_where override_requests_update p f w))"
    by (auto simp: world_wf_def db_wf_def update_where_def simp del: map_map)
qed

lemma update_fl_wf: "keeps world_wf (update_where fl_model_updates_update p f)"
  by (rule keepsI) (simp add: world_wf_def db_wf_def update_where_def)

lemma delete_fl_wf: "keeps world_wf (delete_where fl_model_updates_update p)"
  by (rule keepsI) (simp add: world_wf_def db_wf_def delete_where_def)

lemma add_user_wf [keeps_intro]: "keeps world_wf (add_user u)"
  by (rule keepsI)
    (auto simp: world_wf_def db_wf_def add_user_def add_row_def list_ex_iff image_iff)

lemma add_override_wf [keeps_intro]: "keeps world_wf (add_override r)"
  by (rule keepsI)
    (auto simp: world_wf_def db_wf_def add_override_def add_row_def list_ex_iff image_iff)

text \<open>Rows that refer to others are added by code that has checked the reference.\<close>

lemma add_device_wf:
  assumes "world_wf w" "dev_user_id d \<in> usr_id ` set (users (working w))"
  shows "world_wf (snd (add_device d w))"
  using assms
  by (auto simp: world_wf_def db_wf_def add_device_def add_row_def list_ex_iff image_iff)

lemma add_event_wf:
  assumes "world_wf w" "ev_device_id e \<in> dev_id ` set (devices (working w))"
  shows "world_wf (snd (add_event e w))"
  using assms
  by (auto simp: world_wf_def db_wf_def add_event_def add_row_def list_ex_iff image_iff)

lemma add_budget_wf:
  assumes "world_wf w" "bud_device_id b \<in> dev_id ` set (devices (working w))"
  shows "world_wf (snd (add_budget b w))"
  using assms
  by (auto simp: world_wf_def db_wf_def add_budget_def add_row_def list_ex_iff image_iff)

section \<open>The URL conversion\<close>

lemma replace_once_prefix: "old \<noteq> [] \<Longrightarrow> replace_once old new (old @ s) = new @ s"
  by (cases old) (simp_all add: starts_with_def)

lemma to_async_cases:
  "to_async_database_url (''postgresql+asyncpg://'' @ s) = ''postgresql+asyncpg://'' @ s"
  "to_async_database_url (''postgresql://'' @ s) = ''postgresql+asyncpg://'' @ s"
  "to_async_database_url (''sqlite:///'' @ s) = ''sqlite+aiosqlite:///'' @ s"
  by (simp_all add: to_async_database_url_def starts_with_def)

text \<open>
  Converting a database URL twice is converting it once: an URL that already names an
  asynchronous driver is left alone, and the result of a conversion names one.
\<close>

theorem to_async_idempotent:
  "to_async_database_url (to_async_database_url url) = to_async_database_url url"
proof -
  consider s where "url = ''postgresql+asyncpg://'' @ s" | s where "url = ''postgresql://'' @ s"
    | s where "url = ''sqlite:///'' @ s" | "to_async_database_url url = url"
    unfolding to_async_database_url_def by (metis starts_with_iff)
  then show ?thesis
  proof cases
    case (3 s)
    have "to_async_database_url (''sqlite+aiosqlite:///'' @ s) = ''sqlite+aiosqlite:///'' @ s"
      by (simp add: to_async_database_url_def starts_with_def)
    with 3 show ?thesis by (simp only: to_async_cases)
  qed (simp_all only: to_async_cases)
qed

end
