(* ===== verification/RedisClient.thy ===== *)
theory RedisClient
  imports Database
begin

text \<open>
  app/shared/redis_client.py and the part of redis-py it rests on: how a value is encoded for the
  server and decoded from it, the commands the modules issue on a raw client (\<open>get_redis\<close>), the
  null object, and the wrapper \<open>RedisClient\<close> that swallows every exception.
\<close>

section \<open>Values sent to and received from the server\<close>

text \<open>
  Python values: a \<open>bytes\<close> object is the blob it holds.
\<close>

datatype pyval =
    VNone
  | VBool bool
  | VInt int
  | VFloat rat
  | VStr pytext
  | VBytes blob
  | VDict dict

text \<open>\<open>Encoder.encode\<close> of redis-py: \<open>repr\<close> of a number is also its JSON text.\<close>

fun redis_encode :: "pyval \<Rightarrow> blob result" where
  "redis_encode (VBytes b) = Inr b"
| "redis_encode (VBool _) = Inl (DataError ''bool'')"
| "redis_encode (VInt n) = Inr (BText (Dumped (JInt n)))"
| "redis_encode (VFloat q) = Inr (BText (Dumped (JReal q)))"
| "redis_encode (VStr t) = Inr (BText t)"
| "redis_encode (VDict _) = Inl (DataError ''dict'')"
| "redis_encode VNone = Inl (DataError ''NoneType'')"

text \<open>Whether a byte string is well-formed UTF-8 (strict decoding raises when it is not).\<close>

fun utf8_valid :: "byte_string \<Rightarrow> bool" where
  "utf8_valid [] = True"
| "utf8_valid (a # bs) =
     (if a < 128 then utf8_valid bs
      else if 194 \<le> a \<and> a < 224 then
        (case bs of b # r \<Rightarrow> b div 64 = 2 \<and> utf8_valid r | _ \<Rightarrow> False)
      else if 224 \<le> a \<and> a < 240 then
        (case bs of b # c # r \<Rightarrow> b div 64 = 2 \<and> c div 64 = 2 \<and> (a = 224 \<longrightarrow> 160 \<le> b)
            \<and> (a = 237 \<longrightarrow> b < 160) \<and> utf8_valid r | _ \<Rightarrow> False)
      else if 240 \<le> a \<and> a < 245 then
        (case bs of b # c # d # r \<Rightarrow> b div 64 = 2 \<and> c div 64 = 2 \<and> d div 64 = 2
            \<and> (a = 240 \<longrightarrow> 144 \<le> b) \<and> (a = 244 \<longrightarrow> b < 144) \<and> utf8_valid r | _ \<Rightarrow> False)
      else False)"

definition utf8_decode :: "blob \<Rightarrow> pytext result" where
  "utf8_decode b =
     (case b of BText t \<Rightarrow> Inr t
      | BBin bs \<Rightarrow> if utf8_valid bs then Inr (Raw (map char_of bs)) else Inl UnicodeError)"

text \<open>\<open>Encoder.decode\<close>: only a client made with \<open>decode_responses\<close> decodes.\<close>

definition redis_decode :: "redis_handle \<Rightarrow> blob \<Rightarrow> pyval result" where
  "redis_decode h b =
     (case h of
        TextClient \<Rightarrow> (case utf8_decode b of Inl e \<Rightarrow> Inl e | Inr t \<Rightarrow> Inr (VStr t))
      | _ \<Rightarrow> Inr (VBytes b))"

text \<open>\<open>v.decode()\<close>: a method of \<open>bytes\<close>, which a \<open>str\<close> does not have.\<close>

fun py_decode :: "pyval \<Rightarrow> pytext result" where
  "py_decode (VBytes b) = utf8_decode b"
| "py_decode _ = Inl (AttributeError ''decode'')"

text \<open>\<open>json.loads(v)\<close> takes a \<open>str\<close> or \<open>bytes\<close>.\<close>

fun loads_val :: "pyval \<Rightarrow> json result" where
  "loads_val (VStr t) = json_loads t"
| "loads_val (VBytes b) = (case utf8_decode b of Inl e \<Rightarrow> Inl e | Inr t \<Rightarrow> json_loads t)"
| "loads_val _ = Inl (TypeError ''json'')"

text \<open>Truth of a reply: \<open>None\<close> and the empty string are false.\<close>

fun truthy :: "pyval \<Rightarrow> bool" where
  "truthy VNone = False"
| "truthy (VBool b) = b"
| "truthy (VInt n) = (n \<noteq> 0)"
| "truthy (VFloat q) = (q \<noteq> 0)"
| "truthy (VStr t) = (t \<noteq> Raw [])"
| "truthy (VBytes b) = (b \<noteq> BText (Raw []) \<and> b \<noteq> BBin [])"
| "truthy (VDict d) = (d \<noteq> [])"

section \<open>The server\<close>

definition live :: "instant \<Rightarrow> instant option \<Rightarrow> bool" where
  "live t e = (case e of None \<Rightarrow> True | Some x \<Rightarrow> t < x)"

definition srv_get :: "instant \<Rightarrow> string \<Rightarrow> redis_server \<Rightarrow> blob option" where
  "srv_get t k s =
     (case map_of (srv_strings s) k of
        None \<Rightarrow> None
      | Some (b, e) \<Rightarrow> if live t e then Some b else None)"

definition srv_set :: "string \<Rightarrow> blob \<Rightarrow> instant option \<Rightarrow> redis_server \<Rightarrow> redis_server" where
  "srv_set k b e s = s\<lparr>srv_strings := AList.update k (b, e) (srv_strings s)\<rparr>"

definition srv_delete :: "string \<Rightarrow> redis_server \<Rightarrow> redis_server" where
  "srv_delete k s =
     s\<lparr>srv_strings := AList.delete k (srv_strings s), srv_sets := AList.delete k (srv_sets s),
       srv_streams := AList.delete k (srv_streams s)\<rparr>"

definition srv_members :: "instant \<Rightarrow> string \<Rightarrow> redis_server \<Rightarrow> string list" where
  "srv_members t k s =
     (case map_of (srv_sets s) k of
        None \<Rightarrow> []
      | Some (ms, e) \<Rightarrow> if live t e then ms else [])"

definition srv_stream :: "string \<Rightarrow> redis_server \<Rightarrow> audit_entry list" where
  "srv_stream k s = (case map_of (srv_streams s) k of None \<Rightarrow> [] | Some es \<Rightarrow> es)"

text \<open>\<open>KEYS prefix*\<close>\<close>

definition srv_keys :: "instant \<Rightarrow> string \<Rightarrow> redis_server \<Rightarrow> string list" where
  "srv_keys t p s =
     map fst (filter (\<lambda>(k, b, e). starts_with p k \<and> live t e) (srv_strings s))"

section \<open>Commands of a raw client\<close>

text \<open>A command that reaches the server raises when the server is down.\<close>

definition at_server :: "(instant \<Rightarrow> redis_server \<Rightarrow> 'a result \<times> redis_server) \<Rightarrow> 'a handler" where
  "at_server f =
     (\<lambda>w. if srv_up (server w)
          then (case f (clock w) (server w) of (r, s) \<Rightarrow> (r, w\<lparr>server := s\<rparr>))
          else (Inl ConnectionError, w))"

definition missing_method :: "string \<Rightarrow> 'a handler" where
  "missing_method n = raise (AttributeError n)"

definition redis_get :: "redis_handle \<Rightarrow> string \<Rightarrow> pyval handler" where
  "redis_get h k =
     (if h = NullRedis then ret VNone
      else at_server (\<lambda>t s. (case srv_get t k s of
              None \<Rightarrow> Inr VNone
            | Some b \<Rightarrow> redis_decode h b, s)))"

text \<open>\<open>set(key, value, ex=secs)\<close>\<close>

definition redis_set :: "redis_handle \<Rightarrow> string \<Rightarrow> pyval \<Rightarrow> int option \<Rightarrow> unit handler" where
  "redis_set h k v ex =
     (if h = NullRedis then ret ()
      else bindE (lift (redis_encode v)) (\<lambda>b.
        at_server (\<lambda>t s. (Inr (), srv_set k b (map_option (\<lambda>n. t + n * usec) ex) s))))"

text \<open>\<open>set(key, value, px=ms, nx=True)\<close>: the null object's \<open>set\<close> takes neither keyword.\<close>

definition redis_set_px_nx :: "redis_handle \<Rightarrow> string \<Rightarrow> pyval \<Rightarrow> int \<Rightarrow> bool handler" where
  "redis_set_px_nx h k v px =
     (if h = NullRedis then raise (TypeError ''px'')
      else bindE (lift (redis_encode v)) (\<lambda>b.
        at_server (\<lambda>t s.
          if srv_get t k s = None
          then (Inr True, srv_set k b (Some (t + px * 1000)) s)
          else (Inr False, s))))"

definition redis_setex :: "redis_handle \<Rightarrow> string \<Rightarrow> int \<Rightarrow> pyval \<Rightarrow> unit handler" where
  "redis_setex h k ttl v = redis_set h k v (Some ttl)"

definition redis_delete :: "redis_handle \<Rightarrow> string list \<Rightarrow> unit handler" where
  "redis_delete h ks =
     (if h = NullRedis then ret ()
      else at_server (\<lambda>t s. (Inr (), fold srv_delete ks s)))"

definition redis_keys :: "redis_handle \<Rightarrow> string \<Rightarrow> pyval list handler" where
  "redis_keys h p =
     (if h = NullRedis then missing_method ''keys''
      else at_server (\<lambda>t s.
        (Inr (map (\<lambda>k. if h = TextClient then VStr (Raw k) else VBytes (BText (Raw k)))
           (srv_keys t p s)), s)))"

definition redis_sadd :: "redis_handle \<Rightarrow> string \<Rightarrow> string \<Rightarrow> unit handler" where
  "redis_sadd h k m =
     (if h = NullRedis then missing_method ''sadd''
      else at_server (\<lambda>t s.
        let e = (case map_of (srv_sets s) k of Some (_, x) \<Rightarrow> if live t x then x else None | None \<Rightarrow> None)
        in (Inr (), s\<lparr>srv_sets := AList.update k (List.insert m (srv_members t k s), e) (srv_sets s)\<rparr>)))"

definition redis_srem :: "redis_handle \<Rightarrow> string \<Rightarrow> string \<Rightarrow> unit handler" where
  "redis_srem h k m =
     (if h = NullRedis then missing_method ''srem''
      else at_server (\<lambda>t s.
        (Inr (), s\<lparr>srv_sets :=
           map (\<lambda>(k', ms, e). if k' = k then (k', removeAll m ms, e) else (k', ms, e)) (srv_sets s)\<rparr>)))"

definition redis_expire :: "redis_handle \<Rightarrow> string \<Rightarrow> int \<Rightarrow> unit handler" where
  "redis_expire h k secs =
     (if h = NullRedis then missing_method ''expire''
      else at_server (\<lambda>t s.
        (Inr (), s\<lparr>srv_strings :=
             map (\<lambda>(k', b, e). if k' = k \<and> live t e then (k', b, Some (t + secs * usec)) else (k', b, e))
               (srv_strings s),
           srv_sets :=
             map (\<lambda>(k', ms, e). if k' = k \<and> live t e then (k', ms, Some (t + secs * usec)) else (k', ms, e))
               (srv_sets s)\<rparr>)))"

definition redis_smembers :: "redis_handle \<Rightarrow> string \<Rightarrow> pyval list handler" where
  "redis_smembers h k =
     (if h = NullRedis then missing_method ''smembers''
      else at_server (\<lambda>t s.
        (Inr (map (\<lambda>m. if h = TextClient then VStr (Raw m) else VBytes (BText (Raw m)))
           (srv_members t k s)), s)))"

definition redis_publish :: "redis_handle \<Rightarrow> string \<Rightarrow> pytext \<Rightarrow> unit handler" where
  "redis_publish h ch m =
     (if h = NullRedis then missing_method ''publish''
      else at_server (\<lambda>t s. (Inr (), s\<lparr>srv_published := srv_published s @ [(ch, m)]\<rparr>)))"

text \<open>
  \<open>xadd(key, fields, maxlen, approximate=True)\<close>: the server trims the stream to \<open>maxlen\<close> or
  somewhat more (\<open>srv_slack\<close>).
\<close>

definition last_n :: "nat \<Rightarrow> 'a list \<Rightarrow> 'a list" where
  "last_n n xs = drop (length xs - n) xs"

definition redis_xadd :: "redis_handle \<Rightarrow> string \<Rightarrow> audit_entry \<Rightarrow> nat \<Rightarrow> unit handler" where
  "redis_xadd h k e maxlen =
     (if h = NullRedis then missing_method ''xadd''
      else at_server (\<lambda>t s.
        (Inr (), s\<lparr>srv_streams := AList.update k (last_n (maxlen + srv_slack s) (srv_stream k s @ [e]))
           (srv_streams s)\<rparr>)))"

definition redis_xrevrange :: "redis_handle \<Rightarrow> string \<Rightarrow> nat \<Rightarrow> audit_entry list handler" where
  "redis_xrevrange h k n =
     (if h = NullRedis then missing_method ''xrevrange''
      else at_server (\<lambda>t s. (Inr (take n (rev (srv_stream k s))), s)))"

definition redis_ping :: "redis_handle \<Rightarrow> bool handler" where
  "redis_ping h = (if h = NullRedis then ret False else at_server (\<lambda>t s. (Inr True, s)))"

section \<open>The wrapper class and get_redis\<close>

text \<open>\<open>RedisClient.initialize\<close>: \<open>from_url\<close> does not connect.\<close>

definition rc_initialize :: "unit handler" where
  "rc_initialize = modS (\<lambda>w.
     if \<not> REDIS_ENABLED (config w)
     then w\<lparr>text_client := Some NullRedis, bytes_client := Some NullRedis\<rparr>
     else w\<lparr>text_client := Some TextClient, bytes_client := Some BytesClient\<rparr>)"

definition rc_close :: "unit handler" where
  "rc_close = modS (\<lambda>w. w\<lparr>text_client := None, bytes_client := None\<rparr>)"

definition rc_ping :: "bool handler" where
  "rc_ping = bindE (readS text_client) (\<lambda>c. case c of
       None \<Rightarrow> ret False
     | Some h \<Rightarrow> tryExcept (redis_ping h) (\<lambda>_. ret False))"

definition rc_get :: "string \<Rightarrow> pyval handler" where
  "rc_get k = bindE (readS text_client) (\<lambda>c. case c of
       None \<Rightarrow> ret VNone
     | Some h \<Rightarrow> tryExcept (redis_get h k) (\<lambda>_. ret VNone))"

text \<open>\<open>if ttl:\<close> a ttl of zero means no expiry.\<close>

definition rc_set :: "string \<Rightarrow> pyval \<Rightarrow> int option \<Rightarrow> unit handler" where
  "rc_set k v ttl = bindE (readS text_client) (\<lambda>c. case c of
       None \<Rightarrow> ret ()
     | Some h \<Rightarrow> tryExcept
         (case ttl of
            Some n \<Rightarrow> if n \<noteq> 0 then redis_set h k v (Some n) else redis_set h k v None
          | None \<Rightarrow> redis_set h k v None)
         (\<lambda>_. ret ()))"

definition rc_get_raw :: "string \<Rightarrow> pyval handler" where
  "rc_get_raw k = bindE (readS bytes_client) (\<lambda>c. case c of
       None \<Rightarrow> ret VNone
     | Some h \<Rightarrow> tryExcept (redis_get h k) (\<lambda>_. ret VNone))"

definition rc_set_raw :: "string \<Rightarrow> pyval \<Rightarrow> int option \<Rightarrow> unit handler" where
  "rc_set_raw k v ttl = bindE (readS bytes_client) (\<lambda>c. case c of
       None \<Rightarrow> ret ()
     | Some h \<Rightarrow> tryExcept
         (case ttl of
            Some n \<Rightarrow> if n \<noteq> 0 then redis_set h k v (Some n) else redis_set h k v None
          | None \<Rightarrow> redis_set h k v None)
         (\<lambda>_. ret ()))"

text \<open>
  The methods the class defines.  \<open>delete\<close> is not among them, so the call
  \<open>redis_client.delete(key)\<close> of the budget module raises \<open>AttributeError\<close>.
\<close>

definition RedisClient_methods :: "string list" where
  "RedisClient_methods =
     [''__init__'', ''initialize'', ''close'', ''ping'', ''get'', ''set'', ''get_raw'', ''set_raw'']"

definition rc_delete :: "string \<Rightarrow> unit handler" where
  "rc_delete k = missing_method ''delete''"

definition get_redis :: "redis_handle handler" where
  "get_redis =
     andThen
       (bindE (readS text_client) (\<lambda>c. if c = None then rc_initialize else ret ()))
       (bindE (readS text_client) (\<lambda>c. ret (case c of None \<Rightarrow> NullRedis | Some h \<Rightarrow> h)))"

definition close_redis :: "unit handler" where
  "close_redis = rc_close"

section \<open>Running the commands\<close>

lemma at_server_up: "srv_up (server w) \<Longrightarrow>
    at_server f w = (fst (f (clock w) (server w)), w\<lparr>server := snd (f (clock w) (server w))\<rparr>)"
  by (simp add: at_server_def split: prod.splits)

lemma at_server_down: "\<not> srv_up (server w) \<Longrightarrow> at_server f w = (Inl ConnectionError, w)"
  by (simp add: at_server_def)

lemma srv_up_set [simp]: "srv_up (srv_set k b e s) = srv_up s"
  by (simp add: srv_set_def)

lemma srv_get_set_same: "srv_get t k (srv_set k b e s) = (if live t e then Some b else None)"
  by (simp add: srv_get_def srv_set_def update_conv')

lemma srv_get_set_other: "k' \<noteq> k \<Longrightarrow> srv_get t k' (srv_set k b e s) = srv_get t k' s"
  by (simp add: srv_get_def srv_set_def update_conv')

lemma srv_get_delete: "srv_get t k' (srv_delete k s) = (if k' = k then None else srv_get t k' s)"
  by (simp add: srv_get_def srv_delete_def delete_conv')

lemma world_server_id [simp]: "w\<lparr>server := server w\<rparr> = w"
  by simp

lemma redis_get_run: "srv_up (server w) \<Longrightarrow> redis_get h k w =
    (if h = NullRedis then Inr VNone
     else case srv_get (clock w) k (server w) of None \<Rightarrow> Inr VNone | Some b \<Rightarrow> redis_decode h b, w)"
  by (simp add: redis_get_def at_server_up split: option.splits)

lemma redis_set_run: "srv_up (server w) \<Longrightarrow> h \<noteq> NullRedis \<Longrightarrow> redis_encode v = Inr b \<Longrightarrow>
    redis_set h k v ex w =
      (Inr (), w\<lparr>server := srv_set k b (map_option (\<lambda>n. clock w + n * usec) ex) (server w)\<rparr>)"
  by (simp add: redis_set_def at_server_up)

text \<open>A command never touches the database or the clock.\<close>

lemma at_server_frame:
  "working (snd (at_server f w)) = working w" "committed (snd (at_server f w)) = committed w"
  "clock (snd (at_server f w)) = clock w"
  by (simp_all add: at_server_def split: prod.splits)

definition leaves_db :: "'a handler \<Rightarrow> bool" where
  "leaves_db m \<longleftrightarrow> (\<forall>w. working (snd (m w)) = working w \<and> committed (snd (m w)) = committed w)"

lemma leaves_db_keeps: "leaves_db m \<longleftrightarrow>
    (\<forall>d1 d2. keeps (\<lambda>w. working w = d1 \<and> committed w = d2) m)"
  by (auto simp: leaves_db_def keeps_def)

named_theorems leaves_db_intro "handlers that leave the database alone"

lemma leaves_db_ret [leaves_db_intro]: "leaves_db (ret x)"
  by (simp add: leaves_db_def)

lemma leaves_db_raise [leaves_db_intro]: "leaves_db (raise x)"
  by (simp add: leaves_db_def)

lemma leaves_db_lift [leaves_db_intro]: "leaves_db (lift x)"
  by (simp add: leaves_db_def)

lemma leaves_db_readS [leaves_db_intro]: "leaves_db (readS f)"
  by (simp add: leaves_db_def)

lemma leaves_db_bindE [leaves_db_intro]:
  "leaves_db m \<Longrightarrow> (\<And>x. leaves_db (f x)) \<Longrightarrow> leaves_db (bindE m f)"
  unfolding leaves_db_keeps by (blast intro: keeps_bindE)

lemma leaves_db_andThen [leaves_db_intro]:
  "leaves_db m \<Longrightarrow> leaves_db n \<Longrightarrow> leaves_db (andThen m n)"
  unfolding leaves_db_keeps by (blast intro: keeps_andThen)

lemma leaves_db_tryExcept [leaves_db_intro]:
  "leaves_db m \<Longrightarrow> (\<And>e. leaves_db (h e)) \<Longrightarrow> leaves_db (tryExcept m h)"
  unfolding leaves_db_keeps by (blast intro: keeps_tryExcept)

lemma leaves_db_tryFinally [leaves_db_intro]:
  "leaves_db m \<Longrightarrow> leaves_db fin \<Longrightarrow> leaves_db (tryFinally m fin)"
  unfolding leaves_db_keeps by (blast intro: keeps_tryFinally)

lemma leaves_db_forEach [leaves_db_intro]: "(\<And>x. leaves_db (f x)) \<Longrightarrow> leaves_db (forEach f xs)"
  unfolding leaves_db_keeps by (blast intro: keeps_forEach)

lemma leaves_db_splits [leaves_db_intro]:
  "(b \<Longrightarrow> leaves_db m) \<Longrightarrow> (\<not> b \<Longrightarrow> leaves_db n) \<Longrightarrow> leaves_db (if b then m else n)"
  "leaves_db n \<Longrightarrow> (\<And>x. leaves_db (f x)) \<Longrightarrow> leaves_db (case opt of None \<Rightarrow> n | Some x \<Rightarrow> f x)"
  "(\<And>e. leaves_db (g e)) \<Longrightarrow> (\<And>x. leaves_db (f x)) \<Longrightarrow>
     leaves_db (case r of Inl e \<Rightarrow> g e | Inr x \<Rightarrow> f x)"
  by (auto split: option.splits sum.splits)

lemma leaves_db_at_server [leaves_db_intro]: "leaves_db (at_server f)"
  by (simp add: leaves_db_def at_server_frame)

lemma leaves_db_commands [leaves_db_intro]:
  "leaves_db (redis_get h k)" "leaves_db (redis_set h k v ex)" "leaves_db (redis_set_px_nx h k v px)"
  "leaves_db (redis_setex h k ttl v)" "leaves_db (redis_delete h ks)" "leaves_db (redis_keys h p)"
  "leaves_db (redis_sadd h k m)" "leaves_db (redis_srem h k m)" "leaves_db (redis_expire h k secs)"
  "leaves_db (redis_smembers h k)" "leaves_db (redis_publish h ch t)"
  "leaves_db (redis_xadd h k e n)" "leaves_db (redis_xrevrange h k n)" "leaves_db (redis_ping h)"
  by (auto simp: redis_get_def redis_set_def redis_set_px_nx_def redis_setex_def redis_delete_def
      redis_keys_def redis_sadd_def redis_srem_def redis_expire_def redis_smembers_def
      redis_publish_def redis_xadd_def redis_xrevrange_def redis_ping_def missing_method_def
      intro!: leaves_db_intro)

lemma leaves_db_wrapper [leaves_db_intro]:
  "leaves_db (rc_get k)" "leaves_db (rc_set k v ttl)" "leaves_db (rc_get_raw k)"
  "leaves_db (rc_set_raw k v ttl)" "leaves_db rc_ping" "leaves_db (rc_delete k)"
  by (auto simp: rc_get_def rc_set_def rc_get_raw_def rc_set_raw_def rc_ping_def rc_delete_def
      missing_method_def intro!: leaves_db_intro)

lemma leaves_db_get_redis [leaves_db_intro]: "leaves_db get_redis"
  by (auto simp: get_redis_def rc_initialize_def leaves_db_def andThen_def bindE_run)

lemma leaves_db_clock [leaves_db_intro]: "leaves_db now_utc" "leaves_db uuid4"
  by (simp_all add: leaves_db_def)

lemma leaves_db_tail:
  assumes "\<And>x. leaves_db (f x)"
  shows "working (snd (bindE m f w)) = working (snd (m w))"
    "committed (snd (bindE m f w)) = committed (snd (m w))"
  using assms by (auto simp: leaves_db_def bindE_run split: prod.splits sum.splits)

lemma leaves_db_working: "leaves_db m \<Longrightarrow> working (snd (m w)) = working w"
  by (simp add: leaves_db_def)

lemma leaves_db_committed: "leaves_db m \<Longrightarrow> committed (snd (m w)) = committed w"
  by (simp add: leaves_db_def)

lemma leaves_dbD: "leaves_db m \<Longrightarrow> m w = (r, w') \<Longrightarrow> working w' = working w \<and> committed w' = committed w"
  by (metis leaves_db_def snd_conv)

lemma leaves_db_world_wf: "leaves_db m \<Longrightarrow> keeps world_wf m"
  by (auto simp: leaves_db_def keeps_def world_wf_def)

lemma get_redis_known: "text_client w = Some h \<Longrightarrow> get_redis w = (Inr h, w)"
  by (simp add: get_redis_def andThen_def bindE_run)

lemma get_redis_first:
  "text_client w = None \<Longrightarrow> REDIS_ENABLED (config w) \<Longrightarrow>
     get_redis w = (Inr TextClient, w\<lparr>text_client := Some TextClient, bytes_client := Some BytesClient\<rparr>)"
  by (simp add: get_redis_def andThen_def bindE_run rc_initialize_def)

section \<open>The store a client sees\<close>

text \<open>
  The contract the modules rely on when they keep a value under a key for a time to live: it is
  read back until it expires, no other key changes, and the database is untouched.
\<close>

locale ttl_store =
  fixes put :: "string \<Rightarrow> 'v \<Rightarrow> int \<Rightarrow> unit handler"
    and fetch :: "string \<Rightarrow> pyval handler"
    and ready :: "world \<Rightarrow> bool"
    and reply :: "'v \<Rightarrow> pyval"
  assumes put_returns: "ready w \<Longrightarrow> ttl \<noteq> 0 \<Longrightarrow> fst (put k v ttl w) = Inr ()"
    and put_ready: "ready w \<Longrightarrow> ready (snd (put k v ttl w))"
    and later_ready: "ready w \<Longrightarrow> ready (w\<lparr>clock := t\<rparr>)"
    and put_clock: "ready w \<Longrightarrow> clock (snd (put k v ttl w)) = clock w"
    and fetch_pure: "ready w \<Longrightarrow> snd (fetch k w) = w"
    and fetch_put: "ready w \<Longrightarrow> ttl \<noteq> 0 \<Longrightarrow>
      fst (fetch k (snd (put k v ttl w)\<lparr>clock := t\<rparr>)) =
        Inr (if t < clock w + ttl * usec then reply v else VNone)"
    and fetch_put_other: "ready w \<Longrightarrow> ttl \<noteq> 0 \<Longrightarrow> k' \<noteq> k \<Longrightarrow>
      fst (fetch k' (snd (put k v ttl w)\<lparr>clock := t\<rparr>)) = fst (fetch k' (w\<lparr>clock := t\<rparr>))"
    and put_leaves_db: "leaves_db (put k v ttl)"
begin

lemma put_run: "ready w \<Longrightarrow> ttl \<noteq> 0 \<Longrightarrow> put k v ttl w = (Inr (), snd (put k v ttl w))"
  by (metis prod.collapse put_returns)

lemma fetch_put_now:
  "ready w \<Longrightarrow> 0 < ttl \<Longrightarrow> fetch k (snd (put k v ttl w)) = (Inr (reply v), snd (put k v ttl w))"
proof -
  assume r: "ready w" "0 < ttl"
  let ?w = "snd (put k v ttl w)"
  have "?w\<lparr>clock := clock w\<rparr> = ?w" using put_clock [OF r(1), of k v ttl] by (metis world.surjective world.update_convs(2))
  then have "fst (fetch k ?w) = Inr (reply v)"
    using fetch_put [OF r(1), of ttl k "clock w" v] r(2) by (simp add: usec_def)
  then show ?thesis using fetch_pure [OF put_ready [OF r(1)], of k k v ttl] by (metis prod.collapse)
qed

text \<open>The last of two writes wins, and it restarts the time to live.\<close>

lemma put_put:
  "ready w \<Longrightarrow> m \<noteq> 0 \<Longrightarrow> n \<noteq> 0 \<Longrightarrow>
     fst (fetch k (snd (put k v n (snd (put k u m w)))\<lparr>clock := t\<rparr>)) =
       Inr (if t < clock w + n * usec then reply v else VNone)"
  by (simp add: fetch_put put_ready put_clock)

end

lemma live_Some [simp]: "live t (Some x) \<longleftrightarrow> t < x"
  by (simp add: live_def)

interpretation text_store: ttl_store
    "\<lambda>k v ttl. redis_set TextClient k (VStr v) (Some ttl)" "redis_get TextClient"
    "\<lambda>w. srv_up (server w)" VStr
  by unfold_locales (simp_all add: redis_set_run redis_get_run srv_get_set_same srv_get_set_other
      redis_decode_def utf8_decode_def leaves_db_intro)

interpretation bytes_store: ttl_store
    "\<lambda>k v ttl. redis_set BytesClient k (VStr v) (Some ttl)" "redis_get BytesClient"
    "\<lambda>w. srv_up (server w)" "\<lambda>v. VBytes (BText v)"
  by unfold_locales (simp_all add: redis_set_run redis_get_run srv_get_set_same srv_get_set_other
      redis_decode_def leaves_db_intro)

lemma rc_set_raw_run:
  "bytes_client w = Some BytesClient \<Longrightarrow> srv_up (server w) \<Longrightarrow> ttl \<noteq> 0 \<Longrightarrow>
     rc_set_raw k (VBytes b) (Some ttl) w =
       (Inr (), w\<lparr>server := srv_set k b (Some (clock w + ttl * usec)) (server w)\<rparr>)"
  by (simp add: rc_set_raw_def bindE_run redis_set_run)

lemma rc_get_raw_run:
  "bytes_client w = Some BytesClient \<Longrightarrow> srv_up (server w) \<Longrightarrow> rc_get_raw k w =
     (Inr (case srv_get (clock w) k (server w) of None \<Rightarrow> VNone | Some b \<Rightarrow> VBytes b), w)"
  by (simp add: rc_get_raw_def bindE_run redis_get_run redis_decode_def tryExcept_def
      split: option.splits)

text \<open>The wrapper, whatever value it is given: an exception becomes silence.\<close>

lemma rc_set_never_raises: "fst (rc_set k v ttl w) = Inr ()"
  by (auto simp: rc_set_def bindE_run tryExcept_def split: option.splits prod.splits sum.splits)

lemma rc_get_never_raises: "\<exists>x. fst (rc_get k w) = Inr x"
  by (auto simp: rc_get_def bindE_run tryExcept_def split: option.splits prod.splits sum.splits)

lemma rc_set_dict: "rc_set k (VDict d) ttl w = (Inr (), w)"
  by (auto simp: rc_set_def bindE_run tryExcept_def redis_set_def split: option.splits)

text \<open>A read changes nothing.\<close>

lemma redis_get_state: "snd (redis_get h k w) = w"
  by (simp add: redis_get_def at_server_def)

lemma rc_get_state: "snd (rc_get k w) = w"
  using redis_get_state [of _ k w]
  by (auto simp: rc_get_def bindE_run tryExcept_def split: option.splits prod.splits sum.splits)
    (metis snd_conv)+

end
