(* ===== verification/Devices.thy ===== *)
theory Devices
  imports RedisClient
begin

text \<open>
  app/modules/device_registry (schemas.py, service.py, router.py) and app/shared/exceptions.py:
  registering a device, its heartbeat, listing and removing devices.  The authenticated user is
  an argument (see theory Auth); a router endpoint is its service function inside a session.
\<close>

section \<open>HTTP errors (shared/exceptions.py)\<close>

definition DeviceNotFound :: "string \<Rightarrow> exn" where
  "DeviceNotFound device_id =
     HTTPException 404 (''Device '' @ [CHR 0x27] @ device_id @ [CHR 0x27] @ '' not found.'')"

definition UserNotFound :: exn where
  "UserNotFound = HTTPException 404 ''User not found.''"

definition Unauthorized :: "string \<Rightarrow> exn" where
  "Unauthorized detail = HTTPException 401 detail"

definition Forbidden :: "string \<Rightarrow> exn" where
  "Forbidden detail = HTTPException 403 detail"

definition ConflictError :: "string \<Rightarrow> exn" where
  "ConflictError detail = HTTPException 409 detail"

text \<open>A body that fails validation is answered 422 before the endpoint runs.\<close>

definition ValidationError :: "string \<Rightarrow> exn" where
  "ValidationError field = HTTPException 422 field"

section \<open>Request bodies (schemas.py)\<close>

definition DeviceRegisterRequest :: "string \<Rightarrow> int option \<Rightarrow> int result" where
  "DeviceRegisterRequest device_type priority =
     (if device_type \<notin> {''phone'', ''tablet'', ''laptop''} then Inl (ValidationError ''type'')
      else let p = (case priority of None \<Rightarrow> 5 | Some n \<Rightarrow> n)
           in if 1 \<le> p \<and> p \<le> 10 then Inr p else Inl (ValidationError ''priority''))"

definition HeartbeatRequest :: "int option \<Rightarrow> int option result" where
  "HeartbeatRequest battery =
     (case battery of
        None \<Rightarrow> Inr None
      | Some b \<Rightarrow> if 0 \<le> b \<and> b \<le> 100 then Inr (Some b) else Inl (ValidationError ''battery''))"

section \<open>service.py\<close>

definition register_device :: "User \<Rightarrow> string \<Rightarrow> string \<Rightarrow> int \<Rightarrow> Device handler" where
  "register_device user name device_type priority =
     bindE now_utc (\<lambda>t.
     bindE uuid4 (\<lambda>i.
       let device = \<lparr> dev_id = i, dev_user_id = usr_id user, dev_name = name,
             dev_type = device_type, dev_priority = priority, dev_last_heartbeat = Some t,
             dev_is_online = True, dev_registered_at = t \<rparr>
       in andThen (add_device device) (ret device)))"

definition get_device_for_user :: "string \<Rightarrow> string \<Rightarrow> Device handler" where
  "get_device_for_user device_id user_id =
     bindE (select_one devices (\<lambda>d. dev_id d = device_id)) (\<lambda>o'.
       case o' of
         None \<Rightarrow> raise (DeviceNotFound device_id)
       | Some device \<Rightarrow>
           if dev_user_id device \<noteq> user_id
           then raise (Forbidden ''Device belongs to another user'')
           else ret device)"

definition online_key :: "string \<Rightarrow> string" where
  "online_key device_id = ''device:online:'' @ device_id"

definition battery_key :: "string \<Rightarrow> string" where
  "battery_key device_id = ''device:battery:'' @ device_id"

definition beat :: "instant \<Rightarrow> Device \<Rightarrow> Device" where
  "beat t d = d\<lparr>dev_is_online := True, dev_last_heartbeat := Some t\<rparr>"

text \<open>The online state is cached with a TTL slightly longer than the heartbeat interval.\<close>

definition cache_heartbeat :: "string \<Rightarrow> int option \<Rightarrow> unit handler" where
  "cache_heartbeat device_id battery =
     bindE get_redis (\<lambda>redis.
     andThen (redis_setex redis (online_key device_id) 90 (VStr (Raw ''1'')))
       (case battery of
          None \<Rightarrow> ret ()
        | Some b \<Rightarrow> redis_setex redis (battery_key device_id) 90 (VStr (Dumped (JInt b)))))"

definition heartbeat :: "string \<Rightarrow> User \<Rightarrow> int option \<Rightarrow> Device handler" where
  "heartbeat device_id user battery =
     bindE (get_device_for_user device_id (usr_id user)) (\<lambda>device.
     bindE now_utc (\<lambda>t.
     andThen (update_where devices_update (\<lambda>d. dev_id d = dev_id device) (beat t))
     (andThen (cache_heartbeat device_id battery)
     (ret (beat t device)))))"

definition list_devices :: "User \<Rightarrow> Device list handler" where
  "list_devices user =
     bindE (select_where devices (\<lambda>d. dev_user_id d = usr_id user)) (\<lambda>rows.
       ret (sort_key dev_registered_at rows))"

text \<open>
  Deleting the row cascades to the budgets and the usage events of the device
  (\<open>cascade="all, delete-orphan"\<close> on the relationships).
\<close>

definition delete_device_row :: "string \<Rightarrow> unit handler" where
  "delete_device_row i =
     andThen (delete_where budgets_update (\<lambda>b. bud_device_id b = i))
     (andThen (delete_where usage_events_update (\<lambda>e. ev_device_id e = i))
       (delete_where devices_update (\<lambda>d. dev_id d = i)))"

definition forget_device :: "string \<Rightarrow> unit handler" where
  "forget_device device_id =
     bindE get_redis (\<lambda>redis. redis_delete redis [online_key device_id, battery_key device_id])"

definition deregister_device :: "string \<Rightarrow> User \<Rightarrow> unit handler" where
  "deregister_device device_id user =
     bindE (get_device_for_user device_id (usr_id user)) (\<lambda>device.
     andThen (delete_device_row (dev_id device))
     (forget_device device_id))"

section \<open>router.py\<close>

definition register_endpoint :: "User \<Rightarrow> string \<Rightarrow> string \<Rightarrow> int option \<Rightarrow> Device handler" where
  "register_endpoint user name device_type priority =
     (case DeviceRegisterRequest device_type priority of
        Inl e \<Rightarrow> raise e
      | Inr p \<Rightarrow> register_device user name device_type p)"

definition heartbeat_endpoint ::
    "User \<Rightarrow> string \<Rightarrow> int option \<Rightarrow> (string \<times> bool \<times> instant) handler" where
  "heartbeat_endpoint user device_id battery =
     (case HeartbeatRequest battery of
        Inl e \<Rightarrow> raise e
      | Inr b \<Rightarrow> bindE (heartbeat device_id user b) (\<lambda>device.
          bindE now_utc (\<lambda>t. ret (dev_id device, dev_is_online device, t))))"

definition list_endpoint :: "User \<Rightarrow> Device list handler" where
  "list_endpoint user = list_devices user"

definition deregister_endpoint :: "User \<Rightarrow> string \<Rightarrow> unit handler" where
  "deregister_endpoint user device_id = deregister_device device_id user"

section \<open>Finding the device of a request\<close>

lemma get_device_for_user_run:
  assumes "db_wf (working w)"
  shows "get_device_for_user i u w =
    (case map_of (map (\<lambda>d. (dev_id d, d)) (devices (working w))) i of
       None \<Rightarrow> (Inl (DeviceNotFound i), w)
     | Some d \<Rightarrow> if dev_user_id d \<noteq> u
         then (Inl (Forbidden ''Device belongs to another user''), w) else (Inr d, w))"
proof -
  have "distinct (map dev_id (devices (working w)))" using assms by (simp add: db_wf_def)
  from scalar_unique_key [OF this, of i] show ?thesis
    by (simp add: get_device_for_user_def bindE_run select_one_run split: option.splits)
qed

lemma get_device_for_user_Inr:
  assumes "get_device_for_user i u w = (Inr d, w')"
  shows "w' = w" "d \<in> set (devices (working w))" "dev_id d = i" "dev_user_id d = u"
  using assms
  by (auto simp: get_device_for_user_def bindE_run select_one_run dest!: scalar_Some
      split: sum.splits option.splits if_splits)

lemma get_device_for_user_Inl: "get_device_for_user i u w = (Inl e, w') \<Longrightarrow> w' = w"
  by (auto simp: get_device_for_user_def bindE_run select_one_run
      split: sum.splits option.splits if_splits)

lemma keeps_get_device [keeps_intro]: "keeps I (get_device_for_user i u)"
  by (auto simp: get_device_for_user_def intro!: keeps_intro)

section \<open>Effect of the operations on the session\<close>

lemma leaves_db_cache_heartbeat [leaves_db_intro]: "leaves_db (cache_heartbeat i b)"
  unfolding cache_heartbeat_def by (intro leaves_db_intro)

lemma leaves_db_forget_device [leaves_db_intro]: "leaves_db (forget_device i)"
  unfolding forget_device_def by (intro leaves_db_intro)

lemmas device_leaves = leaves_db_working [OF leaves_db_cache_heartbeat]
  leaves_db_committed [OF leaves_db_cache_heartbeat]
  leaves_db_working [OF leaves_db_forget_device] leaves_db_committed [OF leaves_db_forget_device]

definition beat_rows :: "string \<Rightarrow> instant \<Rightarrow> db \<Rightarrow> db" where
  "beat_rows i t = devices_update (map (\<lambda>d. if dev_id d = i then beat t d else d))"

definition remove_rows :: "string \<Rightarrow> db \<Rightarrow> db" where
  "remove_rows i d = d\<lparr>budgets := filter (\<lambda>b. bud_device_id b \<noteq> i) (budgets d),
     usage_events := filter (\<lambda>e. ev_device_id e \<noteq> i) (usage_events d),
     devices := filter (\<lambda>x. dev_id x \<noteq> i) (devices d)\<rparr>"

lemma delete_device_row_run: "delete_device_row i w = (Inr (), w\<lparr>working := remove_rows i (working w)\<rparr>)"
  by (simp add: delete_device_row_def delete_where_def andThen_def bindE_run remove_rows_def)

text \<open>
  Both operations look the device up and then make one change; what follows touches only Redis.
\<close>

lemma device_op_effect:
  assumes op: "\<And>d w. dev_id d = i \<Longrightarrow> working (snd (f d w)) = g (clock w) (working w)"
    and co: "\<And>d w. committed (snd (f d w)) = committed w"
  shows "working (snd (bindE (get_device_for_user i u) f w)) =
      (case fst (get_device_for_user i u w) of
        Inl _ \<Rightarrow> working w | Inr _ \<Rightarrow> g (clock w) (working w))"
    "committed (snd (bindE (get_device_for_user i u) f w)) = committed w"
proof -
  obtain r w' where run: "get_device_for_user i u w = (r, w')"
    by (cases "get_device_for_user i u w")
  have w': "w' = w"
    using run by (cases r) (auto dest: get_device_for_user_Inr get_device_for_user_Inl)
  show "working (snd (bindE (get_device_for_user i u) f w)) =
      (case fst (get_device_for_user i u w) of
        Inl _ \<Rightarrow> working w | Inr _ \<Rightarrow> g (clock w) (working w))"
    using run w' by (auto simp: bindE_run dest: get_device_for_user_Inr(3) intro: op split: sum.splits)
  show "committed (snd (bindE (get_device_for_user i u) f w)) = committed w"
    using run w' by (auto simp: bindE_run co split: sum.splits)
qed

lemma heartbeat_effect:
  "working (snd (heartbeat i u b w)) =
     (case fst (get_device_for_user i (usr_id u) w) of
        Inl _ \<Rightarrow> working w | Inr _ \<Rightarrow> beat_rows i (clock w) (working w))"
  "committed (snd (heartbeat i u b w)) = committed w"
  unfolding heartbeat_def
  by (rule device_op_effect; simp add: bindE_run [of now_utc] andThen_def bindE_run [of "update_where a c d" for a c d]
      update_where_def leaves_db_tail leaves_db_intro device_leaves beat_rows_def)+

lemma deregister_effect:
  "working (snd (deregister_device i u w)) =
     (case fst (get_device_for_user i (usr_id u) w) of
        Inl _ \<Rightarrow> working w | Inr _ \<Rightarrow> remove_rows i (working w))"
  "committed (snd (deregister_device i u w)) = committed w"
  unfolding deregister_device_def
  by (rule device_op_effect; simp add: andThen_def delete_device_row_run device_leaves)+

lemma register_effect:
  "register_device u n ty p w =
     (let d = \<lparr> dev_id = uuids w (uuid_next w), dev_user_id = usr_id u, dev_name = n, dev_type = ty,
            dev_priority = p, dev_last_heartbeat = Some (clock w), dev_is_online = True,
            dev_registered_at = clock w \<rparr>;
          w' = w\<lparr>uuid_next := Suc (uuid_next w)\<rparr>
      in if dev_id d \<in> dev_id ` set (devices (working w))
         then (Inl (IntegrityError ''devices''), w')
         else (Inr d, w'\<lparr>working := devices_update (\<lambda>ds. ds @ [d]) (working w)\<rparr>))"
  by (auto simp: register_device_def bindE_run andThen_def Let_def add_device_def add_row_def
      list_ex_iff)

section \<open>Well-formedness\<close>

lemma beat_rows_wf: "db_wf d \<Longrightarrow> db_wf (beat_rows i t d)"
proof -
  assume wf: "db_wf d"
  have ids: "map dev_id (map (\<lambda>x. if dev_id x = i then beat t x else x) ds) = map dev_id ds" for ds
    by (simp add: beat_def)
  have "dev_id ` (\<lambda>x. if dev_id x = i then beat t x else x) ` S = dev_id ` S" for S
    unfolding image_image by (rule image_cong) (simp_all add: beat_def)
  with wf ids show ?thesis
    by (auto simp: db_wf_def beat_rows_def beat_def simp del: map_map)
qed

lemma distinct_map_filter: "distinct (map f xs) \<Longrightarrow> distinct (map f (filter p xs))"
  by (induction xs) auto

lemma remove_rows_wf: "db_wf d \<Longrightarrow> db_wf (remove_rows i d)"
  by (auto simp: db_wf_def remove_rows_def distinct_map_filter image_iff)

lemma keeps_heartbeat [keeps_intro]: "keeps world_wf (heartbeat i u b)"
  by (rule keepsI)
    (auto simp: world_wf_def heartbeat_effect beat_rows_wf split: sum.splits)

lemma keeps_deregister [keeps_intro]: "keeps world_wf (deregister_device i u)"
  by (rule keepsI)
    (auto simp: world_wf_def deregister_effect remove_rows_wf split: sum.splits)

lemma register_device_wf:
  assumes "world_wf w" "usr_id u \<in> usr_id ` set (users (working w))"
  shows "world_wf (snd (register_device u n ty p w))"
  using assms by (auto simp: register_effect Let_def world_wf_def db_wf_def image_iff)

section \<open>Isolation between users\<close>

text \<open>What of a database belongs to the devices of other users.\<close>

definition others :: "User \<Rightarrow> db \<Rightarrow> Device list \<times> UsageEvent list \<times> Budget list" where
  "others u d =
     (let theirs = filter (\<lambda>x. dev_user_id x \<noteq> usr_id u) (devices d);
          ids = map dev_id theirs
      in (theirs, filter (\<lambda>e. ev_device_id e \<in> set ids) (usage_events d),
          filter (\<lambda>b. bud_device_id b \<in> set ids) (budgets d)))"

lemma others_beat:
  assumes "db_wf d" "map_of (map (\<lambda>x. (dev_id x, x)) (devices d)) i = Some e" "dev_user_id e = usr_id u"
  shows "others u (beat_rows i t d) = others u d"
proof -
  have e: "e \<in> set (devices d)" "dev_id e = i" using assms(2) by (auto dest: map_of_SomeD)
  have own: "dev_user_id x = usr_id u" if "x \<in> set (devices d)" "dev_id x = i" for x
    using assms(1,3) e that by (auto simp: db_wf_def distinct_map inj_on_def)
  have "filter (\<lambda>x. dev_user_id x \<noteq> usr_id u) (map (\<lambda>x. if dev_id x = i then beat t x else x) xs) =
      filter (\<lambda>x. dev_user_id x \<noteq> usr_id u) xs" if "set xs \<subseteq> set (devices d)" for xs
    using that by (induction xs) (auto simp: beat_def dest: own)
  then show ?thesis by (simp add: others_def beat_rows_def Let_def)
qed

lemma others_remove:
  assumes "db_wf d" "map_of (map (\<lambda>x. (dev_id x, x)) (devices d)) i = Some e" "dev_user_id e = usr_id u"
  shows "others u (remove_rows i d) = others u d"
proof -
  have e: "e \<in> set (devices d)" "dev_id e = i" using assms(2) by (auto dest: map_of_SomeD)
  have own: "dev_user_id x = usr_id u" if "x \<in> set (devices d)" "dev_id x = i" for x
    using assms(1,3) e that by (auto simp: db_wf_def distinct_map inj_on_def)
  have theirs: "filter (\<lambda>x. dev_user_id x \<noteq> usr_id u \<and> dev_id x \<noteq> i) (devices d) =
      filter (\<lambda>x. dev_user_id x \<noteq> usr_id u) (devices d)"
    by (rule filter_cong) (auto dest: own)
  have neq: "dev_id x \<noteq> i" if "x \<in> set (devices d)" "dev_user_id x \<noteq> usr_id u" for x
    using own that by auto
  show ?thesis
    by (auto simp: others_def remove_rows_def Let_def theirs conj_commute dest: neq
        intro!: filter_cong)
qed

section \<open>The requests\<close>

text \<open>When the Redis commands of a request succeed.\<close>

definition redis_usable :: "world \<Rightarrow> bool" where
  "redis_usable w \<longleftrightarrow> text_client w = Some NullRedis \<or> srv_up (server w)"

lemma forget_device_ok: "redis_usable w \<Longrightarrow> fst (forget_device i w) = Inr ()"
  by (auto simp: redis_usable_def forget_device_def bindE_run get_redis_def andThen_def
      rc_initialize_def redis_delete_def at_server_up split: option.splits)

lemma heartbeat_committed: "committed (snd (heartbeat_endpoint u i b w)) = committed w"
  by (auto simp: heartbeat_endpoint_def bindE_run [of "heartbeat a c d" for a c d]
      bindE_run [of now_utc] split: sum.splits prod.splits)
    (metis heartbeat_effect(2) snd_conv)+

lemma register_committed: "committed (snd (register_endpoint u n ty p w)) = committed w"
  by (auto simp: register_endpoint_def register_effect Let_def split: sum.splits)

lemma get_db_failed:
  assumes "\<And>w. committed (snd (m w)) = committed w" "fst (get_db m w) = Inl e"
  shows "committed (snd (get_db m w)) = committed w"
proof -
  obtain r w' where run: "m (w\<lparr>working := committed w\<rparr>) = (r, w')"
    by (cases "m (w\<lparr>working := committed w\<rparr>)")
  have "committed w' = committed w" using assms(1) [of "w\<lparr>working := committed w\<rparr>"] run by simp
  then show ?thesis using assms(2) run by (simp add: get_db_result get_db_committed)
qed

text \<open>
  C37: A device request is atomic: when registering, the heartbeat or the removal of a device ends
  in an error, of whatever kind (validation, 404, 403, a constraint of the database, Redis not
  reachable), the durable database is what it was before the request.
\<close>

theorem failed_device_request_changes_nothing:
  "(fst (get_db (register_endpoint u n ty p) w) = Inl e \<longrightarrow>
      committed (snd (get_db (register_endpoint u n ty p) w)) = committed w) \<and>
   (fst (get_db (heartbeat_endpoint u i b) w) = Inl e \<longrightarrow>
      committed (snd (get_db (heartbeat_endpoint u i b) w)) = committed w) \<and>
   (fst (get_db (deregister_endpoint u i) w) = Inl e \<longrightarrow>
      committed (snd (get_db (deregister_endpoint u i) w)) = committed w)"
  using get_db_failed [OF register_committed] get_db_failed [OF heartbeat_committed]
    get_db_failed [of "deregister_endpoint u i"] deregister_effect(2)
  by (auto simp: deregister_endpoint_def)

definition alice :: User where
  "alice = \<lparr> usr_id = ''a'', usr_email = ''a@x'', usr_hashed_password = ''h'', usr_created_at = 0 \<rparr>"

definition bob :: User where
  "bob = \<lparr> usr_id = ''b'', usr_email = ''b@x'', usr_hashed_password = ''h'', usr_created_at = 0 \<rparr>"

definition phone_of :: "User \<Rightarrow> string \<Rightarrow> Device" where
  "phone_of u i = \<lparr> dev_id = i, dev_user_id = usr_id u, dev_name = ''phone'', dev_type = ''phone'',
     dev_priority = 5, dev_last_heartbeat = None, dev_is_online = False, dev_registered_at = 0 \<rparr>"

text \<open>A database with two users and a device of the second.\<close>

definition sample_db :: db where
  "sample_db = empty_db\<lparr>users := [alice, bob], devices := [phone_of bob ''p'']\<rparr>"

lemmas sample_defs = sample_db_def alice_def bob_def phone_of_def empty_db_def sample_world_def
  default_settings_def

lemma sample_db_wf: "db_wf sample_db"
  by (simp add: db_wf_def sample_defs)

lemma get_device_sample:
  "get_device_for_user ''p'' ''a'' (sample_world 0 sample_db) =
     (Inl (Forbidden ''Device belongs to another user''), sample_world 0 sample_db)"
  by (simp add: get_device_for_user_def bindE_run select_one_run scalar_one_or_none_def sample_defs)

lemma sample_world_session [simp]: "sample_world t d\<lparr>working := committed (sample_world t d)\<rparr> = sample_world t d"
  by (simp add: sample_world_def)

theorem failed_device_request_changes_nothing_witness:
  "fst (get_db (deregister_endpoint alice ''p'') (sample_world 0 sample_db)) =
       Inl (Forbidden ''Device belongs to another user'') \<and>
   committed (snd (get_db (deregister_endpoint alice ''p'') (sample_world 0 sample_db))) = sample_db"
proof -
  have err: "fst (get_db (deregister_endpoint alice ''p'') (sample_world 0 sample_db)) =
      Inl (Forbidden ''Device belongs to another user'')"
    by (simp add: get_db_result deregister_endpoint_def deregister_device_def bindE_run
        get_device_sample alice_def)
  have "committed (sample_world 0 sample_db) = sample_db" by (simp add: sample_world_def)
  with err failed_device_request_changes_nothing [of alice "[]" "[]" None "sample_world 0 sample_db"
      "Forbidden ''Device belongs to another user''" "''p''" None]
  show ?thesis by simp
qed

text \<open>
  C33: Users are isolated: in a database that keeps its constraints (ids unique, rows of existing
  devices), no heartbeat and no removal requested by a user, whatever device it names and whether it
  succeeds or fails, changes a device, a usage event or a budget that belongs to a device of anybody
  else.
\<close>

theorem device_requests_isolated:
  assumes "db_wf (committed w)"
  shows "others u (committed (snd (get_db (heartbeat i u b) w))) = others u (committed w) \<and>
    others u (committed (snd (get_db (deregister_device i u) w))) = others u (committed w)"
proof -
  let ?w = "w\<lparr>working := committed w\<rparr>"
  have wf: "db_wf (working ?w)" using assms by simp
  have effect: "others u (committed (snd (get_db m w))) = others u (committed w)"
    if eff: "working (snd (m ?w)) = (case fst (get_device_for_user i (usr_id u) ?w) of
        Inl _ \<Rightarrow> working ?w | Inr _ \<Rightarrow> g (committed w))"
      and co: "committed (snd (m ?w)) = committed w"
      and g: "\<And>e. map_of (map (\<lambda>x. (dev_id x, x)) (devices (committed w))) i = Some e \<Longrightarrow>
        dev_user_id e = usr_id u \<Longrightarrow> others u (g (committed w)) = others u (committed w)"
    for m :: "'z handler" and g
  proof -
    have "others u (working (snd (m ?w))) = others u (committed w)"
      using eff g unfolding get_device_for_user_run [OF wf]
      by (auto split: option.splits if_splits)
    then show ?thesis
      using co by (auto simp: get_db_committed split: prod.splits sum.splits)
  qed
  show ?thesis
    using effect [of "heartbeat i u b" "beat_rows i (clock w)"]
      effect [of "deregister_device i u" "remove_rows i"]
    by (auto simp: heartbeat_effect deregister_effect others_beat [OF assms] others_remove [OF assms]
        split: sum.splits)
qed

theorem device_requests_isolated_witness:
  "others alice (committed (snd (get_db (deregister_device ''p'' alice) (sample_world 0 sample_db)))) =
     ([phone_of bob ''p''], [], [])"
proof -
  have "db_wf (committed (sample_world 0 sample_db))"
    using sample_db_wf by (simp add: sample_world_def)
  from device_requests_isolated [OF this, of alice "''p''", THEN conjunct2]
  have "others alice (committed (snd (get_db (deregister_device ''p'' alice) (sample_world 0 sample_db)))) =
      others alice sample_db"
    by (simp add: sample_world_def)
  also have "\<dots> = ([phone_of bob ''p''], [], [])"
    by (simp add: others_def sample_db_def alice_def bob_def phone_of_def empty_db_def)
  finally show ?thesis .
qed



end
