(* ===== verification/PyFloat.thy ===== *)
theory PyFloat
  imports Complex_Main "HOL-Library.Log_Nat"
begin

text \<open>
  Python's \<open>float\<close>: a binary64 number is a rational, and an operation returns the exact result
  rounded to the nearest number with a 53-bit significand, ties to even.  The exponent range is
  unbounded here: the values the code computes stay far from overflow and from the subnormals.
\<close>

section \<open>Rounding to the nearest integer, ties to even\<close>

definition round_half_even :: "rat \<Rightarrow> int" where
  "round_half_even y =
     (let f = \<lfloor>y\<rfloor>; d = y - of_int f
      in if d < 1 / 2 then f else if d > 1 / 2 then f + 1 else if even f then f else f + 1)"

lemma round_half_even_error: "\<bar>of_int (round_half_even y) - y\<bar> \<le> 1 / 2"
  unfolding round_half_even_def Let_def abs_le_iff
  by (auto split: if_splits) linarith+

lemma round_half_even_near: "\<bar>y - of_int n\<bar> < 1 / 2 \<Longrightarrow> round_half_even y = n"
proof -
  assume near: "\<bar>y - of_int n\<bar> < 1 / 2"
  have "\<bar>of_int (round_half_even y) - y\<bar> \<le> 1 / 2" by (rule round_half_even_error)
  with near have "\<bar>of_int (round_half_even y) - (of_int n :: rat)\<bar> < 1" by linarith
  then have "\<bar>of_int (round_half_even y - n) :: rat\<bar> < 1" by simp
  then show ?thesis by linarith
qed

lemma round_half_even_of_int [simp]: "round_half_even (of_int n) = n"
  by (rule round_half_even_near) simp

lemma round_half_even_mono: "x \<le> y \<Longrightarrow> round_half_even x \<le> round_half_even y"
proof -
  assume le: "x \<le> y"
  have fl: "\<lfloor>x\<rfloor> \<le> \<lfloor>y\<rfloor>" using le by (rule floor_mono)
  have bx: "of_int \<lfloor>x\<rfloor> \<le> x" "x < of_int \<lfloor>x\<rfloor> + 1" by linarith+
  have by': "of_int \<lfloor>y\<rfloor> \<le> y" "y < of_int \<lfloor>y\<rfloor> + 1" by linarith+
  show ?thesis
  proof (cases "\<lfloor>x\<rfloor> = \<lfloor>y\<rfloor>")
    case True
    with le show ?thesis by (auto simp: round_half_even_def Let_def)
  next
    case False
    with fl have "\<lfloor>x\<rfloor> + 1 \<le> \<lfloor>y\<rfloor>" by linarith
    then show ?thesis by (auto simp: round_half_even_def Let_def)
  qed
qed

section \<open>The exponent of a positive rational\<close>

definition bin_exponent :: "rat \<Rightarrow> int" where
  "bin_exponent x =
     (case quotient_of x of (a, b) \<Rightarrow>
       let e = bitlen a - bitlen b in if 2 powi e \<le> x then e else e - 1)"

lemma bitlen_between:
  assumes "0 < a"
  shows "(2::rat) powi (bitlen a - 1) \<le> of_int a" "of_int a < (2::rat) powi bitlen a"
proof -
  have b: "2 ^ nat (bitlen a - 1) \<le> a" "a < 2 ^ nat (bitlen a)"
    using bitlen_bounds [OF assms] by auto
  have "0 \<le> log 2 (real_of_int a)" using assms by simp
  then have pos: "0 < bitlen a" using assms by (simp add: bitlen_alt_def)
  have "(2::rat) powi (bitlen a - 1) = 2 ^ nat (bitlen a - 1)"
    using pos by (simp add: power_int_def)
  also have "\<dots> = of_int (2 ^ nat (bitlen a - 1))" by simp
  also have "\<dots> \<le> of_int a" using b(1) by (simp only: of_int_le_iff)
  finally show "(2::rat) powi (bitlen a - 1) \<le> of_int a" .
  have "(of_int a :: rat) < of_int (2 ^ nat (bitlen a))" using b(2) by (simp only: of_int_less_iff)
  also have "\<dots> = 2 powi bitlen a" using pos by (simp add: power_int_def)
  finally show "of_int a < (2::rat) powi bitlen a" .
qed

lemma bin_exponent_bounds:
  assumes "0 < x"
  shows "2 powi bin_exponent x \<le> x" "x < 2 powi (bin_exponent x + 1)"
proof -
  obtain a b where q: "quotient_of x = (a, b)" by (cases "quotient_of x")
  have x: "x = of_int a / of_int b" using q by (rule quotient_of_div)
  have b: "0 < b" using q by (rule quotient_of_denom_pos)
  have a: "0 < a" using assms x b by (simp add: zero_less_divide_iff)
  let ?e = "bitlen a - bitlen b"
  have "(2::rat) powi (bitlen a - 1) / 2 powi bitlen b \<le> x"
    unfolding x using bitlen_between [OF a] bitlen_between [OF b] a b
    by (intro frac_le) auto
  moreover have "(2::rat) powi (bitlen a - 1) / 2 powi bitlen b = 2 powi (?e - 1)"
    by (simp add: power_int_diff)
  ultimately have lo: "2 powi (?e - 1) \<le> x" by simp
  have "x < (2::rat) powi bitlen a / 2 powi (bitlen b - 1)"
    unfolding x using bitlen_between [OF a] bitlen_between [OF b] a b
    by (intro frac_less) auto
  moreover have "(2::rat) powi bitlen a / 2 powi (bitlen b - 1) = 2 powi (?e + 1)"
    by (simp add: power_int_diff power_int_add)
  ultimately have hi: "x < 2 powi (?e + 1)" by simp
  show "2 powi bin_exponent x \<le> x" "x < 2 powi (bin_exponent x + 1)"
    using lo hi by (auto simp: bin_exponent_def q Let_def)
qed

section \<open>Rounding to 53 significant bits\<close>

definition rnd :: "rat \<Rightarrow> rat" where
  "rnd x =
     (if x = 0 then 0
      else let u = 2 powi (bin_exponent \<bar>x\<bar> - 52)
           in sgn x * of_int (round_half_even (\<bar>x\<bar> / u)) * u)"

lemma rnd_0 [simp]: "rnd 0 = 0"
  by (simp add: rnd_def)

lemma rnd_uminus [simp]: "rnd (- x) = - rnd x"
  by (simp add: rnd_def Let_def)

lemma significand_bounds:
  assumes "0 < x" and u: "u = 2 powi (bin_exponent x - 52)"
  shows "0 < u" "2 ^ 52 \<le> x / u" "x / u < 2 ^ 53"
proof -
  show pos: "0 < u" unfolding u by simp
  have e: "2 powi bin_exponent x = 2 ^ 52 * u" "2 powi (bin_exponent x + 1) = 2 ^ 53 * u"
    unfolding u by (simp_all add: power_int_diff power_int_add)
  show "2 ^ 52 \<le> x / u"
    using bin_exponent_bounds(1) [OF assms(1)] pos unfolding e by (simp add: pos_le_divide_eq)
  show "x / u < 2 ^ 53"
    using bin_exponent_bounds(2) [OF assms(1)] pos unfolding e by (simp add: pos_divide_less_eq)
qed

lemma rnd_pos: "0 < x \<Longrightarrow> u = 2 powi (bin_exponent x - 52) \<Longrightarrow>
    rnd x = of_int (round_half_even (x / u)) * u"
  by (simp add: rnd_def Let_def)

lemma rnd_error: "\<bar>rnd x - x\<bar> \<le> \<bar>x\<bar> / 2 ^ 53"
proof -
  have pos: "\<bar>rnd y - y\<bar> \<le> y / 2 ^ 53" if "0 < y" for y
  proof -
    define u :: rat where "u = 2 powi (bin_exponent y - 52)"
    note b = significand_bounds [OF that u_def]
    let ?m = "of_int (round_half_even (y / u)) :: rat"
    have "\<bar>?m - y / u\<bar> \<le> 1 / 2" by (rule round_half_even_error)
    then have "\<bar>?m - y / u\<bar> * u \<le> 1 / 2 * u" using b(1) by (intro mult_right_mono) auto
    moreover have "\<bar>?m - y / u\<bar> * u = \<bar>rnd y - y\<bar>"
    proof -
      have "\<bar>?m - y / u\<bar> * u = \<bar>(?m - y / u) * u\<bar>" using b(1) by (simp add: abs_mult)
      also have "(?m - y / u) * u = rnd y - y"
        using b(1) by (simp add: rnd_pos [OF that u_def] left_diff_distrib)
      finally show ?thesis .
    qed
    moreover have "u \<le> y / 2 ^ 52" using b by (simp add: pos_le_divide_eq mult.commute)
    ultimately show ?thesis by simp
  qed
  show ?thesis
  proof (cases "x = 0")
    case False
    then consider "0 < x" | "0 < - x" by linarith
    then show ?thesis
    proof cases
      case 1
      then show ?thesis using pos [of x] by simp
    next
      case 2
      then show ?thesis using pos [of "- x"] by simp
    qed
  qed simp
qed

lemma rnd_near_int:
  assumes "0 < x" "x < 2 ^ 52" "\<bar>x - of_int n\<bar> \<le> x / 2 ^ 54"
  shows "rnd x = of_int n"
proof -
  define e where "e = bin_exponent x"
  define u :: rat where "u = 2 powi (e - 52)"
  note b = significand_bounds [OF assms(1), of u, folded e_def, OF u_def]
  have "(2::rat) powi e \<le> x" using bin_exponent_bounds(1) [OF assms(1)] by (simp add: e_def)
  then have "(2::rat) powi e < 2 powi 52" using assms(2) by simp
  then have "e < 52"
    using power_int_increasing [of 52 e "2::rat"] by (cases "52 \<le> e") auto
  then have inv: "1 / u = of_int (2 ^ nat (52 - e))"
    by (simp add: u_def power_int_def field_simps)
  define N where "N = n * 2 ^ nat (52 - e)"
  have N: "of_int n / u = of_int N" using inv by (simp add: N_def divide_inverse)
  have "\<bar>x / u - of_int N\<bar> = \<bar>x - of_int n\<bar> / u"
    using b(1) by (simp add: N [symmetric] diff_divide_distrib [symmetric])
  also have "\<dots> \<le> x / 2 ^ 54 / u" using assms(3) b(1) by (intro divide_right_mono) auto
  also have "\<dots> = x / u / 2 ^ 54" by simp
  also have "\<dots> < 2 ^ 53 / 2 ^ 54" using b(3) by (intro divide_strict_right_mono) auto
  finally have "\<bar>x / u - of_int N\<bar> < 1 / 2" by simp
  then have "round_half_even (x / u) = N" by (rule round_half_even_near)
  then have "rnd x = of_int N * u" using rnd_pos [OF assms(1), of u] by (simp add: u_def e_def)
  also have "\<dots> = of_int n" using N b(1) by (simp add: field_simps)
  finally show ?thesis .
qed

lemma rnd_nonneg: "0 \<le> x \<Longrightarrow> 0 \<le> rnd x"
  using rnd_error [of x] by (simp add: abs_if field_simps split: if_splits)

lemma bin_exponent_mono:
  assumes "0 < x" "x \<le> y"
  shows "bin_exponent x \<le> bin_exponent y"
proof (rule ccontr)
  assume "\<not> ?thesis"
  then have "bin_exponent y + 1 \<le> bin_exponent x" by simp
  then have "(2::rat) powi (bin_exponent y + 1) \<le> 2 powi bin_exponent x"
    by (rule power_int_increasing) simp
  also have "\<dots> \<le> x" using assms(1) by (rule bin_exponent_bounds)
  finally show False using assms bin_exponent_bounds(2) [of y] by linarith
qed

lemma rnd_mono_pos:
  assumes "0 < x" "x \<le> y"
  shows "rnd x \<le> rnd y"
proof -
  have y: "0 < y" using assms by simp
  define u v :: rat where "u = 2 powi (bin_exponent x - 52)" and "v = 2 powi (bin_exponent y - 52)"
  note bx = significand_bounds [OF assms(1) u_def] and bv = significand_bounds [OF y v_def]
  show ?thesis
  proof (cases "bin_exponent x = bin_exponent y")
    case True
    then have uv: "u = v" by (simp add: u_def v_def)
    have "x / u \<le> y / u" using assms bx(1) by (intro divide_right_mono) auto
    then have "round_half_even (x / u) \<le> round_half_even (y / u)" by (rule round_half_even_mono)
    then show ?thesis
      using bx(1) by (simp add: rnd_pos [OF assms(1) u_def] rnd_pos [OF y v_def] uv)
  next
    case False
    with bin_exponent_mono [OF assms] have "bin_exponent x - 52 + 1 \<le> bin_exponent y - 52" by simp
    then have "(2::rat) powi (bin_exponent x - 52 + 1) \<le> v"
      unfolding v_def by (rule power_int_increasing) simp
    moreover have "2 * u = 2 powi (bin_exponent x - 52 + 1)"
      by (subst power_int_add) (simp_all add: u_def)
    ultimately have "2 * u \<le> v" by simp
    moreover have "round_half_even (x / u) \<le> round_half_even (of_int (2 ^ 53))"
      using bx(3) by (intro round_half_even_mono) simp
    then have "(of_int (round_half_even (x / u)) :: rat) \<le> of_int (2 ^ 53)"
      unfolding of_int_le_iff round_half_even_of_int .
    then have "of_int (round_half_even (x / u)) * u \<le> 2 ^ 53 * u"
      using bx(1) by (intro mult_right_mono) auto
    moreover have "round_half_even (of_int (2 ^ 52)) \<le> round_half_even (y / v)"
      using bv(2) by (intro round_half_even_mono) simp
    then have "(of_int (2 ^ 52) :: rat) \<le> of_int (round_half_even (y / v))"
      unfolding of_int_le_iff round_half_even_of_int .
    then have "2 ^ 52 * v \<le> of_int (round_half_even (y / v)) * v"
      using bv(1) by (intro mult_right_mono) auto
    ultimately show ?thesis
      by (simp add: rnd_pos [OF assms(1) u_def] rnd_pos [OF y v_def])
  qed
qed

lemma rnd_mono: "0 \<le> x \<Longrightarrow> x \<le> y \<Longrightarrow> rnd x \<le> rnd y"
  by (cases "x = 0") (auto simp: rnd_nonneg rnd_mono_pos)

section \<open>The operations the code uses\<close>

text \<open>
  \<open>a / b\<close> on two ints is the correctly rounded quotient; \<open>n * w\<close> on an int and a float first
  converts the int; \<open>int(x)\<close> truncates towards zero; a literal is the double nearest to it.
\<close>

definition int_truediv :: "int \<Rightarrow> int \<Rightarrow> rat" where
  "int_truediv a b = rnd (of_int a / of_int b)"

definition float_of_int :: "int \<Rightarrow> rat" where
  "float_of_int n = rnd (of_int n)"

definition int_fmul :: "int \<Rightarrow> rat \<Rightarrow> rat" where
  "int_fmul n w = rnd (float_of_int n * w)"

definition py_int :: "rat \<Rightarrow> int" where
  "py_int x = (if 0 \<le> x then \<lfloor>x\<rfloor> else \<lceil>x\<rceil>)"

definition float_lit :: "rat \<Rightarrow> rat" where
  "float_lit q = rnd q"

text \<open>\<open>round(x, k)\<close>: the double nearest to the exact value rounded half to even at \<open>k\<close> digits.\<close>

definition py_round :: "rat \<Rightarrow> nat \<Rightarrow> rat" where
  "py_round x k = rnd (of_int (round_half_even (x * 10 ^ k)) / 10 ^ k)"

section \<open>What the clients need of a rounding\<close>

locale rounding =
  fixes rd :: "rat \<Rightarrow> rat"
  assumes rd_error: "\<bar>rd x - x\<bar> \<le> \<bar>x\<bar> / 2 ^ 53"
    and rd_near_int: "0 < x \<Longrightarrow> x < 2 ^ 52 \<Longrightarrow> \<bar>x - of_int n\<bar> \<le> x / 2 ^ 54 \<Longrightarrow> rd x = of_int n"
    and rd_mono: "0 \<le> x \<Longrightarrow> x \<le> y \<Longrightarrow> rd x \<le> rd y"
begin

lemma rd_zero: "rd 0 = 0"
  using rd_error [of 0] by simp

lemma rd_pos_bounds: "0 \<le> x \<Longrightarrow> x - x / 2 ^ 53 \<le> rd x" "0 \<le> x \<Longrightarrow> rd x \<le> x + x / 2 ^ 53"
  using rd_error [of x] by (simp_all add: abs_if field_simps split: if_splits)

lemma rd_nonneg: "0 \<le> x \<Longrightarrow> 0 \<le> rd x"
  using rd_pos_bounds(1) [of x] by (simp add: field_simps)

lemma rd_int: "0 \<le> n \<Longrightarrow> n < 2 ^ 52 \<Longrightarrow> rd (of_int n) = of_int n"
proof (cases "n = 0")
  case False
  assume n: "0 \<le> n" "n < 2 ^ 52"
  from n(2) have "(of_int n :: rat) < of_int (2 ^ 52)" by (simp only: of_int_less_iff)
  then show ?thesis using n False by (intro rd_near_int) auto
qed (simp add: rd_zero)

text \<open>
  A weight whose double is within \<open>2 ^ -54\<close> (relative) of the fraction \<open>p / q\<close>: multiplying by
  it and truncating gives the exact integer quotient.
\<close>

lemma floor_scaled:
  assumes n: "0 \<le> n" "n * p < 2 ^ 45 * q" and pq: "0 < p" "0 < q" "q \<le> 64"
    and W: "0 < W" "\<bar>W - of_int p / of_int q\<bar> \<le> W / 2 ^ 54"
  shows "\<lfloor>rd (of_int n * W)\<rfloor> = n * p div q"
proof (cases "n = 0")
  case True
  then show ?thesis by (simp add: rd_zero)
next
  case False
  with n have n0: "0 < n" by simp
  let ?x = "of_int n * W"
  let ?r = "of_int (n * p) / of_int q :: rat"
  have x0: "0 < ?x" using n0 W by simp
  have "?x - ?r = of_int n * (W - of_int p / of_int q)" by (simp add: right_diff_distrib)
  then have "\<bar>?x - ?r\<bar> = of_int n * \<bar>W - of_int p / of_int q\<bar>"
    using n0 by (simp only: abs_mult)
  also have "\<dots> \<le> of_int n * (W / 2 ^ 54)" using n0 W by (intro mult_left_mono) auto
  finally have xr: "\<bar>?x - ?r\<bar> \<le> ?x / 2 ^ 54" by simp
  have "(of_int (n * p) :: rat) < of_int (2 ^ 45 * q)" using n(2) by (simp only: of_int_less_iff)
  then have r_hi: "?r < 2 ^ 45" using pq by (simp add: pos_divide_less_eq)
  have "x < 2 ^ 46" if "\<bar>x - r\<bar> \<le> x / 2 ^ 54" "r < 2 ^ 45" "0 < x" for x r :: rat
    using that by (simp add: abs_if split: if_splits)
  from this [OF xr r_hi x0] have x_hi: "?x < 2 ^ 46" .
  show ?thesis
  proof (cases "q dvd n * p")
    case True
    then obtain N where N: "n * p = q * N" by (elim dvdE)
    then have "?r = of_int N" using pq by simp
    with xr have "\<bar>?x - of_int N\<bar> \<le> ?x / 2 ^ 54" by simp
    then have "rd ?x = of_int N" using x0 x_hi by (intro rd_near_int) auto
    then show ?thesis using N pq by simp
  next
    case False
    let ?k = "n * p div q" and ?m = "n * p mod q"
    have "?m \<noteq> 0" using False by (simp add: dvd_eq_mod_eq_0)
    then have m: "1 \<le> ?m" "?m \<le> q - 1"
      using pos_mod_bound [of q "n * p"] pos_mod_sign [of q "n * p"] pq(2) by linarith+
    have "of_int N / of_int q = of_int k + of_int m / (of_int q :: rat)" if "N = k * q + m" for N k m
      using that pq by (simp add: add_divide_distrib)
    from this [OF div_mult_mod_eq [symmetric]]
    have r: "?r = of_int ?k + of_int ?m / of_int q" .
    have q64: "1 / 64 \<le> 1 / (of_int q :: rat)" using pq by (intro divide_left_mono) auto
    have "(1::rat) / of_int q \<le> of_int ?m / of_int q"
      using m pq by (intro divide_right_mono) auto
    with q64 r have lo: "of_int ?k + 1 / 64 \<le> ?r" by linarith
    have "(of_int ?m :: rat) \<le> of_int (q - 1)" using m(2) by (simp only: of_int_le_iff)
    then have "of_int ?m / of_int q \<le> (of_int (q - 1) :: rat) / of_int q"
      using pq(2) by (intro divide_right_mono) auto
    also have "\<dots> = 1 - 1 / of_int q" using pq by (simp add: diff_divide_distrib)
    finally have hi: "?r \<le> of_int ?k + 1 - 1 / 64" using q64 r by linarith
    have "\<bar>rd ?x - ?x\<bar> \<le> ?x / 2 ^ 53" using rd_error [of ?x] x0 by simp
    with xr have "\<bar>rd ?x - ?r\<bar> \<le> ?x / 2 ^ 53 + ?x / 2 ^ 54" by linarith
    also have "x / 2 ^ 53 + x / 2 ^ 54 < 1 / 64" if "x < 2 ^ 46" for x :: rat
      using that by simp
    note this [OF x_hi]
    finally have near: "\<bar>rd ?x - ?r\<bar> < 1 / 64" .
    have "of_int ?k \<le> rd ?x" "rd ?x < of_int ?k + 1" using near lo hi by linarith+
    then show ?thesis by (simp add: floor_eq_iff)
  qed
qed

text \<open>
  A quotient of ints compared with the double of a fraction \<open>p / q\<close>: the float comparison is
  the exact integer one.
\<close>

lemma gap:
  assumes "0 < b" "0 < q" "a * q < p * b"
  shows "of_int a / of_int b + 1 / (of_int b * of_int q) \<le> (of_int p / of_int q :: rat)"
proof -
  have "a * q + 1 \<le> p * b" using assms(3) by simp
  then have "(of_int (a * q + 1) :: rat) \<le> of_int (p * b)" by (simp only: of_int_le_iff)
  then have "of_int (a * q + 1) / (of_int b * of_int q) \<le> (of_int (p * b) / (of_int b * of_int q) :: rat)"
    using assms by (intro divide_right_mono) auto
  moreover have "of_int (a * q + 1) / (of_int b * of_int q) =
      of_int a / of_int b + 1 / (of_int b * of_int q :: rat)"
    using assms by (simp add: add_divide_distrib)
  moreover have "of_int (p * b) / (of_int b * of_int q) = (of_int p / of_int q :: rat)"
    using assms by simp
  ultimately show ?thesis by simp
qed

lemma round_gap:
  assumes xy: "0 \<le> x" "x + d \<le> y" and d: "2 * y < d * 2 ^ 52"
  shows "rd x < rd y"
proof -
  have y: "0 \<le> y \<or> d < 0" using xy by linarith
  have d0: "0 < d"
  proof (rule ccontr)
    assume "\<not> 0 < d"
    then have "d * 2 ^ 52 \<le> d" "d \<le> 0" by simp_all
    with d xy show False by simp
  qed
  have "rd x \<le> x + x / 2 ^ 53" using xy by (intro rd_pos_bounds)
  moreover have "y - y / 2 ^ 53 \<le> rd y" using xy d0 by (intro rd_pos_bounds) simp
  ultimately show ?thesis using xy d d0 by simp
qed

lemma less_threshold:
  assumes "0 \<le> a" "0 < b" "0 < p" "0 < q" and small: "p * b < 2 ^ 50"
  shows "rd (of_int a / of_int b) < rd (of_int p / of_int q) \<longleftrightarrow> a * q < p * b"
proof
  assume less: "rd (of_int a / of_int b) < rd (of_int p / of_int q)"
  show "a * q < p * b"
  proof (rule ccontr)
    assume "\<not> ?thesis"
    then have "(of_int (p * b) :: rat) \<le> of_int (a * q)" by (simp only: of_int_le_iff)
    then have "(of_int p / of_int q :: rat) \<le> of_int a / of_int b"
      using assms by (simp add: field_simps)
    then have "rd (of_int p / of_int q) \<le> rd (of_int a / of_int b)"
      using assms by (intro rd_mono) auto
    with less show False by simp
  qed
next
  assume lt: "a * q < p * b"
  have "(of_int (p * b) :: rat) < of_int (2 ^ 50)" using small by (simp only: of_int_less_iff)
  then have "2 * (of_int p / of_int q :: rat) < 1 / (of_int b * of_int q) * 2 ^ 52"
    using assms by (simp add: field_simps)
  then show "rd (of_int a / of_int b) < rd (of_int p / of_int q)"
    using assms gap [OF assms(2,4) lt] by (intro round_gap) auto
qed

lemma greater_threshold:
  assumes "0 \<le> a" "0 < b" "0 < p" "0 < q" and small: "4 * (p * b) < 2 ^ 50" "q \<le> 2 ^ 10"
  shows "rd (of_int p / of_int q) < rd (of_int a / of_int b) \<longleftrightarrow> p * b < a * q"
proof
  assume less: "rd (of_int p / of_int q) < rd (of_int a / of_int b)"
  show "p * b < a * q"
  proof (rule ccontr)
    assume "\<not> ?thesis"
    then have "(of_int (a * q) :: rat) \<le> of_int (p * b)" by (simp only: of_int_le_iff)
    then have "(of_int a / of_int b :: rat) \<le> of_int p / of_int q"
      using assms by (simp add: field_simps)
    then have "rd (of_int a / of_int b) \<le> rd (of_int p / of_int q)"
      using assms by (intro rd_mono) auto
    with less show False by simp
  qed
next
  assume lt: "p * b < a * q"
  let ?d = "1 / (of_int q * of_int b) :: rat"
  let ?y = "of_int p / of_int q + ?d"
  have "(of_int (4 * (p * b)) :: rat) < of_int (2 ^ 50)" using small by (simp only: of_int_less_iff)
  then have "2 * ?y < ?d * 2 ^ 52" using assms by (simp add: field_simps)
  then have "rd (of_int p / of_int q) < rd ?y" using assms by (intro round_gap) auto
  also have "?y \<le> of_int a / of_int b" using gap [of q b p a] assms lt by (simp add: mult.commute)
  then have "rd ?y \<le> rd (of_int a / of_int b)" using assms by (intro rd_mono) auto
  finally show "rd (of_int p / of_int q) < rd (of_int a / of_int b)" .
qed

text \<open>
  A pool split in proportion \<open>p / P\<close> through floats: never more than the exact share and less
  than it by at most one unit.
\<close>

lemma proportional_share:
  assumes "0 \<le> T" "0 \<le> p" "0 < P" and small: "T * p < 2 ^ 50" "P \<le> 2 ^ 50"
  defines "share \<equiv> \<lfloor>rd (of_int T * rd (of_int p / of_int P))\<rfloor>"
  shows "share * P \<le> T * p" "T * p \<le> (share + 1) * P" "0 \<le> share"
proof -
  let ?w = "rd (of_int p / of_int P)"
  let ?r = "of_int T * (of_int p / of_int P) :: rat"
  let ?z = "rd (of_int T * ?w)"
  have q0: "0 \<le> (of_int p / of_int P :: rat)" using assms by simp
  have w0: "0 \<le> ?w" using q0 by (rule rd_nonneg)
  have r0: "0 \<le> ?r" using assms by simp
  have w: "?w \<le> of_int p / of_int P * (1 + 1 / 2 ^ 53)" "of_int p / of_int P * (1 - 1 / 2 ^ 53) \<le> ?w"
    using rd_pos_bounds [OF q0] by (simp_all add: field_simps)
  have Tw0: "0 \<le> of_int T * ?w" using assms w0 by simp
  have Tw: "of_int T * ?w \<le> ?r * (1 + 1 / 2 ^ 53)" "?r * (1 - 1 / 2 ^ 53) \<le> of_int T * ?w"
    using mult_left_mono [OF w(1), of "of_int T"] mult_left_mono [OF w(2), of "of_int T"] assms
    by (simp_all only: mult.assoc of_int_0_le_iff)
  have z: "?z \<le> of_int T * ?w * (1 + 1 / 2 ^ 53)" "of_int T * ?w * (1 - 1 / 2 ^ 53) \<le> ?z"
    using rd_pos_bounds [OF Tw0] by (simp_all add: field_simps)
  have z_hi: "?z \<le> ?r + ?r / 2 ^ 51"
  proof -
    have "?z \<le> ?r * (1 + 1 / 2 ^ 53) * (1 + 1 / 2 ^ 53)"
      using z(1) mult_right_mono [OF Tw(1), of "1 + 1 / 2 ^ 53"] by simp
    also have "\<dots> = ?r * ((1 + 1 / 2 ^ 53) * (1 + 1 / 2 ^ 53))" by (simp only: mult.assoc)
    also have "\<dots> \<le> ?r * (1 + 1 / 2 ^ 51)" using r0 by (intro mult_left_mono) auto
    finally show ?thesis by (simp add: field_simps)
  qed
  have z_lo: "?r - ?r / 2 ^ 51 \<le> ?z"
  proof -
    have "?r * (1 - 1 / 2 ^ 51) \<le> ?r * ((1 - 1 / 2 ^ 53) * (1 - 1 / 2 ^ 53))"
      using r0 by (intro mult_left_mono) auto
    also have "\<dots> = ?r * (1 - 1 / 2 ^ 53) * (1 - 1 / 2 ^ 53)" by (simp only: mult.assoc)
    also have "\<dots> \<le> ?z"
      using z(2) mult_right_mono [OF Tw(2), of "1 - 1 / 2 ^ 53"] by simp
    finally show ?thesis by (simp add: field_simps)
  qed
  have r: "?r = of_int (T * p) / of_int P" by simp
  have "(of_int (T * p) :: rat) < of_int (2 ^ 50)" using small by (simp only: of_int_less_iff)
  then have tiny: "?r / 2 ^ 51 < 1 / of_int P"
    unfolding r using assms by (simp add: field_simps)
  have fl: "of_int share \<le> ?z" "?z < of_int share + 1" unfolding share_def by linarith+
  have "of_int share < ?r + 1 / of_int P" using fl(1) z_hi tiny by linarith
  then have "(of_int (share * P) :: rat) < of_int (T * p + 1)"
    using assms by (simp add: field_simps)
  then show "share * P \<le> T * p" by (simp only: of_int_less_iff)
  have "?r - 1 / of_int P < of_int share + 1" using fl(2) z_lo tiny by linarith
  then have "(of_int (T * p) :: rat) < of_int ((share + 1) * P + 1)"
    using assms by (simp add: field_simps)
  then show "T * p \<le> (share + 1) * P" by (simp only: of_int_less_iff)
  show "0 \<le> share" unfolding share_def using rd_nonneg [OF Tw0] by simp
qed

end

interpretation double: rounding rnd
  by unfold_locales (rule rnd_error rnd_near_int rnd_mono; assumption)+

lemma float_of_int_exact: "0 \<le> n \<Longrightarrow> n < 2 ^ 52 \<Longrightarrow> float_of_int n = of_int n"
  unfolding float_of_int_def by (rule double.rd_int)

lemma py_int_nonneg: "0 \<le> x \<Longrightarrow> py_int x = \<lfloor>x\<rfloor>"
  by (simp add: py_int_def)

lemma int_fmul_eq: "0 \<le> n \<Longrightarrow> n < 2 ^ 52 \<Longrightarrow> int_fmul n w = rnd (of_int n * w)"
  by (simp add: int_fmul_def float_of_int_exact)

end
