(* ===== verification/Rules.thy ===== *)
theory Rules
  imports World PyFloat
begin

text \<open>
  app/modules/decision_engine/rules.py: the rules a usage event is checked against, in their order
  of priority, and the weighted cost of the event.  Weights and ratios are floats; the lemmas show
  that every float comparison and truncation of the module is the integer one it stands for.
\<close>

section \<open>Data\<close>

datatype action = Allow | Warn | Block

record RuleContext =
  ctx_device_id :: string
  ctx_user_id :: string
  ctx_app_category :: string
  ctx_duration_seconds :: int
  ctx_remaining_seconds :: int
  ctx_device_priority :: int
  ctx_timestamp :: instant

record RuleResult =
  res_action :: action
  res_reason :: string
  res_metadata :: dict

definition CATEGORY_WEIGHT :: "(string \<times> rat) list" where
  "CATEGORY_WEIGHT =
     [(''productivity'', float_lit (5 / 10)),
      (''active_social'', float_lit (8 / 10)),
      (''passive_social'', float_lit 1),
      (''entertainment'', float_lit (12 / 10)),
      (''passive_entertainment'', float_lit (15 / 10)),
      (''unknown'', float_lit 1)]"

text \<open>\<open>CATEGORY_WEIGHT.get(category, 1.0)\<close>\<close>

definition category_weight :: "string \<Rightarrow> rat" where
  "category_weight c = (case map_of CATEGORY_WEIGHT c of Some x \<Rightarrow> x | None \<Rightarrow> float_lit 1)"

definition BEDTIME_START :: int where "BEDTIME_START = clock_time 22 0"
definition BEDTIME_END :: int where "BEDTIME_END = clock_time 6 0"
definition FOCUS_START :: int where "FOCUS_START = clock_time 9 0"
definition FOCUS_END :: int where "FOCUS_END = clock_time 12 0"

definition is_bedtime :: "instant \<Rightarrow> bool" where
  "is_bedtime ts =
     (let t = time_of_day ts
      in if BEDTIME_START \<le> BEDTIME_END then BEDTIME_START \<le> t \<and> t \<le> BEDTIME_END
         else BEDTIME_START \<le> t \<or> t \<le> BEDTIME_END)"

definition is_focus_hours :: "instant \<Rightarrow> bool" where
  "is_focus_hours ts = (let t = time_of_day ts in FOCUS_START \<le> t \<and> t \<le> FOCUS_END)"

definition WARN_THRESHOLD_SECONDS :: int where "WARN_THRESHOLD_SECONDS = 600"
definition BLOCK_THRESHOLD_SECONDS :: int where "BLOCK_THRESHOLD_SECONDS = 0"

section \<open>The rules\<close>

definition rule_bedtime_block :: "RuleContext \<Rightarrow> RuleResult option" where
  "rule_bedtime_block ctx =
     (if is_bedtime (ctx_timestamp ctx) \<and> ctx_app_category ctx \<noteq> ''productivity''
      then Some \<lparr> res_action = Block, res_reason = ''bedtime_policy'',
        res_metadata = [(''bedtime_start'', JStr ''22:00:00''), (''bedtime_end'', JStr ''06:00:00'')] \<rparr>
      else None)"

definition rule_focus_hours :: "RuleContext \<Rightarrow> RuleResult option" where
  "rule_focus_hours ctx =
     (if is_focus_hours (ctx_timestamp ctx) \<and>
         ctx_app_category ctx \<in> {''entertainment'', ''passive_entertainment'', ''passive_social''}
      then Some \<lparr> res_action = Block, res_reason = ''focus_hours_policy'',
        res_metadata = [(''focus_start'', JStr ''09:00:00''), (''focus_end'', JStr ''12:00:00'')] \<rparr>
      else None)"

definition rule_budget_exhausted :: "RuleContext \<Rightarrow> RuleResult option" where
  "rule_budget_exhausted ctx =
     (if ctx_remaining_seconds ctx \<le> BLOCK_THRESHOLD_SECONDS
      then Some \<lparr> res_action = Block, res_reason = ''budget_exhausted'',
        res_metadata = [(''remaining_seconds'', JInt (ctx_remaining_seconds ctx))] \<rparr>
      else None)"

definition rule_budget_warning :: "RuleContext \<Rightarrow> RuleResult option" where
  "rule_budget_warning ctx =
     (if BLOCK_THRESHOLD_SECONDS < ctx_remaining_seconds ctx \<and>
         ctx_remaining_seconds ctx \<le> WARN_THRESHOLD_SECONDS
      then Some \<lparr> res_action = Warn, res_reason = ''budget_low'',
        res_metadata = [(''remaining_seconds'', JInt (ctx_remaining_seconds ctx))] \<rparr>
      else None)"

definition rule_high_cost_category :: "RuleContext \<Rightarrow> RuleResult option" where
  "rule_high_cost_category ctx =
     (let weight = category_weight (ctx_app_category ctx);
          effective_cost = py_int (int_fmul (ctx_duration_seconds ctx) weight)
      in if 0 < ctx_remaining_seconds ctx then
           (let cost_ratio = int_truediv effective_cost (ctx_remaining_seconds ctx)
            in if float_lit (20 / 100) < cost_ratio
               then Some \<lparr> res_action = Warn, res_reason = ''high_cost_session'',
                 res_metadata = [(''category'', JStr (ctx_app_category ctx)),
                   (''effective_cost_seconds'', JInt effective_cost),
                   (''cost_ratio'', JReal (py_round cost_ratio 2))] \<rparr>
               else None)
         else None)"

definition RULES :: "(RuleContext \<Rightarrow> RuleResult option) list" where
  "RULES = [rule_bedtime_block, rule_focus_hours, rule_budget_exhausted, rule_budget_warning,
     rule_high_cost_category]"

text \<open>The loop of \<open>evaluate_rules\<close>: the first result that is not \<open>None\<close>.\<close>

fun first_result :: "('c \<Rightarrow> 'r option) list \<Rightarrow> 'c \<Rightarrow> 'r option" where
  "first_result [] ctx = None"
| "first_result (rule_fn # rest) ctx =
     (case rule_fn ctx of None \<Rightarrow> first_result rest ctx | Some r \<Rightarrow> Some r)"

definition evaluate_rules :: "RuleContext \<Rightarrow> RuleResult" where
  "evaluate_rules ctx =
     (case first_result RULES ctx of
        Some r \<Rightarrow> r
      | None \<Rightarrow> \<lparr> res_action = Allow, res_reason = ''all_rules_passed'', res_metadata = [] \<rparr>)"

definition effective_cost :: "string \<Rightarrow> int \<Rightarrow> int" where
  "effective_cost app_category raw_seconds =
     py_int (int_fmul raw_seconds (category_weight app_category))"

section \<open>Prioritised rules\<close>

text \<open>The contract of a rule table: the first rule that fires decides, else the default.\<close>

locale rule_table =
  fixes rules :: "('c \<Rightarrow> 'r option) list" and fallback :: 'r and decide :: "'c \<Rightarrow> 'r"
  assumes decide_eq:
    "decide c = (case first_result rules c of None \<Rightarrow> fallback | Some r \<Rightarrow> r)"
begin

lemma first_result_index:
  "i < length rs \<Longrightarrow> (\<And>j. j < i \<Longrightarrow> (rs ! j) c = None) \<Longrightarrow> (rs ! i) c = Some r \<Longrightarrow>
     first_result rs c = Some r"
proof (induction rs arbitrary: i)
  case (Cons f rs)
  show ?case
  proof (cases i)
    case 0
    with Cons.prems show ?thesis by simp
  next
    case (Suc k)
    have "f c = None" using Cons.prems(2) [of 0] Suc by simp
    moreover have "(rs ! j) c = None" if "j < k" for j
      using Cons.prems(2) [of "Suc j"] Suc that by simp
    then have "first_result rs c = Some r"
      using Cons.prems Suc by (intro Cons.IH [of k]) auto
    ultimately show ?thesis by simp
  qed
qed simp

lemma decided_by:
  "i < length rules \<Longrightarrow> (\<And>j. j < i \<Longrightarrow> (rules ! j) c = None) \<Longrightarrow> (rules ! i) c = Some r \<Longrightarrow>
     decide c = r"
  by (simp add: decide_eq first_result_index)

lemma first_result_None: "first_result rs c = None \<longleftrightarrow> (\<forall>f \<in> set rs. f c = None)"
  by (induction rs) (auto split: option.splits)

lemma default_decision: "(\<And>f. f \<in> set rules \<Longrightarrow> f c = None) \<Longrightarrow> decide c = fallback"
  using first_result_None [of rules c] by (simp add: decide_eq)

lemma first_result_Some: "first_result rs c = Some r \<Longrightarrow> \<exists>f \<in> set rs. f c = Some r"
  by (induction rs) (auto split: option.splits)

lemma decision_source: "decide c = fallback \<or> (\<exists>f \<in> set rules. f c = Some (decide c))"
  using first_result_Some [of rules c] by (auto simp: decide_eq split: option.splits)

end

interpretation screen_rules: rule_table RULES
    "\<lparr> res_action = Allow, res_reason = ''all_rules_passed'', res_metadata = [] \<rparr>" evaluate_rules
  by unfold_locales (simp add: evaluate_rules_def split: option.splits)

section \<open>Costs are integer arithmetic\<close>

text \<open>The weight of a category as a fraction.\<close>

definition weight_fraction :: "string \<Rightarrow> int \<times> int" where
  "weight_fraction c =
     (if c = ''productivity'' then (1, 2)
      else if c = ''active_social'' then (4, 5)
      else if c = ''entertainment'' then (6, 5)
      else if c = ''passive_entertainment'' then (3, 2)
      else (1, 1))"

lemma weight_literals:
  "float_lit (1 / 2) = 1 / 2"
  "float_lit (4 / 5) = 3602879701896397 / 4503599627370496"
  "float_lit 1 = 1"
  "float_lit (6 / 5) = 5404319552844595 / 4503599627370496"
  "float_lit (3 / 2) = 3 / 2"
  by code_simp+

lemma category_weight_cases:
  "category_weight c =
     (if c = ''productivity'' then 1 / 2
      else if c = ''active_social'' then 3602879701896397 / 4503599627370496
      else if c = ''entertainment'' then 5404319552844595 / 4503599627370496
      else if c = ''passive_entertainment'' then 3 / 2
      else 1)"
  by (simp add: category_weight_def CATEGORY_WEIGHT_def weight_literals)

lemma weight_close:
  assumes "weight_fraction c = (p, q)"
  shows "0 < category_weight c" "0 < p" "0 < q" "q \<le> 64" "p \<le> 6"
    "\<bar>category_weight c - of_int p / of_int q\<bar> \<le> category_weight c / 2 ^ 54"
  using assms by (auto simp: weight_fraction_def category_weight_cases split: if_splits)

lemma effective_cost_integer:
  assumes "0 \<le> n" "n < 2 ^ 40" and f: "weight_fraction c = (p, q)"
  shows "effective_cost c n = n * p div q"
proof -
  note w = weight_close [OF f]
  have "n * p \<le> n * 6" using w assms(1) by (intro mult_left_mono) auto
  also have "\<dots> < 2 ^ 45 * 1" using assms(2) by simp
  also have "\<dots> \<le> 2 ^ 45 * q" using w by (intro mult_left_mono) auto
  finally have np: "n * p < 2 ^ 45 * q" .
  have fm: "int_fmul n (category_weight c) = rnd (of_int n * category_weight c)"
    using assms by (intro int_fmul_eq) auto
  moreover have "0 \<le> rnd (of_int n * category_weight c)"
    using w assms by (intro rnd_nonneg) auto
  ultimately have "effective_cost c n = \<lfloor>rnd (of_int n * category_weight c)\<rfloor>"
    by (simp add: effective_cost_def py_int_nonneg)
  also have "\<dots> = n * p div q"
    using assms(1) np w by (intro double.floor_scaled) auto
  finally show ?thesis .
qed

lemma high_cost_integer:
  assumes "0 \<le> cost" "0 < rem" "rem < 2 ^ 40"
  shows "float_lit (20 / 100) < int_truediv cost rem \<longleftrightarrow> rem < 5 * cost"
  using double.greater_threshold [of cost rem 1 5] assms
  by (simp add: float_lit_def int_truediv_def mult.commute)

lemma effective_cost_nonneg: "0 \<le> n \<Longrightarrow> n < 2 ^ 40 \<Longrightarrow> 0 \<le> effective_cost c n"
  using weight_close [of c "fst (weight_fraction c)" "snd (weight_fraction c)"]
  by (simp add: effective_cost_integer [of n c "fst (weight_fraction c)" "snd (weight_fraction c)"]
      div_int_pos_iff)

text \<open>
  The weighted cost of a session, computed by the code with binary floating point (the weights
  0.8 and 1.2 are not representable) and truncated, is exactly the integer quotient of the session
  length by the weight as a fraction, for every length below \<open>2 ^ 40\<close> seconds.
\<close>

theorem effective_cost_exact:
  assumes "0 \<le> raw" "raw < 2 ^ 40"
  shows "effective_cost c raw = raw * fst (weight_fraction c) div snd (weight_fraction c)"
  using effective_cost_integer [OF assms] by simp

theorem effective_cost_exact_witness:
  "effective_cost ''entertainment'' 12345 = 14814 \<and> effective_cost ''active_social'' 9 = 7"
  using effective_cost_exact [of 12345 "''entertainment''"] effective_cost_exact [of 9 "''active_social''"]
  by (simp add: weight_fraction_def)

section \<open>The decision\<close>

text \<open>
  The rules as a table over integers, which nothing in the code states: blocked at bedtime
  (unless productive), during focus hours (entertainment), and without budget; warned when the
  budget is low or the session would use more than a fifth of it; allowed otherwise.
\<close>

definition blocked :: "RuleContext \<Rightarrow> bool" where
  "blocked ctx \<longleftrightarrow>
     (is_bedtime (ctx_timestamp ctx) \<and> ctx_app_category ctx \<noteq> ''productivity'') \<or>
     (is_focus_hours (ctx_timestamp ctx) \<and> ctx_app_category ctx \<in>
        {''entertainment'', ''passive_entertainment'', ''passive_social''}) \<or>
     ctx_remaining_seconds ctx \<le> 0"

definition warned :: "RuleContext \<Rightarrow> bool" where
  "warned ctx \<longleftrightarrow> ctx_remaining_seconds ctx \<le> 600 \<or>
     ctx_remaining_seconds ctx < 5 * effective_cost (ctx_app_category ctx) (ctx_duration_seconds ctx)"

lemmas rule_defs = rule_bedtime_block_def rule_focus_hours_def rule_budget_exhausted_def
  rule_budget_warning_def rule_high_cost_category_def WARN_THRESHOLD_SECONDS_def
  BLOCK_THRESHOLD_SECONDS_def

lemma rule_actions:
  "rule_bedtime_block ctx = Some r \<Longrightarrow> res_action r = Block"
  "rule_focus_hours ctx = Some r \<Longrightarrow> res_action r = Block"
  "rule_budget_exhausted ctx = Some r \<Longrightarrow> res_action r = Block"
  "rule_budget_warning ctx = Some r \<Longrightarrow> res_action r = Warn"
  "rule_high_cost_category ctx = Some r \<Longrightarrow> res_action r = Warn"
  by (auto simp: rule_defs Let_def split: if_splits)

definition in_bounds :: "RuleContext \<Rightarrow> bool" where
  "in_bounds ctx \<longleftrightarrow> 0 \<le> ctx_duration_seconds ctx \<and> ctx_duration_seconds ctx < 2 ^ 40 \<and>
     ctx_remaining_seconds ctx < 2 ^ 40"

lemma rule_fires:
  "rule_bedtime_block ctx \<noteq> None \<longleftrightarrow>
     is_bedtime (ctx_timestamp ctx) \<and> ctx_app_category ctx \<noteq> ''productivity''"
  "rule_focus_hours ctx \<noteq> None \<longleftrightarrow> is_focus_hours (ctx_timestamp ctx) \<and> ctx_app_category ctx \<in>
     {''entertainment'', ''passive_entertainment'', ''passive_social''}"
  "rule_budget_exhausted ctx \<noteq> None \<longleftrightarrow> ctx_remaining_seconds ctx \<le> 0"
  "rule_budget_warning ctx \<noteq> None \<longleftrightarrow> 0 < ctx_remaining_seconds ctx \<and> ctx_remaining_seconds ctx \<le> 600"
  by (auto simp: rule_defs)

lemma high_cost_fires:
  assumes "in_bounds ctx"
  shows "rule_high_cost_category ctx \<noteq> None \<longleftrightarrow> 0 < ctx_remaining_seconds ctx \<and>
    ctx_remaining_seconds ctx < 5 * effective_cost (ctx_app_category ctx) (ctx_duration_seconds ctx)"
proof -
  let ?cost = "effective_cost (ctx_app_category ctx) (ctx_duration_seconds ctx)"
  have "0 \<le> ?cost" using assms by (intro effective_cost_nonneg) (auto simp: in_bounds_def)
  then have "0 < ctx_remaining_seconds ctx \<Longrightarrow>
      float_lit (20 / 100) < int_truediv ?cost (ctx_remaining_seconds ctx) \<longleftrightarrow>
      ctx_remaining_seconds ctx < 5 * ?cost"
    using assms by (intro high_cost_integer) (auto simp: in_bounds_def)
  then show ?thesis
    by (auto simp: rule_high_cost_category_def effective_cost_def Let_def)
qed

lemma evaluate_rules_action:
  assumes "in_bounds ctx"
  shows "res_action (evaluate_rules ctx) =
    (if blocked ctx then Block else if warned ctx then Warn else Allow)"
proof (cases "blocked ctx")
  case True
  then consider "rule_bedtime_block ctx \<noteq> None" | "rule_focus_hours ctx \<noteq> None"
    | "rule_budget_exhausted ctx \<noteq> None"
    unfolding rule_fires blocked_def by blast
  then show ?thesis
    using True by cases
      (auto simp: evaluate_rules_def RULES_def dest: rule_actions split: option.splits)
next
  case False
  then have none: "rule_bedtime_block ctx = None" "rule_focus_hours ctx = None"
    "rule_budget_exhausted ctx = None" and pos: "0 < ctx_remaining_seconds ctx"
    using rule_fires(1-3) [of ctx] by (auto simp: blocked_def)
  have "warned ctx \<longleftrightarrow> rule_budget_warning ctx \<noteq> None \<or> rule_high_cost_category ctx \<noteq> None"
    unfolding rule_fires high_cost_fires [OF assms] warned_def using pos by auto
  then show ?thesis
    using False none
    by (auto simp: evaluate_rules_def RULES_def dest: rule_actions split: option.splits)
qed

text \<open>
  C10: What \<open>evaluate_rules\<close> decides, for every context within bounds: it blocks exactly when
  one of the three blocking conditions holds, warns exactly when none does and the budget is low
  or the session is expensive (a float ratio in the code, an integer comparison here), and allows
  otherwise.  A low budget is one of at most 600 seconds, as the rule tests it; the comment at the
  threshold (warn below ten minutes) would leave out exactly 600.
\<close>

theorem evaluate_rules_table:
  assumes "in_bounds ctx"
  shows "res_action (evaluate_rules ctx) =
    (if blocked ctx then Block else if warned ctx then Warn else Allow)"
  using assms by (rule evaluate_rules_action)

text \<open>A context at an instant, for evaluation.\<close>

definition context_at :: "instant \<Rightarrow> string \<Rightarrow> int \<Rightarrow> int \<Rightarrow> RuleContext" where
  "context_at t cat dur rest =
     \<lparr> ctx_device_id = ''p'', ctx_user_id = ''a'', ctx_app_category = cat,
       ctx_duration_seconds = dur, ctx_remaining_seconds = rest, ctx_device_priority = 5,
       ctx_timestamp = t \<rparr>"

lemmas clock_defs = BEDTIME_START_def BEDTIME_END_def FOCUS_START_def FOCUS_END_def clock_time_def
  is_bedtime_def is_focus_hours_def time_of_day_def day_usec_def usec_def

theorem evaluate_rules_table_witness:
  "res_action (evaluate_rules (context_at (clock_time 15 0) ''entertainment'' 3600 7200)) = Warn \<and>
   res_action (evaluate_rules (context_at (clock_time 23 0) ''productivity'' 60 7200)) = Allow"
proof -
  have b: "in_bounds (context_at t c d r)" if "0 \<le> d" "d < 10000" "r < 10000" for t c d r
    using that by (simp add: in_bounds_def context_at_def)
  have cost: "effective_cost ''entertainment'' 3600 = 4320" "effective_cost ''productivity'' 60 = 30"
    by (simp_all add: effective_cost_integer [of _ _ 6 5] effective_cost_integer [of _ _ 1 2]
        weight_fraction_def)
  show ?thesis
    using evaluate_rules_table [OF b, of 3600 7200 "clock_time 15 0" "''entertainment''"]
      evaluate_rules_table [OF b, of 60 7200 "clock_time 23 0" "''productivity''"]
    by (simp add: blocked_def warned_def context_at_def clock_defs cost)
qed

text \<open>How strict an action is.\<close>

fun severity :: "action \<Rightarrow> nat" where
  "severity Allow = 0"
| "severity Warn = 1"
| "severity Block = 2"

text \<open>
  Less remaining budget never makes the decision more lenient: for the same event, the
  action with the smaller remaining time is at least as strict.
\<close>

theorem rules_monotone_in_budget:
  assumes "in_bounds ctx" "rest \<le> ctx_remaining_seconds ctx"
  shows "severity (res_action (evaluate_rules ctx)) \<le>
    severity (res_action (evaluate_rules (ctx\<lparr>ctx_remaining_seconds := rest\<rparr>)))"
proof -
  let ?less = "ctx\<lparr>ctx_remaining_seconds := rest\<rparr>"
  have "in_bounds ?less" using assms by (simp add: in_bounds_def)
  moreover have "blocked ctx \<Longrightarrow> blocked ?less" "warned ctx \<Longrightarrow> warned ?less"
    using assms(2) by (auto simp: blocked_def warned_def)
  ultimately show ?thesis using assms(1) by (auto simp: evaluate_rules_action)
qed

theorem rules_monotone_in_budget_witness:
  "severity (res_action (evaluate_rules (context_at (clock_time 15 0) ''other'' 60 7200))) \<le>
     severity (res_action (evaluate_rules (context_at (clock_time 15 0) ''other'' 60 0)))"
  using rules_monotone_in_budget [of "context_at (clock_time 15 0) ''other'' 60 7200" 0]
  by (simp add: in_bounds_def context_at_def)

end
