(* ===== verification/Budgets.thy ===== *)
theory Budgets
  imports Devices Rules
begin

text \<open>
  app/modules/decision_engine/budget.py: the daily budget of a device, its creation, its reads
  (through the cache), the deduction of usage, the grant of extra time and the redistribution of
  unspent time between the devices of a user.

  The three writers end with \<open>redis_client.delete(key)\<close>, a method the wrapper does not have.  They
  are defined here for an arbitrary \<open>invalidate\<close> in its place, and once more, under the source's
  name, with the call the code makes (\<^const>\<open>rc_delete\<close>).
\<close>

section \<open>Definitions\<close>

definition DEFAULT_DAILY_BUDGET_SECONDS :: int where
  "DEFAULT_DAILY_BUDGET_SECONDS = 2 * 3600"

definition priority_adjusted_budget :: "int \<Rightarrow> int" where
  "priority_adjusted_budget priority =
     (let base = DEFAULT_DAILY_BUDGET_SECONDS; bonus_per_point = 720
      in base + (priority - 1) * bonus_per_point)"

definition budget_cache_key :: "string \<Rightarrow> int \<Rightarrow> string" where
  "budget_cache_key device_id target_date = ''budget:'' @ device_id @ '':'' @ iso_date target_date"

definition budget_to_dict :: "Budget \<Rightarrow> dict" where
  "budget_to_dict budget =
     [(''id'', JStr (bud_id budget)),
      (''device_id'', JStr (bud_device_id budget)),
      (''date'', JStr (iso_date (bud_date budget))),
      (''total_budget_seconds'', JInt (bud_total budget)),
      (''used_seconds'', JInt (bud_used budget)),
      (''remaining_seconds'', JInt (max 0 (bud_total budget - bud_used budget))),
      (''rebalanced_at'', case bud_rebalanced_at budget of
         None \<Rightarrow> JNull | Some t \<Rightarrow> JTime t)]"

subsection \<open>Initialisation\<close>

text \<open>One iteration: a device that has no row for the date gets one.\<close>

definition initialise_budget :: "int \<Rightarrow> Device \<Rightarrow> dict list handler" where
  "initialise_budget target_date device =
     bindE (select_one budgets (\<lambda>b. bud_device_id b = dev_id device \<and> bud_date b = target_date))
       (\<lambda>existing. case existing of
          Some _ \<Rightarrow> ret []
        | None \<Rightarrow>
            bindE now_utc (\<lambda>t.
            bindE uuid4 (\<lambda>i.
              let budget = \<lparr> bud_id = i, bud_device_id = dev_id device, bud_date = target_date,
                    bud_total = priority_adjusted_budget (dev_priority device), bud_used = 0,
                    bud_rebalanced_at = None, bud_created_at = t \<rparr>
              in andThen (add_budget budget)
                (ret [[(''device_id'', JStr (dev_id device)),
                       (''total_budget_seconds'', JInt (bud_total budget))]]))))"

definition initialise_daily_budgets :: "string \<Rightarrow> int \<Rightarrow> dict list handler" where
  "initialise_daily_budgets user_id target_date =
     bindE (select_where devices (\<lambda>d. dev_user_id d = user_id \<and> dev_is_online d)) (\<lambda>rows.
     bindE (forEach (initialise_budget target_date) rows) (\<lambda>created.
       andThen commit (ret (concat created))))"

subsection \<open>Reads\<close>

definition get_budget :: "string \<Rightarrow> int \<Rightarrow> pyval handler" where
  "get_budget device_id target_date =
     bindE (rc_get (budget_cache_key device_id target_date)) (\<lambda>cached.
       if truthy cached then ret cached
       else bindE (select_one budgets (\<lambda>b. bud_device_id b = device_id \<and> bud_date b = target_date))
         (\<lambda>row. case row of
            None \<Rightarrow> ret VNone
          | Some budget \<Rightarrow>
              (let data = VDict (budget_to_dict budget)
               in andThen (rc_set (budget_cache_key device_id target_date) data (Some 300))
                    (ret data))))"

text \<open>\<open>v[key]\<close>, and the difference of two such items: a \<open>str\<close> has no string indices.\<close>

definition py_item :: "pyval \<Rightarrow> string \<Rightarrow> json result" where
  "py_item v key =
     (case v of
        VDict d \<Rightarrow> (case map_of d key of None \<Rightarrow> Inl (KeyError key) | Some x \<Rightarrow> Inr x)
      | _ \<Rightarrow> Inl (TypeError ''subscript''))"

definition json_int :: "json \<Rightarrow> int result" where
  "json_int j = (case j of JInt n \<Rightarrow> Inr n | _ \<Rightarrow> Inl (TypeError ''int''))"

definition int_item :: "pyval \<Rightarrow> string \<Rightarrow> int handler" where
  "int_item v key = bindE (lift (py_item v key)) (\<lambda>j. lift (json_int j))"

definition get_remaining_seconds :: "string \<Rightarrow> int \<Rightarrow> int handler" where
  "get_remaining_seconds device_id target_date =
     bindE (get_budget device_id target_date) (\<lambda>budget.
       if budget = VNone then ret 0
       else bindE (int_item budget ''total_budget_seconds'') (\<lambda>total.
            bindE (int_item budget ''used_seconds'') (\<lambda>used. ret (max 0 (total - used)))))"

subsection \<open>Writes\<close>

definition record_usage_with ::
    "(string \<Rightarrow> unit handler) \<Rightarrow> string \<Rightarrow> int \<Rightarrow> int \<Rightarrow> pyval handler" where
  "record_usage_with invalidate device_id seconds target_date =
     andThen (update_where budgets_update
         (\<lambda>b. bud_device_id b = device_id \<and> bud_date b = target_date)
         (\<lambda>b. b\<lparr>bud_used := bud_used b + seconds\<rparr>))
     (andThen commit
     (andThen (invalidate (budget_cache_key device_id target_date))
       (get_budget device_id target_date)))"

definition grant_extra_time_with ::
    "(string \<Rightarrow> unit handler) \<Rightarrow> string \<Rightarrow> int \<Rightarrow> int \<Rightarrow> pyval handler" where
  "grant_extra_time_with invalidate device_id extra_seconds target_date =
     andThen (update_where budgets_update
         (\<lambda>b. bud_device_id b = device_id \<and> bud_date b = target_date)
         (\<lambda>b. b\<lparr>bud_total := bud_total b + extra_seconds\<rparr>))
     (andThen commit
     (andThen (invalidate (budget_cache_key device_id target_date))
       (get_budget device_id target_date)))"

text \<open>The join of the budgets of a date with the devices of a user.\<close>

definition budget_rows :: "string \<Rightarrow> int \<Rightarrow> db \<Rightarrow> (Budget \<times> Device) list" where
  "budget_rows user_id target_date d =
     [(b, x). b \<leftarrow> budgets d, x \<leftarrow> devices d,
        bud_device_id b = dev_id x \<and> dev_user_id x = user_id \<and> bud_date b = target_date]"

text \<open>
  One iteration of the loop: an exhausted budget is only stamped, another one gets its share of
  the pool.
\<close>

definition rebalance_row ::
    "(string \<Rightarrow> unit handler) \<Rightarrow> int \<Rightarrow> instant \<Rightarrow> int \<Rightarrow> int \<Rightarrow> Budget \<times> Device \<Rightarrow> dict list handler"
    where
  "rebalance_row invalidate target_date now total_pool total_priority = (\<lambda>(budget, device).
     if bud_total budget \<le> bud_used budget
     then andThen (update_where budgets_update (\<lambda>b. bud_id b = bud_id budget)
            (\<lambda>b. b\<lparr>bud_rebalanced_at := Some now\<rparr>))
          (ret [])
     else if total_priority = 0 then raise ZeroDivisionError
     else
       (let share = py_int (int_fmul total_pool (int_truediv (dev_priority device) total_priority));
            new_total = bud_used budget + share
        in andThen (update_where budgets_update (\<lambda>b. bud_id b = bud_id budget)
              (\<lambda>b. b\<lparr>bud_total := new_total, bud_rebalanced_at := Some now\<rparr>))
           (andThen (invalidate (budget_cache_key (dev_id device) target_date))
             (ret [[(''device_id'', JStr (dev_id device)),
                    (''new_total_budget_seconds'', JInt new_total)]]))))"

definition rebalance_budgets_with ::
    "(string \<Rightarrow> unit handler) \<Rightarrow> string \<Rightarrow> int \<Rightarrow> dict list handler" where
  "rebalance_budgets_with invalidate user_id target_date =
     bindE (readS (\<lambda>w. budget_rows user_id target_date (working w))) (\<lambda>rows.
       if rows = [] then ret []
       else
         (let total_pool = sum_list (map (\<lambda>(b, _). max 0 (bud_total b - bud_used b)) rows);
              total_priority = sum_list (map (\<lambda>(_, x). dev_priority x) rows)
          in bindE now_utc (\<lambda>now.
             bindE (forEach (rebalance_row invalidate target_date now total_pool total_priority) rows)
               (\<lambda>updated. andThen commit (ret (concat updated))))))"

definition record_usage :: "string \<Rightarrow> int \<Rightarrow> int \<Rightarrow> pyval handler" where
  "record_usage = record_usage_with rc_delete"

definition grant_extra_time :: "string \<Rightarrow> int \<Rightarrow> int \<Rightarrow> pyval handler" where
  "grant_extra_time = grant_extra_time_with rc_delete"

definition rebalance_budgets :: "string \<Rightarrow> int \<Rightarrow> dict list handler" where
  "rebalance_budgets = rebalance_budgets_with rc_delete"

section \<open>Creating the rows of a day\<close>

text \<open>The rows \<open>initialise_daily_budgets\<close> adds, as a function of the tables.\<close>

definition new_budget :: "string \<Rightarrow> instant \<Rightarrow> int \<Rightarrow> Device \<Rightarrow> Budget" where
  "new_budget i t date x =
     \<lparr> bud_id = i, bud_device_id = dev_id x, bud_date = date,
       bud_total = priority_adjusted_budget (dev_priority x), bud_used = 0,
       bud_rebalanced_at = None, bud_created_at = t \<rparr>"

lemma new_budget_sel [simp]:
  "bud_id (new_budget i t date x) = i" "bud_device_id (new_budget i t date x) = dev_id x"
  "bud_date (new_budget i t date x) = date" "bud_used (new_budget i t date x) = 0"
  "bud_total (new_budget i t date x) = priority_adjusted_budget (dev_priority x)"
  "bud_rebalanced_at (new_budget i t date x) = None"
  by (simp_all add: new_budget_def)

fun created_rows ::
    "(nat \<Rightarrow> string) \<Rightarrow> nat \<Rightarrow> instant \<Rightarrow> int \<Rightarrow> Budget list \<Rightarrow> Device list \<Rightarrow> Budget list" where
  "created_rows ids n t date bs [] = []"
| "created_rows ids n t date bs (x # xs) =
     (if \<exists>b \<in> set bs. bud_device_id b = dev_id x \<and> bud_date b = date
      then created_rows ids n t date bs xs
      else new_budget (ids n) t date x #
        created_rows ids (Suc n) t date (bs @ [new_budget (ids n) t date x]) xs)"

declare created_rows.simps(2) [simp del]
lemmas created_rows_step = created_rows.simps(2)

lemma created_rows_cover:
  "x \<in> set xs \<Longrightarrow>
     \<exists>b \<in> set (bs @ created_rows ids n t date bs xs). bud_device_id b = dev_id x \<and> bud_date b = date"
proof (induction xs arbitrary: bs n)
  case (Cons y ys)
  show ?case
  proof (cases "\<exists>b \<in> set bs. bud_device_id b = dev_id y \<and> bud_date b = date")
    case True
    then show ?thesis using Cons by (auto simp: created_rows_step)
  next
    case False
    then show ?thesis using Cons.prems Cons.IH [of "bs @ [new_budget (ids n) t date y]" "Suc n"]
      by (auto simp: created_rows_step)
  qed
qed simp

lemma created_rows_fresh:
  "b \<in> set (created_rows ids n t date bs xs) \<Longrightarrow>
     bud_used b = 0 \<and> bud_date b = date \<and> bud_rebalanced_at b = None \<and>
     (\<exists>x \<in> set xs. bud_device_id b = dev_id x \<and> bud_total b = priority_adjusted_budget (dev_priority x))"
  by (induction xs arbitrary: bs n) (fastforce simp: created_rows_step split: if_splits)+

lemma created_rows_known:
  "(\<And>x. x \<in> set xs \<Longrightarrow> \<exists>b \<in> set bs. bud_device_id b = dev_id x \<and> bud_date b = date) \<Longrightarrow>
     created_rows ids n t date bs xs = []"
  by (induction xs) (auto simp: created_rows_step)

text \<open>The identifiers still to be drawn are new.\<close>

definition fresh_uuids :: "world \<Rightarrow> bool" where
  "fresh_uuids w \<longleftrightarrow> inj (uuids w) \<and>
     (\<forall>n \<ge> uuid_next w. uuids w n \<notin> bud_id ` set (budgets (working w)))"

definition row_summary :: "Budget \<Rightarrow> dict" where
  "row_summary b =
     [(''device_id'', JStr (bud_device_id b)), (''total_budget_seconds'', JInt (bud_total b))]"

lemma select_budget_run:
  assumes "db_wf (working w)"
  shows "\<exists>o'. select_one budgets (\<lambda>b. bud_device_id b = i \<and> bud_date b = t) w = (Inr o', w) \<and>
    (o' = None \<longleftrightarrow> \<not> (\<exists>b \<in> set (budgets (working w)). bud_device_id b = i \<and> bud_date b = t)) \<and>
    (\<forall>b. o' = Some b \<longrightarrow> b \<in> set (budgets (working w)) \<and> bud_device_id b = i \<and> bud_date b = t)"
proof -
  let ?p = "\<lambda>b. bud_device_id b = i \<and> bud_date b = t"
  let ?r = "scalar_one_or_none (filter ?p (budgets (working w)))"
  have "distinct (map (\<lambda>b. (bud_device_id b, bud_date b)) (budgets (working w)))"
    using assms by (simp add: db_wf_def)
  then have "\<exists>x. ?r = Inr x"
    by (rule scalar_not_multiple) simp
  then obtain x where x: "?r = Inr x" ..
  have "?r = Inr None \<longleftrightarrow> (\<forall>b \<in> set (budgets (working w)). \<not> ?p b)"
    by (rule scalar_None)
  then have none: "x = None \<longleftrightarrow> \<not> (\<exists>b \<in> set (budgets (working w)). ?p b)"
    unfolding x by simp
  have "b \<in> set (budgets (working w)) \<and> ?p b" if "x = Some b" for b
    using x unfolding that by (rule scalar_Some)
  with none show ?thesis
    by (intro exI [of _ x]) (simp add: select_one_run x)
qed

lemma initialise_budget_run:
  assumes wf: "world_wf w" and fresh: "fresh_uuids w" and dev: "x \<in> set (devices (working w))"
  shows "\<exists>new. created_rows (uuids w) (uuid_next w) (clock w) date (budgets (working w)) [x] = new \<and>
    initialise_budget date x w = (Inr (map row_summary new),
      w\<lparr>working := budgets_update (\<lambda>bs. bs @ new) (working w), uuid_next := uuid_next w + length new\<rparr>) \<and>
    world_wf (snd (initialise_budget date x w)) \<and> fresh_uuids (snd (initialise_budget date x w))"
proof -
  let ?has = "\<exists>b \<in> set (budgets (working w)). bud_device_id b = dev_id x \<and> bud_date b = date"
  obtain o' where sel: "select_one budgets (\<lambda>b. bud_device_id b = dev_id x \<and> bud_date b = date) w = (Inr o', w)"
    and none: "o' = None \<longleftrightarrow> \<not> ?has"
    using select_budget_run [of w "dev_id x" date] wf by (auto simp: world_wf_def)
  show ?thesis
  proof (cases ?has)
    case True
    then obtain b where "o' = Some b" using none by (cases o') auto
    then show ?thesis using True wf fresh sel
      by (simp add: initialise_budget_def bindE_run fresh_uuids_def created_rows_step)
  next
    case False
    then have o: "o' = None" using none by simp
    let ?b = "new_budget (uuids w (uuid_next w)) (clock w) date x"
    have new: "created_rows (uuids w) (uuid_next w) (clock w) date (budgets (working w)) [x] = [?b]"
      using False by (simp add: created_rows_step)
    have id: "uuids w (uuid_next w) \<notin> bud_id ` set (budgets (working w))"
      using fresh by (simp add: fresh_uuids_def)
    have run: "initialise_budget date x w = (Inr [row_summary ?b],
        w\<lparr>working := budgets_update (\<lambda>bs. bs @ [?b]) (working w), uuid_next := Suc (uuid_next w)\<rparr>)"
      using False id o sel
      by (auto simp: initialise_budget_def bindE_run andThen_def Let_def add_budget_def add_row_def
          list_ex_iff row_summary_def new_budget_def)
    have step: "world_wf (w\<lparr>working := budgets_update (\<lambda>bs. bs @ [?b]) (working w), uuid_next := Suc (uuid_next w)\<rparr>)"
      using wf id False dev by (auto simp: world_wf_def db_wf_def)
    have "fresh_uuids (w\<lparr>working := budgets_update (\<lambda>bs. bs @ [?b]) (working w), uuid_next := Suc (uuid_next w)\<rparr>)"
      using fresh by (auto simp: fresh_uuids_def dest: injD)
    with run step show ?thesis unfolding new by simp
  qed
qed

lemma created_rows_Cons:
  "created_rows ids n t date bs [x] = new \<Longrightarrow>
     created_rows ids n t date bs (x # xs) =
       new @ created_rows ids (n + length new) t date (bs @ new) xs"
  by (cases "\<exists>b \<in> set bs. bud_device_id b = dev_id x \<and> bud_date b = date")
    (auto simp: created_rows_step)

lemma initialise_loop:
  assumes "world_wf w" "fresh_uuids w" "set xs \<subseteq> set (devices (working w))"
  shows "\<exists>css. forEach (initialise_budget date) xs w = (Inr css,
      w\<lparr>working := budgets_update (\<lambda>bs. bs @ created_rows (uuids w) (uuid_next w) (clock w) date (budgets (working w)) xs) (working w),
        uuid_next := uuid_next w +
          length (created_rows (uuids w) (uuid_next w) (clock w) date (budgets (working w)) xs)\<rparr>) \<and>
    concat css = map row_summary (created_rows (uuids w) (uuid_next w) (clock w) date (budgets (working w)) xs) \<and>
    world_wf (snd (forEach (initialise_budget date) xs w))"
  using assms
proof (induction xs arbitrary: w)
  case Nil
  then show ?case by simp
next
  case (Cons x xs)
  define new where "new = created_rows (uuids w) (uuid_next w) (clock w) date (budgets (working w)) [x]"
  define w1 where "w1 = w\<lparr>working := budgets_update (\<lambda>bs. bs @ new) (working w), uuid_next := uuid_next w + length new\<rparr>"
  have one: "initialise_budget date x w = (Inr (map row_summary new), w1)" "world_wf w1" "fresh_uuids w1"
    using initialise_budget_run [of w x date, folded new_def] Cons.prems
    by (auto simp: w1_def)
  have "set xs \<subseteq> set (devices (working w1))" using Cons.prems by (simp add: w1_def)
  from Cons.IH [OF one(2,3) this] obtain css where rest: "forEach (initialise_budget date) xs w1 = (Inr css,
      w1\<lparr>working := budgets_update (\<lambda>bs. bs @ created_rows (uuids w1) (uuid_next w1) (clock w1) date (budgets (working w1)) xs) (working w1),
        uuid_next := uuid_next w1 +
          length (created_rows (uuids w1) (uuid_next w1) (clock w1) date (budgets (working w1)) xs)\<rparr>)"
    "concat css = map row_summary (created_rows (uuids w1) (uuid_next w1) (clock w1) date (budgets (working w1)) xs)"
    "world_wf (snd (forEach (initialise_budget date) xs w1))"
    by blast
  let ?all = "created_rows (uuids w) (uuid_next w) (clock w) date (budgets (working w)) (x # xs)"
  let ?tail = "created_rows (uuids w1) (uuid_next w1) (clock w1) date (budgets (working w1)) xs"
  have all: "?all = new @ ?tail"
    using created_rows_Cons [OF new_def [symmetric]] by (simp add: w1_def)
  have run: "forEach (initialise_budget date) (x # xs) w = (Inr (map row_summary new # css),
      w\<lparr>working := budgets_update (\<lambda>bs. bs @ ?all) (working w), uuid_next := uuid_next w + length ?all\<rparr>)"
    using one(1) rest(1) unfolding all by (simp add: bindE_run w1_def)
  have cat: "concat (map row_summary new # css) = map row_summary ?all"
    using rest(2) unfolding all by simp
  have "world_wf (snd (forEach (initialise_budget date) (x # xs) w))"
    using one(1) rest(1,3) by (simp add: bindE_run)
  with run cat show ?case by (intro exI [of _ "map row_summary new # css"]) simp
qed

lemma initialise_run:
  fixes u :: string and date :: int
  assumes "world_wf w" "fresh_uuids w"
  defines "new \<equiv> created_rows (uuids w) (uuid_next w) (clock w) date (budgets (working w))
    (filter (\<lambda>d. dev_user_id d = u \<and> dev_is_online d) (devices (working w)))"
  defines "d' \<equiv> budgets_update (\<lambda>bs. bs @ new) (working w)"
  shows "initialise_daily_budgets u date w =
      (Inr (map row_summary new),
       w\<lparr>working := d', committed := d', uuid_next := uuid_next w + length new\<rparr>)"
    and "db_wf d'"
proof -
  let ?xs = "filter (\<lambda>d. dev_user_id d = u \<and> dev_is_online d) (devices (working w))"
  have "set ?xs \<subseteq> set (devices (working w))" by auto
  from initialise_loop [OF assms(1,2) this, of date, folded new_def, folded d'_def] obtain css
    where loop: "forEach (initialise_budget date) ?xs w =
        (Inr css, w\<lparr>working := d', uuid_next := uuid_next w + length new\<rparr>)"
      "concat css = map row_summary new" "world_wf (snd (forEach (initialise_budget date) ?xs w))"
    by blast
  show "initialise_daily_budgets u date w = (Inr (map row_summary new),
       w\<lparr>working := d', committed := d', uuid_next := uuid_next w + length new\<rparr>)"
    using loop(1,2) by (simp add: initialise_daily_budgets_def bindE_run andThen_def)
  show "db_wf d'" using loop(1,3) by (simp add: world_wf_def)
qed

definition online_devices :: "string \<Rightarrow> db \<Rightarrow> Device set" where
  "online_devices u d = {x \<in> set (devices d). dev_user_id x = u \<and> dev_is_online x}"

text \<open>Devices that all have their row: the loop changes nothing.\<close>

lemma initialise_idle:
  assumes "db_wf (working w)"
    "\<And>x. x \<in> set xs \<Longrightarrow> \<exists>b \<in> set (budgets (working w)). bud_device_id b = dev_id x \<and> bud_date b = date"
  shows "\<exists>css. forEach (initialise_budget date) xs w = (Inr css, w) \<and> concat css = []"
  using assms(2)
proof (induction xs)
  case (Cons x xs)
  have "\<exists>b \<in> set (budgets (working w)). bud_device_id b = dev_id x \<and> bud_date b = date"
    by (rule Cons.prems) simp
  moreover obtain o' where
    "select_one budgets (\<lambda>b. bud_device_id b = dev_id x \<and> bud_date b = date) w = (Inr o', w)"
    "o' = None \<longleftrightarrow> \<not> (\<exists>b \<in> set (budgets (working w)). bud_device_id b = dev_id x \<and> bud_date b = date)"
    using select_budget_run [OF assms(1), of "dev_id x" date] by blast
  ultimately have one: "initialise_budget date x w = (Inr [], w)"
    by (cases o') (simp_all add: initialise_budget_def)
  have "\<exists>css. forEach (initialise_budget date) xs w = (Inr css, w) \<and> concat css = []"
    by (rule Cons.IH) (rule Cons.prems, simp)
  then obtain css where "forEach (initialise_budget date) xs w = (Inr css, w)" "concat css = []"
    by blast
  with one show ?case by (intro exI [of _ "[] # css"]) simp
qed simp

lemma initialise_idle_day:
  assumes "db_wf (working w)"
    "\<And>x. x \<in> online_devices u (working w) \<Longrightarrow>
       \<exists>b \<in> set (budgets (working w)). bud_device_id b = dev_id x \<and> bud_date b = date"
  shows "initialise_daily_budgets u date w = (Inr [], w\<lparr>committed := working w\<rparr>)"
proof -
  have "\<exists>css. forEach (initialise_budget date)
      (filter (\<lambda>d. dev_user_id d = u \<and> dev_is_online d) (devices (working w))) w = (Inr css, w) \<and> concat css = []"
    by (rule initialise_idle) (use assms in \<open>auto simp: online_devices_def\<close>)
  then obtain css where "forEach (initialise_budget date)
      (filter (\<lambda>d. dev_user_id d = u \<and> dev_is_online d) (devices (working w))) w = (Inr css, w)"
    "concat css = []" by blast
  then show ?thesis by (simp add: initialise_daily_budgets_def andThen_def)
qed

text \<open>
  C1: Creating the budgets of a day returns whatever the tables hold (given new identifiers from
  the generator), keeps every existing row, and commits exactly one row of the date for each
  online device of the user that had none: unused, and of 2 hours plus 12 minutes for each point
  of priority above 1.  Every online device has a row afterwards, the database stays well formed,
  and a second call on the result creates nothing.
\<close>

theorem initialise_budgets_once:
  assumes "world_wf w" "fresh_uuids w"
  shows "\<exists>new w'. initialise_daily_budgets u date w = (Inr (map row_summary new), w') \<and>
    budgets (committed w') = budgets (working w) @ new \<and> db_wf (committed w') \<and>
    (\<forall>b \<in> set new. bud_used b = 0 \<and> bud_date b = date \<and>
       (\<exists>x \<in> online_devices u (working w).
          bud_device_id b = dev_id x \<and> bud_total b = 7200 + 720 * (dev_priority x - 1))) \<and>
    (\<forall>x \<in> online_devices u (working w).
       \<exists>!b. b \<in> set (budgets (committed w')) \<and> bud_device_id b = dev_id x \<and> bud_date b = date) \<and>
    fst (initialise_daily_budgets u date w') = Inr [] \<and>
    budgets (committed (snd (initialise_daily_budgets u date w'))) = budgets (committed w')"
proof -
  let ?xs = "filter (\<lambda>d. dev_user_id d = u \<and> dev_is_online d) (devices (working w))"
  define new where "new = created_rows (uuids w) (uuid_next w) (clock w) date (budgets (working w)) ?xs"
  define d' where "d' = budgets_update (\<lambda>bs. bs @ new) (working w)"
  define w' where "w' = w\<lparr>working := d', committed := d', uuid_next := uuid_next w + length new\<rparr>"
  have run: "initialise_daily_budgets u date w = (Inr (map row_summary new), w')" and wf: "db_wf d'"
    using initialise_run [OF assms, where u = u and date = date] by (simp_all add: w'_def d'_def new_def)
  have rows: "\<forall>b \<in> set new. bud_used b = 0 \<and> bud_date b = date \<and>
       (\<exists>x \<in> online_devices u (working w).
          bud_device_id b = dev_id x \<and> bud_total b = 7200 + 720 * (dev_priority x - 1))"
    by (auto simp: new_def online_devices_def priority_adjusted_budget_def
        DEFAULT_DAILY_BUDGET_SECONDS_def dest!: created_rows_fresh)
  have cover: "\<exists>b \<in> set (budgets d'). bud_device_id b = dev_id x \<and> bud_date b = date"
    if "x \<in> set ?xs" for x
    using created_rows_cover [OF that] by (simp add: d'_def new_def)
  have key: "b = c" if "b \<in> set (budgets d')" "c \<in> set (budgets d')"
    "bud_device_id b = bud_device_id c" "bud_date b = bud_date c" for b c
    using wf that by (auto simp: db_wf_def distinct_map inj_on_def)
  have one: "\<forall>x \<in> online_devices u (working w).
       \<exists>!b. b \<in> set (budgets d') \<and> bud_device_id b = dev_id x \<and> bud_date b = date"
  proof
    fix x assume "x \<in> online_devices u (working w)"
    then have "x \<in> set ?xs" by (simp add: online_devices_def)
    from cover [OF this] obtain b
      where b: "b \<in> set (budgets d')" "bud_device_id b = dev_id x" "bud_date b = date" by blast
    show "\<exists>!b. b \<in> set (budgets d') \<and> bud_device_id b = dev_id x \<and> bud_date b = date"
      by (rule ex1I [of _ b]) (use b key in \<open>auto simp del: key\<close>)
  qed
  have "initialise_daily_budgets u date w' = (Inr [], w'\<lparr>committed := working w'\<rparr>)"
    by (rule initialise_idle_day)
      (use wf one in \<open>auto simp: w'_def d'_def online_devices_def\<close>)
  then have "fst (initialise_daily_budgets u date w') = Inr [] \<and>
      budgets (committed (snd (initialise_daily_budgets u date w'))) = budgets d'"
    by (simp add: w'_def)
  moreover have "committed w' = d'" by (simp add: w'_def)
  ultimately show ?thesis
    using run wf rows one by (intro exI [of _ new] exI [of _ w']) (simp add: d'_def)
qed

definition online_phone :: "User \<Rightarrow> string \<Rightarrow> int \<Rightarrow> Device" where
  "online_phone u i p = (phone_of u i)\<lparr>dev_priority := p, dev_is_online := True\<rparr>"

text \<open>A database with two online devices of one user.\<close>

definition family_db :: db where
  "family_db = empty_db\<lparr>users := [alice, bob],
     devices := [online_phone alice ''p'' 1, online_phone alice ''q'' 3]\<rparr>"

lemmas family_defs = family_db_def online_phone_def alice_def bob_def phone_of_def empty_db_def

lemma family_db_wf: "db_wf family_db"
  by (simp add: db_wf_def family_defs)

lemma ids_stream_inj: "inj ids_stream"
  by (auto simp: inj_def ids_stream_def dest: arg_cong [of _ _ length])

lemma sample_world_wf: "db_wf d \<Longrightarrow> world_wf (sample_world t d)"
  by (simp add: world_wf_def sample_world_def)

lemma sample_world_fresh: "budgets d = [] \<Longrightarrow> fresh_uuids (sample_world t d)"
  by (simp add: fresh_uuids_def sample_world_def ids_stream_inj)

theorem initialise_budgets_once_witness:
  "\<exists>new w'. initialise_daily_budgets ''a'' 3 (sample_world 0 family_db) = (Inr (map row_summary new), w') \<and>
    (\<exists>!b. b \<in> set (budgets (committed w')) \<and> bud_device_id b = ''q'' \<and> bud_date b = 3)"
proof -
  have wf: "world_wf (sample_world 0 family_db)" using family_db_wf by (rule sample_world_wf)
  have fresh: "fresh_uuids (sample_world 0 family_db)"
    by (rule sample_world_fresh) (simp add: family_defs)
  have q: "online_phone alice ''q'' 3 \<in> online_devices ''a'' (working (sample_world 0 family_db))"
    "dev_id (online_phone alice ''q'' 3) = ''q''"
    by (simp_all add: online_devices_def sample_world_def family_defs)
  from initialise_budgets_once [OF wf fresh, of "''a''" 3] q show ?thesis by metis
qed

section \<open>Invalidating the cache\<close>

text \<open>
  What the writers need of the call that drops a cached budget: it returns, and it does not touch
  the database.  The \<open>delete\<close> of the raw clients does; that of the wrapper does not exist.
\<close>

locale cache_invalidation =
  fixes invalidate :: "string \<Rightarrow> unit handler" and ready :: "redis_server \<Rightarrow> bool"
  assumes returns: "ready (server w) \<Longrightarrow> fst (invalidate k w) = Inr ()"
    and stays_ready: "ready (server w) \<Longrightarrow> ready (server (snd (invalidate k w)))"
    and leaves: "leaves_db (invalidate k)"
begin

lemma run: "ready (server w) \<Longrightarrow> \<exists>w'. invalidate k w = (Inr (), w') \<and> ready (server w') \<and>
    working w' = working w \<and> committed w' = committed w"
  by (metis leaves leaves_db_committed leaves_db_working prod.collapse returns stays_ready)

end

lemma srv_up_delete [simp]: "srv_up (srv_delete k s) = srv_up s"
  by (simp add: srv_delete_def)

interpretation null_cache: cache_invalidation "\<lambda>k. redis_delete NullRedis [k]" "\<lambda>_. True"
  by unfold_locales (simp_all add: redis_delete_def leaves_db_ret)

interpretation text_cache: cache_invalidation "\<lambda>k. redis_delete TextClient [k]" srv_up
  by unfold_locales (simp_all add: redis_delete_def at_server_up leaves_db_at_server)

section \<open>The rebalancer as a function of the rows\<close>

definition share_of :: "int \<Rightarrow> int \<Rightarrow> int \<Rightarrow> int" where
  "share_of total_pool total_priority priority =
     py_int (int_fmul total_pool (int_truediv priority total_priority))"

text \<open>What the loop does to the row \<open>c\<close> the pair \<open>(b, x)\<close> is about.\<close>

definition row_update :: "instant \<Rightarrow> int \<Rightarrow> int \<Rightarrow> Budget \<times> Device \<Rightarrow> Budget \<Rightarrow> Budget" where
  "row_update now pool prio r c =
     (if bud_total (fst r) \<le> bud_used (fst r) then c\<lparr>bud_rebalanced_at := Some now\<rparr>
      else c\<lparr>bud_total := bud_used (fst r) + share_of pool prio (dev_priority (snd r)),
             bud_rebalanced_at := Some now\<rparr>)"

definition rebalance_table ::
    "instant \<Rightarrow> int \<Rightarrow> int \<Rightarrow> (Budget \<times> Device) list \<Rightarrow> Budget \<Rightarrow> Budget" where
  "rebalance_table now pool prio rows c =
     (case map_of (map (\<lambda>r. (bud_id (fst r), r)) rows) (bud_id c) of
        None \<Rightarrow> c
      | Some r \<Rightarrow> row_update now pool prio r c)"

definition grant_summary :: "int \<Rightarrow> int \<Rightarrow> Budget \<times> Device \<Rightarrow> dict" where
  "grant_summary pool prio r =
     [(''device_id'', JStr (dev_id (snd r))),
      (''new_total_budget_seconds'', JInt (bud_used (fst r) + share_of pool prio (dev_priority (snd r))))]"

lemma row_update_keys [simp]:
  "bud_id (row_update t p q r c) = bud_id c" "bud_device_id (row_update t p q r c) = bud_device_id c"
  "bud_date (row_update t p q r c) = bud_date c" "bud_used (row_update t p q r c) = bud_used c"
  by (simp_all add: row_update_def)

lemma rebalance_table_keys [simp]:
  "bud_id (rebalance_table t p q rs c) = bud_id c"
  "bud_device_id (rebalance_table t p q rs c) = bud_device_id c"
  "bud_date (rebalance_table t p q rs c) = bud_date c"
  "bud_used (rebalance_table t p q rs c) = bud_used c"
  by (simp_all add: rebalance_table_def split: option.splits)

lemma rebalance_table_Nil [simp]: "rebalance_table t p q [] = (\<lambda>c. c)"
  by (simp add: rebalance_table_def fun_eq_iff)

lemma rebalance_table_Cons:
  "bud_id (fst r) \<notin> bud_id ` fst ` set rs \<Longrightarrow>
     rebalance_table t p q rs (if bud_id c = bud_id (fst r) then row_update t p q r c else c) =
     rebalance_table t p q (r # rs) c"
proof -
  assume "bud_id (fst r) \<notin> bud_id ` fst ` set rs"
  then have "map_of (map (\<lambda>r. (bud_id (fst r), r)) rs) (bud_id (fst r)) = None"
    by (auto simp: map_of_eq_None_iff image_iff)
  then show ?thesis by (auto simp: rebalance_table_def)
qed

context cache_invalidation
begin

lemma rebalance_row_run:
  assumes "ready (server w)" "prio \<noteq> 0"
  shows "\<exists>w'. rebalance_row invalidate date now pool prio r w =
      (Inr (if bud_total (fst r) \<le> bud_used (fst r) then [] else [grant_summary pool prio r]), w') \<and>
    ready (server w') \<and> committed w' = committed w \<and>
    working w' = budgets_update
      (map (\<lambda>c. if bud_id c = bud_id (fst r) then row_update now pool prio r c else c)) (working w)"
proof (cases "bud_total (fst r) \<le> bud_used (fst r)")
  case True
  then show ?thesis using assms
    by (cases r) (auto simp: rebalance_row_def andThen_def bindE_run update_where_def row_update_def
        cong: if_cong)
next
  case False
  let ?upd = "budgets_update
      (map (\<lambda>c. if bud_id c = bud_id (fst r) then row_update now pool prio r c else c)) (working w)"
  have "ready (server (w\<lparr>working := ?upd\<rparr>))" using assms by simp
  from run [OF this, of "budget_cache_key (dev_id (snd r)) date"] False assms(2) show ?thesis
    by (cases r) (auto simp: rebalance_row_def andThen_def bindE_run update_where_def row_update_def
        Let_def grant_summary_def share_of_def cong: if_cong)
qed

lemma rebalance_loop:
  assumes "ready (server w)" "prio \<noteq> 0" "distinct (map (bud_id \<circ> fst) rows)"
  shows "\<exists>us w'. forEach (rebalance_row invalidate date now pool prio) rows w = (Inr us, w') \<and>
    concat us = map (grant_summary pool prio) (filter (\<lambda>r. bud_used (fst r) < bud_total (fst r)) rows) \<and>
    ready (server w') \<and> committed w' = committed w \<and>
    working w' = budgets_update (map (rebalance_table now pool prio rows)) (working w)"
  using assms(1,3)
proof (induction rows arbitrary: w)
  case Nil
  then show ?case by simp
next
  case (Cons r rs)
  let ?u = "if bud_total (fst r) \<le> bud_used (fst r) then [] else [grant_summary pool prio r]"
  obtain w1 where one: "rebalance_row invalidate date now pool prio r w = (Inr ?u, w1)"
    "ready (server w1)" "committed w1 = committed w"
    "working w1 = budgets_update
      (map (\<lambda>c. if bud_id c = bud_id (fst r) then row_update now pool prio r c else c)) (working w)"
    using rebalance_row_run [OF Cons.prems(1) assms(2), of date now pool r] by blast
  obtain us w' where rest: "forEach (rebalance_row invalidate date now pool prio) rs w1 = (Inr us, w')"
    "concat us = map (grant_summary pool prio) (filter (\<lambda>r. bud_used (fst r) < bud_total (fst r)) rs)"
    "ready (server w')" "committed w' = committed w1"
    "working w' = budgets_update (map (rebalance_table now pool prio rs)) (working w1)"
    using Cons.IH [OF one(2)] Cons.prems(2) by auto
  have "bud_id (fst r) \<notin> bud_id ` fst ` set rs" using Cons.prems(2) by (auto simp: image_iff)
  then have "working w' = budgets_update (map (rebalance_table now pool prio (r # rs))) (working w)"
    by (simp add: rest(5) one(4) rebalance_table_Cons comp_def)
  moreover have "forEach (rebalance_row invalidate date now pool prio) (r # rs) w = (Inr (?u # us), w')"
    using one(1) rest(1) by simp
  ultimately show ?case using one(3) rest(2-4)
    by (intro exI [of _ "?u # us"] exI [of _ w']) (simp add: not_le)
qed

end

section \<open>The rows of a user\<close>

lemma budget_rows_in:
  "r \<in> set (budget_rows u t d) \<longleftrightarrow> fst r \<in> set (budgets d) \<and> snd r \<in> set (devices d) \<and>
     bud_device_id (fst r) = dev_id (snd r) \<and> dev_user_id (snd r) = u \<and> bud_date (fst r) = t"
  by (cases r) (auto simp: budget_rows_def)

lemma budget_rows_map:
  assumes "\<And>b. bud_device_id (f b) = bud_device_id b" "\<And>b. bud_date (f b) = bud_date b"
  shows "budget_rows u t (budgets_update (map f) d) = map (\<lambda>r. (f (fst r), snd r)) (budget_rows u t d)"
proof -
  have one: "concat (map (\<lambda>x. if bud_device_id (f b) = dev_id x \<and> dev_user_id x = u \<and> bud_date (f b) = t
        then [(f b, x)] else []) xs) =
      map (\<lambda>r. (f (fst r), snd r)) (concat (map (\<lambda>x. if bud_device_id b = dev_id x \<and>
        dev_user_id x = u \<and> bud_date b = t then [(b, x)] else []) xs))" for b xs
    by (induction xs) (simp_all add: assms)
  show ?thesis
    unfolding budget_rows_def by (simp add: map_concat comp_def one)
qed

lemma budget_rows_distinct:
  assumes "db_wf d"
  shows "distinct (map (bud_id \<circ> fst) (budget_rows u t d))"
proof -
  let ?row = "\<lambda>b :: Budget. concat (map (\<lambda>x. if bud_device_id b = dev_id x \<and> dev_user_id x = u \<and> bud_date b = t
    then [(b, x)] else []) (devices d))"
  have short: "length (concat (map (\<lambda>x. if bud_device_id b = dev_id x \<and> dev_user_id x = u \<and> bud_date b = t
      then [(b, x)] else []) xs)) \<le> 1 \<and>
      (bud_device_id b \<notin> dev_id ` set xs \<longrightarrow> concat (map (\<lambda>x. if bud_device_id b = dev_id x \<and>
        dev_user_id x = u \<and> bud_date b = t then [(b, x)] else []) xs) = [])"
    if "distinct (map dev_id xs)" for b :: Budget and xs :: "Device list"
    using that by (induction xs) auto
  have row: "?row b = [] \<or> (\<exists>x. ?row b = [(b, x)])" for b
  proof -
    have "distinct (map dev_id (devices d))" using assms by (simp add: db_wf_def)
    then have "length (?row b) \<le> 1" by (rule short [THEN conjunct1])
    moreover have "fst r = b" if "r \<in> set (?row b)" for r using that by auto
    ultimately show ?thesis by (cases "?row b") auto
  qed
  have "distinct (map (bud_id \<circ> fst) (concat (map ?row bs)))" if "distinct (map bud_id bs)" for bs
    using that
  proof (induction bs)
    case (Cons b bs)
    have "bud_id b \<notin> (bud_id \<circ> fst) ` set (concat (map ?row bs))"
      using Cons.prems by (auto simp: image_iff)
    moreover have "distinct (map (bud_id \<circ> fst) (concat (map ?row bs)))"
      using Cons by (simp add: comp_def)
    moreover have "concat (map ?row (b # bs)) = ?row b @ concat (map ?row bs)" by simp
    ultimately show ?case using row [of b]
      by (elim disjE exE) (simp_all only: map_append distinct_append set_append append_Nil
          list.map list.set distinct.simps comp_def fst_conv Int_insert_left set_map Un_empty_left
          Int_empty_left if_False image_comp simp_thms empty_iff)
  qed simp
  then show ?thesis using assms by (simp add: budget_rows_def db_wf_def)
qed

lemma rebalance_table_row:
  assumes "distinct (map (bud_id \<circ> fst) rows)" "r \<in> set rows"
  shows "rebalance_table now pool prio rows (fst r) = row_update now pool prio r (fst r)"
proof -
  have "map_of (map (\<lambda>r. (bud_id (fst r), r)) rows) (bud_id (fst r)) = Some r"
    using assms by (intro map_of_is_SomeI) (auto simp: comp_def)
  then show ?thesis by (simp add: rebalance_table_def)
qed

lemma rebalance_table_other:
  "bud_id b \<notin> (bud_id \<circ> fst) ` set rows \<Longrightarrow> rebalance_table now pool prio rows b = b"
proof -
  assume "bud_id b \<notin> (bud_id \<circ> fst) ` set rows"
  then have "map_of (map (\<lambda>r. (bud_id (fst r), r)) rows) (bud_id b) = None"
    by (auto simp: map_of_eq_None_iff image_iff)
  then show ?thesis by (simp add: rebalance_table_def)
qed

text \<open>The pool of a user and the priority it is divided by.\<close>

definition remaining_time :: "string \<Rightarrow> int \<Rightarrow> db \<Rightarrow> int" where
  "remaining_time u t d = sum_list (map (\<lambda>r. max 0 (bud_total (fst r) - bud_used (fst r))) (budget_rows u t d))"

definition priority_total :: "string \<Rightarrow> int \<Rightarrow> db \<Rightarrow> int" where
  "priority_total u t d = sum_list (map (\<lambda>r. dev_priority (snd r)) (budget_rows u t d))"

definition rebalanced_db :: "string \<Rightarrow> int \<Rightarrow> instant \<Rightarrow> db \<Rightarrow> db" where
  "rebalanced_db u t now d = budgets_update
     (map (rebalance_table now (remaining_time u t d) (priority_total u t d) (budget_rows u t d))) d"

lemma sum_list_map_case_prod:
  "sum_list (map (\<lambda>(b, uu). f b) rs) = sum_list (map (\<lambda>r. f (fst r)) rs)"
  "sum_list (map (\<lambda>(uu, x). g x) rs) = sum_list (map (\<lambda>r. g (snd r)) rs)"
  by (induction rs) auto

context cache_invalidation
begin

lemma rebalance_run:
  assumes "ready (server w)" "db_wf (working w)" "priority_total u t (working w) \<noteq> 0"
  shows "\<exists>w'. rebalance_budgets_with invalidate u t w =
      (Inr (map (grant_summary (remaining_time u t (working w)) (priority_total u t (working w)))
         (filter (\<lambda>r. bud_used (fst r) < bud_total (fst r)) (budget_rows u t (working w)))), w') \<and>
    working w' = rebalanced_db u t (clock w) (working w) \<and> committed w' = working w'"
proof -
  let ?rows = "budget_rows u t (working w)"
  have "?rows \<noteq> []" using assms(3) by (auto simp: priority_total_def)
  moreover obtain us w' where loop: "forEach (rebalance_row invalidate t (clock w)
        (remaining_time u t (working w)) (priority_total u t (working w))) ?rows w = (Inr us, w')"
      "concat us = map (grant_summary (remaining_time u t (working w)) (priority_total u t (working w)))
         (filter (\<lambda>r. bud_used (fst r) < bud_total (fst r)) ?rows)"
      "working w' = rebalanced_db u t (clock w) (working w)"
    using rebalance_loop [OF assms(1,3) budget_rows_distinct [OF assms(2)],
        of t "clock w" "remaining_time u t (working w)" u t]
    unfolding rebalanced_db_def by blast
  ultimately show ?thesis
    by (simp add: rebalance_budgets_with_def sum_list_map_case_prod andThen_def
        remaining_time_def [symmetric] priority_total_def [symmetric])
qed

end

section \<open>Conservation of the pool\<close>

lemma share_of_bounds:
  assumes "0 \<le> pool" "pool < 2 ^ 30" "0 \<le> p" "p \<le> prio" "0 < prio" "prio \<le> 2 ^ 20"
  shows "share_of pool prio p * prio \<le> pool * p" "pool * p \<le> (share_of pool prio p + 1) * prio"
    "0 \<le> share_of pool prio p"
proof -
  have "pool * p \<le> pool * 2 ^ 20" using assms by (intro mult_left_mono) auto
  also have "\<dots> < 2 ^ 30 * 2 ^ 20" using assms by (intro mult_strict_right_mono) auto
  finally have small: "pool * p < 2 ^ 50" by simp
  have q: "0 \<le> (of_int p / of_int prio :: rat)" using assms by simp
  have "0 \<le> rnd (of_int pool * rnd (of_int p / of_int prio))"
    using assms rnd_nonneg [OF q] by (intro rnd_nonneg) auto
  then have share: "share_of pool prio p = \<lfloor>rnd (of_int pool * rnd (of_int p / of_int prio))\<rfloor>"
    using assms by (simp add: share_of_def int_truediv_def int_fmul_eq py_int_nonneg)
  have prio: "prio \<le> 2 ^ 50" using assms by simp
  show "share_of pool prio p * prio \<le> pool * p" "pool * p \<le> (share_of pool prio p + 1) * prio"
    "0 \<le> share_of pool prio p"
    unfolding share
    using double.proportional_share [OF assms(1,3,5) small prio] by simp_all
qed

lemma remaining_rebalanced:
  assumes "db_wf d" "\<And>p. p \<in> dev_priority ` snd ` set (budget_rows u t d) \<Longrightarrow>
    0 \<le> share_of (remaining_time u t d) (priority_total u t d) p"
  shows "remaining_time u t (rebalanced_db u t now d) =
    sum_list (map (\<lambda>r. share_of (remaining_time u t d) (priority_total u t d) (dev_priority (snd r)))
      (filter (\<lambda>r. bud_used (fst r) < bud_total (fst r)) (budget_rows u t d)))"
proof -
  let ?rows = "budget_rows u t d"
  let ?s = "\<lambda>r. share_of (remaining_time u t d) (priority_total u t d) (dev_priority (snd r))"
  let ?f = "rebalance_table now (remaining_time u t d) (priority_total u t d) ?rows"
  have "budget_rows u t (rebalanced_db u t now d) = map (\<lambda>r. (?f (fst r), snd r)) ?rows"
    unfolding rebalanced_db_def by (rule budget_rows_map) simp_all
  then have "remaining_time u t (rebalanced_db u t now d) =
      sum_list (map (\<lambda>r. max 0 (bud_total (?f (fst r)) - bud_used (?f (fst r)))) ?rows)"
    by (simp add: remaining_time_def [of u t "rebalanced_db u t now d"] comp_def)
  also have "\<dots> = sum_list (map (\<lambda>r. if bud_used (fst r) < bud_total (fst r) then ?s r else 0) ?rows)"
    using assms(2) rebalance_table_row [OF budget_rows_distinct [OF assms(1)]]
    by (intro arg_cong [where f = sum_list] map_cong refl) (auto simp: row_update_def)
  also have "\<dots> = sum_list (map ?s (filter (\<lambda>r. bud_used (fst r) < bud_total (fst r)) ?rows))"
    by (rule sum_list_map_filter'[symmetric])
  finally show ?thesis .
qed

text \<open>Summing shares: at most the part of the pool the recipients' priorities stand for, and less
  than it by at most one second per recipient.\<close>

lemma sum_shares:
  assumes "\<And>r. r \<in> set rs \<Longrightarrow> s r * P \<le> T * p r \<and> T * p r \<le> (s r + 1) * (P::int)"
  shows "sum_list (map s rs) * P \<le> T * sum_list (map p rs)"
    "T * sum_list (map p rs) \<le> (sum_list (map s rs) + int (length rs)) * P"
  using assms
proof (induction rs)
  case (Cons r rs)
  {
    case 1
    then show ?case using Cons(1) by (fastforce simp: algebra_simps)
  next
    case 2
    then have "T * p r \<le> (s r + 1) * P" "T * sum_list (map p rs) \<le> (sum_list (map s rs) + int (length rs)) * P"
      using Cons(2) by auto
    then show ?case by (simp add: algebra_simps)
  }
qed simp_all

definition priorities_ok :: "string \<Rightarrow> int \<Rightarrow> db \<Rightarrow> bool" where
  "priorities_ok u t d \<longleftrightarrow> (\<forall>r \<in> set (budget_rows u t d). 1 \<le> dev_priority (snd r)) \<and>
     budget_rows u t d \<noteq> [] \<and> priority_total u t d \<le> 2 ^ 20 \<and> remaining_time u t d < 2 ^ 30"

definition active_rows :: "string \<Rightarrow> int \<Rightarrow> db \<Rightarrow> (Budget \<times> Device) list" where
  "active_rows u t d = filter (\<lambda>r. bud_used (fst r) < bud_total (fst r)) (budget_rows u t d)"

lemma sum_list_filter_le:
  "(\<And>r. r \<in> set rs \<Longrightarrow> 0 \<le> f r) \<Longrightarrow> sum_list (map f (filter p rs)) \<le> (sum_list (map f rs) :: int)"
  by (induction rs) (auto simp: add_increasing)

lemma member_le_total:
  "(\<And>r. r \<in> set rs \<Longrightarrow> 0 \<le> f r) \<Longrightarrow> r \<in> set rs \<Longrightarrow> f r \<le> (sum_list (map f rs) :: int)"
  by (rule member_le_sum_list [where xs = "map f rs", simplified]) auto

lemma rebalanced_bounds:
  assumes wf: "db_wf d" and ok: "priorities_ok u t d"
  shows "remaining_time u t (rebalanced_db u t now d) \<le> remaining_time u t d"
    "remaining_time u t d * sum_list (map (\<lambda>r. dev_priority (snd r)) (active_rows u t d)) \<le>
       (remaining_time u t (rebalanced_db u t now d) + int (length (active_rows u t d))) * priority_total u t d"
proof -
  let ?T = "remaining_time u t d" and ?P = "priority_total u t d" and ?rows = "budget_rows u t d"
  let ?p = "\<lambda>r :: Budget \<times> Device. dev_priority (snd r)"
  have pos: "0 \<le> ?p r" if "r \<in> set ?rows" for r using ok that by (fastforce simp: priorities_ok_def)
  have le: "?p r \<le> ?P" if "r \<in> set ?rows" for r
    unfolding priority_total_def using pos that by (rule member_le_total)
  have "hd ?rows \<in> set ?rows" using ok by (intro hd_in_set) (simp add: priorities_ok_def)
  then obtain r0 where r0: "r0 \<in> set ?rows" by blast
  then have P0: "0 < ?P" using le [OF r0] ok by (fastforce simp: priorities_ok_def)
  have T0: "0 \<le> ?T" unfolding remaining_time_def by (rule sum_list_nonneg) auto
  have bounds: "share_of ?T ?P (?p r) * ?P \<le> ?T * ?p r" "?T * ?p r \<le> (share_of ?T ?P (?p r) + 1) * ?P"
    "0 \<le> share_of ?T ?P (?p r)" if "r \<in> set ?rows" for r
    using share_of_bounds [OF T0 _ pos [OF that] le [OF that] P0] ok by (auto simp: priorities_ok_def)
  have now: "remaining_time u t (rebalanced_db u t now d) =
      sum_list (map (\<lambda>r. share_of ?T ?P (?p r)) (active_rows u t d))"
    unfolding active_rows_def by (rule remaining_rebalanced [OF wf]) (use bounds(3) in auto)
  have sums: "sum_list (map (\<lambda>r. share_of ?T ?P (?p r)) (active_rows u t d)) * ?P \<le>
      ?T * sum_list (map ?p (active_rows u t d))"
    "?T * sum_list (map ?p (active_rows u t d)) \<le>
      (sum_list (map (\<lambda>r. share_of ?T ?P (?p r)) (active_rows u t d)) + int (length (active_rows u t d))) * ?P"
    by (rule sum_shares; use bounds in \<open>auto simp: active_rows_def\<close>)+
  have "sum_list (map ?p (active_rows u t d)) \<le> ?P"
    unfolding active_rows_def priority_total_def using pos by (rule sum_list_filter_le)
  then have "?T * sum_list (map ?p (active_rows u t d)) \<le> ?T * ?P" using T0 by (rule mult_left_mono)
  with sums(1) have "remaining_time u t (rebalanced_db u t now d) * ?P \<le> ?T * ?P" unfolding now by linarith
  then show "remaining_time u t (rebalanced_db u t now d) \<le> ?T" using P0 by simp
  show "?T * sum_list (map ?p (active_rows u t d)) \<le>
      (remaining_time u t (rebalanced_db u t now d) + int (length (active_rows u t d))) * ?P"
    unfolding now by (rule sums(2))
qed

section \<open>Properties\<close>

text \<open>
  The algorithm of the rebalancer for a cache whose invalidation returns (the deployed one raises,
  see below): the time left to a user over all devices never grows; what it loses is bounded: the
  recipients get the part of the pool their priorities stand for, up to one second each, although
  every share is computed in binary floating point and truncated.  (The part of the devices that
  have used up their budget is lost.)
\<close>

theorem rebalance_conserves:
  assumes "srv_up (server w)" "db_wf (working w)" "priorities_ok u t (working w)"
  shows "\<exists>us w'. rebalance_budgets_with (\<lambda>k. redis_delete TextClient [k]) u t w = (Inr us, w') \<and>
    committed w' = working w' \<and>
    remaining_time u t (working w') \<le> remaining_time u t (working w) \<and>
    remaining_time u t (working w) * sum_list (map (\<lambda>r. dev_priority (snd r)) (active_rows u t (working w)))
      \<le> (remaining_time u t (working w') + int (length (active_rows u t (working w))))
           * priority_total u t (working w)"
proof -
  let ?d = "working w"
  have "hd (budget_rows u t ?d) \<in> set (budget_rows u t ?d)"
    using assms(3) by (intro hd_in_set) (simp add: priorities_ok_def)
  then have "1 \<le> dev_priority (snd (hd (budget_rows u t ?d)))"
    "dev_priority (snd (hd (budget_rows u t ?d))) \<le> priority_total u t ?d"
    using assms(3) unfolding priority_total_def
    by (auto simp: priorities_ok_def intro!: member_le_total)
  then have "priority_total u t ?d \<noteq> 0" by linarith
  from text_cache.rebalance_run [OF assms(1,2) this] show ?thesis
    using rebalanced_bounds [OF assms(2,3), of "clock w"] by (metis (no_types, lifting))
qed

text \<open>
  Rebalancing changes only what it is for: used time and the key of every budget stay, a budget
  that is used up keeps its total, and a budget of another date or of a device of another user is
  not touched at all.
\<close>

theorem rebalance_frame:
  assumes "srv_up (server w)" "db_wf (working w)" "priority_total u t (working w) \<noteq> 0"
  shows "\<exists>us w' f. rebalance_budgets_with (\<lambda>k. redis_delete TextClient [k]) u t w = (Inr us, w') \<and>
    committed w' = budgets_update (map f) (working w) \<and>
    (\<forall>b \<in> set (budgets (working w)).
       bud_id (f b) = bud_id b \<and> bud_device_id (f b) = bud_device_id b \<and> bud_date (f b) = bud_date b \<and>
       bud_used (f b) = bud_used b \<and> (bud_total b \<le> bud_used b \<longrightarrow> bud_total (f b) = bud_total b) \<and>
       (b \<notin> fst ` set (budget_rows u t (working w)) \<longrightarrow> f b = b))"
proof -
  let ?d = "working w"
  let ?f = "rebalance_table (clock w) (remaining_time u t ?d) (priority_total u t ?d) (budget_rows u t ?d)"
  have rows: "bud_id b \<in> (bud_id \<circ> fst) ` set (budget_rows u t ?d) \<longleftrightarrow> b \<in> fst ` set (budget_rows u t ?d)"
    if "b \<in> set (budgets ?d)" for b
  proof -
    have "b = fst r" if "r \<in> set (budget_rows u t ?d)" "bud_id b = bud_id (fst r)" for r
      using assms(2) \<open>b \<in> set (budgets ?d)\<close> that
      by (auto simp: db_wf_def distinct_map inj_on_def budget_rows_in)
    then show ?thesis by (auto simp: image_iff)
  qed
  have each: "?f b = b" if "b \<in> set (budgets ?d)" "b \<notin> fst ` set (budget_rows u t ?d)" for b
    using rows [OF that(1)] that(2) by (intro rebalance_table_other) simp
  have frozen: "bud_total (?f b) = bud_total b"
    if b: "b \<in> set (budgets ?d)" "bud_total b \<le> bud_used b" for b
  proof (cases "b \<in> fst ` set (budget_rows u t ?d)")
    case True
    then obtain r where r: "r \<in> set (budget_rows u t ?d)" "b = fst r" by auto
    show ?thesis
      using rebalance_table_row [OF budget_rows_distinct [OF assms(2)] r(1)] b(2)
      by (simp add: r(2) row_update_def)
  qed (simp add: each b)
  obtain us w' where "rebalance_budgets_with (\<lambda>k. redis_delete TextClient [k]) u t w = (Inr us, w')"
    "committed w' = rebalanced_db u t (clock w) ?d"
    using text_cache.rebalance_run [OF assms] by auto
  moreover have "rebalanced_db u t (clock w) ?d = budgets_update (map ?f) ?d"
    by (rule rebalanced_db_def)
  ultimately show ?thesis
    using each frozen by (intro exI [of _ us] exI [of _ w'] exI [of _ ?f]) simp
qed

text \<open>Two budgets of a day, one of them used up.\<close>

definition day_db :: db where
  "day_db = family_db\<lparr>budgets :=
     [new_budget ''x'' 0 3 (online_phone alice ''p'' 1),
      (new_budget ''y'' 0 3 (online_phone alice ''q'' 3))\<lparr>bud_used := 8640\<rparr>]\<rparr>"

lemma day_db_rows:
  "budget_rows ''a'' 3 day_db =
     [(new_budget ''x'' 0 3 (online_phone alice ''p'' 1), online_phone alice ''p'' 1),
      ((new_budget ''y'' 0 3 (online_phone alice ''q'' 3))\<lparr>bud_used := 8640\<rparr>, online_phone alice ''q'' 3)]"
  by (simp add: budget_rows_def day_db_def family_defs new_budget_def)

lemma day_db_wf: "db_wf day_db"
  by (simp add: db_wf_def day_db_def family_defs new_budget_def)

lemma day_db_totals:
  "remaining_time ''a'' 3 day_db = 7200" "priority_total ''a'' 3 day_db = 4"
  "priorities_ok ''a'' 3 day_db"
  by (simp_all add: remaining_time_def priority_total_def priorities_ok_def day_db_rows)
    (simp_all add: new_budget_def family_defs priority_adjusted_budget_def DEFAULT_DAILY_BUDGET_SECONDS_def)

lemma sample_world_sel [simp]:
  "srv_up (server (sample_world t d))" "working (sample_world t d) = d" "committed (sample_world t d) = d"
  "clock (sample_world t d) = t" "text_client (sample_world t d) = None"
  "wrapper_client (sample_world t d) = False"
  by (simp_all add: sample_world_def)

theorem rebalance_conserves_witness:
  "\<exists>us w'. rebalance_budgets_with (\<lambda>k. redis_delete TextClient [k]) ''a'' 3 (sample_world 0 day_db) =
     (Inr us, w') \<and> remaining_time ''a'' 3 (working w') \<le> 7200"
  using rebalance_conserves [of "sample_world 0 day_db" "''a''" 3] day_db_wf day_db_totals by auto

theorem rebalance_frame_witness:
  "\<exists>us w' f. rebalance_budgets_with (\<lambda>k. redis_delete TextClient [k]) ''a'' 3 (sample_world 0 day_db) =
     (Inr us, w') \<and> committed w' = budgets_update (map f) day_db"
  using rebalance_frame [of "sample_world 0 day_db" "''a''" 3] day_db_wf day_db_totals by auto

section \<open>Reading a budget\<close>

definition cached_value :: "string \<Rightarrow> world \<Rightarrow> pyval" where
  "cached_value k w = (case fst (rc_get k w) of Inr v \<Rightarrow> v | Inl _ \<Rightarrow> VNone)"

lemma rc_get_cached: "rc_get k w = (Inr (cached_value k w), w)"
proof -
  obtain v where "fst (rc_get k w) = Inr v" using rc_get_never_raises by blast
  then show ?thesis using rc_get_state [of k w] by (simp add: cached_value_def prod_eq_iff)
qed

lemma cached_value_no_client: "text_client w = None \<Longrightarrow> cached_value k w = VNone"
  by (simp add: cached_value_def rc_get_def bindE_run)

text \<open>The row of a device and date.\<close>

definition budget_of :: "string \<Rightarrow> int \<Rightarrow> db \<Rightarrow> Budget option" where
  "budget_of i t d = find (\<lambda>b. bud_device_id b = i \<and> bud_date b = t) (budgets d)"

lemma budget_of_Some: "budget_of i t d = Some b \<Longrightarrow>
    b \<in> set (budgets d) \<and> bud_device_id b = i \<and> bud_date b = t"
  by (auto simp: budget_of_def find_Some_iff)

lemma budget_of_unique:
  assumes "db_wf d" "b \<in> set (budgets d)" "bud_device_id b = i" "bud_date b = t"
  shows "budget_of i t d = Some b"
proof -
  have "budget_of i t d \<noteq> None"
    using assms by (auto simp: budget_of_def find_None_iff)
  then obtain c where c: "budget_of i t d = Some c" by blast
  with budget_of_Some [OF c] assms show ?thesis
    by (auto simp: db_wf_def distinct_map inj_on_def)
qed

lemma select_budget_of:
  assumes "db_wf (working w)"
  shows "select_one budgets (\<lambda>b. bud_device_id b = i \<and> bud_date b = t) w =
    (Inr (budget_of i t (working w)), w)"
proof -
  obtain o' where o: "select_one budgets (\<lambda>b. bud_device_id b = i \<and> bud_date b = t) w = (Inr o', w)"
    "o' = None \<longleftrightarrow> \<not> (\<exists>b \<in> set (budgets (working w)). bud_device_id b = i \<and> bud_date b = t)"
    "\<forall>b. o' = Some b \<longrightarrow> b \<in> set (budgets (working w)) \<and> bud_device_id b = i \<and> bud_date b = t"
    using select_budget_run [OF assms, of i t] by blast
  have "o' = budget_of i t (working w)"
  proof (cases o')
    case None
    with o(2) have "find (\<lambda>b. bud_device_id b = i \<and> bud_date b = t) (budgets (working w)) = None"
      by (auto simp: find_None_iff)
    with None show ?thesis by (simp add: budget_of_def)
  next
    case (Some b)
    with o(3) show ?thesis using budget_of_unique [OF assms] by auto
  qed
  with o(1) show ?thesis by simp
qed

text \<open>The value of a read, and that a read changes nothing: the dictionary is not stored.\<close>

definition budget_value :: "string \<Rightarrow> int \<Rightarrow> world \<Rightarrow> pyval" where
  "budget_value i t w =
     (if truthy (cached_value (budget_cache_key i t) w) then cached_value (budget_cache_key i t) w
      else case budget_of i t (working w) of None \<Rightarrow> VNone | Some b \<Rightarrow> VDict (budget_to_dict b))"

lemma get_budget_run: "db_wf (working w) \<Longrightarrow> get_budget i t w = (Inr (budget_value i t w), w)"
  by (simp add: get_budget_def bindE_run rc_get_cached select_budget_of budget_value_def andThen_def
      rc_set_dict Let_def split: option.splits)

lemma leaves_db_get_budget [leaves_db_intro]: "leaves_db (get_budget i t)"
  unfolding get_budget_def Let_def
  by (intro leaves_db_intro) (simp add: leaves_db_def select_one_run)

lemma int_item_dict [simp]:
  "int_item (VDict (budget_to_dict b)) ''total_budget_seconds'' w = (Inr (bud_total b), w)"
  "int_item (VDict (budget_to_dict b)) ''used_seconds'' w = (Inr (bud_used b), w)"
  "int_item (VDict (budget_to_dict b)) ''remaining_seconds'' w = (Inr (max 0 (bud_total b - bud_used b)), w)"
  by (simp_all add: int_item_def bindE_run py_item_def budget_to_dict_def json_int_def)

definition seconds_left :: "string \<Rightarrow> int \<Rightarrow> db \<Rightarrow> int" where
  "seconds_left i t d =
     (case budget_of i t d of None \<Rightarrow> 0 | Some b \<Rightarrow> max 0 (bud_total b - bud_used b))"

text \<open>
  Reading the remaining seconds of a device, when no value is cached, gives the difference of
  total and used time of its row, never below zero, and zero without a row; the read changes
  nothing at all, so the cache entry it means to leave behind (a dictionary, which the client
  refuses to encode) is never written.
\<close>

theorem remaining_seconds_value:
  assumes "db_wf (working w)" "\<not> truthy (cached_value (budget_cache_key i t) w)"
  shows "get_remaining_seconds i t w = (Inr (seconds_left i t (working w)), w)"
  using assms
  by (simp add: get_remaining_seconds_def bindE_run [of "get_budget a b" for a b] get_budget_run
      budget_value_def seconds_left_def split: option.splits)

theorem remaining_seconds_value_witness:
  "get_remaining_seconds ''q'' 3 (sample_world 0 day_db) = (Inr 0, sample_world 0 day_db) \<and>
   get_remaining_seconds ''p'' 3 (sample_world 0 day_db) = (Inr 7200, sample_world 0 day_db)"
proof -
  have left: "seconds_left ''q'' 3 day_db = 0" "seconds_left ''p'' 3 day_db = 7200"
    by (simp_all add: seconds_left_def budget_of_def day_db_def family_defs new_budget_def
        priority_adjusted_budget_def DEFAULT_DAILY_BUDGET_SECONDS_def)
  have wf: "db_wf (working (sample_world 0 day_db))" by (simp add: day_db_wf)
  have miss: "\<not> truthy (cached_value k (sample_world 0 day_db))" for k
    by (simp add: cached_value_no_client)
  show ?thesis
    using remaining_seconds_value [OF wf miss, of "''q''" 3] remaining_seconds_value [OF wf miss, of "''p''" 3]
    by (simp add: left)
qed

section \<open>The writers as they are deployed\<close>

lemma rc_delete_run: "rc_delete k w = (Inl (AttributeError ''delete''), w)"
  by (simp add: rc_delete_def missing_method_def)

definition charged :: "string \<Rightarrow> int \<Rightarrow> int \<Rightarrow> Budget \<Rightarrow> Budget" where
  "charged i t seconds b =
     (if bud_device_id b = i \<and> bud_date b = t then b\<lparr>bud_used := bud_used b + seconds\<rparr> else b)"

definition charged_db :: "string \<Rightarrow> int \<Rightarrow> int \<Rightarrow> db \<Rightarrow> db" where
  "charged_db i t seconds = budgets_update (map (charged i t seconds))"

lemma charged_keys [simp]:
  "bud_id (charged i t s b) = bud_id b" "bud_device_id (charged i t s b) = bud_device_id b"
  "bud_date (charged i t s b) = bud_date b" "bud_total (charged i t s b) = bud_total b"
  by (simp_all add: charged_def)

lemma record_usage_run:
  "record_usage i seconds t w = (Inl (AttributeError ''delete''),
     w\<lparr>working := charged_db i t seconds (working w), committed := charged_db i t seconds (working w)\<rparr>)"
  by (simp add: record_usage_def record_usage_with_def andThen_def bindE_run update_where_def
      rc_delete_run charged_db_def charged_def [abs_def])

lemma charged_db_wf: "db_wf d \<Longrightarrow> db_wf (charged_db i t s d)"
  by (simp add: db_wf_def charged_db_def comp_def)

lemma find_map_key:
  "(\<And>b. p (f b) = p b) \<Longrightarrow> find p (map f bs) = map_option f (find p bs)"
  by (induction bs) auto

lemma budget_of_charged:
  "budget_of i t (charged_db j t' s d) = map_option (charged j t' s) (budget_of i t d)"
  by (simp add: budget_of_def charged_db_def find_map_key)

text \<open>A loop over budgets that are used up only stamps them; one with time left ends it.\<close>

definition stamp_rows :: "instant \<Rightarrow> (Budget \<times> Device) list \<Rightarrow> Budget \<Rightarrow> Budget" where
  "stamp_rows now rows b =
     (if bud_id b \<in> (bud_id \<circ> fst) ` set rows then b\<lparr>bud_rebalanced_at := Some now\<rparr> else b)"

lemma stamp_rows_id [simp]: "bud_id (stamp_rows now rows b) = bud_id b"
  by (simp add: stamp_rows_def)

lemma rebalance_loop_exhausted:
  assumes "\<forall>r \<in> set rows. bud_total (fst r) \<le> bud_used (fst r)"
  shows "\<exists>us. forEach (rebalance_row ivd t now pool prio) rows w =
    (Inr us, w\<lparr>working := budgets_update (map (stamp_rows now rows)) (working w)\<rparr>) \<and> concat us = []"
  using assms
proof (induction rows arbitrary: w)
  case Nil
  show ?case by (simp add: stamp_rows_def [abs_def] map_idI)
next
  case (Cons r rows)
  let ?w = "w\<lparr>working := budgets_update (map (\<lambda>b. if bud_id b = bud_id (fst r)
      then b\<lparr>bud_rebalanced_at := Some now\<rparr> else b)) (working w)\<rparr>"
  have one: "rebalance_row ivd t now pool prio r w = (Inr [], ?w)"
    using Cons.prems by (cases r) (simp add: rebalance_row_def andThen_def bindE_run update_where_def)
  obtain us where "forEach (rebalance_row ivd t now pool prio) rows ?w =
      (Inr us, ?w\<lparr>working := budgets_update (map (stamp_rows now rows)) (working ?w)\<rparr>)" "concat us = []"
    using Cons.IH [of ?w] Cons.prems by auto
  moreover have "map (stamp_rows now rows) (map (\<lambda>b. if bud_id b = bud_id (fst r)
      then b\<lparr>bud_rebalanced_at := Some now\<rparr> else b) bs) = map (stamp_rows now (r # rows)) bs" for bs
    by (simp add: stamp_rows_def)
  ultimately show ?case
    using one by (intro exI [of _ "[] # us"]) (simp add: comp_def)
qed

lemma rebalance_loop_deployed:
  assumes "\<exists>r \<in> set rows. bud_used (fst r) < bud_total (fst r)"
  shows "\<exists>w'. forEach (rebalance_row rc_delete t now pool prio) rows w =
    (Inl (if prio = 0 then ZeroDivisionError else AttributeError ''delete''), w') \<and> committed w' = committed w"
  using assms
proof (induction rows arbitrary: w)
  case (Cons r rows)
  show ?case
  proof (cases "bud_used (fst r) < bud_total (fst r)")
    case True
    then show ?thesis
      by (cases r) (simp add: rebalance_row_def andThen_def bindE_run update_where_def Let_def
          rc_delete_run)
  next
    case False
    let ?w = "w\<lparr>working := budgets_update (map (\<lambda>b. if bud_id b = bud_id (fst r)
      then b\<lparr>bud_rebalanced_at := Some now\<rparr> else b)) (working w)\<rparr>"
    have "rebalance_row rc_delete t now pool prio r w = (Inr [], ?w)"
      using False by (cases r) (simp add: rebalance_row_def andThen_def bindE_run update_where_def)
    moreover have "\<exists>r \<in> set rows. bud_used (fst r) < bud_total (fst r)" using Cons.prems False by auto
    from Cons.IH [OF this, of ?w] obtain w' where
      "forEach (rebalance_row rc_delete t now pool prio) rows ?w =
         (Inl (if prio = 0 then ZeroDivisionError else AttributeError ''delete''), w')"
      "committed w' = committed w" by auto
    ultimately show ?thesis by (intro exI [of _ w']) simp
  qed
qed simp

text \<open>
  C2: Rebalancing never redistributes anything: as soon as one budget of the user has time left, it
  ends in an error before the commit (the code calls \<open>redis_client.delete\<close>, a method that does not
  exist, or divides by a total priority of zero), and the durable database is what it was; a user
  without budgets on the date is answered with an empty list and nothing changes; and when every
  budget is used up, the rows of the user and date, and no others, get the time of the rebalancing,
  durably, with an empty answer.  No budget durably gets another total.
\<close>

theorem rebalance_outcome:
  "\<exists>w'. rebalance_budgets u t w =
     (if active_rows u t (working w) = [] then Inr []
      else if priority_total u t (working w) = 0 then Inl ZeroDivisionError
      else Inl (AttributeError ''delete''), w') \<and>
   committed w' =
     (if budget_rows u t (working w) = [] then committed w
      else if active_rows u t (working w) = []
      then budgets_update (map (\<lambda>b. if bud_id b \<in> (bud_id \<circ> fst) ` set (budget_rows u t (working w))
             then b\<lparr>bud_rebalanced_at := Some (clock w)\<rparr> else b)) (working w)
      else committed w)"
proof -
  let ?rows = "budget_rows u t (working w)" and ?prio = "priority_total u t (working w)"
  let ?pool = "remaining_time u t (working w)"
  have unfolded: "rebalance_budgets u t w = (if ?rows = [] then (Inr [], w)
      else (case forEach (rebalance_row rc_delete t (clock w) ?pool ?prio) ?rows w of
         (Inl e, w') \<Rightarrow> (Inl e, w')
       | (Inr us, w') \<Rightarrow> (Inr (concat us), w'\<lparr>committed := working w'\<rparr>)))"
    by (simp add: rebalance_budgets_def rebalance_budgets_with_def sum_list_map_case_prod
        remaining_time_def [symmetric] priority_total_def [symmetric] andThen_def bindE_run
        split: prod.splits sum.splits)
  have active: "active_rows u t (working w) = [] \<longleftrightarrow> (\<forall>r \<in> set ?rows. bud_total (fst r) \<le> bud_used (fst r))"
    by (auto simp: active_rows_def filter_empty_conv)
  show ?thesis
  proof (cases "active_rows u t (working w) = []")
    case True
    then obtain us where "forEach (rebalance_row rc_delete t (clock w) ?pool ?prio) ?rows w =
        (Inr us, w\<lparr>working := budgets_update (map (stamp_rows (clock w) ?rows)) (working w)\<rparr>)" "concat us = []"
      using rebalance_loop_exhausted active by blast
    then show ?thesis using True by (simp add: unfolded stamp_rows_def [abs_def])
  next
    case False
    then have "\<exists>r \<in> set ?rows. bud_used (fst r) < bud_total (fst r)" using active by (auto simp: not_le)
    from rebalance_loop_deployed [OF this, of t "clock w" ?pool ?prio w] obtain w' where
      "forEach (rebalance_row rc_delete t (clock w) ?pool ?prio) ?rows w =
         (Inl (if ?prio = 0 then ZeroDivisionError else AttributeError ''delete''), w')"
      "committed w' = committed w" by blast
    moreover have "?rows \<noteq> []" using False by (auto simp: active_rows_def)
    ultimately show ?thesis using False by (simp add: unfolded)
  qed
qed

end
