(* ===== verification/PyValues.thy ===== *)
theory PyValues
  imports Prelude PyFloat
begin

text \<open>
  Built-in conversions of Python on the values of a parsed JSON text: \<open>bool(v)\<close>, \<open>int(v)\<close>, and
  the integers and floats that decimal texts denote.
\<close>

section \<open>Truth\<close>

fun json_truthy :: "json \<Rightarrow> bool" where
  "json_truthy JNull = False"
| "json_truthy (JBool b) = b"
| "json_truthy (JInt n) = (n \<noteq> 0)"
| "json_truthy (JReal q) = (q \<noteq> 0)"
| "json_truthy (JNonFinite _) = True"
| "json_truthy (JStr s) = (s \<noteq> [])"
| "json_truthy (JQuoted _) = True"
| "json_truthy (JTime _) = True"
| "json_truthy (JArr xs) = (xs \<noteq> [])"
| "json_truthy (JObj d) = (d \<noteq> [])"

section \<open>Integers\<close>

definition digit_value :: "char \<Rightarrow> int" where
  "digit_value c = of_char c - 48"

definition is_digit :: "char \<Rightarrow> bool" where
  "is_digit c \<longleftrightarrow> 48 \<le> (of_char c :: nat) \<and> (of_char c :: nat) \<le> 57"

definition decimal :: "string \<Rightarrow> int" where
  "decimal s = foldl (\<lambda>n c. 10 * n + digit_value c) 0 s"

text \<open>\<open>str.strip()\<close>\<close>

definition is_space :: "char \<Rightarrow> bool" where
  "is_space c \<longleftrightarrow> (let n = of_char c :: nat
     in 9 \<le> n \<and> n \<le> 13 \<or> 28 \<le> n \<and> n \<le> 32 \<or> n = 133 \<or> n = 160)"

definition strip :: "string \<Rightarrow> string" where
  "strip s = rev (dropWhile is_space (rev (dropWhile is_space s)))"

text \<open>Digits, with single underscores between them.\<close>

fun digit_groups :: "string \<Rightarrow> bool" where
  "digit_groups [] = False"
| "digit_groups [c] = is_digit c"
| "digit_groups (c # d # s) =
     (is_digit c \<and> (if d = CHR ''_'' then digit_groups s else digit_groups (d # s)))"

definition parse_digits :: "string \<Rightarrow> int result" where
  "parse_digits s =
     (if digit_groups s then Inr (decimal (filter (\<lambda>c. c \<noteq> CHR ''_'') s))
      else Inl (ValueError ''invalid literal for int()''))"

definition parse_signed :: "string \<Rightarrow> int result" where
  "parse_signed s =
     (case s of
        c # r \<Rightarrow>
          (if c = CHR ''-'' then map_sum id uminus (parse_digits r)
           else if c = CHR ''+'' then parse_digits r
           else parse_digits s)
      | [] \<Rightarrow> parse_digits s)"

text \<open>\<open>int(s)\<close>\<close>

definition parse_int :: "string \<Rightarrow> int result" where
  "parse_int s = parse_signed (strip s)"

text \<open>\<open>int(v)\<close>; the text of a JSON value is one of an integer only if the value is an integer.\<close>

fun int_of_json :: "json \<Rightarrow> int result" where
  "int_of_json (JInt n) = Inr n"
| "int_of_json (JReal q) = Inr (py_int q)"
| "int_of_json (JNonFinite t) =
     (if t = ''NaN'' then Inl (ValueError ''cannot convert float NaN to integer'')
      else Inl (OverflowError ''cannot convert float infinity to integer''))"
| "int_of_json (JBool b) = Inr (if b then 1 else 0)"
| "int_of_json (JStr s) = parse_int s"
| "int_of_json (JQuoted j) =
     (case j of JInt n \<Rightarrow> Inr n | _ \<Rightarrow> Inl (ValueError ''invalid literal for int()''))"
| "int_of_json (JTime _) = Inl (ValueError ''invalid literal for int()'')"
| "int_of_json _ = Inl (TypeError ''int()'')"

lemma digit_of_digit [simp]:
  assumes "k < 10"
  shows "is_digit (char_of (48 + k :: nat))" "digit_value (char_of (48 + k :: nat)) = int k"
proof -
  let ?c = "char_of (48 + k :: nat)"
  have n: "(of_char ?c :: nat) = 48 + k"
    using assms by simp
  have i: "(of_char ?c :: int) = int (of_char ?c)"
    by (rule of_nat_of_char [symmetric])
  show "is_digit ?c" "digit_value ?c = int k"
    using assms by (simp_all only: is_digit_def digit_value_def n i) simp_all
qed

lemma decimal_append: "decimal (s @ [c]) = 10 * decimal s + digit_value c"
  by (simp add: decimal_def)

lemma digits_all: "list_all is_digit (digits n)"
proof (induction n rule: digits.induct)
  case (1 n)
  then show ?case by (subst digits.simps) simp
qed

lemma digits_not_Nil [simp]: "digits n \<noteq> []"
  by (subst digits.simps) simp

lemma decimal_digits [simp]: "decimal (digits n) = int n"
proof (induction n rule: digits.induct)
  case (1 n)
  show ?case
  proof (cases "n < 10")
    case True
    then show ?thesis by (simp add: digits.simps decimal_def)
  next
    case False
    have "decimal (digits n) = 10 * decimal (digits (n div 10)) + int (n mod 10)"
      using False by (subst digits.simps) (simp add: decimal_append)
    also have "\<dots> = int n"
      using 1 False by presburger
    finally show ?thesis .
  qed
qed

text \<open>A positive number starts with a digit other than zero.\<close>

lemma digits_head: "0 < n \<Longrightarrow> hd (digits n) \<noteq> CHR ''0''"
proof (induction n rule: digits.induct)
  case (1 n)
  show ?case
  proof (cases "n < 10")
    case True
    have "char_of (48 + n) \<noteq> CHR ''0''"
    proof
      assume "char_of (48 + n) = CHR ''0''"
      then have "(of_char (char_of (48 + n :: nat)) :: nat) = of_char (CHR ''0'')" by simp
      then show False using True 1(2) by simp
    qed
    then show ?thesis using True by (simp add: digits.simps)
  next
    case False
    then have "hd (digits n) = hd (digits (n div 10))"
      by (subst digits.simps) simp
    with 1 False show ?thesis by simp
  qed
qed

text \<open>Plain digits are read as the number they denote.\<close>

lemma digit_groups_all: "ds \<noteq> [] \<Longrightarrow> list_all is_digit ds \<Longrightarrow> digit_groups ds"
  by (induction ds rule: digit_groups.induct) (auto simp: is_digit_def)

lemma strip_digits:
  assumes "list_all is_digit ds" "ds \<noteq> []"
  shows "strip ds = ds"
proof -
  have sp: "is_digit c \<Longrightarrow> \<not> is_space c" for c by (auto simp: is_digit_def is_space_def Let_def)
  have "dropWhile is_space ds = ds" using assms sp by (cases ds) auto
  moreover have "dropWhile is_space (rev ds) = rev ds"
    using assms sp by (cases ds rule: rev_cases) auto
  ultimately show ?thesis by (simp add: strip_def)
qed

lemma parse_int_digits: "ds \<noteq> [] \<Longrightarrow> list_all is_digit ds \<Longrightarrow> parse_int ds = Inr (decimal ds)"
proof -
  assume ds: "ds \<noteq> []" "list_all is_digit ds"
  then obtain d es where d: "ds = d # es" by (cases ds) auto
  have "filter (\<lambda>c. c \<noteq> CHR ''_'') ds = ds"
    using ds(2) by (auto simp: filter_id_conv list_all_iff is_digit_def)
  moreover have "d \<noteq> CHR ''-''" "d \<noteq> CHR ''+''" using ds(2) by (auto simp: d is_digit_def)
  ultimately show "parse_int ds = Inr (decimal ds)"
    using strip_digits [OF ds(2,1)] digit_groups_all [OF ds] by (simp add: d parse_int_def parse_signed_def parse_digits_def)
qed

end
