(* ===== verification/Codec.thy ===== *)
theory Codec
  imports World PyValues
begin

text \<open>
  What the authentication code uses of the standard library's base64, of UTF-8 and of json: the
  base64 encoder and the lenient decoder of binascii, and the texts of JSON values, written by
  \<open>json.dumps\<close> and read by \<open>json.loads\<close>.  A byte string is a \<open>string\<close>, one \<open>char\<close> per byte; a
  Python \<open>str\<close> is a \<open>string\<close> of code points below 256.
\<close>

section \<open>base64\<close>

definition base64_letters :: string where
  "base64_letters =
     ''ABCDEFGHIJKLMNOPQRSTUVWXYZabcdefghijklmnopqrstuvwxyz0123456789+/''"

definition base64_char :: "nat \<Rightarrow> char" where
  "base64_char n = base64_letters ! n"

text \<open>The decoding table; \<open>None\<close> is the value 64 of binascii's table.\<close>

definition base64_value :: "char \<Rightarrow> nat option" where
  "base64_value c =
     (let n = of_char c :: nat
      in if 65 \<le> n \<and> n \<le> 90 then Some (n - 65)
         else if 97 \<le> n \<and> n \<le> 122 then Some (n - 71)
         else if 48 \<le> n \<and> n \<le> 57 then Some (n + 4)
         else if n = 43 then Some 62
         else if n = 47 then Some 63
         else None)"

text \<open>\<open>base64.b64encode\<close>\<close>

fun b64encode :: "string \<Rightarrow> string" where
  "b64encode [] = []"
| "b64encode [a] =
     (let x = of_char a in [base64_char (x div 4), base64_char (x mod 4 * 16), CHR ''='', CHR ''=''])"
| "b64encode [a, b] =
     (let x = of_char a; y = of_char b
      in [base64_char (x div 4), base64_char (x mod 4 * 16 + y div 16),
          base64_char (y mod 16 * 4), CHR ''=''])"
| "b64encode (a # b # c # s) =
     (let x = of_char a; y = of_char b; z = of_char c
      in base64_char (x div 4) # base64_char (x mod 4 * 16 + y div 16)
         # base64_char (y mod 16 * 4 + z div 64) # base64_char (z mod 64) # b64encode s)"

text \<open>
  \<open>binascii.a2b_base64\<close> (not strict): \<open>q\<close> is the position in the quantum, \<open>left\<close> the bits not
  yet written and \<open>pads\<close> the number of padding characters since the last data character.
  Characters outside the alphabet are skipped, and enough padding ends the input.
\<close>

definition binascii_Error :: exn where
  "binascii_Error = ValueError ''binascii.Error''"

definition cons_result :: "nat \<Rightarrow> string result \<Rightarrow> string result" where
  "cons_result n r = map_sum id ((#) (char_of n)) r"

fun a2b_base64 :: "nat \<Rightarrow> nat \<Rightarrow> nat \<Rightarrow> string \<Rightarrow> string result" where
  "a2b_base64 q left pads [] = (if q = 0 then Inr [] else Inl binascii_Error)"
| "a2b_base64 q left pads (c # s) =
     (if c = CHR ''='' then
        (if 2 \<le> q then
           (if 4 \<le> q + Suc pads then Inr [] else a2b_base64 q left (Suc pads) s)
         else a2b_base64 q left pads s)
      else (case base64_value c of
          None \<Rightarrow> a2b_base64 q left pads s
        | Some v \<Rightarrow>
            (if q = 0 then a2b_base64 1 v 0 s
             else if q = 1 then cons_result (left * 4 + v div 16) (a2b_base64 2 (v mod 16) 0 s)
             else if q = 2 then cons_result (left * 16 + v div 4) (a2b_base64 3 (v mod 4) 0 s)
             else cons_result (left * 64 + v) (a2b_base64 0 0 0 s))))"

definition b64decode :: "string \<Rightarrow> string result" where
  "b64decode s = a2b_base64 0 0 0 s"

text \<open>\<open>s.replace(old, new)\<close> for single characters, and the URL-safe alphabet.\<close>

definition replace_char :: "char \<Rightarrow> char \<Rightarrow> string \<Rightarrow> string" where
  "replace_char old new s = map (\<lambda>c. if c = old then new else c) s"

definition urlsafe_b64encode :: "string \<Rightarrow> string" where
  "urlsafe_b64encode s =
     replace_char (CHR ''/'') (CHR ''_'') (replace_char (CHR ''+'') (CHR ''-'') (b64encode s))"

definition urlsafe_b64decode :: "string \<Rightarrow> string result" where
  "urlsafe_b64decode s =
     b64decode (replace_char (CHR ''_'') (CHR ''/'') (replace_char (CHR ''-'') (CHR ''+'') s))"

subsection \<open>Decoding what was encoded\<close>

lemma base64_letters_length: "length base64_letters = 64"
  by (simp add: base64_letters_def)

lemma base64_table:
  "list_all (\<lambda>n. base64_value (base64_char n) = Some n \<and> base64_char n \<noteq> CHR ''='') [0..<64]"
  by (simp add: upt_rec base64_value_def base64_char_def base64_letters_def)

lemma base64_value_char [simp]:
  assumes "n < 64"
  shows "base64_value (base64_char n) = Some n" "base64_char n \<noteq> CHR ''=''"
proof -
  have "n \<in> set [0..<64]" using assms by simp
  with base64_table show "base64_value (base64_char n) = Some n" "base64_char n \<noteq> CHR ''=''"
    unfolding list_all_iff by blast+
qed

lemma cons_result_Inr [simp]: "cons_result n (Inr s) = Inr (char_of n # s)"
  by (simp add: cons_result_def)

lemma byte_range: "(of_char c :: nat) < 256"
  by (rule nat_of_char_less_256)

lemma sextets:
  fixes x y :: nat
  assumes "y < 256"
  shows "(x mod 4 * 16 + y div 16) div 16 = x mod 4" "(x mod 4 * 16 + y div 16) mod 16 = y div 16"
    "(x mod 16 * 4 + y div 64) div 4 = x mod 16" "(x mod 16 * 4 + y div 64) mod 4 = y div 64"
    "x mod 4 * 16 + y div 16 < 64" "x mod 16 * 4 + y div 64 < 64"
    "y div 4 < 64" "y mod 64 < 64" "x mod 4 * 16 < 64" "x mod 16 * 4 < 64"
    "y div 16 div 16 = 0" "y div 16 mod 16 = y div 16" "y div 64 div 4 = 0"
    "y div 64 mod 4 = y div 64"
  using assms by auto

text \<open>The padding that brings a text to a multiple of four characters.\<close>

definition base64_padding :: "string \<Rightarrow> string" where
  "base64_padding s = replicate ((4 - length s mod 4) mod 4) (CHR ''='')"

definition base64_core :: "string \<Rightarrow> string" where
  "base64_core s = filter (\<lambda>c. c \<noteq> CHR ''='') (b64encode s)"

lemma base64_core_decode:
  "a2b_base64 0 0 0 (base64_core s @ base64_padding (base64_core s)) = Inr s"
proof (induction s rule: b64encode.induct)
  case (4 a b c s)
  then show ?case
    by (simp add: base64_core_def base64_padding_def Let_def sextets)
qed (simp_all add: base64_core_def base64_padding_def Let_def sextets numeral_2_eq_2)

lemma base64_core_steps:
  "base64_core [] = []"
  "base64_core [a] = [base64_char (of_char a div 4), base64_char (of_char a mod 4 * 16)]"
  "base64_core [a, b] = [base64_char (of_char a div 4),
     base64_char (of_char a mod 4 * 16 + of_char b div 16), base64_char (of_char b mod 16 * 4)]"
  "base64_core (a # b # c # s) = base64_char (of_char a div 4)
     # base64_char (of_char a mod 4 * 16 + of_char b div 16)
     # base64_char (of_char b mod 16 * 4 + of_char c div 64)
     # base64_char (of_char c mod 64) # base64_core s"
  by (simp_all add: base64_core_def Let_def sextets)

lemma base64_core_letters: "\<forall>c \<in> set (base64_core s). \<exists>n < 64. c = base64_char n"
proof (induction s rule: b64encode.induct)
  case (4 a b c s)
  then have "\<forall>x \<in> set (base64_core s). \<exists>n < 64. x = base64_char n" by simp
  then show ?case
    using sextets [of "of_char a"] sextets [of "of_char b"] sextets [of "of_char c"]
    unfolding base64_core_steps by (metis byte_range set_ConsD)
next
  case (2 a)
  then show ?case
    using sextets [of "of_char a"] unfolding base64_core_steps
    by (metis byte_range empty_iff list.set(1) set_ConsD)
next
  case (3 a b)
  then show ?case
    using sextets [of "of_char a"] sextets [of "of_char b"] unfolding base64_core_steps
    by (metis byte_range empty_iff list.set(1) set_ConsD)
qed (simp add: base64_core_steps)

lemma base64_core_length: "length (base64_core s) mod 4 \<noteq> 1"
  by (induction s rule: b64encode.induct) (simp_all add: base64_core_def Let_def sextets)

section \<open>UTF-8\<close>

text \<open>
  The bytes of a text and back.  A sequence that is not UTF-8, or whose code point is not below
  256 and so has no \<open>char\<close>, is a decoding error.
\<close>

definition utf8_char :: "char \<Rightarrow> string" where
  "utf8_char c =
     (let n = of_char c :: nat
      in if n < 128 then [c] else [char_of (192 + n div 64), char_of (128 + n mod 64)])"

definition encode_utf8 :: "string \<Rightarrow> string" where
  "encode_utf8 s = concat (map utf8_char s)"

fun decode_utf8 :: "string \<Rightarrow> string result" where
  "decode_utf8 [] = Inr []"
| "decode_utf8 (c # s) =
     (let n = of_char c :: nat
      in if n < 128 then map_sum id ((#) c) (decode_utf8 s)
         else case s of
             [] \<Rightarrow> Inl UnicodeError
           | d # s' \<Rightarrow>
               (let m = of_char d :: nat
                in if (n = 194 \<or> n = 195) \<and> 128 \<le> m \<and> m < 192
                   then map_sum id ((#) (char_of ((n - 192) * 64 + (m - 128)))) (decode_utf8 s')
                   else Inl UnicodeError))"

lemma decode_utf8_two:
  assumes "(of_char c :: nat) = 192 + h" "h = 2 \<or> h = 3" "(of_char d :: nat) = 128 + l" "l < 64"
  shows "decode_utf8 (c # d # t) = map_sum id ((#) (char_of (h * 64 + l))) (decode_utf8 t)"
  using assms by (auto simp: Let_def)

lemma two_byte_lead: "128 \<le> n \<Longrightarrow> n < 256 \<Longrightarrow> n div 64 = 2 \<or> n div 64 = 3" for n :: nat
  using div_le_mono [of 128 n 64] less_mult_imp_div_less [of n 4 64] by simp linarith

lemma decode_utf8_char: "decode_utf8 (utf8_char c @ t) = map_sum id ((#) c) (decode_utf8 t)"
proof (cases "(of_char c :: nat) < 128")
  case True
  then show ?thesis by (simp add: utf8_char_def)
next
  case False
  let ?n = "of_char c :: nat"
  have n: "?n < 256" by (rule byte_range)
  have hi: "?n div 64 = 2 \<or> ?n div 64 = 3"
    using n False by (intro two_byte_lead) simp_all
  have lo: "?n mod 64 < 64" by simp
  have ok: "192 + ?n div 64 < 256" "128 + ?n mod 64 < 256"
    using hi lo by auto
  then have "(of_char (char_of (192 + ?n div 64)) :: nat) = 192 + ?n div 64"
    "(of_char (char_of (128 + ?n mod 64)) :: nat) = 128 + ?n mod 64"
    by simp_all
  note step = decode_utf8_two [OF this(1) hi this(2) lo]
  have two: "utf8_char c @ t = char_of (192 + ?n div 64) # char_of (128 + ?n mod 64) # t"
    using False by (simp add: utf8_char_def Let_def)
  have whole: "char_of (?n div 64 * 64 + ?n mod 64) = c" by simp
  show ?thesis unfolding two step whole ..
qed

lemma utf8_roundtrip: "decode_utf8 (encode_utf8 s) = Inr s"
  by (induction s) (simp_all add: encode_utf8_def decode_utf8_char)

section \<open>Writing JSON\<close>

text \<open>
  \<open>json.dumps\<close> with \<open>ensure_ascii\<close>: everything but printable ASCII is escaped.
\<close>

definition hex_char :: "nat \<Rightarrow> char" where
  "hex_char n = (if n < 10 then char_of (48 + n) else char_of (87 + n))"

definition json_escape_char :: "char \<Rightarrow> string" where
  "json_escape_char c =
     (let n = of_char c :: nat
      in if n = 0x22 then [CHR 0x5C, CHR 0x22]
         else if n = 0x5C then [CHR 0x5C, CHR 0x5C]
         else if n = 10 then [CHR 0x5C, CHR ''n'']
         else if n = 13 then [CHR 0x5C, CHR ''r'']
         else if n = 9 then [CHR 0x5C, CHR ''t'']
         else if n = 12 then [CHR 0x5C, CHR ''f'']
         else if n = 8 then [CHR 0x5C, CHR ''b'']
         else if 32 \<le> n \<and> n \<le> 126 then [c]
         else CHR 0x5C # ''u00'' @ [hex_char (n div 16), hex_char (n mod 16)])"

definition json_string :: "string \<Rightarrow> string" where
  "json_string s = CHR 0x22 # concat (map json_escape_char s) @ [CHR 0x22]"

text \<open>
  The values of the dictionaries the backend signs: strings, integers and, before
  \<open>jwt.encode\<close> has converted them, instants, which \<open>json.dumps\<close> refuses.
\<close>

datatype claim = ClaimStr string | ClaimInt int | ClaimTime instant

fun claim_text :: "claim \<Rightarrow> string result" where
  "claim_text (ClaimStr s) = Inr (json_string s)"
| "claim_text (ClaimInt n) = Inr (show_int n)"
| "claim_text (ClaimTime t) = Inl (TypeError ''Object of type datetime is not JSON serializable'')"

fun members_text :: "(string \<times> claim) list \<Rightarrow> string result" where
  "members_text [] = Inr []"
| "members_text ((k, v) # kvs) =
     (case claim_text v of
        Inl e \<Rightarrow> Inl e
      | Inr t \<Rightarrow>
          (case members_text kvs of
             Inl e \<Rightarrow> Inl e
           | Inr ts \<Rightarrow> Inr (json_string k @ CHR '':'' # t @ (if kvs = [] then ts else CHR '','' # ts))))"

definition dumps_compact :: "(string \<times> claim) list \<Rightarrow> string result" where
  "dumps_compact d = map_sum id (\<lambda>t. CHR ''{'' # t @ ''}'') (members_text d)"

section \<open>Reading JSON\<close>

definition hex_value :: "char \<Rightarrow> nat option" where
  "hex_value c =
     (let n = of_char c :: nat
      in if 48 \<le> n \<and> n \<le> 57 then Some (n - 48)
         else if 97 \<le> n \<and> n \<le> 102 then Some (n - 87)
         else if 65 \<le> n \<and> n \<le> 70 then Some (n - 55)
         else None)"

text \<open>\<open>\uXXXX\<close>; a code point that has no \<open>char\<close> is not accepted.\<close>

definition unicode_escape :: "char \<Rightarrow> char \<Rightarrow> char \<Rightarrow> char \<Rightarrow> char option" where
  "unicode_escape a b c d =
     (case (hex_value a, hex_value b, hex_value c, hex_value d) of
        (Some w, Some x, Some y, Some z) \<Rightarrow>
          if w = 0 \<and> x = 0 then Some (char_of (y * 16 + z)) else None
      | _ \<Rightarrow> None)"

definition simple_escape :: "char \<Rightarrow> char option" where
  "simple_escape e =
     map_of [(CHR 0x22, CHR 0x22), (CHR 0x5C, CHR 0x5C), (CHR ''/'', CHR ''/''),
       (CHR ''b'', CHR 0x08), (CHR ''f'', CHR 0x0C), (CHR ''n'', CHR 0x0A),
       (CHR ''r'', CHR 0x0D), (CHR ''t'', CHR 0x09)] e"

text \<open>The text after an opening quote: the string and what follows the closing quote.\<close>

function scan_string :: "string \<Rightarrow> (string \<times> string) option" where
  "scan_string s =
     (case s of
        [] \<Rightarrow> None
      | c # r \<Rightarrow>
          if c = CHR 0x22 then Some ([], r)
          else if c = CHR 0x5C then
            (case r of
               [] \<Rightarrow> None
             | e # r' \<Rightarrow>
                 if e = CHR ''u'' then
                   (case r' of
                      w # x # y # z # r'' \<Rightarrow>
                        (case unicode_escape w x y z of
                           None \<Rightarrow> None
                         | Some u \<Rightarrow> map_option (apfst ((#) u)) (scan_string r''))
                    | _ \<Rightarrow> None)
                 else
                   (case simple_escape e of
                      None \<Rightarrow> None
                    | Some u \<Rightarrow> map_option (apfst ((#) u)) (scan_string r')))
          else if (of_char c :: nat) < 32 then None
          else map_option (apfst ((#) c)) (scan_string r))"
  by pat_completeness auto
termination by (relation "measure length") auto

declare scan_string.simps [simp del]

text \<open>
  A number: its integer part with the sign, and the fraction and exponent when there are any
  (the regular expression \<open>(-?(?:0|[1-9]\d*))(\.\d+)?([eE][-+]?\d+)?\<close> of json.scanner).
\<close>

definition scan_int_part :: "string \<Rightarrow> (string \<times> string) option" where
  "scan_int_part s =
     (let (sign, r) = (if starts_with ''-'' s then (''-'', tl s) else ([], s))
      in if r = [] \<or> \<not> is_digit (hd r) then None
         else if hd r = CHR ''0'' then Some (sign @ ''0'', tl r)
         else Some (sign @ takeWhile is_digit r, dropWhile is_digit r))"

definition scan_fraction :: "string \<Rightarrow> string \<times> string" where
  "scan_fraction s =
     (if starts_with ''.'' s \<and> takeWhile is_digit (tl s) \<noteq> []
      then (takeWhile is_digit (tl s), dropWhile is_digit (tl s)) else ([], s))"

definition scan_exponent :: "string \<Rightarrow> string \<times> string" where
  "scan_exponent s =
     (if starts_with ''e'' s \<or> starts_with ''E'' s then
        (let (sign, r) = (if starts_with ''-'' (tl s) then (''-'', tl (tl s))
                          else if starts_with ''+'' (tl s) then ([], tl (tl s)) else ([], tl s))
         in if takeWhile is_digit r \<noteq> [] then (sign @ takeWhile is_digit r, dropWhile is_digit r)
            else ([], s))
      else ([], s))"

definition signed_decimal :: "string \<Rightarrow> int" where
  "signed_decimal t = (if starts_with ''-'' t then - decimal (tl t) else decimal t)"

text \<open>
  The float a decimal text denotes: the nearest binary64 number, or infinity past the largest
  one.
\<close>

definition float_overflow :: rat where
  "float_overflow = 2 ^ 1024 - 2 ^ 970"

definition ten_power :: "int \<Rightarrow> rat" where
  "ten_power k = (if 0 \<le> k then 10 ^ nat k else 1 / 10 ^ nat (- k))"

definition float_of_text :: "string \<Rightarrow> string \<Rightarrow> string \<Rightarrow> json" where
  "float_of_text ipart fpart ex =
     (let neg = starts_with ''-'' ipart;
          mantissa = decimal ((if neg then tl ipart else ipart) @ fpart);
          q = rat_of_int mantissa * ten_power (signed_decimal ex - int (length fpart));
          v = (if neg then - q else q)
      in if float_overflow \<le> \<bar>v\<bar> then JNonFinite (if neg then ''-Infinity'' else ''Infinity'')
         else JReal (rnd v))"

text \<open>
  The hooks \<open>parse_int\<close> and \<open>parse_float\<close> of \<open>json.loads\<close>: by default the numbers, and with
  \<open>parse_int=str, parse_float=str\<close> their texts.
\<close>

record hooks =
  on_int :: "string \<Rightarrow> json"
  on_float :: "string \<Rightarrow> string \<Rightarrow> string \<Rightarrow> string \<Rightarrow> json"

definition number_hooks :: hooks where
  "number_hooks = \<lparr> on_int = (\<lambda>t. JInt (signed_decimal t)),
     on_float = (\<lambda>t ipart fpart ex. float_of_text ipart fpart ex) \<rparr>"

definition text_hooks :: hooks where
  "text_hooks = \<lparr> on_int = JStr, on_float = (\<lambda>t ipart fpart ex. JStr t) \<rparr>"

definition scan_number :: "hooks \<Rightarrow> string \<Rightarrow> (json \<times> string) option" where
  "scan_number h s =
     (case scan_int_part s of
        None \<Rightarrow> None
      | Some (ipart, r) \<Rightarrow>
          (case scan_fraction r of (fpart, r1) \<Rightarrow>
           case scan_exponent r1 of (ex, r2) \<Rightarrow>
             if fpart = [] \<and> ex = [] then Some (on_int h ipart, r2)
             else Some (on_float h (take (length s - length r2) s) ipart fpart ex, r2)))"

definition is_json_space :: "char \<Rightarrow> bool" where
  "is_json_space c \<longleftrightarrow> c \<in> {CHR '' '', CHR 0x09, CHR 0x0A, CHR 0x0D}"

definition skip_space :: "string \<Rightarrow> string" where
  "skip_space s = dropWhile is_json_space s"

text \<open>\<open>dict(pairs)\<close>: the last value of a repeated key, at the place of the first.\<close>

definition dict_of_pairs :: "dict \<Rightarrow> dict" where
  "dict_of_pairs kvs = foldl (\<lambda>d (k, v). AList.update k v d) [] kvs"

text \<open>The literals, with NaN and the infinities json.loads accepts beside them.\<close>

definition scan_literal :: "string \<Rightarrow> (json \<times> string) option" where
  "scan_literal s =
     (case find (\<lambda>(t, v). starts_with t s)
        [(''null'', JNull), (''true'', JBool True), (''false'', JBool False),
         (''NaN'', JNonFinite ''NaN''), (''Infinity'', JNonFinite ''Infinity''),
         (''-Infinity'', JNonFinite ''-Infinity'')] of
        None \<Rightarrow> None
      | Some (t, v) \<Rightarrow> Some (v, drop (length t) s))"

text \<open>
  A value and what follows it.  Every recursive call is on a shorter text, so a fuel above the
  length of the text is enough.
\<close>

fun scan_value :: "hooks \<Rightarrow> nat \<Rightarrow> string \<Rightarrow> (json \<times> string) option"
  and scan_members :: "hooks \<Rightarrow> nat \<Rightarrow> string \<Rightarrow> (dict \<times> string) option"
  and scan_elements :: "hooks \<Rightarrow> nat \<Rightarrow> string \<Rightarrow> (json list \<times> string) option" where
  "scan_value h 0 s = None"
| "scan_value h (Suc n) s =
     (if starts_with [CHR 0x22] s then map_option (apfst JStr) (scan_string (tl s))
      else if starts_with ''{'' s then
        (if starts_with ''}'' (skip_space (tl s)) then Some (JObj [], tl (skip_space (tl s)))
         else map_option (apfst (JObj \<circ> dict_of_pairs)) (scan_members h n (skip_space (tl s))))
      else if starts_with ''['' s then
        (if starts_with '']'' (skip_space (tl s)) then Some (JArr [], tl (skip_space (tl s)))
         else map_option (apfst JArr) (scan_elements h n (skip_space (tl s))))
      else (case scan_number h s of Some r \<Rightarrow> Some r | None \<Rightarrow> scan_literal s))"
| "scan_members h 0 s = None"
| "scan_members h (Suc n) s =
     (if \<not> starts_with [CHR 0x22] s then None
      else (case scan_string (tl s) of
          None \<Rightarrow> None
        | Some (k, r) \<Rightarrow>
            if \<not> starts_with '':'' (skip_space r) then None
            else (case scan_value h n (skip_space (tl (skip_space r))) of
                None \<Rightarrow> None
              | Some (v, r') \<Rightarrow>
                  if starts_with ''}'' (skip_space r') then Some ([(k, v)], tl (skip_space r'))
                  else if starts_with '','' (skip_space r') then
                    map_option (apfst ((#) (k, v)))
                      (scan_members h n (skip_space (tl (skip_space r'))))
                  else None)))"
| "scan_elements h 0 s = None"
| "scan_elements h (Suc n) s =
     (case scan_value h n s of
        None \<Rightarrow> None
      | Some (v, r) \<Rightarrow>
          if starts_with '']'' (skip_space r) then Some ([v], tl (skip_space r))
          else if starts_with '','' (skip_space r) then
            map_option (apfst ((#) v)) (scan_elements h n (skip_space (tl (skip_space r))))
          else None)"

definition loads_with :: "hooks \<Rightarrow> string \<Rightarrow> json result" where
  "loads_with h s =
     (case scan_value h (Suc (length s)) (skip_space s) of
        None \<Rightarrow> Inl (ValueError ''JSONDecodeError'')
      | Some (v, r) \<Rightarrow>
          if skip_space r = [] then Inr v else Inl (ValueError ''JSONDecodeError''))"

definition loads :: "string \<Rightarrow> json result" where
  "loads = loads_with number_hooks"

section \<open>Reading what was written\<close>

lemma hex_table: "list_all (\<lambda>k. hex_value (hex_char k) = Some k) [0..<16]"
  by (simp add: upt_rec hex_value_def hex_char_def)

lemma hex_value_char [simp]: "k < 16 \<Longrightarrow> hex_value (hex_char k) = Some k"
proof -
  assume "k < 16"
  then have "k \<in> set [0..<16]" by simp
  with hex_table show ?thesis unfolding list_all_iff by blast
qed

lemma special_chars:
  "(of_char c :: nat) = 0x22 \<Longrightarrow> c = CHR 0x22" "(of_char c :: nat) = 0x5C \<Longrightarrow> c = CHR 0x5C"
  "(of_char c :: nat) = 10 \<Longrightarrow> c = CHR 0x0A" "(of_char c :: nat) = 13 \<Longrightarrow> c = CHR 0x0D"
  "(of_char c :: nat) = 9 \<Longrightarrow> c = CHR 0x09" "(of_char c :: nat) = 12 \<Longrightarrow> c = CHR 0x0C"
  "(of_char c :: nat) = 8 \<Longrightarrow> c = CHR 0x08"
proof -
  have eq: "(of_char c :: nat) = of_char d \<Longrightarrow> c = d" for d by simp
  show "(of_char c :: nat) = 0x22 \<Longrightarrow> c = CHR 0x22" "(of_char c :: nat) = 0x5C \<Longrightarrow> c = CHR 0x5C"
    "(of_char c :: nat) = 10 \<Longrightarrow> c = CHR 0x0A" "(of_char c :: nat) = 13 \<Longrightarrow> c = CHR 0x0D"
    "(of_char c :: nat) = 9 \<Longrightarrow> c = CHR 0x09" "(of_char c :: nat) = 12 \<Longrightarrow> c = CHR 0x0C"
    "(of_char c :: nat) = 8 \<Longrightarrow> c = CHR 0x08"
    by (rule eq, simp)+
qed

lemma scan_string_simple:
  assumes "simple_escape e = Some u" "e \<noteq> CHR ''u''"
  shows "scan_string (CHR 0x5C # e # t) = map_option (apfst ((#) u)) (scan_string t)"
  by (subst scan_string.simps) (simp add: assms)

lemma scan_string_code:
  assumes "a = CHR ''0''" "b = CHR ''0''"
  shows "scan_string (CHR 0x5C # CHR ''u'' # a # b # hex_char ((of_char c :: nat) div 16)
    # hex_char ((of_char c :: nat) mod 16) # t) = map_option (apfst ((#) c)) (scan_string t)"
proof -
  have "(of_char c :: nat) div 16 < 16"
    using byte_range [of c] by (simp add: less_mult_imp_div_less)
  then show ?thesis
    by (subst scan_string.simps) (simp add: assms unicode_escape_def hex_value_def [of "CHR ''0''"])
qed

lemma scan_string_plain:
  assumes "32 \<le> (of_char c :: nat)" "(of_char c :: nat) \<noteq> 0x22" "(of_char c :: nat) \<noteq> 0x5C"
  shows "scan_string (c # t) = map_option (apfst ((#) c)) (scan_string t)"
proof -
  have "c \<noteq> CHR 0x22" "c \<noteq> CHR 0x5C" using assms(2,3) by auto
  with assms(1) show ?thesis by (subst scan_string.simps) simp
qed

lemma scan_string_escape:
  "scan_string (json_escape_char c @ t) = map_option (apfst ((#) c)) (scan_string t)"
proof -
  let ?n = "of_char c :: nat"
  consider "?n = 0x22" | "?n = 0x5C" | "?n = 10" | "?n = 13" | "?n = 9" | "?n = 12" | "?n = 8"
    | "?n \<notin> {0x22, 0x5C, 10, 13, 9, 12, 8}" "32 \<le> ?n" "?n \<le> 126"
    | "?n \<notin> {0x22, 0x5C, 10, 13, 9, 12, 8}" "\<not> (32 \<le> ?n \<and> ?n \<le> 126)"
    by blast
  then show ?thesis
  proof cases
    case 8
    then show ?thesis by (simp add: json_escape_char_def scan_string_plain)
  next
    case 9
    then have "json_escape_char c = CHR 0x5C # CHR ''u'' # CHR ''0'' # CHR ''0''
        # hex_char (?n div 16) # [hex_char (?n mod 16)]"
      unfolding json_escape_char_def Let_def by (simp only: if_False insert_iff de_Morgan_disj) simp
    then show ?thesis by (simp only: append_Cons append_Nil scan_string_code)
  qed (drule special_chars, simp add: json_escape_char_def scan_string_simple simple_escape_def)+
qed

lemma scan_string_roundtrip:
  "scan_string (concat (map json_escape_char s) @ CHR 0x22 # r) = Some (s, r)"
proof (induction s)
  case Nil
  show ?case by (subst scan_string.simps) simp
next
  case (Cons c s)
  then show ?case by (simp add: scan_string_escape)
qed

lemma show_int_cases:
  obtains d ds where "show_int n = d # ds" "list_all is_digit (d # ds)" "0 \<le> n"
      "decimal (d # ds) = n" "d = CHR ''0'' \<Longrightarrow> ds = []"
    | d ds where "show_int n = CHR ''-'' # d # ds" "list_all is_digit (d # ds)" "n < 0"
      "decimal (d # ds) = - n" "d = CHR ''0'' \<Longrightarrow> ds = []"
proof -
  have shape: "\<exists>d ds. digits k = d # ds \<and> list_all is_digit (d # ds) \<and> decimal (d # ds) = int k
      \<and> (d = CHR ''0'' \<longrightarrow> ds = [])" for k
  proof -
    obtain d ds where d: "digits k = d # ds" using digits_not_Nil by (cases "digits k") auto
    have "ds = []" if "d = CHR ''0''"
    proof (cases "k = 0")
      case True
      then show ?thesis using d by (simp add: digits.simps)
    next
      case False
      then show ?thesis using digits_head [of k] d that by simp
    qed
    then show ?thesis using d digits_all [of k] decimal_digits [of k] by simp
  qed
  show thesis
  proof (cases "n < 0")
    case True
    with shape [of "nat (- n)"] that(2) show ?thesis by (auto simp: show_int_def)
  next
    case False
    with shape [of "nat n"] that(1) show ?thesis by (auto simp: show_int_def)
  qed
qed

lemma digit_neq [simp]: "is_digit c \<Longrightarrow> c \<noteq> CHR ''-''" "is_digit c \<Longrightarrow> c \<noteq> CHR ''.''"
  by (auto simp: is_digit_def)

lemma scan_number_int:
  assumes "r = [] \<or> hd r \<in> {CHR '','', CHR ''}''}"
  shows "scan_number h (show_int n @ r) = Some (on_int h (show_int n), r)"
proof -
  have stop: "takeWhile is_digit r = []" "dropWhile is_digit r = r"
    and plain: "scan_fraction r = ([], r)" "scan_exponent r = ([], r)"
    using assms by (cases r; auto simp: is_digit_def scan_fraction_def scan_exponent_def starts_with_def)+
  have body: "takeWhile is_digit (ds @ r) = ds" "dropWhile is_digit (ds @ r) = r"
    if "list_all is_digit ds" for ds
    using that stop by (induction ds) auto
  show ?thesis
  proof (cases n rule: show_int_cases)
    case (1 d ds)
    then show ?thesis
      by (auto simp: scan_number_def scan_int_part_def starts_with_def plain body)
  next
    case (2 d ds)
    then show ?thesis
      by (auto simp: scan_number_def scan_int_part_def starts_with_def plain body)
  qed
qed

lemma signed_decimal_show [simp]: "signed_decimal (show_int n) = n"
  by (cases n rule: show_int_cases) (auto simp: signed_decimal_def starts_with_def)

text \<open>What a claim is once it has been written and read.\<close>

fun claim_json :: "claim \<Rightarrow> json" where
  "claim_json (ClaimStr s) = JStr s"
| "claim_json (ClaimInt n) = JInt n"
| "claim_json (ClaimTime t) = JNull"

lemma skip_space_head: "s \<noteq> [] \<Longrightarrow> \<not> is_json_space (hd s) \<Longrightarrow> skip_space s = s"
  by (cases s) (simp_all add: skip_space_def)

lemma json_string_append: "json_string k @ r = CHR 0x22 # (concat (map json_escape_char k) @ CHR 0x22 # r)"
  by (simp add: json_string_def)

lemma not_space [simp]: "\<not> is_json_space (CHR 0x22)" "\<not> is_json_space (CHR '':'')"
  "\<not> is_json_space (CHR '','')" "\<not> is_json_space (CHR ''}'')" "\<not> is_json_space (CHR ''{'')"
  "\<not> is_json_space (CHR ''-'')"
  by (simp_all add: is_json_space_def)

lemma digit_not_space [simp]: "is_digit d \<Longrightarrow> \<not> is_json_space d"
  by (auto simp: is_digit_def is_json_space_def)

lemma not_digit [simp]: "\<not> is_digit (CHR 0x22)" "\<not> is_digit (CHR ''{'')" "\<not> is_digit (CHR ''['')"
  by (simp_all add: is_digit_def)

lemma claim_text_scan:
  assumes "claim_text v = Inr t" "r = [] \<or> hd r \<in> {CHR '','', CHR ''}''}"
  shows "scan_value number_hooks (Suc n) (t @ r) = Some (claim_json v, r)" "skip_space (t @ r) = t @ r"
proof -
  have "scan_value number_hooks (Suc n) (t @ r) = Some (claim_json v, r) \<and> skip_space (t @ r) = t @ r"
  proof (cases v)
    case (ClaimStr s)
    with assms(1) have "t @ r = CHR 0x22 # (concat (map json_escape_char s) @ CHR 0x22 # r)"
      by (auto simp: json_string_def)
    then show ?thesis
      by (simp add: starts_with_def scan_string_roundtrip skip_space_def ClaimStr)
  next
    case (ClaimInt k)
    then have t: "t = show_int k" using assms(1) by simp
    have hd: "\<exists>d ds. t = d # ds \<and> (is_digit d \<or> d = CHR ''-'')"
      unfolding t by (cases k rule: show_int_cases) auto
    then obtain d ds where d: "t = d # ds" "is_digit d \<or> d = CHR ''-''" by blast
    have "skip_space (t @ r) = t @ r" using d by (auto intro: skip_space_head)
    moreover have "scan_number number_hooks (t @ r) = Some (JInt k, r)"
      using scan_number_int [OF assms(2), of number_hooks k] t by (simp add: number_hooks_def)
    ultimately show ?thesis
      using d ClaimInt by (auto simp: starts_with_def)
  next
    case (ClaimTime i)
    with assms(1) show ?thesis by simp
  qed
  then show "scan_value number_hooks (Suc n) (t @ r) = Some (claim_json v, r)"
    "skip_space (t @ r) = t @ r" by simp_all
qed

lemma members_text_scan:
  assumes "members_text kvs = Inr t" "kvs \<noteq> []" "length kvs < n"
  shows "scan_members number_hooks n (t @ CHR ''}'' # r) = Some (map (apsnd claim_json) kvs, r) \<and>
    skip_space (t @ CHR ''}'' # r) = t @ CHR ''}'' # r"
  using assms
proof (induction kvs arbitrary: t n)
  case Nil
  then show ?case by simp
next
  case (Cons kv kvs)
  obtain k v where kv: "kv = (k, v)" by fastforce
  from Cons.prems(1) kv obtain vt ts where vt: "claim_text v = Inr vt"
    and ts: "members_text kvs = Inr ts"
    and t: "t = json_string k @ CHR '':'' # vt @ (if kvs = [] then ts else CHR '','' # ts)"
    by (auto split: sum.splits)
  obtain m where n: "n = Suc (Suc m)" using Cons.prems(3) by (cases n; cases "n - 1") auto
  have nil: "kvs = [] \<Longrightarrow> ts = []" using ts by simp
  have vals: "scan_value number_hooks (Suc m) (vt @ tl') = Some (claim_json v, tl')"
    "skip_space (vt @ tl') = vt @ tl'" if "hd tl' \<in> {CHR '','', CHR ''}''}" for tl'
    using claim_text_scan [OF vt] that by simp_all
  let ?tail = "(if kvs = [] then ts else CHR '','' # ts) @ CHR ''}'' # r"
  have tail: "hd ?tail \<in> {CHR '','', CHR ''}''}" using nil by auto
  have whole: "t @ CHR ''}'' # r =
      CHR 0x22 # (concat (map json_escape_char k) @ CHR 0x22 # CHR '':'' # vt @ ?tail)"
    by (simp add: t json_string_def)
  have step: "scan_members number_hooks n (t @ CHR ''}'' # r) =
      (if starts_with ''}'' (skip_space ?tail) then Some ([(k, claim_json v)], tl (skip_space ?tail))
       else if starts_with '','' (skip_space ?tail) then
         map_option (apfst ((#) (k, claim_json v)))
           (scan_members number_hooks (Suc m) (skip_space (tl (skip_space ?tail))))
       else None)"
    unfolding whole n scan_members.simps
    by (simp add: starts_with_def scan_string_roundtrip skip_space_head vals [OF tail]
        del: scan_value.simps scan_members.simps)
  have space: "skip_space (t @ CHR ''}'' # r) = t @ CHR ''}'' # r"
    unfolding whole by (simp add: skip_space_head)
  show ?case
  proof (cases "kvs = []")
    case True
    then show ?thesis
      using step nil space by (simp add: kv skip_space_head starts_with_def)
  next
    case False
    have "length kvs < Suc m" using Cons.prems(3) n by simp
    from Cons.IH [OF ts False this]
    have IH: "scan_members number_hooks (Suc m) (ts @ CHR ''}'' # r) = Some (map (apsnd claim_json) kvs, r)"
      "skip_space (ts @ CHR ''}'' # r) = ts @ CHR ''}'' # r" by simp_all
    have tl: "skip_space ?tail = CHR '','' # ts @ CHR ''}'' # r"
      using False by (simp add: skip_space_head)
    show ?thesis
      using space step unfolding tl
      by (simp add: starts_with_def kv IH del: scan_members.simps)
  qed
qed

lemma members_text_length: "members_text kvs = Inr t \<Longrightarrow> length kvs \<le> length t"
proof (induction kvs arbitrary: t)
  case (Cons kv kvs)
  then obtain k v vt ts where "kv = (k, v)" "members_text kvs = Inr ts"
    "t = json_string k @ CHR '':'' # vt @ (if kvs = [] then ts else CHR '','' # ts)"
    by (cases kv) (auto split: sum.splits)
  with Cons.IH show ?case by (auto simp: json_string_def)
qed simp

text \<open>\<open>json.loads(json.dumps(d))\<close> is \<open>d\<close>.\<close>

lemma loads_dumps:
  assumes "dumps_compact kvs = Inr t"
  shows "loads t = Inr (JObj (dict_of_pairs (map (apsnd claim_json) kvs)))"
proof -
  obtain m where m: "members_text kvs = Inr m" and t: "t = CHR ''{'' # m @ ''}''"
    using assms by (cases "members_text kvs") (auto simp: dumps_compact_def)
  show ?thesis
  proof (cases "kvs = []")
    case True
    then show ?thesis
      using m t by (simp add: loads_def loads_with_def skip_space_head starts_with_def dict_of_pairs_def)
        (simp add: skip_space_def)
  next
    case False
    have "length kvs < length t" using members_text_length [OF m] t by simp
    from members_text_scan [OF m False this, of "[]"]
    have scan: "scan_members number_hooks (length t) (m @ ''}'') = Some (map (apsnd claim_json) kvs, [])"
      "skip_space (m @ ''}'') = m @ ''}''" by simp_all
    have "m \<noteq> []" using m False by (cases kvs) (auto simp: json_string_def split: sum.splits)
    moreover have "hd m = CHR 0x22"
      using m False by (cases kvs) (auto simp: json_string_def split: sum.splits)
    ultimately have "\<not> starts_with ''}'' (m @ ''}'')" by (cases m) (auto simp: starts_with_def)
    moreover have "skip_space t = t" "\<not> starts_with [CHR 0x22] t" "starts_with ''{'' t" "tl t = m @ ''}''"
      using t by (simp_all add: skip_space_head starts_with_def)
    ultimately have "scan_value number_hooks (Suc (length t)) (skip_space t) =
        Some (JObj (dict_of_pairs (map (apsnd claim_json) kvs)), [])"
      using scan by (simp add: del: scan_members.simps)
    then show ?thesis by (simp add: loads_def loads_with_def skip_space_def del: scan_value.simps)
  qed
qed

lemma dict_of_pairs_distinct: "distinct (map fst kvs) \<Longrightarrow> dict_of_pairs kvs = kvs"
proof (induction kvs rule: rev_induct)
  case (snoc kv kvs)
  have app: "AList.update k v d = d @ [(k, v)]" if "k \<notin> fst ` set d" for k v and d :: dict
    using that by (induction d) auto
  from snoc show ?case
    by (cases kv) (auto simp: dict_of_pairs_def app)
qed (simp add: dict_of_pairs_def)

end
