(* ===== verification/MqttClient.thy ===== *)
theory MqttClient
  imports RedisClient Codec
begin

text \<open>
  app/shared/mqtt_client.py: the module-level client behind \<open>publish\<close>, the wrapper object
  \<open>mqtt_client\<close> of the decision engine, and the topics; with the checks of paho's
  \<open>Client.publish\<close>.  A message accepted by paho is appended to \<open>outbox\<close>.
\<close>

section \<open>paho\<close>

definition valid_topic :: "string \<Rightarrow> unit result" where
  "valid_topic t =
     (if CHR ''+'' \<in> set t \<or> CHR ''#'' \<in> set t then Inl (ValueError ''wildcards'')
      else if length (encode_utf8 t) > 65535 then Inl (ValueError ''too long'')
      else Inr ())"

definition encode_payload :: "mqtt_payload \<Rightarrow> unit result" where
  "encode_payload p = (case p of PText _ \<Rightarrow> Inr () | PDict _ \<Rightarrow> Inl (TypeError ''payload''))"

definition paho_publish :: "string \<Rightarrow> mqtt_payload \<Rightarrow> int \<Rightarrow> unit handler" where
  "paho_publish topic payload qos =
     (if topic = [] then raise (ValueError ''Invalid topic.'')
      else bindE (lift (valid_topic topic)) (\<lambda>_.
        if qos < 0 \<or> qos > 2 then raise (ValueError ''Invalid QoS level.'')
        else bindE (lift (encode_payload payload)) (\<lambda>_.
          modS (\<lambda>w. w\<lparr>outbox := outbox w @
            [\<lparr>msg_topic = topic, msg_payload = payload, msg_qos = qos\<rparr>]\<rparr>))))"

section \<open>The clients\<close>

text \<open>\<open>_build_client\<close>: connecting to an unreachable broker raises.\<close>

definition build_client :: "unit handler" where
  "build_client = (\<lambda>w.
     if \<not> MQTT_ENABLED (config w) then (Inl (RuntimeError ''MQTT is disabled by configuration''), w)
     else if \<not> broker_up w then (Inl ConnectionError, w)
     else (Inr (), w))"

definition wrapper_connect :: "unit handler" where
  "wrapper_connect = andThen build_client (modS (\<lambda>w. w\<lparr>wrapper_client := True\<rparr>))"

definition wrapper_is_connected :: "bool handler" where
  "wrapper_is_connected = readS (\<lambda>w. if wrapper_client w then broker_up w else False)"

definition wrapper_publish :: "string \<Rightarrow> mqtt_payload \<Rightarrow> int \<Rightarrow> unit handler" where
  "wrapper_publish topic payload qos =
     bindE (readS wrapper_client) (\<lambda>c. if c then paho_publish topic payload qos else ret ())"

definition get_mqtt_client :: "unit handler" where
  "get_mqtt_client =
     bindE (readS pub_client) (\<lambda>c.
       if c then ret () else andThen build_client (modS (\<lambda>w. w\<lparr>pub_client := True\<rparr>)))"

fun dumps_payload :: "mqtt_payload \<Rightarrow> pytext" where
  "dumps_payload (PText t) = json_dumps (text_json t)"
| "dumps_payload (PDict d) = json_dumps (JObj d)"

text \<open>
  \<open>publish\<close>: without a client the message is skipped; the payload is JSON-encoded here.
\<close>

definition publish :: "string \<Rightarrow> mqtt_payload \<Rightarrow> int \<Rightarrow> unit handler" where
  "publish topic payload qos = (\<lambda>w.
     case get_mqtt_client w of
       (Inl _, w') \<Rightarrow> (Inr (), w')
     | (Inr _, w') \<Rightarrow> paho_publish topic (PText (dumps_payload payload)) qos w')"

text \<open>
  \<open>await publish(...)\<close>: \<open>publish\<close> is an ordinary function, so what is awaited is its result
  \<open>None\<close>, which raises after the call has had its effect.
\<close>

definition await_publish :: "string \<Rightarrow> mqtt_payload \<Rightarrow> int \<Rightarrow> unit handler" where
  "await_publish topic payload qos =
     andThen (publish topic payload qos) (raise (TypeError ''await''))"

section \<open>Topics\<close>

definition topic_budget :: "string \<Rightarrow> string \<Rightarrow> string" where
  "topic_budget user_id device_id =
     ''screensync/'' @ user_id @ ''/'' @ device_id @ ''/budget/receive''"

definition topic_enforce :: "string \<Rightarrow> string \<Rightarrow> string" where
  "topic_enforce user_id device_id =
     ''screensync/'' @ user_id @ ''/'' @ device_id @ ''/control/enforce''"

definition topic_override_result :: "string \<Rightarrow> string \<Rightarrow> string" where
  "topic_override_result user_id device_id =
     ''screensync/'' @ user_id @ ''/'' @ device_id @ ''/override/result''"

definition topic_family_override :: "string \<Rightarrow> string" where
  "topic_family_override user_id = ''screensync/'' @ user_id @ ''/family/override/request''"

section \<open>Running the clients\<close>

lemma leaves_db_mqtt [leaves_db_intro]:
  "leaves_db (paho_publish topic payload qos)" "leaves_db (wrapper_publish topic payload qos)"
  "leaves_db (publish topic payload qos)" "leaves_db (await_publish topic payload qos)"
  "leaves_db get_mqtt_client"
proof -
  show p: "leaves_db (paho_publish topic payload qos)" for topic payload qos
    by (auto simp: paho_publish_def leaves_db_def bindE_run split: sum.splits)
  show "leaves_db (wrapper_publish topic payload qos)"
    unfolding wrapper_publish_def by (auto intro!: leaves_db_intro p)
  show g: "leaves_db get_mqtt_client"
    by (auto simp: get_mqtt_client_def build_client_def leaves_db_def bindE_run andThen_def)
  show q: "leaves_db (publish topic payload qos)"
    using g p by (auto simp: publish_def leaves_db_def split: prod.splits sum.splits)
      (metis snd_conv)+
  show "leaves_db (await_publish topic payload qos)"
    unfolding await_publish_def by (intro leaves_db_intro q)
qed

text \<open>Nothing ever connects the wrapper, so publishing through it is silent.\<close>

lemma wrapper_publish_silent: "\<not> wrapper_client w \<Longrightarrow> wrapper_publish t p q w = (Inr (), w)"
  by (simp add: wrapper_publish_def bindE_run)

lemma publish_connected:
  assumes "pub_client w" "t \<noteq> []" "valid_topic t = Inr ()" "0 \<le> q" "q \<le> 2"
  shows "publish t p q w = (Inr (), w\<lparr>outbox := outbox w @
    [\<lparr>msg_topic = t, msg_payload = PText (dumps_payload p), msg_qos = q\<rparr>]\<rparr>)"
  using assms
  by (simp add: publish_def get_mqtt_client_def bindE_run paho_publish_def encode_payload_def)

lemma publish_unavailable:
  "\<not> pub_client w \<Longrightarrow> \<not> (MQTT_ENABLED (config w) \<and> broker_up w) \<Longrightarrow> publish t p q w = (Inr (), w)"
  by (auto simp: publish_def get_mqtt_client_def bindE_run build_client_def andThen_def)

lemma await_publish_raises:
  "fst (await_publish t p q w) = Inl (TypeError ''await'') \<or> (\<exists>e. fst (publish t p q w) = Inl e)"
  by (auto simp: await_publish_def andThen_def bindE_run split: prod.splits sum.splits)

end
