(* ===== verification/Engine.thy ===== *)
theory Engine
  imports Budgets MqttClient
begin

text \<open>
  app/modules/decision_engine/engine.py: the pipeline of a usage event (budget, weighted cost,
  rules, deduction, enforcement message), the rebalance trigger and the drift flags.  The pipeline
  is defined for an arbitrary way to invalidate the cache, as the writers of theory Budgets are,
  and under the source's name with the one the code uses.
\<close>

section \<open>Definitions\<close>

fun action_name :: "action \<Rightarrow> string" where
  "action_name Allow = ''allow''"
| "action_name Warn = ''warn''"
| "action_name Block = ''block''"

definition enforce_topic :: "Device \<Rightarrow> string" where
  "enforce_topic device =
     ''screensync/'' @ dev_user_id device @ ''/'' @ dev_id device @ ''/control/enforce''"

definition budget_topic :: "string \<Rightarrow> string \<Rightarrow> string" where
  "budget_topic user_id device_id =
     ''screensync/'' @ user_id @ ''/'' @ device_id @ ''/budget/receive''"

text \<open>\<open>budget["remaining_seconds"] if budget else 0\<close>\<close>

definition remaining_item :: "pyval \<Rightarrow> int handler" where
  "remaining_item budget = (if truthy budget then int_item budget ''remaining_seconds'' else ret 0)"

definition publish_enforcement :: "Device \<Rightarrow> RuleResult \<Rightarrow> pyval \<Rightarrow> unit handler" where
  "publish_enforcement device result budget =
     bindE (remaining_item budget) (\<lambda>remaining.
     bindE now_utc (\<lambda>t.
       wrapper_publish (enforce_topic device)
         (PDict [(''action'', JStr (action_name (res_action result))),
                 (''reason'', JStr (res_reason result)),
                 (''remaining_secs'', JInt remaining),
                 (''ts'', JTime t)]) 2))"

record usage_outcome =
  out_device_id :: string
  out_app_category :: string
  out_raw_seconds :: int
  out_effective_cost_seconds :: int
  out_action :: action
  out_reason :: string
  out_metadata :: dict
  out_budget :: pyval

definition process_usage_event_with ::
    "(string \<Rightarrow> unit handler) \<Rightarrow> Device \<Rightarrow> string \<Rightarrow> int \<Rightarrow> usage_outcome handler" where
  "process_usage_event_with invalidate device app_category raw_seconds =
     bindE (readS local_today) (\<lambda>today.
     bindE (get_budget (dev_id device) today) (\<lambda>found.
     bindE (if found = VNone
            then andThen (initialise_daily_budgets (dev_user_id device) today)
                   (get_budget (dev_id device) today)
            else ret found) (\<lambda>budget.
     bindE (remaining_item budget) (\<lambda>remaining.
     let cost = effective_cost app_category raw_seconds
     in bindE now_utc (\<lambda>t.
        let ctx = \<lparr> ctx_device_id = dev_id device, ctx_user_id = dev_user_id device,
              ctx_app_category = app_category, ctx_duration_seconds = raw_seconds,
              ctx_remaining_seconds = remaining, ctx_device_priority = dev_priority device,
              ctx_timestamp = t \<rparr>;
            result = evaluate_rules ctx
        in bindE (if res_action result \<noteq> Block
                  then record_usage_with invalidate (dev_id device) cost today
                  else ret budget) (\<lambda>updated_budget.
           andThen (publish_enforcement device result updated_budget)
           (ret \<lparr> out_device_id = dev_id device, out_app_category = app_category,
                 out_raw_seconds = raw_seconds, out_effective_cost_seconds = cost,
                 out_action = res_action result, out_reason = res_reason result,
                 out_metadata = res_metadata result, out_budget = updated_budget \<rparr>)))))))"

definition process_usage_event :: "Device \<Rightarrow> string \<Rightarrow> int \<Rightarrow> usage_outcome handler" where
  "process_usage_event = process_usage_event_with rc_delete"

subsection \<open>Rebalance trigger\<close>

text \<open>
  \<open>str(UUID(s))\<close>: dashes, braces and the URN prefixes are dropped, 32 hexadecimal digits must
  remain, and they are printed in the canonical form.
\<close>

fun replace_all_fuel :: "nat \<Rightarrow> string \<Rightarrow> string \<Rightarrow> string" where
  "replace_all_fuel 0 old s = s"
| "replace_all_fuel (Suc n) old [] = []"
| "replace_all_fuel (Suc n) old (c # s) =
     (if starts_with old (c # s) then replace_all_fuel n old (drop (length old) (c # s))
      else c # replace_all_fuel n old s)"

definition remove_all :: "string \<Rightarrow> string \<Rightarrow> string" where
  "remove_all old s = replace_all_fuel (length s) old s"

definition strip_chars :: "char set \<Rightarrow> string \<Rightarrow> string" where
  "strip_chars cs s = rev (dropWhile (\<lambda>c. c \<in> cs) (rev (dropWhile (\<lambda>c. c \<in> cs) s)))"

definition lower_hex :: "char \<Rightarrow> char" where
  "lower_hex c = (if CHR ''A'' \<le> c \<and> c \<le> CHR ''F'' then char_of (of_char c + 32 :: nat) else c)"

definition is_hex :: "char \<Rightarrow> bool" where
  "is_hex c \<longleftrightarrow> (CHR ''0'' \<le> c \<and> c \<le> CHR ''9'') \<or> (CHR ''a'' \<le> c \<and> c \<le> CHR ''f'')
     \<or> (CHR ''A'' \<le> c \<and> c \<le> CHR ''F'')"

definition canonical_uuid :: "string \<Rightarrow> string result" where
  "canonical_uuid s =
     (let h = remove_all ''-'' (strip_chars {CHR ''{'', CHR ''}''}
            (remove_all ''uuid:'' (remove_all ''urn:'' s)))
      in if length h = 32 \<and> list_all is_hex h then
           (let x = map lower_hex h
            in Inr (take 8 x @ ''-'' @ take 4 (drop 8 x) @ ''-'' @ take 4 (drop 12 x) @ ''-''
                  @ take 4 (drop 16 x) @ ''-'' @ drop 20 x))
         else Inl (ValueError ''badly formed hexadecimal UUID string''))"

definition json_str :: "json \<Rightarrow> string result" where
  "json_str j = (case j of JStr s \<Rightarrow> Inr s | _ \<Rightarrow> Inl (TypeError ''str''))"

definition publish_update :: "string \<Rightarrow> dict \<Rightarrow> unit handler" where
  "publish_update user_id upd =
     bindE (lift (py_item (VDict upd) ''device_id'')) (\<lambda>d.
     bindE (lift (json_str d)) (\<lambda>i.
     bindE (lift (canonical_uuid i)) (\<lambda>device_id.
     bindE (lift (py_item (VDict upd) ''new_total_budget_seconds'')) (\<lambda>total.
     bindE now_utc (\<lambda>t.
       wrapper_publish (budget_topic user_id device_id)
         (PDict [(''remaining_secs'', total), (''rebalanced'', JBool True),
                 (''ts'', JTime t)]) 2)))))"

definition trigger_rebalance_with :: "(string \<Rightarrow> unit handler) \<Rightarrow> string \<Rightarrow> dict list handler" where
  "trigger_rebalance_with invalidate user_id =
     bindE (readS local_today) (\<lambda>today.
     bindE (rebalance_budgets_with invalidate user_id today) (\<lambda>updates.
       andThen (forEach (publish_update user_id) updates) (ret updates)))"

definition trigger_rebalance :: "string \<Rightarrow> dict list handler" where
  "trigger_rebalance = trigger_rebalance_with rc_delete"

subsection \<open>Drift flags\<close>

definition drift_flag_key :: "string \<Rightarrow> string" where
  "drift_flag_key device_id = ''drift_flag:'' @ device_id"

definition flag_anomalous_device :: "string \<Rightarrow> rat \<Rightarrow> string \<Rightarrow> unit handler" where
  "flag_anomalous_device device_id drift_score reason =
     bindE now_utc (\<lambda>t.
       rc_set (drift_flag_key device_id)
         (VDict [(''drift_score'', JReal drift_score), (''reason'', JStr reason),
                 (''flagged_at'', JTime t)])
         (Some 86400))"

definition is_device_flagged :: "string \<Rightarrow> pyval handler" where
  "is_device_flagged device_id = rc_get (drift_flag_key device_id)"

text \<open>The synchronous entry point of the ingestion modules only logs.\<close>

definition evaluate_and_enforce :: "string \<Rightarrow> string \<Rightarrow> unit handler" where
  "evaluate_and_enforce user_id device_id = ret ()"

section \<open>The pipeline, step by step\<close>

lemma budget_to_dict_not_Nil [simp]: "budget_to_dict b \<noteq> []"
  by (simp add: budget_to_dict_def)

lemma remaining_item_dict [simp]:
  "remaining_item (VDict (budget_to_dict b)) w = (Inr (max 0 (bud_total b - bud_used b)), w)"
  "remaining_item VNone w = (Inr 0, w)"
  by (simp_all add: remaining_item_def)

lemma publish_enforcement_silent:
  "\<not> wrapper_client w \<Longrightarrow> remaining_item budget w = (Inr n, w) \<Longrightarrow>
     publish_enforcement x res budget w = (Inr (), w)"
  by (simp add: publish_enforcement_def wrapper_publish_silent)

text \<open>The context of an event of a device when a number of seconds remain.\<close>

definition event_context :: "Device \<Rightarrow> string \<Rightarrow> int \<Rightarrow> int \<Rightarrow> instant \<Rightarrow> RuleContext" where
  "event_context x c raw remaining t =
     \<lparr> ctx_device_id = dev_id x, ctx_user_id = dev_user_id x, ctx_app_category = c,
       ctx_duration_seconds = raw, ctx_remaining_seconds = remaining,
       ctx_device_priority = dev_priority x, ctx_timestamp = t \<rparr>"

definition outcome_of :: "Device \<Rightarrow> string \<Rightarrow> int \<Rightarrow> RuleResult \<Rightarrow> pyval \<Rightarrow> usage_outcome" where
  "outcome_of x c raw res budget =
     \<lparr> out_device_id = dev_id x, out_app_category = c, out_raw_seconds = raw,
       out_effective_cost_seconds = effective_cost c raw, out_action = res_action res,
       out_reason = res_reason res, out_metadata = res_metadata res, out_budget = budget \<rparr>"

text \<open>The pipeline once the budget has been found.\<close>

definition charge_step ::
    "(string \<Rightarrow> unit handler) \<Rightarrow> Device \<Rightarrow> string \<Rightarrow> int \<Rightarrow> pyval \<Rightarrow> int \<Rightarrow> int \<Rightarrow> usage_outcome handler" where
  "charge_step invalidate x c raw budget remaining today = (\<lambda>w.
     let res = evaluate_rules (event_context x c raw remaining (clock w))
     in bindE (if res_action res \<noteq> Block
               then record_usage_with invalidate (dev_id x) (effective_cost c raw) today
               else ret budget)
          (\<lambda>upd. andThen (publish_enforcement x res upd) (ret (outcome_of x c raw res upd))) w)"

lemma pipeline_found:
  assumes "db_wf (working w)" "\<not> truthy (cached_value (budget_cache_key (dev_id x) (local_today w)) w)"
    "budget_of (dev_id x) (local_today w) (working w) = Some b"
  shows "process_usage_event_with ivd x c raw w =
    charge_step ivd x c raw (VDict (budget_to_dict b)) (max 0 (bud_total b - bud_used b)) (local_today w) w"
  using assms
  by (simp add: process_usage_event_with_def get_budget_run budget_value_def charge_step_def Let_def
      event_context_def outcome_of_def)

lemma charge_step_blocked:
  assumes "\<not> wrapper_client w" "remaining_item budget w = (Inr n, w)"
    "res_action (evaluate_rules (event_context x c raw remaining (clock w))) = Block"
  shows "charge_step ivd x c raw budget remaining today w =
    (Inr (outcome_of x c raw (evaluate_rules (event_context x c raw remaining (clock w))) budget), w)"
  using assms by (simp add: charge_step_def publish_enforcement_silent)

text \<open>The decision table of theory Rules at an event.\<close>

definition event_blocked :: "Device \<Rightarrow> string \<Rightarrow> int \<Rightarrow> int \<Rightarrow> instant \<Rightarrow> bool" where
  "event_blocked x c raw remaining t \<longleftrightarrow> blocked (event_context x c raw remaining t)"

lemma event_action:
  "res_action (evaluate_rules (event_context x c raw remaining t)) = Block \<longleftrightarrow>
    event_blocked x c raw remaining t"
proof -
  let ?ctx = "event_context x c raw remaining t"
  have fire: "blocked ?ctx \<longleftrightarrow> rule_bedtime_block ?ctx \<noteq> None \<or> rule_focus_hours ?ctx \<noteq> None \<or>
      rule_budget_exhausted ?ctx \<noteq> None"
    unfolding rule_fires blocked_def by blast
  show ?thesis
    unfolding event_blocked_def fire
    by (cases "rule_bedtime_block ?ctx"; cases "rule_focus_hours ?ctx"; cases "rule_budget_exhausted ?ctx";
        cases "rule_budget_warning ?ctx"; cases "rule_high_cost_category ?ctx")
      (auto simp: evaluate_rules_def RULES_def dest: rule_actions)
qed

section \<open>Properties\<close>

lemma cached_after_delete:
  assumes "text_client w = Some TextClient" "srv_up (server w)"
  shows "cached_value k (w\<lparr>server := srv_delete k (server w)\<rparr>) = VNone"
  using assms
  by (simp add: cached_value_def rc_get_def bindE_run tryExcept_def redis_get_run srv_get_delete)

lemma charge_step_charges:
  assumes up: "text_client w = Some TextClient" "srv_up (server w)" "\<not> wrapper_client w"
    and wf: "db_wf (working w)" and row: "budget_of (dev_id x) today (working w) = Some b"
    and act: "res_action (evaluate_rules (event_context x c raw remaining (clock w))) \<noteq> Block"
  defines "res \<equiv> evaluate_rules (event_context x c raw remaining (clock w))"
    and "d' \<equiv> charged_db (dev_id x) today (effective_cost c raw) (working w)"
    and "b' \<equiv> charged (dev_id x) today (effective_cost c raw) b"
  shows "charge_step (\<lambda>k. redis_delete TextClient [k]) x c raw budget remaining today w =
    (Inr (outcome_of x c raw res (VDict (budget_to_dict b'))),
     w\<lparr>working := d', committed := d',
       server := srv_delete (budget_cache_key (dev_id x) today) (server w)\<rparr>)"
proof -
  let ?k = "budget_cache_key (dev_id x) today"
  let ?w1 = "w\<lparr>working := d', committed := d'\<rparr>"
  let ?w' = "?w1\<lparr>server := srv_delete ?k (server w)\<rparr>"
  have del: "redis_delete TextClient [?k] ?w1 = (Inr (), ?w')"
    using up by (simp add: redis_delete_def at_server_up)
  have "get_budget (dev_id x) today ?w' = (Inr (budget_value (dev_id x) today ?w'), ?w')"
    by (rule get_budget_run) (simp add: d'_def charged_db_wf wf)
  moreover have "budget_value (dev_id x) today ?w' = VDict (budget_to_dict b')"
    using cached_after_delete [of ?w1 ?k] up row
    by (simp add: budget_value_def d'_def b'_def budget_of_charged)
  ultimately have rec: "record_usage_with (\<lambda>k. redis_delete TextClient [k]) (dev_id x) (effective_cost c raw) today w =
      (Inr (VDict (budget_to_dict b')), ?w')"
    using del by (simp add: record_usage_with_def andThen_def bindE_run update_where_def d'_def
        charged_db_def charged_def [abs_def])
  have "publish_enforcement x res (VDict (budget_to_dict b')) ?w' = (Inr (), ?w')"
    using up by (intro publish_enforcement_silent [where n = "max 0 (bud_total b' - bud_used b')"]) simp_all
  then show ?thesis using act rec by (simp add: charge_step_def res_def [symmetric] andThen_def)
qed

lemma seconds_left_charged:
  assumes "budget_of i t d = Some b" "0 \<le> s"
  shows "seconds_left i t (charged_db i t s d) = max 0 (seconds_left i t d - s)"
  using assms budget_of_Some [OF assms(1)]
  by (auto simp: seconds_left_def budget_of_charged charged_def)

text \<open>
  The pipeline for a cache whose invalidation returns (the deployed one raises, see below): a
  blocked event changes nothing; any other event lowers the time left on the device by exactly the
  weighted cost of the session (never below zero), durably, and answers with the updated row.  Every
  budget of another device or date keeps its value.
\<close>

theorem usage_event_charges:
  assumes up: "text_client w = Some TextClient" "srv_up (server w)" "\<not> wrapper_client w"
    and wf: "db_wf (working w)"
    and miss: "\<not> truthy (cached_value (budget_cache_key (dev_id x) (local_today w)) w)"
    and row: "budget_of (dev_id x) (local_today w) (working w) = Some b"
    and raw: "0 \<le> raw" "raw < 2 ^ 40"
  shows "\<exists>out w'. process_usage_event_with (\<lambda>k. redis_delete TextClient [k]) x c raw w = (Inr out, w') \<and>
    (if event_blocked x c raw (seconds_left (dev_id x) (local_today w) (working w)) (clock w)
     then out_action out = Block \<and> w' = w
     else out_action out \<noteq> Block \<and> committed w' = working w' \<and>
       seconds_left (dev_id x) (local_today w) (committed w') =
         max 0 (seconds_left (dev_id x) (local_today w) (working w) - effective_cost c raw) \<and>
       out_budget out = VDict (budget_to_dict (charged (dev_id x) (local_today w) (effective_cost c raw) b)) \<and>
       (\<forall>i t. (i, t) \<noteq> (dev_id x, local_today w) \<longrightarrow>
          budget_of i t (committed w') = budget_of i t (working w)))"
proof -
  let ?today = "local_today w" and ?cost = "effective_cost c raw"
  let ?left = "max 0 (bud_total b - bud_used b)"
  have left: "seconds_left (dev_id x) ?today (working w) = ?left"
    using row by (simp add: seconds_left_def)
  note found = pipeline_found [OF wf miss row, of "\<lambda>k. redis_delete TextClient [k]" c raw]
  show ?thesis
  proof (cases "event_blocked x c raw ?left (clock w)")
    case True
    then have "res_action (evaluate_rules (event_context x c raw ?left (clock w))) = Block"
      by (simp add: event_action)
    from charge_step_blocked [OF up(3) remaining_item_dict(1) this] this True show ?thesis
      unfolding found left by (simp add: outcome_of_def)
  next
    case False
    then have act: "res_action (evaluate_rules (event_context x c raw ?left (clock w))) \<noteq> Block"
      by (simp add: event_action)
    have other: "budget_of i t (charged_db (dev_id x) ?today ?cost (working w)) = budget_of i t (working w)"
      if "(i, t) \<noteq> (dev_id x, ?today)" for i t
    proof (cases "budget_of i t (working w)")
      case None
      then show ?thesis by (simp add: budget_of_charged)
    next
      case (Some r)
      with budget_of_Some [OF Some] that show ?thesis by (auto simp: budget_of_charged charged_def)
    qed
    have "0 \<le> ?cost" using raw by (rule effective_cost_nonneg)
    then have "seconds_left (dev_id x) ?today (charged_db (dev_id x) ?today ?cost (working w)) =
        max 0 (?left - ?cost)"
      using seconds_left_charged [OF row] left by simp
    with charge_step_charges [OF up wf row act, of "VDict (budget_to_dict b)"] act False other
    show ?thesis unfolding found left by (simp add: outcome_of_def)
  qed
qed

text \<open>The same pipeline as it is deployed, as one equation.\<close>

lemma usage_event_deployed:
  assumes "\<not> wrapper_client w" "db_wf (working w)"
    "\<not> truthy (cached_value (budget_cache_key (dev_id x) (local_today w)) w)"
    "budget_of (dev_id x) (local_today w) (working w) = Some b"
  shows "process_usage_event x c raw w =
    (let left = seconds_left (dev_id x) (local_today w) (working w);
         d' = charged_db (dev_id x) (local_today w) (effective_cost c raw) (working w)
     in if event_blocked x c raw left (clock w)
        then (Inr (outcome_of x c raw (evaluate_rules (event_context x c raw left (clock w)))
                (VDict (budget_to_dict b))), w)
        else (Inl (AttributeError ''delete''), w\<lparr>working := d', committed := d'\<rparr>))"
proof -
  let ?left = "max 0 (bud_total b - bud_used b)"
  let ?d' = "charged_db (dev_id x) (local_today w) (effective_cost c raw) (working w)"
  have left: "seconds_left (dev_id x) (local_today w) (working w) = ?left"
    using assms(4) by (simp add: seconds_left_def)
  note found = pipeline_found [OF assms(2-4), of rc_delete c raw]
  have act: "res_action (evaluate_rules (event_context x c raw ?left (clock w))) = Block \<longleftrightarrow>
      event_blocked x c raw ?left (clock w)" by (rule event_action)
  show ?thesis
  proof (cases "event_blocked x c raw ?left (clock w)")
    case True
    then have "res_action (evaluate_rules (event_context x c raw ?left (clock w))) = Block"
      using act by simp
    from charge_step_blocked [OF assms(1) remaining_item_dict(1) this, of rc_delete b "local_today w"] True
    show ?thesis by (simp add: process_usage_event_def found left Let_def)
  next
    case False
    then have "charge_step rc_delete x c raw (VDict (budget_to_dict b)) ?left (local_today w) w =
        (Inl (AttributeError ''delete''), w\<lparr>working := ?d', committed := ?d'\<rparr>)"
      using act record_usage_run [of "dev_id x" "effective_cost c raw" "local_today w" w]
      by (simp add: charge_step_def record_usage_def)
    with False show ?thesis by (simp add: process_usage_event_def found left Let_def)
  qed
qed

text \<open>
  C3: A usage event of a device that has a budget for the day, as deployed (nothing cached, the
  message wrapper without a connection): a blocked event is answered and changes nothing; any other
  event is charged, durably, exactly the weighted cost of the session (the time left never falls
  below zero), and then ends in an error, because the code calls \<open>redis_client.delete\<close>, a method
  that does not exist: no answer and no message follows, and the budgets of other devices and dates,
  all other tables, Redis and the broker are untouched.
\<close>

theorem usage_event_outcome:
  assumes "\<not> wrapper_client w" "db_wf (working w)"
    and "\<not> truthy (cached_value (budget_cache_key (dev_id x) (local_today w)) w)"
    and "budget_of (dev_id x) (local_today w) (working w) = Some b"
    and "0 \<le> raw" "raw < 2 ^ 40"
  shows "\<exists>r w'. process_usage_event x c raw w = (r, w') \<and>
    (if event_blocked x c raw (seconds_left (dev_id x) (local_today w) (working w)) (clock w)
     then (\<exists>out. r = Inr out \<and> out_action out = Block \<and> out_budget out = VDict (budget_to_dict b)) \<and> w' = w
     else r = Inl (AttributeError ''delete'') \<and> committed w' = working w' \<and>
       seconds_left (dev_id x) (local_today w) (committed w') =
         max 0 (seconds_left (dev_id x) (local_today w) (working w) - effective_cost c raw) \<and>
       (\<forall>i t. (i, t) \<noteq> (dev_id x, local_today w) \<longrightarrow>
          budget_of i t (committed w') = budget_of i t (working w)) \<and>
       devices (committed w') = devices (working w) \<and> users (committed w') = users (working w) \<and>
       usage_events (committed w') = usage_events (working w) \<and>
       override_requests (committed w') = override_requests (working w) \<and>
       server w' = server w \<and> outbox w' = outbox w)"
proof -
  let ?i = "dev_id x" and ?t = "local_today w" and ?cost = "effective_cost c raw"
  let ?d' = "charged_db ?i ?t ?cost (working w)"
  let ?left = "seconds_left ?i ?t (working w)"
  note run = usage_event_deployed [OF assms(1-4), of c raw, unfolded Let_def]
  have cost: "0 \<le> ?cost" using assms(5,6) by (rule effective_cost_nonneg)
  have other: "budget_of i t ?d' = budget_of i t (working w)" if "(i, t) \<noteq> (?i, ?t)" for i t
  proof (cases "budget_of i t (working w)")
    case (Some r)
    with budget_of_Some [OF Some] that show ?thesis by (auto simp: budget_of_charged charged_def)
  qed (simp add: budget_of_charged)
  show ?thesis
  proof (cases "event_blocked x c raw ?left (clock w)")
    case True
    moreover from this have "res_action (evaluate_rules (event_context x c raw ?left (clock w))) = Block"
      by (simp add: event_action)
    ultimately show ?thesis by (simp add: run outcome_of_def)
  next
    case False
    then show ?thesis
      using seconds_left_charged [OF assms(4) cost] other by (simp add: run) (simp add: charged_db_def)
  qed
qed

text \<open>An event of a minute of productivity at half past three in the afternoon of day 3.\<close>

definition afternoon :: instant where "afternoon = 3 * day_usec + clock_time 15 30"

definition text_world :: "instant \<Rightarrow> db \<Rightarrow> world" where
  "text_world t d = (sample_world t d)\<lparr>text_client := Some TextClient, bytes_client := Some BytesClient\<rparr>"

lemma text_world_sel [simp]:
  "srv_up (server (text_world t d))" "working (text_world t d) = d" "committed (text_world t d) = d"
  "clock (text_world t d) = t" "text_client (text_world t d) = Some TextClient"
  "bytes_client (text_world t d) = Some BytesClient"
  "\<not> wrapper_client (text_world t d)" "srv_strings (server (text_world t d)) = []"
  "tz_offset (text_world t d) = 0" "outbox (text_world t d) = []" "\<not> pub_client (text_world t d)"
  "db_exports (text_world t d) = []" "broker_up (text_world t d)"
  "srv_streams (server (text_world t d)) = []" "srv_sets (server (text_world t d)) = []"
  "srv_slack (server (text_world t d)) = 0" "srv_published (server (text_world t d)) = []"
  by (simp_all add: text_world_def sample_world_def)

lemma text_world_empty: "cached_value k (text_world t d) = VNone"
  by (simp add: cached_value_def rc_get_def bindE_run tryExcept_def redis_get_run srv_get_def)

lemma afternoon_day: "local_today (text_world afternoon d) = 3"
  by (simp add: local_today_def afternoon_def day_of_def day_usec_def usec_def clock_time_def)

lemma phone_budget: "budget_of ''p'' 3 day_db = Some (new_budget ''x'' 0 3 (online_phone alice ''p'' 1))"
  by (simp add: budget_of_def day_db_def family_defs new_budget_def)

lemma phone_left: "seconds_left ''p'' 3 day_db = 7200"
  by (simp add: seconds_left_def phone_budget)
    (simp add: family_defs priority_adjusted_budget_def DEFAULT_DAILY_BUDGET_SECONDS_def)

lemma phone_id: "dev_id (online_phone u i p) = i"
  by (simp add: online_phone_def phone_of_def)

lemma afternoon_allowed:
  "\<not> event_blocked x ''productivity'' 60 7200 afternoon"
  by (simp add: event_blocked_def blocked_def event_context_def afternoon_def clock_defs)

theorem usage_event_charges_witness:
  "\<exists>out w'. process_usage_event_with (\<lambda>k. redis_delete TextClient [k])
       (online_phone alice ''p'' 1) ''productivity'' 60 (text_world afternoon day_db) = (Inr out, w') \<and>
     seconds_left ''p'' 3 (committed w') = 7170"
proof -
  have cost: "effective_cost ''productivity'' 60 = 30"
    by (simp add: effective_cost_integer [of _ _ 1 2] weight_fraction_def)
  have wf: "db_wf (working (text_world afternoon day_db))" by (simp add: day_db_wf)
  have miss: "\<not> truthy (cached_value k (text_world afternoon day_db))" for k
    by (simp add: text_world_empty)
  have row: "budget_of (dev_id (online_phone alice ''p'' 1)) (local_today (text_world afternoon day_db))
      (working (text_world afternoon day_db)) = Some (new_budget ''x'' 0 3 (online_phone alice ''p'' 1))"
    by (simp add: phone_id afternoon_day phone_budget)
  from usage_event_charges [OF _ _ _ wf miss row, of 60 "''productivity''"]
  show ?thesis by (auto simp: phone_id afternoon_day phone_left afternoon_allowed cost)
qed

theorem usage_event_outcome_witness:
  "\<exists>w'. process_usage_event (online_phone alice ''p'' 1) ''productivity'' 60 (text_world afternoon day_db) =
       (Inl (AttributeError ''delete''), w') \<and>
     seconds_left ''p'' 3 (committed w') = 7170"
proof -
  have cost: "effective_cost ''productivity'' 60 = 30"
    by (simp add: effective_cost_integer [of _ _ 1 2] weight_fraction_def)
  have wf: "db_wf (working (text_world afternoon day_db))" by (simp add: day_db_wf)
  have miss: "\<not> truthy (cached_value k (text_world afternoon day_db))" for k
    by (simp add: text_world_empty)
  have row: "budget_of (dev_id (online_phone alice ''p'' 1)) (local_today (text_world afternoon day_db))
      (working (text_world afternoon day_db)) = Some (new_budget ''x'' 0 3 (online_phone alice ''p'' 1))"
    by (simp add: phone_id afternoon_day phone_budget)
  from usage_event_outcome [OF _ wf miss row, of 60 "''productivity''"]
  show ?thesis by (auto simp: phone_id afternoon_day phone_left afternoon_allowed cost)
qed

section \<open>Devices that are not online\<close>

lemma cached_value_session [simp]:
  "cached_value k (w\<lparr>working := a, committed := b, uuid_next := n\<rparr>) = cached_value k w"
  by (simp add: cached_value_def rc_get_def bindE_run tryExcept_def redis_get_def at_server_def
      split: option.splits sum.splits prod.splits)

lemma budget_of_append: "budget_of i t d = None \<Longrightarrow>
    (\<And>b. b \<in> set new \<Longrightarrow> bud_device_id b \<noteq> i) \<Longrightarrow> budget_of i t (budgets_update (\<lambda>bs. bs @ new) d) = None"
  by (auto simp: budget_of_def find_None_iff)

text \<open>
  A device that is offline has no budget created for it, so while it has no row for the day
  every usage event of it is blocked, whatever its category and the hour, and nothing is charged to
  it (an event of an offline device can create the budgets of the user's other devices).
\<close>

theorem offline_device_blocked:
  assumes "\<not> wrapper_client w" "world_wf w" "fresh_uuids w"
    "cached_value (budget_cache_key (dev_id x) (local_today w)) w = VNone"
    "budget_of (dev_id x) (local_today w) (working w) = None"
    "\<not> (\<exists>y \<in> online_devices (dev_user_id x) (working w). dev_id y = dev_id x)"
  shows "\<exists>out w'. process_usage_event x c raw w = (Inr out, w') \<and> out_action out = Block \<and>
    out_budget out = VNone \<and> budget_of (dev_id x) (local_today w) (committed w') = None"
proof -
  let ?t = "local_today w" and ?u = "dev_user_id x" and ?i = "dev_id x"
  define new where "new = created_rows (uuids w) (uuid_next w) (clock w) ?t (budgets (working w))
    (filter (\<lambda>d. dev_user_id d = ?u \<and> dev_is_online d) (devices (working w)))"
  define d' where "d' = budgets_update (\<lambda>bs. bs @ new) (working w)"
  define w1 where "w1 = w\<lparr>working := d', committed := d', uuid_next := uuid_next w + length new\<rparr>"
  have init: "initialise_daily_budgets ?u ?t w = (Inr (map row_summary new), w1)" and wf: "db_wf d'"
    using initialise_run [OF assms(2,3), where u = ?u and date = ?t] by (simp_all add: w1_def d'_def new_def)
  have "bud_device_id b \<noteq> ?i" if "b \<in> set new" for b
    using created_rows_fresh [OF that [unfolded new_def]] assms(6) by (auto simp: online_devices_def)
  then have none: "budget_of ?i ?t d' = None"
    unfolding d'_def using assms(5) by (intro budget_of_append) auto
  have get: "get_budget ?i ?t w = (Inr VNone, w)" "get_budget ?i ?t w1 = (Inr VNone, w1)"
    using assms(2,4,5) wf none
    by (simp_all add: get_budget_run budget_value_def world_wf_def w1_def)
  let ?ctx = "event_context x c raw 0 (clock w)"
  have "event_blocked x c raw 0 (clock w)" by (simp add: event_blocked_def blocked_def event_context_def)
  then have act: "res_action (evaluate_rules ?ctx) = Block" by (simp add: event_action)
  have "process_usage_event x c raw w = charge_step rc_delete x c raw VNone 0 ?t w1"
    using init get by (simp add: process_usage_event_def process_usage_event_with_def charge_step_def
        Let_def event_context_def outcome_of_def andThen_def w1_def)
  also have "\<dots> = (Inr (outcome_of x c raw (evaluate_rules ?ctx) VNone), w1)"
    using charge_step_blocked [of w1 VNone 0 x c raw 0 rc_delete ?t] assms(1) act by (simp add: w1_def)
  finally show ?thesis using act none by (simp add: outcome_of_def w1_def)
qed

text \<open>The same family with one more device, never seen online.\<close>

definition offline_db :: db where
  "offline_db = family_db\<lparr>devices := devices family_db @ [phone_of alice ''r'']\<rparr>"

theorem offline_device_blocked_witness:
  "\<exists>out w'. process_usage_event (phone_of alice ''r'') ''productivity'' 60 (text_world afternoon offline_db) =
     (Inr out, w') \<and> out_action out = Block"
proof -
  let ?w = "text_world afternoon offline_db"
  have wf: "world_wf ?w"
    by (simp add: world_wf_def) (simp add: db_wf_def offline_db_def family_defs)
  have fresh: "fresh_uuids ?w"
    by (simp add: fresh_uuids_def text_world_def sample_world_def ids_stream_inj)
      (simp add: offline_db_def family_defs)
  have none: "budget_of i t (working ?w) = None" for i t
    by (simp add: budget_of_def) (simp add: offline_db_def family_defs)
  have off: "\<not> (\<exists>y \<in> online_devices u (working ?w). dev_id y = dev_id (phone_of alice ''r''))" for u
    by (auto simp: online_devices_def) (auto simp: offline_db_def family_defs)
  from offline_device_blocked [OF _ wf fresh text_world_empty none off, of "''productivity''" 60]
  show ?thesis by fastforce
qed

section \<open>Drift flags\<close>

text \<open>
  Flagging a device has no effect: the value is a dictionary, which the Redis client does not
  encode, and the wrapper swallows the error, so the world is exactly as before and the device is
  not seen as flagged when it was not.
\<close>

theorem drift_flag_lost:
  "flag_anomalous_device i score reason w = (Inr (), w) \<and>
   is_device_flagged i (snd (flag_anomalous_device i score reason w)) = is_device_flagged i w"
  by (simp add: flag_anomalous_device_def rc_set_dict)

end
