(* ===== verification/Override.thy ===== *)
theory Override
  imports Engine
begin

text \<open>
  app/modules/override_service/quorum.py: requests for extra time, the three validators, the
  2-of-3 quorum, the signed decision and its publication.  HMAC-SHA256 is the argument \<open>mac\<close> (key
  and message to hexadecimal digest).  The fallback query of the usage-pattern validator is an
  argument \<open>lookup\<close>, instantiated under the source's names with what the code does.
\<close>

section \<open>Constants and types\<close>

definition QUORUM_THRESHOLD :: int where "QUORUM_THRESHOLD = 2"
definition MAX_OVERRIDE_SECONDS :: int where "MAX_OVERRIDE_SECONDS = 3600"
definition DAILY_OVERRIDE_CAP_SECONDS :: int where "DAILY_OVERRIDE_CAP_SECONDS = 7200"
definition PERMITTED_START :: int where "PERMITTED_START = clock_time 7 0"
definition PERMITTED_END :: int where "PERMITTED_END = clock_time 21 0"
definition USAGE_SPIKE_THRESHOLD :: rat where "USAGE_SPIKE_THRESHOLD = float_lit (85 / 100)"

fun status_value :: "OverrideStatus \<Rightarrow> string" where
  "status_value PENDING = ''pending''"
| "status_value APPROVED = ''approved''"
| "status_value DENIED = ''denied''"

datatype ValidatorKey = PARENT | POLICY | PATTERN

fun validator_value :: "ValidatorKey \<Rightarrow> string" where
  "validator_value PARENT = ''parent''"
| "validator_value POLICY = ''policy''"
| "validator_value PATTERN = ''pattern''"

section \<open>Signing\<close>

text \<open>The members of a payload in the order of their names, as one JSON text.\<close>

definition sorted_payload :: "dict \<Rightarrow> dict" where
  "sorted_payload payload = sort_key fst payload"

definition sign_decision :: "(string \<Rightarrow> pytext \<Rightarrow> string) \<Rightarrow> dict \<Rightarrow> string handler" where
  "sign_decision mac payload =
     bindE (readS (\<lambda>w. SECRET_KEY (config w))) (\<lambda>key.
       ret (mac key (json_dumps (JObj (sorted_payload payload)))))"

section \<open>Validators\<close>

definition validate_parent_approval :: "(string \<times> bool) list \<Rightarrow> bool" where
  "validate_parent_approval votes =
     (case map_of votes (validator_value PARENT) of None \<Rightarrow> False | Some b \<Rightarrow> b)"

definition validate_time_of_day :: "bool handler" where
  "validate_time_of_day =
     readS (\<lambda>w. PERMITTED_START \<le> local_time w \<and> local_time w \<le> PERMITTED_END)"

text \<open>Numbers of a cached dictionary: \<open>total == 0\<close> and \<open>used / total\<close>.\<close>

fun json_is_zero :: "json \<Rightarrow> bool" where
  "json_is_zero (JInt n) = (n = 0)"
| "json_is_zero (JReal q) = (q = 0)"
| "json_is_zero (JBool b) = (\<not> b)"
| "json_is_zero _ = False"

fun json_float :: "json \<Rightarrow> rat result" where
  "json_float (JInt n) = Inr (float_of_int n)"
| "json_float (JReal q) = Inr q"
| "json_float (JBool b) = Inr (if b then 1 else 0)"
| "json_float _ = Inl (TypeError ''unsupported operand'')"

fun json_truediv :: "json \<Rightarrow> json \<Rightarrow> rat result" where
  "json_truediv (JInt a) (JInt b) =
     (if b = 0 then Inl ZeroDivisionError else Inr (int_truediv a b))"
| "json_truediv x y =
     (case json_float x of Inl e \<Rightarrow> Inl e
      | Inr a \<Rightarrow> (case json_float y of Inl e \<Rightarrow> Inl e
          | Inr b \<Rightarrow> if b = 0 then Inl ZeroDivisionError else Inr (rnd (a / b))))"

definition dict_get :: "dict \<Rightarrow> string \<Rightarrow> json \<Rightarrow> json" where
  "dict_get d k dflt = (case map_of d k of None \<Rightarrow> dflt | Some x \<Rightarrow> x)"

definition pattern_passes :: "dict \<Rightarrow> bool result" where
  "pattern_passes budget =
     (let total = dict_get budget ''total_budget_seconds'' (JInt 0);
          used = dict_get budget ''used_seconds'' (JInt 0)
      in if json_is_zero total then Inr True
         else (case json_truediv used total of
                 Inl e \<Rightarrow> Inl e
               | Inr ratio \<Rightarrow> Inr (ratio < USAGE_SPIKE_THRESHOLD)))"

text \<open>\<open>json.loads(raw)\<close> used as a dictionary: other values have no method \<open>get\<close>.\<close>

definition as_dict :: "json \<Rightarrow> dict result" where
  "as_dict j = (case j of JObj d \<Rightarrow> Inr d | _ \<Rightarrow> Inl (AttributeError ''get''))"

definition validate_usage_pattern_with ::
    "(string \<Rightarrow> string \<Rightarrow> Budget option handler) \<Rightarrow> string \<Rightarrow> bool handler" where
  "validate_usage_pattern_with lookup device_id =
     bindE get_redis (\<lambda>redis.
     bindE (readS (\<lambda>w. iso_date (utc_today w))) (\<lambda>today.
     bindE (redis_get redis (''budget:'' @ device_id @ '':'' @ today)) (\<lambda>raw.
       if truthy raw
       then bindE (lift (loads_val raw)) (\<lambda>j.
            bindE (lift (as_dict j)) (\<lambda>budget. lift (pattern_passes budget)))
       else bindE (lookup device_id today) (\<lambda>row. case row of
              None \<Rightarrow> ret True
            | Some b \<Rightarrow> lift (pattern_passes
                [(''total_budget_seconds'', JInt (bud_total b)), (''used_seconds'', JInt (bud_used b))])))))"

text \<open>
  The query of the code: it first imports \<open>Budget\<close> from app.database, which does not define it,
  and then compares the date column with a \<open>str\<close>, which the driver refuses.
\<close>

definition lookup_budget_by_text :: "string \<Rightarrow> string \<Rightarrow> Budget option handler" where
  "lookup_budget_by_text device_id today =
     andThen (import_from_database ''Budget'')
       (raise (StatementError ''date types only accept date objects as input''))"

definition validate_usage_pattern :: "string \<Rightarrow> bool handler" where
  "validate_usage_pattern = validate_usage_pattern_with lookup_budget_by_text"

section \<open>Quorum\<close>

definition quorum_reached :: "bool list \<Rightarrow> bool" where
  "quorum_reached results = (QUORUM_THRESHOLD \<le> sum_list (map of_bool results))"

definition evaluate_quorum_with ::
    "(string \<Rightarrow> pytext \<Rightarrow> string) \<Rightarrow> (string \<Rightarrow> string \<Rightarrow> Budget option handler) \<Rightarrow> string \<Rightarrow> string \<Rightarrow>
       (string \<times> bool) list \<Rightarrow> (OverrideStatus \<times> (string \<times> bool) list \<times> string) handler" where
  "evaluate_quorum_with mac lookup override_id device_id votes =
     (let parent = validate_parent_approval votes
      in bindE validate_time_of_day (\<lambda>policy.
         bindE (validate_usage_pattern_with lookup device_id) (\<lambda>pattern.
           let results = [(validator_value PARENT, parent), (validator_value POLICY, policy),
                          (validator_value PATTERN, pattern)];
               status = (if quorum_reached (map snd results) then APPROVED else DENIED)
           in bindE now_utc (\<lambda>t.
              bindE (sign_decision mac
                [(''override_id'', JStr override_id), (''device_id'', JStr device_id),
                 (''status'', JStr (status_value status)),
                 (''votes'', JObj (map (\<lambda>(k, b). (k, JBool b)) results)),
                 (''resolved_at'', JTime t)]) (\<lambda>signature.
                ret (status, results, signature))))))"

definition evaluate_quorum ::
    "(string \<Rightarrow> pytext \<Rightarrow> string) \<Rightarrow> string \<Rightarrow> string \<Rightarrow> (string \<times> bool) list \<Rightarrow>
       (OverrideStatus \<times> (string \<times> bool) list \<times> string) handler" where
  "evaluate_quorum mac = evaluate_quorum_with mac lookup_budget_by_text"

section \<open>Requests\<close>

definition approved_today :: "string \<Rightarrow> int \<Rightarrow> OverrideRequest \<Rightarrow> bool" where
  "approved_today device_id today r \<longleftrightarrow>
     ovr_device_id r = device_id \<and> ovr_status r = APPROVED \<and> today * day_usec \<le> ovr_requested_at r"

definition create_override_request :: "string \<Rightarrow> int \<Rightarrow> OverrideRequest handler" where
  "create_override_request device_id requested_seconds =
     (if requested_seconds \<le> 0 \<or> MAX_OVERRIDE_SECONDS < requested_seconds
      then raise (ValueError (''requested_seconds must be in (0, '' @ show_int MAX_OVERRIDE_SECONDS @ '']''))
      else
        bindE (readS utc_today) (\<lambda>today.
        bindE (select_where override_requests (approved_today device_id today)) (\<lambda>approved.
          let used_today = sum_list (map ovr_requested_seconds approved)
          in if DAILY_OVERRIDE_CAP_SECONDS < used_today + requested_seconds
             then raise (ValueError (''Daily override cap reached. At most '' @
                    show_int (max 0 (DAILY_OVERRIDE_CAP_SECONDS - used_today)) @ ''s remaining today.''))
             else
               bindE uuid4 (\<lambda>i.
               bindE now_utc (\<lambda>t.
                 let override = \<lparr> ovr_id = i, ovr_device_id = device_id,
                       ovr_requested_seconds = requested_seconds, ovr_status = PENDING,
                       ovr_votes = [], ovr_requested_at = t, ovr_resolved_at = None,
                       ovr_signature = None \<rparr>
                 in andThen (add_override override) (andThen commit (ret override)))))))"

text \<open>
  Publishing the result needs the user of the device from \<open>device:meta\<close>, a key nothing in the
  repository writes (its \<open>user_id\<close> is taken to be a string); the payload is dumped here and once
  more in \<open>publish\<close>, whose result is then awaited.
\<close>

definition publish_override_result :: "string \<Rightarrow> string \<Rightarrow> bool \<Rightarrow> int \<Rightarrow> unit handler" where
  "publish_override_result device_id override_id approved extra_seconds =
     bindE get_redis (\<lambda>redis.
     bindE (redis_get redis (''device:meta:'' @ device_id)) (\<lambda>meta_raw.
       if \<not> truthy meta_raw then ret ()
       else
         bindE (lift (loads_val meta_raw)) (\<lambda>meta.
         bindE (lift (case meta of JObj d \<Rightarrow> py_item (VDict d) ''user_id''
                      | _ \<Rightarrow> Inl (TypeError ''subscript''))) (\<lambda>u.
         bindE (lift (json_str u)) (\<lambda>user_id.
         bindE now_utc (\<lambda>t.
           await_publish (''screensync/'' @ user_id @ ''/'' @ device_id @ ''/override/result'')
             (PText (json_dumps (JObj
               [(''override_id'', JStr override_id), (''approved'', JBool approved),
                (''extra_secs'', JInt (if approved then extra_seconds else 0)),
                (''ts'', JTime t)]))) 2))))))"

definition resolve_request ::
    "OverrideStatus \<Rightarrow> (string \<times> bool) list \<Rightarrow> string \<Rightarrow> instant \<Rightarrow> OverrideRequest \<Rightarrow> OverrideRequest"
    where
  "resolve_request status results signature t r =
     r\<lparr>ovr_votes := results, ovr_status := status,
       ovr_resolved_at := (if status \<noteq> PENDING then Some t else None),
       ovr_signature := Some signature\<rparr>"

definition cast_vote_with ::
    "(string \<Rightarrow> pytext \<Rightarrow> string) \<Rightarrow> (string \<Rightarrow> string \<Rightarrow> Budget option handler) \<Rightarrow> string \<Rightarrow>
       ValidatorKey \<Rightarrow> bool \<Rightarrow> OverrideRequest handler" where
  "cast_vote_with mac lookup override_id voter approve =
     bindE (select_one override_requests (\<lambda>r. ovr_id r = override_id)) (\<lambda>row. case row of
       None \<Rightarrow> raise (ValueError (''Override request '' @ override_id @ '' not found.''))
     | Some override \<Rightarrow>
         if ovr_status override \<noteq> PENDING
         then raise (ValueError (''Override '' @ override_id @ '' is already '' @
                status_value (ovr_status override) @ ''; cannot re-vote.''))
         else
           (let updated_votes = AList.update (validator_value voter) approve (ovr_votes override)
            in bindE (evaluate_quorum_with mac lookup override_id (ovr_device_id override) updated_votes)
                 (\<lambda>(status, results, signature).
               bindE now_utc (\<lambda>t.
               andThen (update_where override_requests_update (\<lambda>r. ovr_id r = override_id)
                  (resolve_request status results signature t))
               (andThen commit
               (andThen
                 (if status = APPROVED
                  then publish_override_result (ovr_device_id override) override_id True
                         (ovr_requested_seconds override)
                  else if status = DENIED
                  then publish_override_result (ovr_device_id override) override_id False 0
                  else ret ())
                 (ret (resolve_request status results signature t override))))))))"

definition cast_vote ::
    "(string \<Rightarrow> pytext \<Rightarrow> string) \<Rightarrow> string \<Rightarrow> ValidatorKey \<Rightarrow> bool \<Rightarrow> OverrideRequest handler" where
  "cast_vote mac = cast_vote_with mac lookup_budget_by_text"

definition get_override_status :: "string \<Rightarrow> OverrideRequest handler" where
  "get_override_status override_id =
     bindE (select_one override_requests (\<lambda>r. ovr_id r = override_id)) (\<lambda>row. case row of
       None \<Rightarrow> raise (ValueError (''Override request '' @ override_id @ '' not found.''))
     | Some override \<Rightarrow> ret override)"

section \<open>The quorum is a threshold vote\<close>

lemma quorum_count: "sum_list (map of_bool vs) = int (length (filter id vs))"
  by (induction vs) auto

interpretation validators: threshold_vote 2 quorum_reached
  by unfold_locales (simp add: quorum_reached_def QUORUM_THRESHOLD_def quorum_count)

lemma quorum_of_three: "quorum_reached [a, b, c] \<longleftrightarrow> (a \<and> b) \<or> (a \<and> c) \<or> (b \<and> c)"
  by (rule validators.decide_three) simp

section \<open>The usage-pattern ratio\<close>

definition usage_dict :: "int \<Rightarrow> int \<Rightarrow> dict" where
  "usage_dict tot used = [(''total_budget_seconds'', JInt tot), (''used_seconds'', JInt used)]"

text \<open>
  The usage-pattern validator compares a float ratio with the float 0.85; for every total below
  \<open>2 ^ 45\<close> seconds this is the exact comparison of the used part with 17 twentieths of the total,
  with a total of zero passing.
\<close>

theorem usage_pattern_exact:
  assumes "0 \<le> used" "0 \<le> tot" "tot < 2 ^ 45"
  shows "pattern_passes (usage_dict tot used) = Inr (tot = 0 \<or> 20 * used < 17 * tot)"
proof (cases "tot = 0")
  case True
  then show ?thesis by (simp add: pattern_passes_def usage_dict_def dict_get_def)
next
  case False
  then have "rnd (of_int used / of_int tot) < rnd (of_int 17 / of_int 20) \<longleftrightarrow> used * 20 < 17 * tot"
    using assms by (intro double.less_threshold) auto
  moreover have "(of_int 17 / of_int 20 :: rat) = 85 / 100" by simp
  ultimately have "rnd (of_int used / of_int tot) < rnd (85 / 100) \<longleftrightarrow> used * 20 < 17 * tot"
    by metis
  with False show ?thesis
    by (simp add: pattern_passes_def usage_dict_def dict_get_def int_truediv_def
        USAGE_SPIKE_THRESHOLD_def float_lit_def mult.commute)
qed

theorem usage_pattern_exact_witness:
  "pattern_passes (usage_dict 7200 6120) = Inr False \<and> pattern_passes (usage_dict 7200 6119) = Inr True"
  using usage_pattern_exact [of 6120 7200] usage_pattern_exact [of 6119 7200] by simp

section \<open>Creating a request\<close>

definition approved_seconds :: "string \<Rightarrow> int \<Rightarrow> db \<Rightarrow> int" where
  "approved_seconds i today d =
     sum_list (map ovr_requested_seconds (filter (approved_today i today) (override_requests d)))"

definition fresh_override_id :: "world \<Rightarrow> bool" where
  "fresh_override_id w \<longleftrightarrow> uuids w (uuid_next w) \<notin> ovr_id ` set (override_requests (working w))"

definition new_request :: "world \<Rightarrow> string \<Rightarrow> int \<Rightarrow> OverrideRequest" where
  "new_request w i secs =
     \<lparr> ovr_id = uuids w (uuid_next w), ovr_device_id = i, ovr_requested_seconds = secs,
       ovr_status = PENDING, ovr_votes = [], ovr_requested_at = clock w, ovr_resolved_at = None,
       ovr_signature = None \<rparr>"

definition with_request :: "OverrideRequest \<Rightarrow> db \<Rightarrow> db" where
  "with_request r = override_requests_update (\<lambda>rs. rs @ [r])"

lemma create_refused:
  "secs \<le> 0 \<or> 3600 < secs \<or> 7200 < approved_seconds i (utc_today w) (working w) + secs \<Longrightarrow>
     \<exists>m. create_override_request i secs w = (Inl (ValueError m), w)"
  by (auto simp: create_override_request_def MAX_OVERRIDE_SECONDS_def DAILY_OVERRIDE_CAP_SECONDS_def
      approved_seconds_def Let_def)

lemma create_accepted:
  assumes "0 < secs" "secs \<le> 3600" "approved_seconds i (utc_today w) (working w) + secs \<le> 7200"
    "fresh_override_id w"
  shows "create_override_request i secs w =
    (Inr (new_request w i secs),
     w\<lparr>working := with_request (new_request w i secs) (working w),
       committed := with_request (new_request w i secs) (working w), uuid_next := Suc (uuid_next w)\<rparr>)"
  using assms
  by (auto simp: create_override_request_def MAX_OVERRIDE_SECONDS_def DAILY_OVERRIDE_CAP_SECONDS_def
      approved_seconds_def Let_def andThen_def bindE_run add_override_def add_row_def list_ex_iff
      new_request_def with_request_def fresh_override_id_def)

lemma approved_with_pending:
  "ovr_status r \<noteq> APPROVED \<Longrightarrow> approved_seconds i t (with_request r d) = approved_seconds i t d"
  by (simp add: approved_seconds_def with_request_def approved_today_def)

text \<open>
  C14: A request for extra time is created exactly when it asks for between one second and one hour
  and, with what was approved for the device today, stays within two hours; it is stored pending,
  and a refusal (an error) changes nothing.
\<close>

theorem create_override_bounds:
  assumes "fresh_override_id w"
  shows "(0 < secs \<and> secs \<le> 3600 \<and> approved_seconds i (utc_today w) (working w) + secs \<le> 7200 \<longrightarrow>
      (\<exists>r w'. create_override_request i secs w = (Inr r, w') \<and> ovr_status r = PENDING \<and>
         ovr_requested_seconds r = secs \<and> ovr_device_id r = i \<and>
         override_requests (committed w') = override_requests (working w) @ [r] \<and>
         approved_seconds i (utc_today w) (committed w') = approved_seconds i (utc_today w) (working w))) \<and>
    (\<not> (0 < secs \<and> secs \<le> 3600 \<and> approved_seconds i (utc_today w) (working w) + secs \<le> 7200) \<longrightarrow>
      (\<exists>m. create_override_request i secs w = (Inl (ValueError m), w)))"
proof -
  have "ovr_status (new_request w i secs) = PENDING" "ovr_requested_seconds (new_request w i secs) = secs"
    "ovr_device_id (new_request w i secs) = i" by (simp_all add: new_request_def)
  moreover have "override_requests (with_request r d) = override_requests d @ [r]" for r d
    by (simp add: with_request_def)
  ultimately show ?thesis
    using create_accepted [OF _ _ _ assms, of secs i] create_refused [of secs i w]
    by (auto simp: approved_with_pending not_le not_less)
qed

theorem create_override_bounds_witness:
  "(\<exists>r w'. create_override_request ''p'' 3600 (text_world afternoon day_db) = (Inr r, w') \<and>
      ovr_status r = PENDING) \<and>
   (\<exists>m. create_override_request ''p'' 3601 (text_world afternoon day_db) =
      (Inl (ValueError m), text_world afternoon day_db))"
proof -
  have fresh: "fresh_override_id (text_world afternoon day_db)"
    by (simp add: fresh_override_id_def) (simp add: day_db_def family_defs)
  have "approved_seconds ''p'' t (working (text_world afternoon day_db)) = 0" for t
    by (simp add: approved_seconds_def) (simp add: day_db_def family_defs)
  with create_override_bounds [OF fresh, of 3600 "''p''"] create_override_bounds [OF fresh, of 3601 "''p''"]
  show ?thesis by auto
qed

section \<open>Voting\<close>

lemma leaves_db_publish_result [leaves_db_intro]: "leaves_db (publish_override_result i j b n)"
  unfolding publish_override_result_def
  by (intro leaves_db_intro)

lemma leaves_db_pattern [leaves_db_intro]:
  "(\<And>i t. leaves_db (lookup i t)) \<Longrightarrow> leaves_db (validate_usage_pattern_with lookup i)"
  unfolding validate_usage_pattern_with_def by (intro leaves_db_intro)

lemma leaves_db_import [leaves_db_intro]: "leaves_db (import_from_database n)"
  by (simp add: leaves_db_def import_from_database_def)

lemma leaves_db_lookup [leaves_db_intro]: "leaves_db (lookup_budget_by_text i t)"
  unfolding lookup_budget_by_text_def by (intro leaves_db_intro)

text \<open>Whether the local time is within the permitted window.\<close>

definition in_window :: "world \<Rightarrow> bool" where
  "in_window w \<longleftrightarrow> clock_time 7 0 \<le> local_time w \<and> local_time w \<le> clock_time 21 0"

definition vote_results :: "bool \<Rightarrow> bool \<Rightarrow> bool \<Rightarrow> (string \<times> bool) list" where
  "vote_results a b c = [(''parent'', a), (''policy'', b), (''pattern'', c)]"

definition decision_payload ::
    "string \<Rightarrow> string \<Rightarrow> OverrideStatus \<Rightarrow> (string \<times> bool) list \<Rightarrow> instant \<Rightarrow> dict" where
  "decision_payload j i status results t =
     [(''override_id'', JStr j), (''device_id'', JStr i), (''status'', JStr (status_value status)),
      (''votes'', JObj (map (\<lambda>(k, b). (k, JBool b)) results)), (''resolved_at'', JTime t)]"

definition decision :: "bool \<Rightarrow> bool \<Rightarrow> bool \<Rightarrow> OverrideStatus" where
  "decision a b c = (if (a \<and> b) \<or> (a \<and> c) \<or> (b \<and> c) then APPROVED else DENIED)"

definition signature_of ::
    "(string \<Rightarrow> pytext \<Rightarrow> string) \<Rightarrow> string \<Rightarrow> string \<Rightarrow> string \<Rightarrow> bool \<Rightarrow> bool \<Rightarrow> bool \<Rightarrow> instant \<Rightarrow> string" where
  "signature_of mac key j i a b c t =
     mac key (Dumped (JObj (sorted_payload
       (decision_payload j i (decision a b c) (vote_results a b c) t))))"

lemma evaluate_quorum_run:
  assumes "validate_usage_pattern_with lookup i w = (Inr p, w1)"
  shows "evaluate_quorum_with mac lookup j i votes w =
    (let a = validate_parent_approval votes; b = in_window w
     in (Inr (decision a b p, vote_results a b p,
           signature_of mac (SECRET_KEY (config w1)) j i a b p (clock w1)), w1))"
  using assms
  by (simp add: evaluate_quorum_with_def Let_def validate_time_of_day_def in_window_def
      PERMITTED_START_def PERMITTED_END_def sign_decision_def signature_of_def decision_def
      decision_payload_def vote_results_def quorum_of_three json_dumps_def)

definition resolved_db :: "string \<Rightarrow> OverrideStatus \<Rightarrow> (string \<times> bool) list \<Rightarrow> string \<Rightarrow> instant \<Rightarrow> db \<Rightarrow> db" where
  "resolved_db j status results sig t = override_requests_update
     (map (\<lambda>r. if ovr_id r = j then resolve_request status results sig t r else r))"

lemma request_unique:
  assumes "db_wf (working w)" "r \<in> set (override_requests (working w))" "ovr_id r = j"
  shows "select_one override_requests (\<lambda>r. ovr_id r = j) w = (Inr (Some r), w)"
proof -
  have d: "distinct (map ovr_id (override_requests (working w)))" using assms(1) by (simp add: db_wf_def)
  have "map_of (map (\<lambda>r. (ovr_id r, r)) (override_requests (working w))) j = Some r"
    using assms d by (intro map_of_is_SomeI) (auto simp: comp_def)
  with scalar_unique_key [OF d] show ?thesis by (simp add: select_one_run)
qed

text \<open>The parent's vote as the validator sees it once a vote has been merged.\<close>

definition parent_vote :: "ValidatorKey \<Rightarrow> bool \<Rightarrow> OverrideRequest \<Rightarrow> bool" where
  "parent_vote voter approve r =
     (if voter = PARENT then approve else validate_parent_approval (ovr_votes r))"

lemma parent_vote_merged:
  "validate_parent_approval (AList.update (validator_value voter) approve (ovr_votes r)) =
     parent_vote voter approve r"
  by (cases voter) (simp_all add: validate_parent_approval_def parent_vote_def update_conv')

lemma cast_vote_effect:
  assumes wf: "db_wf (working w)" and r: "r \<in> set (override_requests (working w))" "ovr_id r = j"
    and pending: "ovr_status r = PENDING"
    and lookup: "\<And>i t. leaves_db (lookup i t)"
    and pat: "validate_usage_pattern_with lookup (ovr_device_id r) w = (Inr p, w1)"
  shows "committed (snd (cast_vote_with mac lookup j voter approve w)) =
    (let a = parent_vote voter approve r;
         sig = signature_of mac (SECRET_KEY (config w1)) j (ovr_device_id r) a (in_window w) p (clock w1)
     in resolved_db j (decision a (in_window w) p) (vote_results a (in_window w) p) sig (clock w1) (working w))"
proof -
  define a where "a = parent_vote voter approve r"
  define sig where
    "sig = signature_of mac (SECRET_KEY (config w1)) j (ovr_device_id r) a (in_window w) p (clock w1)"
  let ?st = "decision a (in_window w) p" and ?rs = "vote_results a (in_window w) p"
  have ev: "evaluate_quorum_with mac lookup j (ovr_device_id r)
      (AList.update (validator_value voter) approve (ovr_votes r)) w = (Inr (?st, ?rs, sig), w1)"
    using evaluate_quorum_run [OF pat] by (simp add: Let_def parent_vote_merged a_def sig_def)
  have w1: "working w1 = working w"
    using leaves_dbD [OF leaves_db_pattern [OF lookup] pat] by simp
  let ?w2 = "w1\<lparr>working := resolved_db j ?st ?rs sig (clock w1) (working w),
    committed := resolved_db j ?st ?rs sig (clock w1) (working w)\<rparr>"
  let ?tail = "andThen
     (if ?st = APPROVED then publish_override_result (ovr_device_id r) j True (ovr_requested_seconds r)
      else if ?st = DENIED then publish_override_result (ovr_device_id r) j False 0 else ret ())
     (ret (resolve_request ?st ?rs sig (clock w1) r))"
  have "cast_vote_with mac lookup j voter approve w = ?tail ?w2"
    using request_unique [OF wf r] pending ev w1
    by (simp add: cast_vote_with_def Let_def update_where_def andThen_def resolved_db_def)
  moreover have "leaves_db ?tail" by (intro leaves_db_intro)
  ultimately show ?thesis by (simp add: leaves_db_committed Let_def a_def [symmetric] sig_def [symmetric])
qed

lemma cast_vote_revote:
  assumes "db_wf (working w)" "r \<in> set (override_requests (working w))" "ovr_id r = j" "ovr_status r \<noteq> PENDING"
  shows "\<exists>m. cast_vote_with mac lookup j voter approve w = (Inl (ValueError m), w)"
  using request_unique [OF assms(1-3)] assms(4) by (simp add: cast_vote_with_def)

lemma resolved_db_wf: "db_wf d \<Longrightarrow> db_wf (resolved_db j st rs sig t d)"
proof -
  have "map ovr_id (map (\<lambda>r. if ovr_id r = j then resolve_request st rs sig t r else r) xs) = map ovr_id xs" for xs
    by (simp add: resolve_request_def)
  then show "db_wf d \<Longrightarrow> db_wf (resolved_db j st rs sig t d)"
    by (simp add: db_wf_def resolved_db_def del: map_map)
qed

lemma decision_not_pending [simp]: "decision a b c \<noteq> PENDING"
  by (simp add: decision_def)

text \<open>
  The decision, for any query of the validator that leaves the database alone and succeeds: approved
  when two of the three hold, denied otherwise, once and for all.
\<close>

lemma vote_decides:
  assumes "db_wf (working w)" "r \<in> set (override_requests (working w))" "ovr_id r = j" "ovr_status r = PENDING"
    "\<And>i t. leaves_db (lookup i t)"
    "validate_usage_pattern_with lookup (ovr_device_id r) w = (Inr p, w1)"
  shows "\<exists>d r'. committed (snd (cast_vote_with mac lookup j voter approve w)) = d \<and>
    override_requests d = map (\<lambda>q. if ovr_id q = j then r' else q) (override_requests (working w)) \<and>
    ovr_status r' = (let a = parent_vote voter approve r; b = in_window w
      in if (a \<and> b) \<or> (a \<and> p) \<or> (b \<and> p) then APPROVED else DENIED) \<and>
    ovr_votes r' = [(''parent'', parent_vote voter approve r), (''policy'', in_window w), (''pattern'', p)] \<and>
    ovr_id r' = j \<and> ovr_device_id r' = ovr_device_id r \<and> ovr_resolved_at r' = Some (clock w1) \<and>
    ovr_requested_seconds r' = ovr_requested_seconds r \<and>
    (\<forall>w2 v b. working w2 = d \<longrightarrow>
       (\<exists>m. cast_vote_with mac lookup j v b w2 = (Inl (ValueError m), w2)))"
proof -
  define a where "a = parent_vote voter approve r"
  define sig where
    "sig = signature_of mac (SECRET_KEY (config w1)) j (ovr_device_id r) a (in_window w) p (clock w1)"
  let ?st = "decision a (in_window w) p" and ?rs = "vote_results a (in_window w) p"
  let ?r = "resolve_request ?st ?rs sig (clock w1) r"
  let ?d = "resolved_db j ?st ?rs sig (clock w1) (working w)"
  have c: "committed (snd (cast_vote_with mac lookup j voter approve w)) = ?d"
    using cast_vote_effect [OF assms, of mac voter approve] by (simp add: Let_def a_def sig_def)
  have one: "q = r" if "q \<in> set (override_requests (working w))" "ovr_id q = j" for q
    using assms(1-3) that by (auto simp: db_wf_def distinct_map inj_on_def)
  have rows: "override_requests ?d = map (\<lambda>q. if ovr_id q = j then ?r else q) (override_requests (working w))"
    by (simp add: resolved_db_def) (metis one)
  have "?r \<in> set (override_requests ?d)" using rows assms(2,3) by (force simp: image_iff)
  moreover have "ovr_id ?r = j" "ovr_status ?r \<noteq> PENDING" using assms(3) by (simp_all add: resolve_request_def)
  ultimately have again: "\<exists>m. cast_vote_with mac lookup j v b w2 = (Inl (ValueError m), w2)"
    if "working w2 = ?d" for w2 v b
    using cast_vote_revote [of w2 ?r j] that resolved_db_wf [OF assms(1)] by simp
  show ?thesis
    using c rows again assms(3)
    by (intro exI [of _ ?d] exI [of _ ?r])
      (auto simp: resolve_request_def vote_results_def decision_def a_def Let_def)
qed

text \<open>
  Votes cast under another name than \<open>parent\<close> do not count: a vote as \<open>policy\<close> or
  \<open>pattern\<close> has the same effect on the database whether it approves or not, and it uses up the
  request.
\<close>

theorem other_votes_ignored:
  assumes "db_wf (working w)" "r \<in> set (override_requests (working w))" "ovr_id r = j" "ovr_status r = PENDING"
    "\<And>i t. leaves_db (lookup i t)"
    "validate_usage_pattern_with lookup (ovr_device_id r) w = (Inr p, w1)" "voter \<noteq> PARENT"
  shows "committed (snd (cast_vote_with mac lookup j voter True w)) =
    committed (snd (cast_vote_with mac lookup j voter False w))"
  using assms(7) cast_vote_effect [OF assms(1-6), of mac voter True]
    cast_vote_effect [OF assms(1-6), of mac voter False]
  by (simp add: parent_vote_def)

lemma sum_list_split:
  "distinct (map key xs) \<Longrightarrow> r \<in> set xs \<Longrightarrow> p r' \<Longrightarrow> \<not> p r \<Longrightarrow>
     sum_list (map f (filter p (map (\<lambda>q. if key q = key r then r' else q) xs))) =
       sum_list (map f (filter p xs)) + (f r' :: int)"
proof (induction xs)
  case (Cons x xs)
  show ?case
  proof (cases "x = r")
    case True
    have "map (\<lambda>q. if key q = key r then r' else q) xs = xs"
      using Cons.prems(1) True by (intro map_idI) (auto simp: image_iff)
    with True Cons.prems show ?thesis by simp
  next
    case False
    with Cons.prems have "key x \<noteq> key r" by (auto simp: image_iff)
    with False Cons show ?thesis by auto
  qed
qed simp

text \<open>
  The daily cap is only checked when a request is created, against what is approved by then:
  approving a request of today adds its seconds to the approved ones whatever they amount to, so
  requests that wait together can exceed the cap of two hours (the witness reaches three).
\<close>

theorem approval_ignores_cap:
  assumes "db_wf (working w)" "r \<in> set (override_requests (working w))" "ovr_id r = j" "ovr_status r = PENDING"
    "\<And>i t. leaves_db (lookup i t)"
    "validate_usage_pattern_with lookup (ovr_device_id r) w = (Inr p, w1)"
    "in_window w" "day * day_usec \<le> ovr_requested_at r"
  shows "approved_seconds (ovr_device_id r) day
      (committed (snd (cast_vote_with mac lookup j PARENT True w))) =
    approved_seconds (ovr_device_id r) day (working w) + ovr_requested_seconds r"
proof -
  define sig where
    "sig = signature_of mac (SECRET_KEY (config w1)) j (ovr_device_id r) True True p (clock w1)"
  let ?r = "resolve_request APPROVED (vote_results True True p) sig (clock w1) r"
  have c: "committed (snd (cast_vote_with mac lookup j PARENT True w)) =
      resolved_db j APPROVED (vote_results True True p) sig (clock w1) (working w)"
    using cast_vote_effect [OF assms(1-6), of mac PARENT True] assms(7)
    by (simp add: Let_def parent_vote_def decision_def sig_def)
  have d: "distinct (map ovr_id (override_requests (working w)))" using assms(1) by (simp add: db_wf_def)
  have one: "q = r" if "q \<in> set (override_requests (working w))" "ovr_id q = j" for q
    using assms(2,3) d that by (auto simp: distinct_map inj_on_def)
  have rows: "override_requests (resolved_db j APPROVED (vote_results True True p) sig (clock w1) (working w)) =
      map (\<lambda>q. if ovr_id q = ovr_id r then ?r else q) (override_requests (working w))"
    by (simp add: resolved_db_def assms(3)) (metis one)
  have "approved_today (ovr_device_id r) day ?r" "\<not> approved_today (ovr_device_id r) day r"
    using assms(4,8) by (simp_all add: approved_today_def resolve_request_def)
  from sum_list_split [OF d assms(2), of "approved_today (ovr_device_id r) day", OF this, of ovr_requested_seconds]
  show ?thesis unfolding c approved_seconds_def rows by (simp add: resolve_request_def)
qed

section \<open>Votes on a concrete day\<close>

text \<open>The query the validator means: the budget of the current date.\<close>

definition lookup_budget_by_date :: "string \<Rightarrow> string \<Rightarrow> Budget option handler" where
  "lookup_budget_by_date device_id today =
     bindE (readS utc_today) (\<lambda>d.
       select_one budgets (\<lambda>b. bud_device_id b = device_id \<and> bud_date b = d))"

lemma leaves_db_by_date: "leaves_db (lookup_budget_by_date i t)"
  unfolding lookup_budget_by_date_def
  by (intro leaves_db_intro) (simp add: leaves_db_def select_one_run)

text \<open>Two hours already approved for a phone, and one more hour requested.\<close>

definition hour_request :: "string \<Rightarrow> OverrideStatus \<Rightarrow> OverrideRequest" where
  "hour_request j st =
     \<lparr> ovr_id = j, ovr_device_id = ''p'', ovr_requested_seconds = 3600, ovr_status = st,
       ovr_votes = [], ovr_requested_at = 3 * day_usec, ovr_resolved_at = None, ovr_signature = None \<rparr>"

definition asking_db :: db where
  "asking_db = day_db\<lparr>override_requests :=
     [hour_request ''i'' APPROVED, hour_request ''j'' APPROVED, hour_request ''k'' PENDING]\<rparr>"

lemma asking_db_sel [simp]:
  "budgets asking_db = budgets day_db"
  "override_requests asking_db =
     [hour_request ''i'' APPROVED, hour_request ''j'' APPROVED, hour_request ''k'' PENDING]"
  by (simp_all add: asking_db_def)

lemma hour_request_sel [simp]:
  "ovr_id (hour_request j st) = j" "ovr_device_id (hour_request j st) = ''p''"
  "ovr_requested_seconds (hour_request j st) = 3600" "ovr_status (hour_request j st) = st"
  "ovr_requested_at (hour_request j st) = 3 * day_usec" "ovr_votes (hour_request j st) = []"
  by (simp_all add: hour_request_def)

lemma asking_db_wf: "db_wf asking_db"
  using day_db_wf by (simp add: db_wf_def asking_db_def)

lemma asking_window: "in_window (text_world afternoon asking_db)"
  by (simp add: in_window_def local_time_def afternoon_def time_of_day_def day_usec_def usec_def clock_time_def)

lemma asking_pattern:
  "validate_usage_pattern_with lookup_budget_by_date ''p'' (text_world afternoon asking_db) =
     (Inr True, text_world afternoon asking_db)"
proof -
  let ?w = "text_world afternoon asking_db"
  have today: "utc_today ?w = 3"
    by (simp add: utc_today_def afternoon_def day_of_def day_usec_def usec_def clock_time_def)
  have row: "budget_of ''p'' 3 (working ?w) = Some (new_budget ''x'' 0 3 (online_phone alice ''p'' 1))"
    using phone_budget by (simp add: budget_of_def)
  have wf: "db_wf (working ?w)" by (simp add: asking_db_wf)
  have budget: "priority_adjusted_budget (dev_priority (online_phone alice ''p'' 1)) = 7200"
    by (simp add: online_phone_def priority_adjusted_budget_def DEFAULT_DAILY_BUDGET_SECONDS_def)
  have get: "redis_get TextClient k ?w = (Inr VNone, ?w)" for k
    by (simp add: redis_get_run srv_get_def)
  have "lookup_budget_by_date ''p'' t ?w = (Inr (Some (new_budget ''x'' 0 3 (online_phone alice ''p'' 1))), ?w)" for t
    using select_budget_of [OF wf, of "''p''" 3] row by (simp add: lookup_budget_by_date_def today)
  then show ?thesis
    using usage_pattern_exact [of 0 7200]
    by (simp add: validate_usage_pattern_with_def get_redis_known get budget usage_dict_def)
qed

lemmas asking_facts = asking_db_wf asking_window asking_pattern leaves_db_by_date

theorem other_votes_ignored_witness:
  "committed (snd (cast_vote_with (\<lambda>k m. ''s'') lookup_budget_by_date ''k'' PATTERN True
       (text_world afternoon asking_db))) =
   committed (snd (cast_vote_with (\<lambda>k m. ''s'') lookup_budget_by_date ''k'' PATTERN False
       (text_world afternoon asking_db)))"
proof -
  let ?w = "text_world afternoon asking_db"
  have wf: "db_wf (working ?w)" and r: "hour_request ''k'' PENDING \<in> set (override_requests (working ?w))"
    by (simp_all add: asking_db_wf)
  have pat: "validate_usage_pattern_with lookup_budget_by_date (ovr_device_id (hour_request ''k'' PENDING)) ?w =
      (Inr True, ?w)" by (simp add: asking_pattern)
  show ?thesis by (rule other_votes_ignored [OF wf r _ _ leaves_db_by_date pat]) simp_all
qed

theorem approval_ignores_cap_witness:
  "approved_seconds ''p'' 3 (committed (snd (cast_vote_with (\<lambda>k m. ''s'') lookup_budget_by_date ''k'' PARENT True
     (text_world afternoon asking_db)))) = 10800"
proof -
  let ?w = "text_world afternoon asking_db"
  have wf: "db_wf (working ?w)" and r: "hour_request ''k'' PENDING \<in> set (override_requests (working ?w))"
    by (simp_all add: asking_db_wf)
  have pat: "validate_usage_pattern_with lookup_budget_by_date (ovr_device_id (hour_request ''k'' PENDING)) ?w =
      (Inr True, ?w)" by (simp add: asking_pattern)
  have "approved_seconds ''p'' 3 (working ?w) = 7200"
    by (simp add: approved_seconds_def approved_today_def)
  then show ?thesis
    using approval_ignores_cap [OF wf r _ _ leaves_db_by_date pat asking_window, of "''k''" 3 "\<lambda>k m. ''s''"]
    by simp
qed

section \<open>As deployed\<close>

text \<open>
  As deployed, no vote can decide a request unless a budget of the device is in the cache: the
  fallback of the usage-pattern validator imports a name that app.database does not define, and the
  vote ends in that error with the request still pending and the database unchanged.
\<close>

theorem vote_deployed_fails:
  assumes "db_wf (working w)" "r \<in> set (override_requests (working w))" "ovr_id r = j" "ovr_status r = PENDING"
    "text_client w = Some TextClient" "srv_up (server w)"
    "srv_get (clock w) (''budget:'' @ ovr_device_id r @ '':'' @ iso_date (utc_today w)) (server w) = None"
    "db_exports w = database_exports"
  shows "cast_vote mac j voter approve w = (Inl (ImportError ''Budget''), w)"
proof -
  have imp: "import_from_database ''Budget'' w = (Inl (ImportError ''Budget''), w)"
    using assms(8) by (simp add: import_from_database_def database_exports_def)
  have "validate_usage_pattern_with lookup_budget_by_text (ovr_device_id r) w = (Inl (ImportError ''Budget''), w)"
    using assms(5-7) imp
    by (simp add: validate_usage_pattern_with_def get_redis_known redis_get_run lookup_budget_by_text_def)
  then have "evaluate_quorum_with mac lookup_budget_by_text j' (ovr_device_id r) votes w =
      (Inl (ImportError ''Budget''), w)" for j' votes
    by (simp add: evaluate_quorum_with_def Let_def validate_time_of_day_def)
  then show ?thesis
    using request_unique [OF assms(1-3)] assms(4) by (simp add: cast_vote_def cast_vote_with_def Let_def)
qed

definition deployed_world :: "instant \<Rightarrow> db \<Rightarrow> world" where
  "deployed_world t d = (text_world t d)\<lparr>db_exports := database_exports\<rparr>"

lemma vote_pattern_raises:
  assumes "db_wf (working w)" "r \<in> set (override_requests (working w))" "ovr_id r = j" "ovr_status r = PENDING"
    "validate_usage_pattern (ovr_device_id r) w = (Inl e, w1)"
  shows "cast_vote mac j voter approve w = (Inl e, w1)"
proof -
  have "evaluate_quorum_with mac lookup_budget_by_text j' (ovr_device_id r) votes w = (Inl e, w1)" for j' votes
    using assms(5) by (simp add: evaluate_quorum_with_def Let_def validate_time_of_day_def validate_usage_pattern_def)
  then show ?thesis
    using request_unique [OF assms(1-3)] assms(4) by (simp add: cast_vote_def cast_vote_with_def Let_def)
qed


text \<open>The same day with a budget of the phone in the cache.\<close>

definition cached_world :: world where
  "cached_world = (let w = deployed_world afternoon asking_db
     in w\<lparr>server := srv_set (''budget:p:'' @ iso_date 3)
          (BText (Dumped (JObj [(''total_budget_seconds'', JInt 7200), (''used_seconds'', JInt 0)]))) None (server w)\<rparr>)"


theorem vote_deployed_fails_witness:
  "cast_vote (\<lambda>k m. ''s'') ''k'' PARENT True (deployed_world afternoon asking_db) =
     (Inl (ImportError ''Budget''), deployed_world afternoon asking_db)"
proof (rule vote_deployed_fails)
  show "db_wf (working (deployed_world afternoon asking_db))"
    by (simp add: deployed_world_def asking_db_wf)
  show "hour_request ''k'' PENDING \<in> set (override_requests (working (deployed_world afternoon asking_db)))"
    by (simp add: deployed_world_def)
qed (simp_all add: deployed_world_def srv_get_def)

end
