(* ===== verification/Usage.thy ===== *)
theory Usage
  imports Engine PyValues
begin

text \<open>
  app/modules/usage_ingestion (schemas.py, service.py, router.py, mqtt_listener.py): usage events
  reported over REST and MQTT, the daily summary, and the listener's heartbeat messages.
\<close>

section \<open>schemas.py\<close>

definition AppCategory :: "string list" where
  "AppCategory = [''productivity'', ''social'', ''entertainment'', ''education'', ''health'', ''other'']"

definition UsageReportRequest :: "string \<Rightarrow> int \<Rightarrow> unit result" where
  "UsageReportRequest app_category duration_seconds =
     (if app_category \<notin> set AppCategory then Inl (ValidationError ''app_category'')
      else if duration_seconds \<le> 0 then Inl (ValidationError ''duration_seconds'')
      else Inr ())"

record DailySummaryItem =
  item_device_id :: string
  item_device_name :: string
  item_date :: int
  item_total_seconds :: int
  item_by_category :: "(string \<times> int) list"

section \<open>service.py\<close>

definition report_usage :: "string \<Rightarrow> string \<Rightarrow> int \<Rightarrow> User \<Rightarrow> UsageEvent handler" where
  "report_usage device_id app_category duration_seconds user =
     bindE (select_one devices (\<lambda>d. dev_id d = device_id)) (\<lambda>o'. case o' of
       None \<Rightarrow> raise (DeviceNotFound device_id)
     | Some device \<Rightarrow>
         if dev_user_id device \<noteq> usr_id user then raise (Forbidden ''Insufficient permissions'')
         else
           bindE next_event_id (\<lambda>i.
           bindE now_utc (\<lambda>t.
             let event = \<lparr> ev_id = i, ev_device_id = device_id, ev_app_category = app_category,
                   ev_duration_seconds = duration_seconds, ev_recorded_at = t \<rparr>
             in andThen (add_event event) (ret event))))"

text \<open>The two levels of \<open>defaultdict\<close>, and the loop over the events.\<close>

definition bump :: "(string \<times> int) list \<Rightarrow> string \<Rightarrow> int \<Rightarrow> (string \<times> int) list" where
  "bump m k n = AList.update k ((case map_of m k of None \<Rightarrow> 0 | Some x \<Rightarrow> x) + n) m"

type_synonym per_device = "(string \<times> (int \<times> (string \<times> int) list)) list"

definition absorb :: "per_device \<Rightarrow> UsageEvent \<Rightarrow> per_device" where
  "absorb per e =
     (case (case map_of per (ev_device_id e) of None \<Rightarrow> (0, []) | Some x \<Rightarrow> x) of (seconds, cats) \<Rightarrow>
        AList.update (ev_device_id e)
          (seconds + ev_duration_seconds e, bump cats (ev_app_category e) (ev_duration_seconds e)) per)"

definition day_start :: "int \<Rightarrow> instant" where "day_start d = d * day_usec"
definition day_end :: "int \<Rightarrow> instant" where "day_end d = d * day_usec + (23 * 3600 + 59 * 60 + 59) * usec"

definition summary_events :: "User \<Rightarrow> int \<Rightarrow> db \<Rightarrow> UsageEvent list" where
  "summary_events user target_date d =
     filter (\<lambda>e. ev_device_id e \<in> dev_id ` set (filter (\<lambda>x. dev_user_id x = usr_id user) (devices d)) \<and>
         day_start target_date \<le> ev_recorded_at e \<and> ev_recorded_at e \<le> day_end target_date)
       (usage_events d)"

definition daily_summary :: "User \<Rightarrow> int \<Rightarrow> DailySummaryItem list handler" where
  "daily_summary user target_date =
     bindE (select_where devices (\<lambda>d. dev_user_id d = usr_id user)) (\<lambda>rows.
     bindE (readS (\<lambda>w. summary_events user target_date (working w))) (\<lambda>events.
       let devs = fold (\<lambda>d. AList.update (dev_id d) d) rows [];
           per_device = foldl absorb [] events
       in ret (map (\<lambda>(did, seconds, cats).
            \<lparr> item_device_id = did,
              item_device_name = (case map_of devs did of Some d \<Rightarrow> dev_name d | None \<Rightarrow> ''Unknown''),
              item_date = target_date, item_total_seconds = seconds, item_by_category = cats \<rparr>)
          per_device)))"

section \<open>router.py\<close>

definition report_endpoint :: "User \<Rightarrow> string \<Rightarrow> string \<Rightarrow> int \<Rightarrow> UsageEvent handler" where
  "report_endpoint user device_id app_category duration_seconds =
     (case UsageReportRequest app_category duration_seconds of
        Inl e \<Rightarrow> raise e
      | Inr _ \<Rightarrow> report_usage device_id app_category duration_seconds user)"

definition usage_summary :: "User \<Rightarrow> int option \<Rightarrow> DailySummaryItem list handler" where
  "usage_summary user target_date =
     bindE (readS (\<lambda>w. case target_date of Some d \<Rightarrow> d | None \<Rightarrow> local_today w)) (\<lambda>d.
       daily_summary user d)"

section \<open>mqtt_listener.py\<close>

definition TOPIC_USAGE :: string where "TOPIC_USAGE = ''screensync/+/+/usage/report''"
definition TOPIC_HEARTBEAT :: string where "TOPIC_HEARTBEAT = ''screensync/+/+/heartbeat''"

definition on_connect :: "int \<Rightarrow> unit handler" where
  "on_connect rc =
     (if rc = 0
      then modS (\<lambda>w. w\<lparr>subscriptions := subscriptions w @ [(TOPIC_USAGE, 1), (TOPIC_HEARTBEAT, 1)]\<rparr>)
      else ret ())"

definition payload_get :: "json \<Rightarrow> string \<Rightarrow> json \<Rightarrow> json result" where
  "payload_get payload k dflt =
     (case payload of
        JObj d \<Rightarrow> Inr (case map_of d k of None \<Rightarrow> dflt | Some x \<Rightarrow> x)
      | _ \<Rightarrow> Inl (AttributeError ''get''))"

text \<open>\<open>with _SyncSession() as session: body\<close>: what is not committed is discarded.\<close>

definition sync_session :: "'a handler \<Rightarrow> 'a handler" where
  "sync_session body = andThen open_session (tryFinally body rollback)"

text \<open>
  What the text column of PostgreSQL (the database of infra/docker-compose.yml) makes of a category:
  an integer or a truth value is stored as its text; any other category is taken to be refused.
\<close>

definition column_text :: "json \<Rightarrow> string result" where
  "column_text j = (case j of
        JStr s \<Rightarrow> Inr s
      | JInt n \<Rightarrow> Inr (show_int n)
      | JBool b \<Rightarrow> Inr (if b then ''true'' else ''false'')
      | _ \<Rightarrow> Inl (StatementError ''app_category''))"

definition handle_usage :: "string \<Rightarrow> string \<Rightarrow> json \<Rightarrow> unit handler" where
  "handle_usage user_id device_id payload =
     bindE (lift (payload_get payload ''category'' (JStr ''other''))) (\<lambda>category.
     bindE (lift (payload_get payload ''secs'' (JInt 0))) (\<lambda>secs.
     bindE (lift (int_of_json secs)) (\<lambda>duration.
       if duration \<le> 0 then ret ()
       else sync_session
         (bindE (select_one devices (\<lambda>d. dev_id d = device_id)) (\<lambda>o'. case o' of
            None \<Rightarrow> ret ()
          | Some device \<Rightarrow>
              if dev_user_id device \<noteq> user_id then ret ()
              else
                bindE (lift (column_text category)) (\<lambda>app_category.
                bindE next_event_id (\<lambda>i.
                bindE now_utc (\<lambda>t.
                andThen (add_event \<lparr> ev_id = i, ev_device_id = device_id,
                           ev_app_category = app_category, ev_duration_seconds = duration,
                           ev_recorded_at = t \<rparr>)
                (andThen commit
                  (evaluate_and_enforce user_id device_id))))))))))"

definition handle_heartbeat :: "string \<Rightarrow> unit handler" where
  "handle_heartbeat device_id =
     sync_session
       (bindE (select_one devices (\<lambda>d. dev_id d = device_id)) (\<lambda>o'. case o' of
          None \<Rightarrow> ret ()
        | Some device \<Rightarrow>
            bindE now_utc (\<lambda>t.
            andThen (update_where devices_update (\<lambda>d. dev_id d = device_id) (beat t)) commit)))"

definition on_message :: "string \<Rightarrow> blob \<Rightarrow> unit handler" where
  "on_message topic payload_bytes =
     tryExcept
       (let parts = split_on (CHR ''/'') topic
        in if length parts < 5 then ret ()
           else
             bindE (lift (utf8_decode payload_bytes)) (\<lambda>text.
             bindE (lift (json_loads text)) (\<lambda>payload.
               if parts ! 3 = ''usage'' then handle_usage (parts ! 1) (parts ! 2) payload
               else if parts ! 3 = ''heartbeat'' then handle_heartbeat (parts ! 2)
               else ret ())))
       (\<lambda>_. ret ())"

definition start_mqtt_listener :: "unit handler" where
  "start_mqtt_listener =
     bindE (readS (\<lambda>w. MQTT_ENABLED (config w))) (\<lambda>enabled.
       if \<not> enabled then ret ()
       else bindE (readS broker_up) (\<lambda>up. if \<not> up then ret () else on_connect 0))"

section \<open>Tallies\<close>

lemma map_of_bump: "map_of (bump m k n) k' =
    (if k' = k then Some ((case map_of m k of None \<Rightarrow> 0 | Some x \<Rightarrow> x) + n) else map_of m k')"
  by (simp add: bump_def update_conv')

lemma bump_distinct: "distinct (map fst m) \<Longrightarrow> distinct (map fst (bump m k n))"
  by (simp add: bump_def distinct_update)

lemma update_sum:
  "distinct (map fst m) \<Longrightarrow> sum_list (map snd (AList.update k v m)) =
     sum_list (map snd m) - (case map_of m k of None \<Rightarrow> 0 | Some x \<Rightarrow> x) + (v :: int)"
proof (induction m)
  case (Cons p m)
  then show ?case
    by (cases p) (auto simp: map_of_eq_None_iff split: option.splits)
qed simp

lemma bump_sum: "distinct (map fst m) \<Longrightarrow> sum_list (map snd (bump m k n)) = sum_list (map snd m) + n"
  by (simp add: bump_def update_sum)

definition cats_of :: "UsageEvent list \<Rightarrow> (string \<times> int) list" where
  "cats_of es = foldl (\<lambda>m e. bump m (ev_app_category e) (ev_duration_seconds e)) [] es"

lemma cats_of_distinct: "distinct (map fst (cats_of es))"
  by (induction es rule: rev_induct) (simp_all add: cats_of_def bump_distinct)

lemma cats_of_sum: "sum_list (map snd (cats_of es)) = sum_list (map ev_duration_seconds es)"
proof (induction es rule: rev_induct)
  case (snoc e es)
  then show ?case using cats_of_distinct [of es] by (simp add: cats_of_def bump_sum)
qed (simp add: cats_of_def)

lemma cats_of_lookup: "map_of (cats_of es) c =
    (if c \<in> ev_app_category ` set es
     then Some (sum_list (map ev_duration_seconds (filter (\<lambda>e. ev_app_category e = c) es))) else None)"
proof (induction es rule: rev_induct)
  case (snoc e es)
  have "cats_of (es @ [e]) = bump (cats_of es) (ev_app_category e) (ev_duration_seconds e)"
    by (simp add: cats_of_def)
  moreover have "filter (\<lambda>e. ev_app_category e = c) es = []" if "c \<notin> ev_app_category ` set es"
    using that by (auto simp: filter_empty_conv)
  ultimately show ?case using snoc by (auto simp: map_of_bump)
qed (simp add: cats_of_def)

definition events_of :: "string \<Rightarrow> UsageEvent list \<Rightarrow> UsageEvent list" where
  "events_of i es = filter (\<lambda>e. ev_device_id e = i) es"

lemma absorb_step: "map_of (absorb per e) i =
    (if i = ev_device_id e
     then Some (case (case map_of per i of None \<Rightarrow> (0, []) | Some x \<Rightarrow> x) of (seconds, cats) \<Rightarrow>
       (seconds + ev_duration_seconds e, bump cats (ev_app_category e) (ev_duration_seconds e)))
     else map_of per i)"
  by (auto simp: absorb_def update_conv' split: prod.splits)

lemma absorb_lookup: "map_of (foldl absorb [] es) i =
    (if events_of i es = [] then None
     else Some (sum_list (map ev_duration_seconds (events_of i es)), cats_of (events_of i es)))"
proof (induction es rule: rev_induct)
  case (snoc e es)
  then show ?case
    by (auto simp: absorb_step events_of_def cats_of_def)
qed (simp add: events_of_def)

lemma absorb_distinct: "distinct (map fst (foldl absorb [] es))"
  by (induction es rule: rev_induct) (simp_all add: absorb_def distinct_update split: prod.splits)

section \<open>The daily summary\<close>

text \<open>The events a summary has to count, said of the tables and the calendar alone.\<close>

definition counts :: "User \<Rightarrow> int \<Rightarrow> db \<Rightarrow> UsageEvent \<Rightarrow> bool" where
  "counts u day d e \<longleftrightarrow>
     (\<exists>x \<in> set (devices d). dev_id x = ev_device_id e \<and> dev_user_id x = usr_id u) \<and>
     day_of (ev_recorded_at e) = day \<and> time_of_day (ev_recorded_at e) \<le> 86399 * usec"

lemma day_window:
  "day_start day \<le> t \<and> t \<le> day_end day \<longleftrightarrow> day_of t = day \<and> time_of_day t \<le> 86399 * usec"
proof
  assume b: "day_start day \<le> t \<and> t \<le> day_end day"
  define r where "r = t - day * day_usec"
  have r: "t = r + day * day_usec" "0 \<le> r" "r \<le> 86399 * usec" "r < day_usec"
    using b by (auto simp: r_def day_start_def day_end_def day_usec_def usec_def)
  then show "day_of t = day \<and> time_of_day t \<le> 86399 * usec"
    by (simp add: day_of_def time_of_day_def day_usec_def usec_def div_pos_pos_trivial)
next
  assume "day_of t = day \<and> time_of_day t \<le> 86399 * usec"
  then show "day_start day \<le> t \<and> t \<le> day_end day"
    using day_time_split [of t] time_of_day_bounds(1) [of t] by (simp add: day_start_def day_end_def)
qed

lemma summary_events_counts: "summary_events u day d = filter (counts u day d) (usage_events d)"
  unfolding summary_events_def day_window counts_def by (rule filter_cong [OF refl]) (force simp: image_iff)

text \<open>
  Which events the summary of a day counts: those of the user's devices recorded on that day
  (UTC) up to 23:59:59; the events of the last second of the day after that instant appear in the
  summary of no day.
\<close>

theorem summary_window:
  "e \<in> set (summary_events u day d) \<longleftrightarrow>
     e \<in> set (usage_events d) \<and>
     (\<exists>x \<in> set (devices d). dev_id x = ev_device_id e \<and> dev_user_id x = usr_id u) \<and>
     day_of (ev_recorded_at e) = day \<and> time_of_day (ev_recorded_at e) \<le> 86399 * usec"
  by (simp add: summary_events_counts counts_def)

lemma device_table:
  "map_of (fold (\<lambda>d. AList.update (dev_id d) d) ds m) i = Some x \<Longrightarrow>
     map_of m i = Some x \<or> (x \<in> set ds \<and> dev_id x = i)"
proof (induction ds arbitrary: m)
  case (Cons d ds)
  from Cons.IH [of "AList.update (dev_id d) d m"] Cons.prems show ?case
    by (auto simp: update_conv' split: if_splits)
qed simp

lemma device_table_none:
  "map_of (fold (\<lambda>d. AList.update (dev_id d) d) ds m) i = None \<longleftrightarrow> map_of m i = None \<and> i \<notin> dev_id ` set ds"
  by (induction ds arbitrary: m) (auto simp: update_conv')

lemma device_table_found:
  assumes "i \<in> dev_id ` set ds"
  shows "\<exists>x \<in> set ds. dev_id x = i \<and> map_of (fold (\<lambda>d. AList.update (dev_id d) d) ds []) i = Some x"
  using assms device_table [of ds "[]" i] device_table_none [of ds "[]" i]
  by (cases "map_of (fold (\<lambda>d. AList.update (dev_id d) d) ds []) i") auto

text \<open>
  C34: The daily summary of a user lists exactly the user's devices that have usage events of that
  day (UTC, up to and including 23:59:59 sharp; the rest of the last second is missing, as the window
  of the query ends there), each once, with the day and the device's name; its total is the sum of
  the durations of these events, each category shows the sum of the events of that category, and the
  categories add up to the total.
\<close>

theorem daily_summary_sums:
  "\<exists>items. daily_summary u day w = (Inr items, w) \<and> distinct (map item_device_id items) \<and>
     (\<forall>i. i \<in> item_device_id ` set items \<longleftrightarrow>
        (\<exists>e \<in> set (usage_events (working w)). counts u day (working w) e \<and> ev_device_id e = i)) \<and>
     (\<forall>it \<in> set items.
        let es = filter (\<lambda>e. counts u day (working w) e \<and> ev_device_id e = item_device_id it)
                   (usage_events (working w))
        in item_date it = day \<and>
           (\<exists>d \<in> set (devices (working w)). dev_id d = item_device_id it \<and> dev_user_id d = usr_id u \<and>
              item_device_name it = dev_name d) \<and>
           item_total_seconds it = sum_list (map ev_duration_seconds es) \<and>
           sum_list (map snd (item_by_category it)) = item_total_seconds it \<and>
           (\<forall>c. map_of (item_by_category it) c =
              (if c \<in> ev_app_category ` set es
               then Some (sum_list (map ev_duration_seconds (filter (\<lambda>e. ev_app_category e = c) es)))
               else None)))"
proof -
  let ?es = "summary_events u day (working w)" and ?per = "foldl absorb [] (summary_events u day (working w))"
  let ?own = "filter (\<lambda>d. dev_user_id d = usr_id u) (devices (working w))"
  let ?devs = "fold (\<lambda>d. AList.update (dev_id d) d) ?own []"
  let ?item = "\<lambda>(did, seconds, cats). \<lparr> item_device_id = did,
     item_device_name = (case map_of ?devs did of Some d \<Rightarrow> dev_name d | None \<Rightarrow> ''Unknown''),
     item_date = day, item_total_seconds = seconds, item_by_category = cats \<rparr>"
  have run: "daily_summary u day w = (Inr (map ?item ?per), w)"
    by (simp add: daily_summary_def Let_def)
  have ids: "map item_device_id (map ?item ?per) = map fst ?per"
    by (simp add: comp_def split_beta)
  have entry: "p = (i, sum_list (map ev_duration_seconds (events_of i ?es)), cats_of (events_of i ?es))"
    if "p \<in> set ?per" "i = fst p" for p i
  proof -
    have "map_of ?per i = Some (snd p)"
      using that absorb_distinct [of ?es] by (cases p) (auto intro: map_of_is_SomeI)
    then show ?thesis using that absorb_lookup [of ?es i] by (cases p) (simp split: if_splits)
  qed
  have keys: "i \<in> fst ` set ?per \<longleftrightarrow> (\<exists>e \<in> set ?es. ev_device_id e = i)" for i
    using absorb_lookup [of ?es i] map_of_eq_None_iff [of ?per i]
    by (auto simp: events_of_def filter_empty_conv split: if_splits)
  have listed: "i \<in> item_device_id ` set (map ?item ?per) \<longleftrightarrow> (\<exists>e \<in> set ?es. ev_device_id e = i)" for i
  proof -
    have "set (map item_device_id (map ?item ?per)) = set (map fst ?per)" by (rule arg_cong [OF ids])
    then have "item_device_id ` set (map ?item ?per) = fst ` set ?per" by (simp only: list.set_map)
    then show ?thesis by (rule ssubst) (rule keys)
  qed
  have named: "\<exists>d \<in> set (devices (working w)). dev_id d = fst p \<and> dev_user_id d = usr_id u \<and>
      item_device_name (?item p) = dev_name d" if "p \<in> set ?per" for p
  proof -
    have "fst p \<in> dev_id ` set ?own"
      using keys [of "fst p"] that by (auto simp: summary_events_counts counts_def image_iff)
    then have "\<exists>d \<in> set ?own. dev_id d = fst p \<and> map_of ?devs (fst p) = Some d"
      by (rule device_table_found)
    then obtain d where d: "d \<in> set ?own" "dev_id d = fst p" "map_of ?devs (fst p) = Some d"
      by (elim bexE conjE)
    show ?thesis by (rule bexI [of _ d]) (use d in \<open>simp_all add: split_beta\<close>)
  qed
  have es: "events_of i ?es = filter (\<lambda>e. counts u day (working w) e \<and> ev_device_id e = i) (usage_events (working w))" for i
    by (simp add: events_of_def summary_events_counts conj_commute)
  have "\<forall>it \<in> set (map ?item ?per). let es = events_of (item_device_id it) ?es
      in item_date it = day \<and>
         (\<exists>d \<in> set (devices (working w)). dev_id d = item_device_id it \<and> dev_user_id d = usr_id u \<and>
            item_device_name it = dev_name d) \<and>
         item_total_seconds it = sum_list (map ev_duration_seconds es) \<and>
         sum_list (map snd (item_by_category it)) = item_total_seconds it \<and>
         (\<forall>c. map_of (item_by_category it) c =
            (if c \<in> ev_app_category ` set es
             then Some (sum_list (map ev_duration_seconds (filter (\<lambda>e. ev_app_category e = c) es))) else None))"
  proof
    fix it assume "it \<in> set (map ?item ?per)"
    then obtain p where p: "p \<in> set ?per" "it = ?item p" by auto
    obtain i n cats where triple: "p = (i, n, cats)" by (cases p) auto
    have "n = sum_list (map ev_duration_seconds (events_of i ?es))" "cats = cats_of (events_of i ?es)"
      using entry [OF p(1) refl] by (simp_all add: triple)
    then have "item_device_id it = fst p" "item_date it = day"
      "item_total_seconds it = sum_list (map ev_duration_seconds (events_of (fst p) ?es))"
      "item_by_category it = cats_of (events_of (fst p) ?es)"
      unfolding p(2) triple by simp_all
    with named [OF p(1)] show "let es = events_of (item_device_id it) ?es
      in item_date it = day \<and>
         (\<exists>d \<in> set (devices (working w)). dev_id d = item_device_id it \<and> dev_user_id d = usr_id u \<and>
            item_device_name it = dev_name d) \<and>
         item_total_seconds it = sum_list (map ev_duration_seconds es) \<and>
         sum_list (map snd (item_by_category it)) = item_total_seconds it \<and>
         (\<forall>c. map_of (item_by_category it) c =
            (if c \<in> ev_app_category ` set es
             then Some (sum_list (map ev_duration_seconds (filter (\<lambda>e. ev_app_category e = c) es))) else None))"
      unfolding p(2) [symmetric] by (simp add: Let_def cats_of_sum cats_of_lookup)
  qed
  moreover have "distinct (map item_device_id (map ?item ?per))"
    unfolding ids by (rule absorb_distinct)
  moreover have "\<forall>i. i \<in> item_device_id ` set (map ?item ?per) \<longleftrightarrow>
      (\<exists>e \<in> set (usage_events (working w)). counts u day (working w) e \<and> ev_device_id e = i)"
    unfolding listed by (simp only: summary_events_counts set_filter mem_Collect_eq bex_simps) blast
  ultimately show ?thesis
    using run unfolding es by - (rule exI [of _ "map ?item ?per"], intro conjI; assumption)
qed

text \<open>A world with two reports of one device.\<close>

definition reported :: "int \<Rightarrow> string \<Rightarrow> int \<Rightarrow> UsageEvent" where
  "reported i cat n = \<lparr> ev_id = i, ev_device_id = ''p'', ev_app_category = cat,
     ev_duration_seconds = n, ev_recorded_at = 5 \<rparr>"

definition reported_events :: "UsageEvent list" where
  "reported_events = [reported 1 ''social'' 60, reported 2 ''health'' 30]"

definition reported_world :: world where
  "reported_world = sample_world 9 (family_db\<lparr>usage_events := reported_events\<rparr>)"

lemma reported_counts:
  "filter (\<lambda>e. counts alice 0 (working reported_world) e \<and> ev_device_id e = ''p'')
     (usage_events (working reported_world)) = reported_events"
  "(\<exists>e \<in> set (usage_events (working reported_world)). counts alice 0 (working reported_world) e \<and> ev_device_id e = i)
     \<longleftrightarrow> i = ''p''"
  by (auto simp: reported_world_def counts_def reported_events_def reported_def sample_world_def family_defs
      day_of_def time_of_day_def day_usec_def usec_def)

theorem daily_summary_sums_witness:
  "\<exists>it. daily_summary alice 0 reported_world = (Inr [it], reported_world) \<and>
     item_device_id it = ''p'' \<and> item_date it = 0 \<and> item_total_seconds it = 90 \<and>
     map_of (item_by_category it) ''health'' = Some 30"
proof -
  let ?w = reported_world
  obtain items where run: "daily_summary alice 0 ?w = (Inr items, ?w)" and dist: "distinct (map item_device_id items)"
    and ids: "\<forall>i. i \<in> item_device_id ` set items \<longleftrightarrow>
      (\<exists>e \<in> set (usage_events (working ?w)). counts alice 0 (working ?w) e \<and> ev_device_id e = i)"
    and all: "\<forall>it \<in> set items.
        let es = filter (\<lambda>e. counts alice 0 (working ?w) e \<and> ev_device_id e = item_device_id it)
                   (usage_events (working ?w))
        in item_date it = 0 \<and>
           (\<exists>d \<in> set (devices (working ?w)). dev_id d = item_device_id it \<and> dev_user_id d = usr_id alice \<and>
              item_device_name it = dev_name d) \<and>
           item_total_seconds it = sum_list (map ev_duration_seconds es) \<and>
           sum_list (map snd (item_by_category it)) = item_total_seconds it \<and>
           (\<forall>c. map_of (item_by_category it) c =
              (if c \<in> ev_app_category ` set es
               then Some (sum_list (map ev_duration_seconds (filter (\<lambda>e. ev_app_category e = c) es)))
               else None))"
    using daily_summary_sums [of alice 0 ?w] by (elim exE conjE) (rule that; assumption)
  have "i \<in> item_device_id ` set items \<longleftrightarrow> i = ''p''" for i
    using ids [rule_format, of i] reported_counts(2) [of i] by (simp only:)
  then have "set (map item_device_id items) = {''p''}" by (simp only: list.set_map) blast
  with dist have "map item_device_id items = [''p'']"
    by (metis distinct.simps(2) empty_iff insert_iff list.set(1) list.set_intros(1) list.set_intros(2) neq_Nil_conv)
  then obtain it where it: "items = [it]" "item_device_id it = ''p''" by (auto simp: map_eq_Cons_conv)
  have "item_date it = 0 \<and> item_total_seconds it = 90 \<and> map_of (item_by_category it) ''health'' = Some 30"
    using bspec [OF all, of it] unfolding it reported_counts(1) Let_def
    by (simp add: reported_events_def reported_def)
  with run it show ?thesis by simp
qed

section \<open>MQTT messages\<close>

lemma device_unique:
  assumes "db_wf (working w)" "x \<in> set (devices (working w))"
  shows "select_one devices (\<lambda>d. dev_id d = dev_id x) w = (Inr (Some x), w)"
proof -
  have d: "distinct (map dev_id (devices (working w)))" using assms(1) by (simp add: db_wf_def)
  have "map_of (map (\<lambda>d. (dev_id d, d)) (devices (working w))) (dev_id x) = Some x"
    using assms d by (intro map_of_is_SomeI) (auto simp: comp_def)
  with scalar_unique_key [OF d] show ?thesis by (simp add: select_one_run)
qed

lemma usage_topic_parts:
  assumes "CHR ''/'' \<notin> set u" "CHR ''/'' \<notin> set i"
  shows "split_on (CHR ''/'') (''screensync/'' @ u @ ''/'' @ i @ ''/usage/report'') =
      [''screensync'', u, i, ''usage'', ''report'']"
    "split_on (CHR ''/'') (''screensync/'' @ u @ ''/'' @ i @ ''/heartbeat'') =
      [''screensync'', u, i, ''heartbeat'']"
  using assms split_on_append [of "CHR ''/''" u] split_on_append [of "CHR ''/''" i]
  by simp_all

definition usage_payload :: "string \<Rightarrow> int \<Rightarrow> blob" where
  "usage_payload c n = BText (Dumped (JObj [(''category'', JStr c), (''secs'', JInt n)]))"

lemma handle_usage_run:
  assumes "db_wf (committed w)" "x \<in> set (devices (committed w))" "0 < n"
    "event_seq w \<notin> ev_id ` set (usage_events (committed w))"
  shows "handle_usage (dev_user_id x) (dev_id x) (JObj [(''category'', JStr c), (''secs'', JInt n)]) w =
    (let ev = \<lparr> ev_id = event_seq w, ev_device_id = dev_id x, ev_app_category = c,
           ev_duration_seconds = n, ev_recorded_at = clock w \<rparr>;
         d = usage_events_update (\<lambda>es. es @ [ev]) (committed w)
     in (Inr (), w\<lparr>working := d, committed := d, event_seq := event_seq w + 1\<rparr>))"
  using assms device_unique [of "w\<lparr>working := committed w\<rparr>" x]
  by (auto simp: handle_usage_def payload_get_def sync_session_def andThen_def tryFinally_run
      column_text_def next_event_id_def bindE_run add_event_def add_row_def list_ex_iff
      evaluate_and_enforce_def Let_def)

text \<open>
  A usage message on its topic, for a device of the user the topic names and with a positive
  duration, is recorded durably as one event of that device at the time of the message; but it
  charges no budget (the call to the decision engine only logs).
\<close>

theorem mqtt_usage_recorded:
  assumes "db_wf (committed w)" "x \<in> set (devices (committed w))" "0 < n"
    "event_seq w \<notin> ev_id ` set (usage_events (committed w))"
    "CHR ''/'' \<notin> set (dev_user_id x)" "CHR ''/'' \<notin> set (dev_id x)"
  shows "\<exists>w'. on_message (''screensync/'' @ dev_user_id x @ ''/'' @ dev_id x @ ''/usage/report'')
      (usage_payload c n) w = (Inr (), w') \<and>
    usage_events (committed w') = usage_events (committed w) @
      [\<lparr> ev_id = event_seq w, ev_device_id = dev_id x, ev_app_category = c, ev_duration_seconds = n,
         ev_recorded_at = clock w \<rparr>] \<and>
    budgets (committed w') = budgets (committed w) \<and> devices (committed w') = devices (committed w)"
  using handle_usage_run [OF assms(1-4)]
  unfolding on_message_def usage_topic_parts [OF assms(5,6)]
  by (simp add: usage_payload_def utf8_decode_def Let_def)

theorem mqtt_usage_recorded_witness:
  "\<exists>w'. on_message ''screensync/a/p/usage/report'' (usage_payload ''entertainment'' 60) (sample_world 5 family_db) =
      (Inr (), w') \<and> length (usage_events (committed w')) = 1"
proof -
  let ?x = "online_phone alice ''p'' 1"
  have x: "?x \<in> set (devices family_db)" "dev_user_id ?x = ''a''" "dev_id ?x = ''p''"
    "usage_events family_db = []"
    by (simp_all add: family_defs)
  from mqtt_usage_recorded [of "sample_world 5 family_db" ?x 60 "''entertainment''"] x family_db_wf
  show ?thesis by auto
qed

text \<open>What the handling of a message may change durably.\<close>

definition listener_step :: "string \<Rightarrow> string \<Rightarrow> db \<Rightarrow> db \<Rightarrow> bool" where
  "listener_step u i d d' \<longleftrightarrow>
     budgets d' = budgets d \<and> users d' = users d \<and>
     (usage_events d' = usage_events d \<or>
      (\<exists>ev x. usage_events d' = usage_events d @ [ev] \<and> 0 < ev_duration_seconds ev \<and>
         x \<in> set (devices d) \<and> dev_id x = ev_device_id ev \<and> u = dev_user_id x \<and> i = dev_id x))"

lemma listener_step_refl [simp]: "listener_step u i d d"
  by (simp add: listener_step_def)

lemma sync_session_committed: "committed (snd (sync_session m w)) = committed (snd (m (w\<lparr>working := committed w\<rparr>)))"
  by (simp add: sync_session_def andThen_def tryFinally_run)

lemma add_event_step:
  "listener_step u i (committed w) (committed (snd (andThen (add_event ev)
      (andThen commit (evaluate_and_enforce u i)) w)))"
  if "working w = committed w" "0 < ev_duration_seconds ev" "x \<in> set (devices (committed w))"
    "dev_id x = ev_device_id ev" "dev_user_id x = u" "ev_device_id ev = i"
  using that
  by (auto simp: andThen_def bindE_run add_event_def add_row_def evaluate_and_enforce_def listener_step_def)

lemma handle_usage_step: "listener_step u i (committed w) (committed (snd (handle_usage u i payload w)))"
proof -
  let ?w = "w\<lparr>working := committed w\<rparr>"
  have "listener_step u i (committed w) (committed (snd (sync_session
     (bindE (select_one devices (\<lambda>d. dev_id d = i)) (\<lambda>o'. case o' of
        None \<Rightarrow> ret ()
      | Some device \<Rightarrow>
          if dev_user_id device \<noteq> u then ret ()
          else
            bindE (lift (column_text category)) (\<lambda>app_category.
            bindE next_event_id (\<lambda>n.
            bindE now_utc (\<lambda>t.
            andThen (add_event \<lparr> ev_id = n, ev_device_id = i, ev_app_category = app_category,
                       ev_duration_seconds = duration, ev_recorded_at = t \<rparr>)
            (andThen commit (evaluate_and_enforce u i))))))) w)))" if "0 < duration" for duration category
  proof (cases "scalar_one_or_none (filter (\<lambda>d. dev_id d = i) (devices (committed w)))")
    case (Inl e)
    then show ?thesis by (simp add: sync_session_committed bindE_run select_one_run)
  next
    case (Inr o')
    show ?thesis
    proof (cases o')
      case None
      with Inr show ?thesis by (simp add: sync_session_committed bindE_run select_one_run)
    next
      case (Some x)
      with Inr have "scalar_one_or_none (filter (\<lambda>d. dev_id d = i) (devices (committed w))) = Inr (Some x)"
        by simp
      from scalar_Some [OF this] have x: "x \<in> set (devices (committed w)) \<and> dev_id x = i" .
      have sel: "select_one devices (\<lambda>d. dev_id d = i) ?w = (Inr (Some x), ?w)"
        using Inr Some by (simp add: select_one_run)
      show ?thesis
      proof (cases "dev_user_id x = u")
        case False
        then show ?thesis by (simp add: sync_session_committed sel)
      next
        case True
        have store: "listener_step u i (committed w) (committed (snd (andThen (add_event
            \<lparr> ev_id = event_seq w, ev_device_id = i, ev_app_category = c, ev_duration_seconds = duration,
              ev_recorded_at = clock w \<rparr>) (andThen commit (evaluate_and_enforce u i))
            (?w\<lparr>event_seq := event_seq w + 1\<rparr>))))" for c
          using add_event_step [of "?w\<lparr>event_seq := event_seq w + 1\<rparr>" "\<lparr> ev_id = event_seq w,
            ev_device_id = i, ev_app_category = c, ev_duration_seconds = duration, ev_recorded_at = clock w \<rparr>" x u i]
            True x \<open>0 < duration\<close> by simp
        show ?thesis
        proof (cases "column_text category")
          case (Inl e)
          then show ?thesis by (simp add: sync_session_committed sel)
        next
          case (Inr c)
          then show ?thesis
            using store [of c] True by (simp add: sync_session_committed sel next_event_id_def)
        qed
      qed
    qed
  qed
  then show ?thesis
    by (auto simp: handle_usage_def bindE_run [of "lift a" for a] not_le split: sum.splits)
qed

lemma handle_heartbeat_step: "listener_step u i (committed w) (committed (snd (handle_heartbeat j w)))"
  by (auto simp: handle_heartbeat_def sync_session_committed bindE_run select_one_run andThen_def
      update_where_def listener_step_def split: sum.splits option.splits)

text \<open>
  C35: No message changes more than it should: whatever arrives on whatever topic, the listener
  returns, the budgets and users are untouched, and the events grow by at most one, of positive
  duration, for a device of the user the topic names.
\<close>

theorem on_message_safe:
  "\<exists>w'. on_message topic payload w = (Inr (), w') \<and>
    budgets (committed w') = budgets (committed w) \<and> users (committed w') = users (committed w) \<and>
    (usage_events (committed w') = usage_events (committed w) \<or>
     (\<exists>ev x. usage_events (committed w') = usage_events (committed w) @ [ev] \<and>
        0 < ev_duration_seconds ev \<and> x \<in> set (devices (committed w)) \<and> dev_id x = ev_device_id ev \<and>
        split_on (CHR ''/'') topic ! 1 = dev_user_id x \<and> split_on (CHR ''/'') topic ! 2 = dev_id x))"
proof -
  let ?p = "split_on (CHR ''/'') topic"
  let ?body = "if length ?p < 5 then ret ()
     else bindE (lift (utf8_decode payload)) (\<lambda>text.
       bindE (lift (json_loads text)) (\<lambda>j.
         if ?p ! 3 = ''usage'' then handle_usage (?p ! 1) (?p ! 2) j
         else if ?p ! 3 = ''heartbeat'' then handle_heartbeat (?p ! 2)
         else ret ()))"
  obtain r w' where body: "?body w = (r, w')" by (cases "?body w")
  have "listener_step (?p ! 1) (?p ! 2) (committed w) (committed (snd (?body w)))"
  proof (cases "length ?p < 5")
    case False
    show ?thesis
    proof (cases "utf8_decode payload")
      case (Inr t)
      show ?thesis
        using False Inr handle_usage_step [of "?p ! 1" "?p ! 2" w] handle_heartbeat_step [of "?p ! 1" "?p ! 2" w "?p ! 2"]
        by (cases "json_loads t") simp_all
    qed (use False in simp)
  qed simp
  with body have "listener_step (?p ! 1) (?p ! 2) (committed w) (committed w')" by simp
  moreover have "on_message topic payload w = (Inr (), w')"
    using body by (cases r) (auto simp: on_message_def Let_def tryExcept_def)
  ultimately show ?thesis
    unfolding listener_step_def by (intro exI [of _ w']) blast
qed

text \<open>
  Heartbeats over MQTT are never processed: a topic that matches the heartbeat subscription has
  four parts, and the listener drops every message with fewer than five.
\<close>

theorem heartbeat_topic_dropped:
  assumes "CHR ''/'' \<notin> set u" "CHR ''/'' \<notin> set i"
  shows "on_message (''screensync/'' @ u @ ''/'' @ i @ ''/heartbeat'') payload w = (Inr (), w)"
  unfolding on_message_def usage_topic_parts [OF assms] by simp

theorem heartbeat_topic_dropped_witness:
  "on_message ''screensync/a/p/heartbeat'' (usage_payload ''x'' 1) (sample_world 5 family_db) =
     (Inr (), sample_world 5 family_db)"
  using heartbeat_topic_dropped [of "''a''" "''p''"] by simp

end
