(* ===== verification/Aggregator.thy ===== *)
theory Aggregator
  imports Engine
begin

text \<open>
  app/modules/fl_worker/aggregator.py: the submission of gradient deltas, the federated average of a
  round and the global model in Redis.  numpy is a parameter, a record of the functions the code
  calls on arrays, with its documented behaviour as the hypothesis \<open>numpy_ok\<close>.  The repository
  lacks the module app.modules.fl_worker.models and its class \<open>FLModelUpdate\<close>, so as it stands every
  operation on submissions raises \<open>ImportError\<close> (\<open>fl_unavailable\<close> in theory \<open>Drift\<close>); what they do
  on a table with the fields the code names is stated under the hypothesis that the module exists.
\<close>

section \<open>numpy\<close>

text \<open>
  \<open>np.save\<close> into a buffer, \<open>np.load\<close> of bytes, \<open>shape\<close>, \<open>np.mean(np.stack(xs, 0), 0)\<close>,
  \<open>np.zeros\<close>, \<open>+\<close>, \<open>np.linalg.norm\<close>; and for the drift detector \<open>flatten\<close> (to float64),
  \<open>np.dot\<close>, \<open>np.sign\<close> of the flattened array and \<open>np.mean\<close> of a list of floats.
\<close>

record 'a numpy =
  np_save :: "'a \<Rightarrow> byte_string"
  np_load :: "byte_string \<Rightarrow> 'a result"
  np_shape :: "'a \<Rightarrow> nat list"
  np_mean :: "'a list \<Rightarrow> 'a result"
  np_zeros :: "nat list \<Rightarrow> 'a"
  np_add :: "'a \<Rightarrow> 'a \<Rightarrow> 'a result"
  np_norm :: "'a \<Rightarrow> rat"
  np_flatten :: "'a \<Rightarrow> 'a"
  np_dot :: "'a \<Rightarrow> 'a \<Rightarrow> rat"
  np_signs :: "'a \<Rightarrow> int list"
  np_mean_floats :: "rat list \<Rightarrow> rat"

definition numpy_ok :: "'a numpy \<Rightarrow> bool" where
  "numpy_ok np \<longleftrightarrow>
     (\<forall>x. np_load np (np_save np x) = Inr x) \<and>
     (\<forall>x. np_shape np (np_zeros np (np_shape np x)) = np_shape np x) \<and>
     (\<forall>x y. np_shape np x = np_shape np y \<longrightarrow>
        (\<exists>z. np_add np x y = Inr z \<and> np_shape np z = np_shape np x)) \<and>
     (\<forall>xs s. xs \<noteq> [] \<longrightarrow> (\<forall>x \<in> set xs. np_shape np x = s) \<longrightarrow>
        (\<exists>m. np_mean np xs = Inr m \<and> np_shape np m = s))"

section \<open>Constants and imports\<close>

definition MIN_DEVICES_PER_ROUND :: nat where "MIN_DEVICES_PER_ROUND = 3"
definition GLOBAL_MODEL_REDIS_KEY :: string where "GLOBAL_MODEL_REDIS_KEY = ''fl:global_model:weights''"
definition GLOBAL_MODEL_ROUND_KEY :: string where "GLOBAL_MODEL_ROUND_KEY = ''fl:global_model:round''"
definition MODEL_TTL_SECONDS :: int where "MODEL_TTL_SECONDS = 7 * 86400"

definition import_module :: "string \<Rightarrow> unit handler" where
  "import_module n =
     (\<lambda>w. if n \<in> set (app_modules w) then (Inr (), w) else (Inl (ImportError n), w))"

definition FL_MODELS :: string where "FL_MODELS = ''app.modules.fl_worker.models''"

definition add_fl_update :: "FLModelUpdate \<Rightarrow> unit handler" where
  "add_fl_update = add_row fl_model_updates_update fl_model_updates (\<lambda>_ _. False) ''fl_model_updates''"

section \<open>Submission\<close>

definition submission_count :: "int \<Rightarrow> nat handler" where
  "submission_count round_number =
     andThen (import_module FL_MODELS)
       (bindE (select_where fl_model_updates (\<lambda>u. fl_round_number u = round_number)) (\<lambda>rows.
          ret (length rows)))"

definition store_gradient_update :: "'a numpy \<Rightarrow> string \<Rightarrow> 'a \<Rightarrow> int \<Rightarrow> dict handler" where
  "store_gradient_update np device_id gradient_delta round_number =
     andThen (import_module FL_MODELS)
       (let serialised = np_save np gradient_delta
        in andThen (delete_where fl_model_updates_update
             (\<lambda>u. fl_device_id u = device_id \<and> fl_round_number u = round_number))
        (bindE now_utc (\<lambda>t.
         andThen (add_fl_update \<lparr> fl_device_id = device_id, fl_gradient_delta = serialised,
                    fl_round_number = round_number, fl_submitted_at = t \<rparr>)
        (andThen commit
        (bindE (submission_count round_number) (\<lambda>count.
           ret [(''device_id'', JStr device_id), (''round_number'', JInt round_number),
                (''submissions_so_far'', JInt (int count)),
                (''quorum_required'', JInt (int MIN_DEVICES_PER_ROUND)),
                (''quorum_reached'', JBool (MIN_DEVICES_PER_ROUND \<le> count))]))))))"

section \<open>Aggregation\<close>

fun map_result :: "('b \<Rightarrow> 'c result) \<Rightarrow> 'b list \<Rightarrow> 'c list result" where
  "map_result f [] = Inr []"
| "map_result f (x # xs) =
     (case f x of Inl e \<Rightarrow> Inl e
      | Inr y \<Rightarrow> (case map_result f xs of Inl e \<Rightarrow> Inl e | Inr ys \<Rightarrow> Inr (y # ys)))"

text \<open>What \<open>np.load\<close> makes of a reply; a text is not the npy format.\<close>

fun load_reply :: "'a numpy \<Rightarrow> pyval \<Rightarrow> 'a result" where
  "load_reply np (VBytes (BBin bs)) = np_load np bs"
| "load_reply np (VBytes (BText t)) = Inl (ValueError ''npy'')"
| "load_reply np _ = Inl (TypeError ''bytes-like object'')"

definition load_global_weights :: "'a numpy \<Rightarrow> nat list \<Rightarrow> 'a handler" where
  "load_global_weights np shape =
     bindE (rc_get_raw GLOBAL_MODEL_REDIS_KEY) (\<lambda>raw.
       if raw = VNone then ret (np_zeros np shape) else lift (load_reply np raw))"

definition save_global_weights :: "'a numpy \<Rightarrow> 'a \<Rightarrow> int \<Rightarrow> unit handler" where
  "save_global_weights np weights round_number =
     andThen (rc_set_raw GLOBAL_MODEL_REDIS_KEY (VBytes (BBin (np_save np weights))) (Some MODEL_TTL_SECONDS))
       (rc_set GLOBAL_MODEL_ROUND_KEY (VInt round_number) (Some MODEL_TTL_SECONDS))"

definition run_aggregation :: "'a numpy \<Rightarrow> int \<Rightarrow> dict handler" where
  "run_aggregation np round_number =
     andThen (import_module FL_MODELS)
     (bindE (select_where fl_model_updates (\<lambda>u. fl_round_number u = round_number)) (\<lambda>submissions.
        if length submissions < MIN_DEVICES_PER_ROUND
        then ret [(''status'', JStr ''skipped''), (''reason'', JStr ''below_quorum''),
                  (''submissions'', JInt (int (length submissions)))]
        else
          bindE (lift (map_result (\<lambda>s. np_load np (fl_gradient_delta s)) submissions)) (\<lambda>deltas.
            if 1 < length (remdups (map (np_shape np) deltas))
            then ret [(''status'', JStr ''error''), (''reason'', JStr ''gradient_shape_mismatch'')]
            else
              bindE (lift (np_mean np deltas)) (\<lambda>averaged_delta.
              bindE (load_global_weights np (np_shape np averaged_delta)) (\<lambda>current_weights.
              bindE (lift (np_add np current_weights averaged_delta)) (\<lambda>new_weights.
              andThen (save_global_weights np new_weights round_number)
              (andThen (delete_where fl_model_updates_update (\<lambda>u. fl_round_number u = round_number))
              (andThen commit
                (ret [(''status'', JStr ''aggregated''), (''round_number'', JInt round_number),
                      (''devices_included'', JInt (int (length submissions))),
                      (''weight_norm'', JReal (np_norm np new_weights)),
                      (''global_model_shape'',
                         JArr (map (\<lambda>n. JInt (int n)) (np_shape np new_weights)))]))))))))) "

section \<open>The global model\<close>

text \<open>\<open>base64.b64encode\<close>\<close>

definition base64_char :: "nat \<Rightarrow> char" where
  "base64_char n =
     (if n < 26 then char_of (65 + n) else if n < 52 then char_of (71 + n)
      else if n < 62 then char_of (n - 4) else if n = 62 then CHR ''+'' else CHR ''/'')"

fun base64_encode :: "byte_string \<Rightarrow> string" where
  "base64_encode [] = []"
| "base64_encode [a] = [base64_char (a div 4), base64_char (a mod 4 * 16), CHR ''='', CHR ''='']"
| "base64_encode [a, b] =
     [base64_char (a div 4), base64_char (a mod 4 * 16 + b div 16), base64_char (b mod 16 * 4), CHR ''='']"
| "base64_encode (a # b # c # r) =
     [base64_char (a div 4), base64_char (a mod 4 * 16 + b div 16),
      base64_char (b mod 16 * 4 + c div 64), base64_char (c mod 64)] @ base64_encode r"

datatype global_model =
    NoModelYet
  | GlobalModel (gm_round: pyval) (gm_shape: "nat list") (gm_weights_b64: string)

definition get_global_model_weights :: "'a numpy \<Rightarrow> global_model handler" where
  "get_global_model_weights np =
     bindE (rc_get_raw GLOBAL_MODEL_REDIS_KEY) (\<lambda>raw.
       if raw = VNone then ret NoModelYet
       else
         bindE (lift (load_reply np raw)) (\<lambda>weights.
         bindE (rc_get GLOBAL_MODEL_ROUND_KEY) (\<lambda>r.
           ret (GlobalModel (if truthy r then r else VInt 0) (np_shape np weights)
                  (base64_encode (np_save np weights))))))"

section \<open>Submissions\<close>

lemma import_module_run: "n \<in> set (app_modules w) \<Longrightarrow> import_module n w = (Inr (), w)"
  by (simp add: import_module_def)

definition fl_key :: "FLModelUpdate \<Rightarrow> string \<times> int" where
  "fl_key u = (fl_device_id u, fl_round_number u)"

definition round_rows :: "int \<Rightarrow> db \<Rightarrow> FLModelUpdate list" where
  "round_rows r d = filter (\<lambda>u. fl_round_number u = r) (fl_model_updates d)"

definition submitted_db :: "'a numpy \<Rightarrow> string \<Rightarrow> 'a \<Rightarrow> int \<Rightarrow> instant \<Rightarrow> db \<Rightarrow> db" where
  "submitted_db np i delta r t = fl_model_updates_update
     (\<lambda>us. filter (\<lambda>u. fl_key u \<noteq> (i, r)) us @
        [\<lparr> fl_device_id = i, fl_gradient_delta = np_save np delta, fl_round_number = r, fl_submitted_at = t \<rparr>])"

lemma store_run:
  assumes "FL_MODELS \<in> set (app_modules w)"
  shows "\<exists>out. store_gradient_update np i delta r w =
      (Inr out, w\<lparr>working := submitted_db np i delta r (clock w) (working w),
                  committed := submitted_db np i delta r (clock w) (working w)\<rparr>) \<and>
    map_of out ''submissions_so_far'' =
      Some (JInt (int (length (round_rows r (submitted_db np i delta r (clock w) (working w)))))) \<and>
    map_of out ''quorum_reached'' =
      Some (JBool (3 \<le> length (round_rows r (submitted_db np i delta r (clock w) (working w)))))"
  using assms
  by (simp add: store_gradient_update_def Let_def andThen_def bindE_run import_module_run delete_where_def
      add_fl_update_def add_row_def list_ex_iff submission_count_def submitted_db_def round_rows_def
      fl_key_def MIN_DEVICES_PER_ROUND_def)

lemma distinct_map_filter_append:
  "distinct (map f xs) \<Longrightarrow> f y \<notin> f ` set (filter p xs) \<Longrightarrow> distinct (map f (filter p xs @ [y]))"
  by (simp add: distinct_map_filter)

text \<open>
  If the missing module existed, submitting a gradient would be idempotent per device and round: a
  repeated submission replaces the earlier one, other submissions stay, no two rows share device and
  round, and the answer counts the devices of the round.
\<close>

theorem submission_idempotent:
  assumes "FL_MODELS \<in> set (app_modules w)" "distinct (map fl_key (fl_model_updates (working w)))"
  shows "\<exists>out w'. store_gradient_update np i delta r w = (Inr out, w') \<and> committed w' = working w' \<and>
    distinct (map fl_key (fl_model_updates (working w'))) \<and>
    (\<forall>u \<in> set (fl_model_updates (working w')). fl_key u = (i, r) \<longrightarrow> fl_gradient_delta u = np_save np delta) \<and>
    filter (\<lambda>u. fl_key u \<noteq> (i, r)) (fl_model_updates (working w')) =
      filter (\<lambda>u. fl_key u \<noteq> (i, r)) (fl_model_updates (working w)) \<and>
    map_of out ''submissions_so_far'' =
      Some (JInt (int (card (fl_device_id ` set (round_rows r (working w'))))))"
proof -
  let ?d = "submitted_db np i delta r (clock w) (working w)"
  have rows: "fl_model_updates ?d = filter (\<lambda>u. fl_key u \<noteq> (i, r)) (fl_model_updates (working w)) @
      [\<lparr> fl_device_id = i, fl_gradient_delta = np_save np delta, fl_round_number = r, fl_submitted_at = clock w \<rparr>]"
    by (simp add: submitted_db_def)
  have keys: "distinct (map fl_key (fl_model_updates ?d))"
    unfolding rows by (rule distinct_map_filter_append [OF assms(2)]) (auto simp: fl_key_def)
  have "distinct (map fl_device_id (round_rows r ?d))"
    using distinct_map_filter [OF keys, of "\<lambda>u. fl_round_number u = r"]
    by (auto simp: round_rows_def fl_key_def distinct_map inj_on_def)
  then have count: "length (round_rows r ?d) = card (fl_device_id ` set (round_rows r ?d))"
    by (metis distinct_card length_map list.set_map)
  obtain out where run: "store_gradient_update np i delta r w =
      (Inr out, w\<lparr>working := ?d, committed := ?d\<rparr>)"
    "map_of out ''submissions_so_far'' = Some (JInt (int (length (round_rows r ?d))))"
    using store_run [OF assms(1), of np i delta r] by blast
  have "filter (\<lambda>u. fl_key u \<noteq> (i, r)) (fl_model_updates ?d) =
      filter (\<lambda>u. fl_key u \<noteq> (i, r)) (fl_model_updates (working w))"
    unfolding rows by (simp add: fl_key_def)
  moreover have "\<forall>u \<in> set (fl_model_updates ?d). fl_key u = (i, r) \<longrightarrow> fl_gradient_delta u = np_save np delta"
    unfolding rows by auto
  ultimately show ?thesis using run keys count by (intro exI [of _ out] exI [of _ "w\<lparr>working := ?d, committed := ?d\<rparr>"]) simp
qed

text \<open>Vectors of small numbers, saved as one byte each: an instance of the hypotheses on numpy.\<close>

definition small_numpy :: "nat list numpy" where
  "small_numpy = \<lparr> np_save = (\<lambda>x. x), np_load = Inr, np_shape = (\<lambda>x. [length x]),
     np_mean = (\<lambda>xs. Inr (hd xs)), np_zeros = (\<lambda>s. replicate (case s of [n] \<Rightarrow> n | _ \<Rightarrow> 0) 0),
     np_add = (\<lambda>x y. Inr (map2 (+) x y)), np_norm = (\<lambda>x. of_nat (sum_list x)), np_flatten = (\<lambda>x. x),
     np_dot = (\<lambda>x y. of_nat (sum_list (map2 (*) x y))), np_signs = map (\<lambda>n. if n = 0 then 0 else 1),
     np_mean_floats = (\<lambda>xs. sum_list xs / of_nat (length xs)) \<rparr>"

definition fl_world :: "FLModelUpdate list \<Rightarrow> world" where
  "fl_world us = (text_world afternoon (empty_db\<lparr>fl_model_updates := us\<rparr>))\<lparr>app_modules := [FL_MODELS]\<rparr>"

lemma fl_world_sel [simp]:
  "working (fl_world us) = empty_db\<lparr>fl_model_updates := us\<rparr>" "app_modules (fl_world us) = [FL_MODELS]"
  "srv_up (server (fl_world us))" "text_client (fl_world us) = Some TextClient"
  "bytes_client (fl_world us) = Some BytesClient" "srv_strings (server (fl_world us)) = []"
  "clock (fl_world us) = afternoon"
  by (simp_all add: fl_world_def)

definition submission :: "string \<Rightarrow> byte_string \<Rightarrow> FLModelUpdate" where
  "submission i bs = \<lparr> fl_device_id = i, fl_gradient_delta = bs, fl_round_number = 1, fl_submitted_at = 0 \<rparr>"

theorem submission_idempotent_witness:
  "\<exists>out w'. store_gradient_update small_numpy ''p'' [7] 1 (fl_world [submission ''p'' [5], submission ''q'' [6]]) =
      (Inr out, w') \<and> map_of out ''submissions_so_far'' = Some (JInt 2)"
proof -
  let ?w = "fl_world [submission ''p'' [5], submission ''q'' [6]]"
  have "distinct (map fl_key (fl_model_updates (working ?w)))" by (simp add: fl_key_def submission_def)
  then obtain out w' where run: "store_gradient_update small_numpy ''p'' [7] 1 ?w = (Inr out, w')"
    "map_of out ''submissions_so_far'' = Some (JInt (int (card (fl_device_id ` set (round_rows 1 (working w'))))))"
    using submission_idempotent [of ?w small_numpy "''p''" "[7]" 1] by auto
  moreover have "round_rows 1 (working w') = [submission ''q'' [6],
      (submission ''p'' [7])\<lparr>fl_submitted_at := afternoon\<rparr>]"
    using run(1) store_run [of ?w small_numpy "''p''" "[7]" 1]
    by (auto simp: submitted_db_def round_rows_def fl_key_def submission_def small_numpy_def)
  ultimately show ?thesis by (intro exI [of _ out] exI [of _ w']) (simp add: submission_def)
qed

section \<open>A round\<close>

lemma map_result_Inr: "map f xs = map Inr ys \<Longrightarrow> map_result f xs = Inr ys"
  by (induction xs arbitrary: ys) (auto simp: map_eq_Cons_conv)

lemma remdups_one: "xs \<noteq> [] \<Longrightarrow> \<forall>x \<in> set xs. x = s \<Longrightarrow> length (remdups xs) = 1"
proof -
  assume "xs \<noteq> []" "\<forall>x \<in> set xs. x = s"
  then have "set xs = {s}" by (cases xs) auto
  then have "card (set xs) = 1" by simp
  then show ?thesis by (metis length_remdups_card_conv)
qed

text \<open>The global weights before the round: the stored array, or zeros.\<close>

definition stored_weights :: "'a numpy \<Rightarrow> nat list \<Rightarrow> world \<Rightarrow> 'a result" where
  "stored_weights np s w =
     (case srv_get (clock w) GLOBAL_MODEL_REDIS_KEY (server w) of
        None \<Rightarrow> Inr (np_zeros np s)
      | Some b \<Rightarrow> load_reply np (VBytes b))"

definition clients_ready :: "world \<Rightarrow> bool" where
  "clients_ready w \<longleftrightarrow> text_client w = Some TextClient \<and> bytes_client w = Some BytesClient \<and> srv_up (server w)"

lemma load_weights_run:
  "clients_ready w \<Longrightarrow> stored_weights np s w = Inr g \<Longrightarrow> load_global_weights np s w = (Inr g, w)"
  by (auto simp: load_global_weights_def rc_get_raw_run clients_ready_def stored_weights_def
      split: option.splits)

lemma rc_set_run:
  "text_client w = Some TextClient \<Longrightarrow> srv_up (server w) \<Longrightarrow> ttl \<noteq> 0 \<Longrightarrow> redis_encode v = Inr b \<Longrightarrow>
     rc_set k v (Some ttl) w = (Inr (), w\<lparr>server := srv_set k b (Some (clock w + ttl * usec)) (server w)\<rparr>)"
  by (simp add: rc_set_def redis_set_run tryExcept_def)

text \<open>The world once the new model is stored and the round is cleaned up.\<close>

definition aggregated_world :: "'a numpy \<Rightarrow> 'a \<Rightarrow> int \<Rightarrow> world \<Rightarrow> world" where
  "aggregated_world np m r w =
     (let d = fl_model_updates_update (filter (\<lambda>u. fl_round_number u \<noteq> r)) (working w);
          e = Some (clock w + MODEL_TTL_SECONDS * usec)
      in w\<lparr>server := srv_set GLOBAL_MODEL_ROUND_KEY (BText (Dumped (JInt r))) e
             (srv_set GLOBAL_MODEL_REDIS_KEY (BBin (np_save np m)) e (server w)),
           working := d, committed := d\<rparr>)"

lemma save_weights_run:
  "clients_ready w \<Longrightarrow> save_global_weights np m r w =
     (Inr (), w\<lparr>server := srv_set GLOBAL_MODEL_ROUND_KEY (BText (Dumped (JInt r)))
        (Some (clock w + MODEL_TTL_SECONDS * usec))
        (srv_set GLOBAL_MODEL_REDIS_KEY (BBin (np_save np m)) (Some (clock w + MODEL_TTL_SECONDS * usec)) (server w))\<rparr>)"
  by (simp add: save_global_weights_def andThen_def rc_set_raw_run rc_set_run clients_ready_def
      MODEL_TTL_SECONDS_def)

lemma run_aggregation_run:
  assumes "numpy_ok np" "FL_MODELS \<in> set (app_modules w)" "clients_ready w"
    and rows: "3 \<le> length (round_rows r (working w))"
    and load: "map (\<lambda>u. np_load np (fl_gradient_delta u)) (round_rows r (working w)) = map Inr deltas"
    and shape: "\<forall>x \<in> set deltas. np_shape np x = s"
    and old: "stored_weights np s w = Inr g" "np_shape np g = s"
  shows "\<exists>mean m out. np_mean np deltas = Inr mean \<and> np_add np g mean = Inr m \<and> np_shape np m = s \<and>
    run_aggregation np r w = (Inr out, aggregated_world np m r w) \<and>
    map_of out ''status'' = Some (JStr ''aggregated'') \<and>
    map_of out ''devices_included'' = Some (JInt (int (length deltas)))"
proof -
  have len: "length deltas = length (round_rows r (working w))" using load by (metis length_map)
  then have ne: "deltas \<noteq> []" using rows by auto
  obtain mean where mean: "np_mean np deltas = Inr mean" "np_shape np mean = s"
    using assms(1) ne shape unfolding numpy_ok_def by meson
  obtain m where m: "np_add np g mean = Inr m" "np_shape np m = s"
    using assms(1) mean(2) old(2) unfolding numpy_ok_def by metis
  have one: "length (remdups (map (np_shape np) deltas)) = 1"
    using ne shape by (intro remdups_one [where s = s]) auto
  have enough: "\<not> length (round_rows r (working w)) < MIN_DEVICES_PER_ROUND"
    using rows by (simp add: MIN_DEVICES_PER_ROUND_def)
  have dl: "map_result (\<lambda>u. np_load np (fl_gradient_delta u)) (round_rows r (working w)) = Inr deltas"
    using load by (simp add: map_result_Inr)
  have "\<exists>out. run_aggregation np r w = (Inr out, aggregated_world np m r w) \<and>
      map_of out ''status'' = Some (JStr ''aggregated'') \<and>
      map_of out ''devices_included'' = Some (JInt (int (length deltas)))"
    using assms(2,3) enough dl one mean m load_weights_run [OF assms(3) old(1)] len
    by (simp add: run_aggregation_def andThen_def import_module_run round_rows_def [symmetric]
        save_weights_run delete_where_def aggregated_world_def Let_def)
  with mean m show ?thesis by blast
qed

lemma keys_differ [simp]: "GLOBAL_MODEL_REDIS_KEY \<noteq> GLOBAL_MODEL_ROUND_KEY"
  "GLOBAL_MODEL_ROUND_KEY \<noteq> GLOBAL_MODEL_REDIS_KEY"
  by (simp_all add: GLOBAL_MODEL_REDIS_KEY_def GLOBAL_MODEL_ROUND_KEY_def)

lemma get_model_after:
  assumes "numpy_ok np" "clients_ready w"
  shows "get_global_model_weights np (aggregated_world np m r w) =
    (Inr (GlobalModel (VStr (Dumped (JInt r))) (np_shape np m) (base64_encode (np_save np m))),
     aggregated_world np m r w)"
proof -
  let ?w = "aggregated_world np m r w"
  have ready: "bytes_client ?w = Some BytesClient" "text_client ?w = Some TextClient" "srv_up (server ?w)"
    "clock ?w = clock w"
    using assms(2) by (simp_all add: aggregated_world_def clients_ready_def Let_def)
  have "srv_get (clock w) GLOBAL_MODEL_REDIS_KEY (server ?w) = Some (BBin (np_save np m))"
    "srv_get (clock w) GLOBAL_MODEL_ROUND_KEY (server ?w) = Some (BText (Dumped (JInt r)))"
    by (simp_all add: aggregated_world_def Let_def srv_get_set_same srv_get_set_other MODEL_TTL_SECONDS_def usec_def)
  moreover have "np_load np (np_save np m) = Inr m" using assms(1) by (simp add: numpy_ok_def)
  ultimately show ?thesis
    using ready
    by (simp add: get_global_model_weights_def rc_get_raw_run rc_get_def redis_get_run tryExcept_def
        redis_decode_def utf8_decode_def)
qed

text \<open>
  If the missing module existed, then with both clients connected, aggregating a round of at least
  three loadable submissions of one shape, which a stored global model has too, would succeed: the
  new global model is the stored one (zeros on the first round) plus the mean of the deltas, it is
  what a read of the global model then returns (with the round number as text), the submissions of
  the round are deleted and those of other rounds kept.
\<close>

theorem aggregation_round:
  assumes "numpy_ok np" "FL_MODELS \<in> set (app_modules w)" "clients_ready w"
    "3 \<le> length (round_rows r (working w))"
    "map (\<lambda>u. np_load np (fl_gradient_delta u)) (round_rows r (working w)) = map Inr deltas"
    "\<forall>x \<in> set deltas. np_shape np x = s"
    "stored_weights np s w = Inr g" "np_shape np g = s"
  shows "\<exists>mean m out w'. np_mean np deltas = Inr mean \<and> np_add np g mean = Inr m \<and>
    run_aggregation np r w = (Inr out, w') \<and> map_of out ''status'' = Some (JStr ''aggregated'') \<and>
    fst (get_global_model_weights np w') =
      Inr (GlobalModel (VStr (Dumped (JInt r))) s (base64_encode (np_save np m))) \<and>
    stored_weights np s w' = Inr m \<and>
    round_rows r (committed w') = [] \<and>
    (\<forall>q. q \<noteq> r \<longrightarrow> round_rows q (committed w') = round_rows q (working w))"
proof -
  obtain mean m out where run: "np_mean np deltas = Inr mean" "np_add np g mean = Inr m" "np_shape np m = s"
    "run_aggregation np r w = (Inr out, aggregated_world np m r w)"
    "map_of out ''status'' = Some (JStr ''aggregated'')"
    using run_aggregation_run [OF assms] by blast
  let ?w = "aggregated_world np m r w"
  have "stored_weights np s ?w = Inr m"
    using assms(1)
    by (simp add: stored_weights_def aggregated_world_def Let_def srv_get_set_same srv_get_set_other
        MODEL_TTL_SECONDS_def usec_def numpy_ok_def)
  moreover have "round_rows r (committed ?w) = []"
    by (simp add: round_rows_def aggregated_world_def Let_def filter_empty_conv)
  moreover have "round_rows q (committed ?w) = round_rows q (working w)" if "q \<noteq> r" for q
    using that by (auto simp: round_rows_def aggregated_world_def Let_def intro!: filter_cong)
  moreover have "fst (get_global_model_weights np ?w) =
      Inr (GlobalModel (VStr (Dumped (JInt r))) s (base64_encode (np_save np m)))"
    using get_model_after [OF assms(1,3)] run(3) by simp
  ultimately show ?thesis using run
    by (intro exI [of _ mean] exI [of _ m] exI [of _ out] exI [of _ ?w]) blast
qed

lemma small_numpy_ok: "numpy_ok small_numpy"
  by (auto simp: numpy_ok_def small_numpy_def)

theorem aggregation_round_witness:
  "\<exists>out w'. run_aggregation small_numpy 1
       (fl_world [submission ''p'' [5], submission ''q'' [5], submission ''r'' [5]]) = (Inr out, w') \<and>
     stored_weights small_numpy [1] w' = Inr [5] \<and> round_rows 1 (committed w') = []"
proof -
  let ?us = "[submission ''p'' [5], submission ''q'' [5], submission ''r'' [5]]"
  let ?w = "fl_world ?us"
  have rows: "round_rows 1 (working ?w) = ?us" by (simp add: round_rows_def submission_def)
  have "clients_ready ?w" by (simp add: clients_ready_def)
  moreover have "map (\<lambda>u. np_load small_numpy (fl_gradient_delta u)) (round_rows 1 (working ?w)) =
      map Inr [[5], [5], [5]]" unfolding rows by (simp add: submission_def small_numpy_def)
  moreover have "stored_weights small_numpy [1] ?w = Inr [0]"
    by (simp add: stored_weights_def srv_get_def) (simp add: small_numpy_def)
  ultimately obtain mean m out w' where run: "np_mean small_numpy [[5], [5], [5]] = Inr mean"
    "np_add small_numpy [0] mean = Inr m" "run_aggregation small_numpy 1 ?w = (Inr out, w')"
    "stored_weights small_numpy [1] w' = Inr m" "round_rows 1 (committed w') = []"
    using aggregation_round [of small_numpy ?w 1 "[[5], [5], [5]]" "[1]" "[0]"] small_numpy_ok rows
    by (auto simp: small_numpy_def)
  moreover have "m = [5]" using run(1,2) by (auto simp: small_numpy_def)
  ultimately show ?thesis by blast
qed

end
