(* ===== verification/Hashing.thy ===== *)
theory Hashing
  imports World "HOL-Library.Word"
begin

unbundle bit_operations_syntax

text \<open>
  What the authentication code uses of the standard library's hashlib and hmac: SHA-256, SHA-384
  and SHA-512 on words of 32 and 64 bits, HMAC, and PBKDF2.  A byte string is a \<open>string\<close>, one \<open>char\<close> per byte.
\<close>

section \<open>Bytes and words\<close>

definition word_of_bytes :: "string \<Rightarrow> 'w::len word" where
  "word_of_bytes bs = foldl (\<lambda>acc c. acc * 256 + of_char c) 0 bs"

definition bytes_of_word :: "nat \<Rightarrow> 'w::len word \<Rightarrow> string" where
  "bytes_of_word n w = map (\<lambda>i. char_of (unat (drop_bit (8 * i) w AND 0xFF))) (rev [0..<n])"

definition bytes_of_nat :: "nat \<Rightarrow> nat \<Rightarrow> string" where
  "bytes_of_nat n k = map (\<lambda>i. char_of (k div 256 ^ i)) (rev [0..<n])"

text \<open>Successive chunks of \<open>n\<close> elements.\<close>

fun chunk :: "nat \<Rightarrow> 'a list \<Rightarrow> 'a list list" where
  "chunk n xs = (if n = 0 \<or> xs = [] then [] else take n xs # chunk n (drop n xs))"

declare chunk.simps [simp del]

section \<open>The SHA-2 family (FIPS 180-4)\<close>

text \<open>
  The two variants differ in the width of a word (4 or 8 bytes; a block is 16 words), in the
  rotation distances of the four mixing functions, and in the constants.
\<close>

record 'w sha2 =
  word_bytes :: nat
  Sigma0 :: "nat \<times> nat \<times> nat"
  Sigma1 :: "nat \<times> nat \<times> nat"
  sigma0 :: "nat \<times> nat \<times> nat"
  sigma1 :: "nat \<times> nat \<times> nat"
  round_constants :: "'w list"
  initial_hash :: "'w list"
  digest_bytes :: nat

definition mix_rotations :: "nat \<times> nat \<times> nat \<Rightarrow> 'w::len word \<Rightarrow> 'w word" where
  "mix_rotations r x = (case r of (a, b, c) \<Rightarrow> word_rotr a x XOR word_rotr b x XOR word_rotr c x)"

definition mix_shift :: "nat \<times> nat \<times> nat \<Rightarrow> 'w::len word \<Rightarrow> 'w word" where
  "mix_shift r x = (case r of (a, b, c) \<Rightarrow> word_rotr a x XOR word_rotr b x XOR drop_bit c x)"

definition ch :: "'w::len word \<Rightarrow> 'w word \<Rightarrow> 'w word \<Rightarrow> 'w word" where
  "ch x y z = (x AND y) XOR (NOT x AND z)"

definition maj :: "'w::len word \<Rightarrow> 'w word \<Rightarrow> 'w word \<Rightarrow> 'w word" where
  "maj x y z = (x AND y) XOR (x AND z) XOR (y AND z)"

text \<open>The message schedule, built newest word first.\<close>

fun extend_schedule :: "'w::len word sha2 \<Rightarrow> nat \<Rightarrow> 'w word list \<Rightarrow> 'w word list" where
  "extend_schedule p 0 ws = ws"
| "extend_schedule p (Suc n) ws =
     extend_schedule p n
       ((mix_shift (sigma1 p) (ws ! 1) + ws ! 6 + mix_shift (sigma0 p) (ws ! 14) + ws ! 15) # ws)"

definition schedule :: "'w::len word sha2 \<Rightarrow> string \<Rightarrow> 'w word list" where
  "schedule p block =
     rev (extend_schedule p (length (round_constants p) - 16)
       (rev (map word_of_bytes (chunk (word_bytes p) block))))"

fun sha2_round :: "'w::len word sha2 \<Rightarrow> 'w word list \<Rightarrow> 'w word \<times> 'w word \<Rightarrow> 'w word list" where
  "sha2_round p [a, b, c, d, e, f, g, h] (k, w) =
     (let t1 = h + mix_rotations (Sigma1 p) e + ch e f g + k + w;
          t2 = mix_rotations (Sigma0 p) a + maj a b c
      in [t1 + t2, a, b, c, d + t1, e, f, g])"
| "sha2_round p s kw = s"

definition sha2_block :: "'w::len word sha2 \<Rightarrow> 'w word list \<Rightarrow> string \<Rightarrow> 'w word list" where
  "sha2_block p hs block =
     map2 (+) hs (foldl (sha2_round p) hs (zip (round_constants p) (schedule p block)))"

definition sha2_pad :: "'w sha2 \<Rightarrow> string \<Rightarrow> string" where
  "sha2_pad p m =
     (let block = 16 * word_bytes p; field = 2 * word_bytes p;
          zeros = (block - (length m + 1 + field) mod block) mod block
      in m @ [CHR 0x80] @ replicate zeros (CHR 0x00) @ bytes_of_nat field (8 * length m))"

definition sha2_digest :: "'w::len word sha2 \<Rightarrow> string \<Rightarrow> string" where
  "sha2_digest p m =
     take (digest_bytes p) (concat (map (bytes_of_word (word_bytes p))
       (foldl (sha2_block p) (initial_hash p) (chunk (16 * word_bytes p) (sha2_pad p m)))))"

definition SHA256 :: "32 word sha2" where
  "SHA256 = \<lparr> word_bytes = 4, Sigma0 = (2, 13, 22), Sigma1 = (6, 11, 25),
     sigma0 = (7, 18, 3), sigma1 = (17, 19, 10),
     round_constants =
     [0x428A2F98, 0x71374491, 0xB5C0FBCF, 0xE9B5DBA5, 0x3956C25B, 0x59F111F1,
      0x923F82A4, 0xAB1C5ED5, 0xD807AA98, 0x12835B01, 0x243185BE, 0x550C7DC3,
      0x72BE5D74, 0x80DEB1FE, 0x9BDC06A7, 0xC19BF174, 0xE49B69C1, 0xEFBE4786,
      0x0FC19DC6, 0x240CA1CC, 0x2DE92C6F, 0x4A7484AA, 0x5CB0A9DC, 0x76F988DA,
      0x983E5152, 0xA831C66D, 0xB00327C8, 0xBF597FC7, 0xC6E00BF3, 0xD5A79147,
      0x06CA6351, 0x14292967, 0x27B70A85, 0x2E1B2138, 0x4D2C6DFC, 0x53380D13,
      0x650A7354, 0x766A0ABB, 0x81C2C92E, 0x92722C85, 0xA2BFE8A1, 0xA81A664B,
      0xC24B8B70, 0xC76C51A3, 0xD192E819, 0xD6990624, 0xF40E3585, 0x106AA070,
      0x19A4C116, 0x1E376C08, 0x2748774C, 0x34B0BCB5, 0x391C0CB3, 0x4ED8AA4A,
      0x5B9CCA4F, 0x682E6FF3, 0x748F82EE, 0x78A5636F, 0x84C87814, 0x8CC70208,
      0x90BEFFFA, 0xA4506CEB, 0xBEF9A3F7, 0xC67178F2],
     initial_hash =
     [0x6A09E667, 0xBB67AE85, 0x3C6EF372, 0xA54FF53A, 0x510E527F, 0x9B05688C,
      0x1F83D9AB, 0x5BE0CD19],
     digest_bytes = 32 \<rparr>"

definition SHA512_constants :: "64 word list" where
  "SHA512_constants =
     [0x428A2F98D728AE22, 0x7137449123EF65CD, 0xB5C0FBCFEC4D3B2F, 0xE9B5DBA58189DBBC,
      0x3956C25BF348B538, 0x59F111F1B605D019, 0x923F82A4AF194F9B, 0xAB1C5ED5DA6D8118,
      0xD807AA98A3030242, 0x12835B0145706FBE, 0x243185BE4EE4B28C, 0x550C7DC3D5FFB4E2,
      0x72BE5D74F27B896F, 0x80DEB1FE3B1696B1, 0x9BDC06A725C71235, 0xC19BF174CF692694,
      0xE49B69C19EF14AD2, 0xEFBE4786384F25E3, 0x0FC19DC68B8CD5B5, 0x240CA1CC77AC9C65,
      0x2DE92C6F592B0275, 0x4A7484AA6EA6E483, 0x5CB0A9DCBD41FBD4, 0x76F988DA831153B5,
      0x983E5152EE66DFAB, 0xA831C66D2DB43210, 0xB00327C898FB213F, 0xBF597FC7BEEF0EE4,
      0xC6E00BF33DA88FC2, 0xD5A79147930AA725, 0x06CA6351E003826F, 0x142929670A0E6E70,
      0x27B70A8546D22FFC, 0x2E1B21385C26C926, 0x4D2C6DFC5AC42AED, 0x53380D139D95B3DF,
      0x650A73548BAF63DE, 0x766A0ABB3C77B2A8, 0x81C2C92E47EDAEE6, 0x92722C851482353B,
      0xA2BFE8A14CF10364, 0xA81A664BBC423001, 0xC24B8B70D0F89791, 0xC76C51A30654BE30,
      0xD192E819D6EF5218, 0xD69906245565A910, 0xF40E35855771202A, 0x106AA07032BBD1B8,
      0x19A4C116B8D2D0C8, 0x1E376C085141AB53, 0x2748774CDF8EEB99, 0x34B0BCB5E19B48A8,
      0x391C0CB3C5C95A63, 0x4ED8AA4AE3418ACB, 0x5B9CCA4F7763E373, 0x682E6FF3D6B2B8A3,
      0x748F82EE5DEFB2FC, 0x78A5636F43172F60, 0x84C87814A1F0AB72, 0x8CC702081A6439EC,
      0x90BEFFFA23631E28, 0xA4506CEBDE82BDE9, 0xBEF9A3F7B2C67915, 0xC67178F2E372532B,
      0xCA273ECEEA26619C, 0xD186B8C721C0C207, 0xEADA7DD6CDE0EB1E, 0xF57D4F7FEE6ED178,
      0x06F067AA72176FBA, 0x0A637DC5A2C898A6, 0x113F9804BEF90DAE, 0x1B710B35131C471B,
      0x28DB77F523047D84, 0x32CAAB7B40C72493, 0x3C9EBE0A15C9BEBC, 0x431D67C49C100D4C,
      0x4CC5D4BECB3E42B6, 0x597F299CFC657E2A, 0x5FCB6FAB3AD6FAEC, 0x6C44198C4A475817]"

definition SHA512 :: "64 word sha2" where
  "SHA512 = \<lparr> word_bytes = 8, Sigma0 = (28, 34, 39), Sigma1 = (14, 18, 41),
     sigma0 = (1, 8, 7), sigma1 = (19, 61, 6),
     round_constants = SHA512_constants,
     initial_hash =
     [0x6A09E667F3BCC908, 0xBB67AE8584CAA73B, 0x3C6EF372FE94F82B, 0xA54FF53A5F1D36F1,
      0x510E527FADE682D1, 0x9B05688C2B3E6C1F, 0x1F83D9ABFB41BD6B, 0x5BE0CD19137E2179],
     digest_bytes = 64 \<rparr>"

definition SHA384 :: "64 word sha2" where
  "SHA384 = SHA512\<lparr>
     initial_hash :=
     [0xCBBB9D5DC1059ED8, 0x629A292A367CD507, 0x9159015A3070DD17, 0x152FECD8F70E5939,
      0x67332667FFC00B31, 0x8EB44A8768581511, 0xDB0C2E0D64F98FA7, 0x47B5481DBEFA4FA4],
     digest_bytes := 48 \<rparr>"

text \<open>A constructor of hashlib: its digest function, with the size of its block and its digest.\<close>

record hash_alg =
  hash_digest :: "string \<Rightarrow> string"
  hash_block :: nat
  hash_size :: nat

definition sha256 :: hash_alg where
  "sha256 = \<lparr> hash_digest = sha2_digest SHA256, hash_block = 64, hash_size = 32 \<rparr>"

definition sha384 :: hash_alg where
  "sha384 = \<lparr> hash_digest = sha2_digest SHA384, hash_block = 128, hash_size = 48 \<rparr>"

definition sha512 :: hash_alg where
  "sha512 = \<lparr> hash_digest = sha2_digest SHA512, hash_block = 128, hash_size = 64 \<rparr>"

section \<open>HMAC (RFC 2104) and PBKDF2 (RFC 8018)\<close>

definition xor_bytes :: "string \<Rightarrow> string \<Rightarrow> string" where
  "xor_bytes as bs = map2 (\<lambda>a b. char_of (of_char a XOR of_char b :: nat)) as bs"

definition hmac_key :: "hash_alg \<Rightarrow> string \<Rightarrow> string" where
  "hmac_key h key =
     (let k = (if hash_block h < length key then hash_digest h key else key)
      in k @ replicate (hash_block h - length k) (CHR 0x00))"

definition hmac_digest :: "hash_alg \<Rightarrow> string \<Rightarrow> string \<Rightarrow> string" where
  "hmac_digest h key msg =
     (let k = hmac_key h key; pad = \<lambda>c. xor_bytes k (replicate (hash_block h) c)
      in hash_digest h (pad (CHR 0x5C) @ hash_digest h (pad (CHR 0x36) @ msg)))"

fun pbkdf2_loop :: "(string \<Rightarrow> string) \<Rightarrow> nat \<Rightarrow> string \<Rightarrow> string \<Rightarrow> string" where
  "pbkdf2_loop prf 0 u acc = acc"
| "pbkdf2_loop prf (Suc n) u acc = pbkdf2_loop prf n (prf u) (xor_bytes acc (prf u))"

definition pbkdf2_block :: "hash_alg \<Rightarrow> string \<Rightarrow> string \<Rightarrow> nat \<Rightarrow> nat \<Rightarrow> string" where
  "pbkdf2_block h secret salt rounds i =
     (let prf = hmac_digest h secret; u1 = prf (salt @ bytes_of_nat 4 i)
      in pbkdf2_loop prf (rounds - 1) u1 u1)"

text \<open>\<open>hashlib.pbkdf2_hmac\<close>\<close>

definition hashlib_pbkdf2 :: "hash_alg \<Rightarrow> string \<Rightarrow> string \<Rightarrow> nat \<Rightarrow> nat \<Rightarrow> string" where
  "hashlib_pbkdf2 h secret salt rounds keylen =
     take keylen (concat (map (pbkdf2_block h secret salt rounds)
       [1..<Suc ((keylen + hash_size h - 1) div hash_size h)]))"

section \<open>Sizes of the digests\<close>

lemma sha2_round_length: "length s = 8 \<Longrightarrow> length (sha2_round p s kw) = 8"
  by (cases "(p, s, kw)" rule: sha2_round.cases) (auto simp: Let_def)

lemma sha2_rounds_length: "length s = 8 \<Longrightarrow> length (foldl (sha2_round p) s kws) = 8"
  by (induction kws arbitrary: s) (simp_all add: sha2_round_length)

lemma sha2_blocks_length: "length s = 8 \<Longrightarrow> length (foldl (sha2_block p) s bs) = 8"
  by (induction bs arbitrary: s) (simp_all add: sha2_block_def sha2_rounds_length)

lemma sha2_digest_length:
  fixes p :: "'w::len word sha2"
  assumes "length (initial_hash p) = 8" "digest_bytes p \<le> 8 * word_bytes p"
  shows "length (sha2_digest p m) = digest_bytes p"
proof -
  have "length (concat (map (bytes_of_word (word_bytes p)) ws)) = length ws * word_bytes p"
    for ws :: "'w word list"
    by (induction ws) (simp_all add: bytes_of_word_def)
  then show ?thesis
    using assms by (simp add: sha2_digest_def sha2_blocks_length)
qed

lemma digest_length [simp]:
  "length (hash_digest sha256 m) = 32" "length (hash_digest sha384 m) = 48"
  "length (hash_digest sha512 m) = 64"
  by (simp_all add: sha256_def sha384_def sha512_def sha2_digest_length SHA256_def SHA384_def
      SHA512_def)

lemma hmac_length [simp]: "length (hmac_digest sha256 key msg) = 32"
  by (simp add: hmac_digest_def Let_def)

lemma pbkdf2_loop_length:
  "(\<And>u. length (prf u) = n) \<Longrightarrow> length acc = n \<Longrightarrow> length (pbkdf2_loop prf k u acc) = n"
  by (induction k arbitrary: u acc) (simp_all add: xor_bytes_def)

lemma pbkdf2_length [simp]: "length (pbkdf2_block sha256 secret salt rounds i) = 32"
  by (simp add: pbkdf2_block_def Let_def pbkdf2_loop_length)

lemma hashlib_pbkdf2_length [simp]: "length (hashlib_pbkdf2 sha256 secret salt rounds 32) = 32"
  by (simp add: hashlib_pbkdf2_def sha256_def [THEN arg_cong, where f = hash_size])

end
