(* ===== verification/Jose.thy ===== *)
theory Jose
  imports Codec Hashing
begin

text \<open>
  The vendored python-jose (jwt.py, jws.py, jwk.py, utils.py, constants.py and the HMAC key of
  backends/native.py), with which the backend signs and verifies its access tokens.  Key classes
  other than the HMAC one are the parameter \<open>foreign\<close>.  Subclasses of an exception the callers
  catch together are one constructor: ExpiredSignatureError and JWTClaimsError are JWTError.
\<close>

section \<open>constants.py\<close>

definition ALG_HMAC :: "string list" where
  "ALG_HMAC = [''HS256'', ''HS384'', ''HS512'']"

definition ALG_RSA_DS :: "string list" where
  "ALG_RSA_DS = [''RS256'', ''RS384'', ''RS512'']"

definition ALG_RSA_KW :: "string list" where
  "ALG_RSA_KW = [''RSA1_5'', ''RSA-OAEP'', ''RSA-OAEP-256'']"

definition ALG_RSA :: "string list" where
  "ALG_RSA = ALG_RSA_DS @ ALG_RSA_KW"

definition ALG_EC_DS :: "string list" where
  "ALG_EC_DS = [''ES256'', ''ES384'', ''ES512'']"

definition ALG_EC_KW :: "string list" where
  "ALG_EC_KW = [''ECDH-ES'', ''ECDH-ES+A128KW'', ''ECDH-ES+A192KW'', ''ECDH-ES+A256KW'']"

definition ALG_EC :: "string list" where
  "ALG_EC = ALG_EC_DS @ ALG_EC_KW"

definition ALG_AES_PSEUDO :: "string list" where
  "ALG_AES_PSEUDO =
     [''A128CBC'', ''A192CBC'', ''A256CBC'', ''A128GCM'', ''A192GCM'', ''A256GCM'']"

definition ALG_AES_JWE_ENC :: "string list" where
  "ALG_AES_JWE_ENC =
     [''A128CBC-HS256'', ''A192CBC-HS384'', ''A256CBC-HS512'', ''A128GCM'', ''A192GCM'', ''A256GCM'']"

definition ALG_AES_KW :: "string list" where
  "ALG_AES_KW = [''A128KW'', ''A192KW'', ''A256KW'']"

definition ALG_AEC_GCM_KW :: "string list" where
  "ALG_AEC_GCM_KW = [''A128GCMKW'', ''A192GCMKW'', ''A256GCMKW'']"

definition ALG_AES :: "string list" where
  "ALG_AES = ALG_AES_JWE_ENC @ ALG_AES_PSEUDO"

definition ALG_AES_keys :: "string list" where
  "ALG_AES_keys = ALG_AES @ ALG_AES_KW"

definition ALG_SUPPORTED :: "string list" where
  "ALG_SUPPORTED = ALG_HMAC @ ALG_RSA_DS @ ALG_EC_DS @ [''dir''] @ ALG_AES_JWE_ENC @ ALG_RSA_KW @ ALG_AES_KW"

definition ALG_HASHES :: "(string \<times> hash_alg) list" where
  "ALG_HASHES =
     [(''HS256'', sha256), (''HS384'', sha384), (''HS512'', sha512),
      (''RS256'', sha256), (''RS384'', sha384), (''RS512'', sha512),
      (''ES256'', sha256), (''ES384'', sha384), (''ES512'', sha512)]"

section \<open>utils.py\<close>

definition base64url_decode :: "string \<Rightarrow> string result" where
  "base64url_decode s =
     (let rem = length s mod 4
      in urlsafe_b64decode (if 0 < rem then s @ replicate (4 - rem) (CHR ''='') else s))"

definition base64url_encode :: "string \<Rightarrow> string" where
  "base64url_encode s = filter (\<lambda>c. c \<noteq> CHR ''='') (urlsafe_b64encode s)"

definition calculate_at_hash :: "string \<Rightarrow> hash_alg \<Rightarrow> string" where
  "calculate_at_hash access_token h =
     (let digest = hash_digest h (encode_utf8 access_token)
      in base64url_encode (take (length digest div 2) digest))"

datatype leeway = LeewaySeconds int | LeewayDelta int int

fun timedelta_total_seconds :: "int \<Rightarrow> int \<Rightarrow> int" where
  "timedelta_total_seconds days seconds = days * 24 * 60 * 60 + seconds"

section \<open>Keys (jwk.py, backends/native.py)\<close>

record jwk_key =
  key_sign :: "string \<Rightarrow> string result"
  key_verify :: "string \<Rightarrow> string \<Rightarrow> bool result"

definition contains_text :: "string \<Rightarrow> string \<Rightarrow> bool" where
  "contains_text p s = list_ex (\<lambda>i. starts_with p (drop i s)) [0..<Suc (length s)]"

definition hmac_hashes :: "(string \<times> hash_alg) list" where
  "hmac_hashes = [(''HS256'', sha256), (''HS384'', sha384), (''HS512'', sha512)]"

definition asymmetric_markers :: "string list" where
  "asymmetric_markers =
     [''-----BEGIN PUBLIC KEY-----'', ''-----BEGIN RSA PUBLIC KEY-----'',
      ''-----BEGIN CERTIFICATE-----'', ''ssh-rsa'']"

definition process_jwk :: "dict \<Rightarrow> string result" where
  "process_jwk d =
     (if map_of d ''kty'' \<noteq> Some (JStr ''oct'') then Inl (JWKError ''Incorrect key type. Expected: oct'')
      else case map_of d ''k'' of
          Some (JStr k) \<Rightarrow> base64url_decode (encode_utf8 k)
        | _ \<Rightarrow> Inl (AttributeError ''encode''))"

definition HMACKey :: "json \<Rightarrow> string \<Rightarrow> (hash_alg \<times> string) result" where
  "HMACKey key algorithm =
     (case map_of hmac_hashes algorithm of
        None \<Rightarrow> Inl (JWKError ''not a valid hash algorithm'')
      | Some h \<Rightarrow>
          (case key of
             JObj d \<Rightarrow> map_sum id (Pair h) (process_jwk d)
           | JStr s \<Rightarrow>
               (let k = encode_utf8 s
                in if list_ex (\<lambda>m. contains_text m k) asymmetric_markers
                   then Inl (JWKError ''should not be used as an HMAC secret'')
                   else Inr (h, k))
           | _ \<Rightarrow> Inl (JWKError ''Expecting a string- or bytes-formatted key.'')))"

definition hmac_key_object :: "hash_alg \<times> string \<Rightarrow> jwk_key" where
  "hmac_key_object hk =
     \<lparr> key_sign = (\<lambda>msg. Inr (hmac_digest (fst hk) (snd hk) msg)),
       key_verify = (\<lambda>msg sig. Inr (sig = hmac_digest (fst hk) (snd hk) msg)) \<rparr>"

text \<open>\<open>get_key\<close> and \<open>construct\<close>; the key classes of the other algorithms are \<open>foreign\<close>.\<close>

definition get_key :: "(json \<Rightarrow> string \<Rightarrow> jwk_key result) \<Rightarrow> string \<Rightarrow> (json \<Rightarrow> jwk_key result) option" where
  "get_key foreign algorithm =
     (if algorithm \<in> set ALG_HMAC
      then Some (\<lambda>key. map_sum id hmac_key_object (HMACKey key algorithm))
      else if algorithm \<in> set (ALG_RSA @ ALG_EC @ ALG_AES_keys @ [''dir''])
      then Some (\<lambda>key. foreign key algorithm)
      else None)"

definition jwk_construct ::
    "(json \<Rightarrow> string \<Rightarrow> jwk_key result) \<Rightarrow> json \<Rightarrow> json \<Rightarrow> jwk_key result" where
  "jwk_construct foreign key_data algorithm =
     (let alg = (if json_truthy algorithm then algorithm
          else case key_data of
             JObj d \<Rightarrow> (case map_of d ''alg'' of None \<Rightarrow> JNull | Some a \<Rightarrow> a)
           | _ \<Rightarrow> JNull)
      in if \<not> json_truthy alg then Inl (JWKError ''Unable to find an algorithm for key'')
         else case alg of
             JStr a \<Rightarrow> (case get_key foreign a of
                 None \<Rightarrow> Inl (JWKError ''Unable to find an algorithm for key'')
               | Some cls \<Rightarrow> cls key_data)
           | JArr _ \<Rightarrow> Inl (TypeError ''unhashable'')
           | JObj _ \<Rightarrow> Inl (TypeError ''unhashable'')
           | _ \<Rightarrow> Inl (JWKError ''Unable to find an algorithm for key''))"

section \<open>jws.py\<close>

definition encode_header :: "string \<Rightarrow> string result" where
  "encode_header algorithm =
     map_sum id (\<lambda>t. base64url_encode (encode_utf8 t))
       (dumps_compact [(''alg'', ClaimStr algorithm), (''typ'', ClaimStr ''JWT'')])"

definition encode_payload :: "(string \<times> claim) list \<Rightarrow> string result" where
  "encode_payload payload = map_sum id (\<lambda>t. base64url_encode (encode_utf8 t)) (dumps_compact payload)"

definition sign_header_and_claims ::
    "(json \<Rightarrow> string \<Rightarrow> jwk_key result) \<Rightarrow> string \<Rightarrow> string \<Rightarrow> string \<Rightarrow> json \<Rightarrow> string result" where
  "sign_header_and_claims foreign encoded_header encoded_claims algorithm key =
     (let signing_input = encoded_header @ ''.'' @ encoded_claims
      in case (case jwk_construct foreign key (JStr algorithm) of
                 Inl e \<Rightarrow> Inl e | Inr k \<Rightarrow> key_sign k signing_input) of
           Inl e \<Rightarrow> Inl (JWSError ''signing'')
         | Inr signature \<Rightarrow>
             Inr (encoded_header @ ''.'' @ encoded_claims @ ''.'' @ base64url_encode signature))"

definition jws_sign ::
    "(json \<Rightarrow> string \<Rightarrow> jwk_key result) \<Rightarrow> (string \<times> claim) list \<Rightarrow> json \<Rightarrow> string \<Rightarrow> string result" where
  "jws_sign foreign payload key algorithm =
     (if algorithm \<notin> set ALG_SUPPORTED
      then Inl (JWSError (''Algorithm '' @ algorithm @ '' not supported.''))
      else case encode_header algorithm of
          Inl e \<Rightarrow> Inl e
        | Inr header \<Rightarrow>
            (case encode_payload payload of
               Inl e \<Rightarrow> Inl e
             | Inr body \<Rightarrow> sign_header_and_claims foreign header body algorithm key))"

text \<open>\<open>s.split(c, 1)\<close> and \<open>s.rsplit(c, 1)\<close>: two parts, or \<open>None\<close> when \<open>c\<close> does not occur.\<close>

definition split_once :: "char \<Rightarrow> string \<Rightarrow> (string \<times> string) option" where
  "split_once c s =
     (if c \<in> set s then Some (takeWhile (\<lambda>x. x \<noteq> c) s, tl (dropWhile (\<lambda>x. x \<noteq> c) s)) else None)"

definition rsplit_once :: "char \<Rightarrow> string \<Rightarrow> (string \<times> string) option" where
  "rsplit_once c s = map_option (\<lambda>(a, b). (rev b, rev a)) (split_once c (rev s))"

fun is_value_error :: "exn \<Rightarrow> bool" where
  "is_value_error (ValueError _) = True"
| "is_value_error UnicodeError = True"
| "is_value_error _ = False"

record jws_parts =
  jws_header :: dict
  jws_payload :: string
  jws_signing_input :: string
  jws_signature :: string

text \<open>
  \<open>_load\<close>.  A padding error of the header is a \<open>binascii.Error\<close>, which is a \<open>ValueError\<close>, so it is
  reported as the first handler reports it.
\<close>

definition jws_load :: "string \<Rightarrow> jws_parts result" where
  "jws_load token =
     (case rsplit_once (CHR ''.'') (encode_utf8 token) of
        None \<Rightarrow> Inl (JWSError ''Not enough segments'')
      | Some (signing_input, crypto_segment) \<Rightarrow>
     (case split_once (CHR ''.'') signing_input of
        None \<Rightarrow> Inl (JWSError ''Not enough segments'')
      | Some (header_segment, claims_segment) \<Rightarrow>
     (case base64url_decode header_segment of
        Inl e \<Rightarrow> Inl (JWSError ''Not enough segments'')
      | Inr header_data \<Rightarrow>
     (case (case decode_utf8 header_data of Inl e \<Rightarrow> Inl e | Inr t \<Rightarrow> loads t) of
        Inl e \<Rightarrow> if is_value_error e then Inl (JWSError ''Invalid header string'') else Inl e
      | Inr (JObj header) \<Rightarrow>
         (case base64url_decode claims_segment of
            Inl e \<Rightarrow> Inl (JWSError ''Invalid payload padding'')
          | Inr payload \<Rightarrow>
         (case base64url_decode crypto_segment of
            Inl e \<Rightarrow> Inl (JWSError ''Invalid crypto padding'')
          | Inr signature \<Rightarrow>
              Inr \<lparr> jws_header = header, jws_payload = payload,
                    jws_signing_input = signing_input, jws_signature = signature \<rparr>))
      | Inr _ \<Rightarrow> Inl (JWSError ''Invalid header string: must be a json object'')))))"

definition jws_get_unverified_header :: "string \<Rightarrow> dict result" where
  "jws_get_unverified_header token = map_sum id jws_header (jws_load token)"

definition jws_get_unverified_claims :: "string \<Rightarrow> string result" where
  "jws_get_unverified_claims token = map_sum id jws_payload (jws_load token)"

text \<open>The first key that verifies decides; a key that cannot be built raises.\<close>

fun sig_matches_keys ::
    "(json \<Rightarrow> string \<Rightarrow> jwk_key result) \<Rightarrow> json list \<Rightarrow> string \<Rightarrow> string \<Rightarrow> json \<Rightarrow> bool result" where
  "sig_matches_keys foreign [] signing_input signature alg = Inr False"
| "sig_matches_keys foreign (key # keys) signing_input signature alg =
     (case jwk_construct foreign key alg of
        Inl e \<Rightarrow> Inl e
      | Inr k \<Rightarrow>
          if key_verify k signing_input signature = Inr True then Inr True
          else sig_matches_keys foreign keys signing_input signature alg)"

text \<open>Iterating over a Python value.\<close>

fun iterate :: "json \<Rightarrow> json list result" where
  "iterate (JArr xs) = Inr xs"
| "iterate (JObj d) = Inr (map (JStr \<circ> fst) d)"
| "iterate (JStr s) = Inr (map (\<lambda>c. JStr [c]) s)"
| "iterate _ = Inl (TypeError ''not iterable'')"

definition get_keys :: "json \<Rightarrow> json list result" where
  "get_keys key =
     (let key' = (case key of
            JStr s \<Rightarrow> (case loads_with text_hooks s of Inl _ \<Rightarrow> key | Inr j \<Rightarrow> j)
          | _ \<Rightarrow> key)
      in case key' of
           JObj d \<Rightarrow>
             (case map_of d ''keys'' of
                Some ks \<Rightarrow> iterate ks
              | None \<Rightarrow>
                  if ''kty'' \<in> fst ` set d then Inr [key']
                  else if d \<noteq> [] then Inr (map snd d)
                  else Inr [key'])
         | JArr xs \<Rightarrow> Inr xs
         | _ \<Rightarrow> Inr [key'])"

definition verify_signature ::
    "(json \<Rightarrow> string \<Rightarrow> jwk_key result) \<Rightarrow> jws_parts \<Rightarrow> json \<Rightarrow> string list option \<Rightarrow> unit result" where
  "verify_signature foreign p key algorithms =
     (let alg = (case map_of (jws_header p) ''alg'' of None \<Rightarrow> JNull | Some a \<Rightarrow> a)
      in if \<not> json_truthy alg then Inl (JWSError ''No algorithm was specified in the JWS header.'')
         else if algorithms \<noteq> None \<and> alg \<notin> JStr ` set (the algorithms)
           then Inl (JWSError ''The specified alg value is not allowed'')
         else case get_keys key of
             Inl e \<Rightarrow> Inl e
           | Inr keys \<Rightarrow>
               (case sig_matches_keys foreign keys (jws_signing_input p) (jws_signature p) alg of
                  Inl (JWSError _) \<Rightarrow> Inl (JWSError ''Invalid or unsupported algorithm'')
                | Inl e \<Rightarrow> Inl e
                | Inr matches \<Rightarrow>
                    if matches then Inr () else Inl (JWSError ''Signature verification failed.'')))"

definition jws_verify ::
    "(json \<Rightarrow> string \<Rightarrow> jwk_key result) \<Rightarrow> string \<Rightarrow> json \<Rightarrow> string list option \<Rightarrow> bool \<Rightarrow> string result" where
  "jws_verify foreign token key algorithms check =
     (case jws_load token of
        Inl e \<Rightarrow> Inl e
      | Inr p \<Rightarrow>
          (case (if check then verify_signature foreign p key algorithms else Inr ()) of
             Inl e \<Rightarrow> Inl e
           | Inr _ \<Rightarrow> Inr (jws_payload p)))"

section \<open>jwt.py\<close>

text \<open>\<open>timegm(t.utctimetuple())\<close>: whole seconds.\<close>

definition timegm :: "instant \<Rightarrow> int" where
  "timegm t = t div usec"

definition convert_time_claim :: "string \<times> claim \<Rightarrow> string \<times> claim" where
  "convert_time_claim kv =
     (case kv of
        (k, ClaimTime t) \<Rightarrow>
          if k \<in> {''exp'', ''iat'', ''nbf''} then (k, ClaimInt (timegm t)) else kv
      | _ \<Rightarrow> kv)"

definition jwt_encode ::
    "(json \<Rightarrow> string \<Rightarrow> jwk_key result) \<Rightarrow> (string \<times> claim) list \<Rightarrow> json \<Rightarrow> string \<Rightarrow>
      string option \<Rightarrow> string result" where
  "jwt_encode foreign claims key algorithm access_token =
     (let claims' = map convert_time_claim claims
      in case (case access_token of
                 Some a \<Rightarrow>
                   if a = [] then Inr claims'
                   else (case map_of ALG_HASHES algorithm of
                       None \<Rightarrow> Inl (KeyError algorithm)
                     | Some h \<Rightarrow>
                         Inr (AList.update ''at_hash'' (ClaimStr (calculate_at_hash a h)) claims'))
               | None \<Rightarrow> Inr claims') of
           Inl e \<Rightarrow> Inl e
         | Inr final \<Rightarrow> jws_sign foreign final key algorithm)"

text \<open>Unverified reads: any exception becomes a JWTError.\<close>

definition jwt_get_unverified_header :: "string \<Rightarrow> dict result" where
  "jwt_get_unverified_header token =
     (case jws_get_unverified_header token of
        Inl _ \<Rightarrow> Inl (JWTError ''Error decoding token headers.'')
      | Inr h \<Rightarrow> Inr h)"

definition object_of_payload :: "string \<Rightarrow> string \<Rightarrow> dict result" where
  "object_of_payload what payload =
     (case (case decode_utf8 payload of Inl e \<Rightarrow> Inl e | Inr t \<Rightarrow> loads t) of
        Inl e \<Rightarrow>
          if is_value_error e then Inl (JWTError (''Invalid '' @ what @ '' string'')) else Inl e
      | Inr (JObj claims) \<Rightarrow> Inr claims
      | Inr _ \<Rightarrow> Inl (JWTError (''Invalid '' @ what @ '' string: must be a json object'')))"

definition jwt_get_unverified_claims :: "string \<Rightarrow> dict result" where
  "jwt_get_unverified_claims token =
     (case jws_get_unverified_claims token of
        Inl _ \<Rightarrow> Inl (JWTError ''Error decoding token claims.'')
      | Inr payload \<Rightarrow> object_of_payload ''claims'' payload)"

definition int_claim :: "dict \<Rightarrow> string \<Rightarrow> string \<Rightarrow> int option result" where
  "int_claim claims k msg =
     (case map_of claims k of
        None \<Rightarrow> Inr None
      | Some v \<Rightarrow>
          (case int_of_json v of
             Inr n \<Rightarrow> Inr (Some n)
           | Inl e \<Rightarrow> if is_value_error e then Inl (JWTError msg) else Inl e))"

definition validate_iat :: "dict \<Rightarrow> unit result" where
  "validate_iat claims =
     map_sum id (\<lambda>_. ()) (int_claim claims ''iat'' ''Issued At claim (iat) must be an integer.'')"

definition validate_nbf :: "instant \<Rightarrow> dict \<Rightarrow> int \<Rightarrow> unit result" where
  "validate_nbf now claims lw =
     (case int_claim claims ''nbf'' ''Not Before claim (nbf) must be an integer.'' of
        Inl e \<Rightarrow> Inl e
      | Inr None \<Rightarrow> Inr ()
      | Inr (Some nbf) \<Rightarrow>
          if nbf > timegm now + lw then Inl (JWTError ''The token is not yet valid (nbf)'')
          else Inr ())"

definition validate_exp :: "instant \<Rightarrow> dict \<Rightarrow> int \<Rightarrow> unit result" where
  "validate_exp now claims lw =
     (case int_claim claims ''exp'' ''Expiration Time claim (exp) must be an integer.'' of
        Inl e \<Rightarrow> Inl e
      | Inr None \<Rightarrow> Inr ()
      | Inr (Some e) \<Rightarrow>
          if e < timegm now - lw then Inl (JWTError ''Signature has expired.'') else Inr ())"

definition validate_aud :: "dict \<Rightarrow> string option \<Rightarrow> unit result" where
  "validate_aud claims audience =
     (case map_of claims ''aud'' of
        None \<Rightarrow> Inr ()
      | Some v \<Rightarrow>
          (case (case v of JStr s \<Rightarrow> JArr [JStr s] | _ \<Rightarrow> v) of
             JArr xs \<Rightarrow>
               if list_ex (\<lambda>c. case c of JStr _ \<Rightarrow> False | _ \<Rightarrow> True) xs
               then Inl (JWTError ''Invalid claim format in token'')
               else if audience \<noteq> None \<and> JStr (the audience) \<in> set xs then Inr ()
               else Inl (JWTError ''Invalid audience'')
           | _ \<Rightarrow> Inl (JWTError ''Invalid claim format in token'')))"

text \<open>A single issuer is a tuple of one.\<close>

definition validate_iss :: "dict \<Rightarrow> string list option \<Rightarrow> unit result" where
  "validate_iss claims issuer =
     (case issuer of
        None \<Rightarrow> Inr ()
      | Some is \<Rightarrow>
          if (case map_of claims ''iss'' of None \<Rightarrow> JNull | Some v \<Rightarrow> v) \<in> JStr ` set is then Inr ()
          else Inl (JWTError ''Invalid issuer''))"

definition validate_sub :: "dict \<Rightarrow> string option \<Rightarrow> unit result" where
  "validate_sub claims subject =
     (case map_of claims ''sub'' of
        None \<Rightarrow> Inr ()
      | Some (JStr s) \<Rightarrow>
          if subject \<noteq> None \<and> subject \<noteq> Some s then Inl (JWTError ''Invalid subject'') else Inr ()
      | Some _ \<Rightarrow> Inl (JWTError ''Subject must be a string.''))"

definition validate_jti :: "dict \<Rightarrow> unit result" where
  "validate_jti claims =
     (case map_of claims ''jti'' of
        None \<Rightarrow> Inr ()
      | Some (JStr _) \<Rightarrow> Inr ()
      | Some _ \<Rightarrow> Inl (JWTError ''JWT ID must be a string.''))"

definition validate_at_hash :: "dict \<Rightarrow> string option \<Rightarrow> string \<Rightarrow> unit result" where
  "validate_at_hash claims access_token algorithm =
     (case map_of claims ''at_hash'' of
        None \<Rightarrow> Inr ()
      | Some v \<Rightarrow>
          if access_token = None \<or> access_token = Some []
          then Inl (JWTError ''No access_token provided to compare against at_hash claim.'')
          else case map_of ALG_HASHES algorithm of
              None \<Rightarrow> Inl (KeyError algorithm)
            | Some h \<Rightarrow>
                if v \<noteq> JStr (calculate_at_hash (the access_token) h)
                then Inl (JWTError ''at_hash claim does not match access_token.'') else Inr ())"

text \<open>The options: a flag per \<open>verify_\<close> and \<open>require_\<close> name, and the leeway.\<close>

definition jwt_defaults :: "(string \<times> bool) list" where
  "jwt_defaults =
     [(''verify_signature'', True), (''verify_aud'', True), (''verify_iat'', True),
      (''verify_exp'', True), (''verify_nbf'', True), (''verify_iss'', True), (''verify_sub'', True),
      (''verify_jti'', True), (''verify_at_hash'', True), (''require_aud'', False),
      (''require_iat'', False), (''require_exp'', False), (''require_nbf'', False),
      (''require_iss'', False), (''require_sub'', False), (''require_jti'', False),
      (''require_at_hash'', False)]"

definition option_on :: "(string \<times> bool) list \<Rightarrow> string \<Rightarrow> bool" where
  "option_on options k \<longleftrightarrow> map_of options k = Some True"

record jwt_expectations =
  exp_audience :: "string option"
  exp_issuer :: "string list option"
  exp_subject :: "string option"
  exp_access_token :: "string option"

definition no_expectations :: jwt_expectations where
  "no_expectations = \<lparr> exp_audience = None, exp_issuer = None, exp_subject = None,
     exp_access_token = None \<rparr>"

text \<open>Run the checks in order; the first that fails decides.\<close>

fun first_error :: "unit result list \<Rightarrow> unit result" where
  "first_error [] = Inr ()"
| "first_error (Inl e # rs) = Inl e"
| "first_error (Inr _ # rs) = first_error rs"

definition required_claims :: "(string \<times> bool) list \<Rightarrow> string list" where
  "required_claims options =
     map (\<lambda>kv. drop (length ''require_'') (fst kv))
       (filter (\<lambda>kv. starts_with ''require_'' (fst kv) \<and> snd kv) options)"

fun leeway_seconds :: "leeway \<Rightarrow> int" where
  "leeway_seconds (LeewaySeconds n) = n"
| "leeway_seconds (LeewayDelta d s) = timedelta_total_seconds d s"

definition validate_claims ::
    "instant \<Rightarrow> dict \<Rightarrow> jwt_expectations \<Rightarrow> string \<Rightarrow> (string \<times> bool) list \<Rightarrow> leeway \<Rightarrow> unit result" where
  "validate_claims now claims ex algorithm options lw =
     (let required = required_claims options; lws = leeway_seconds lw
      in case find (\<lambda>k. k \<notin> fst ` set claims) required of
           Some k \<Rightarrow> Inl (JWTError (''missing required key '' @ k @ '' among claims''))
         | None \<Rightarrow>
             (let opts = foldl (\<lambda>o' k. AList.update (''verify_'' @ k) True o') options required;
                  check = (\<lambda>k r. if option_on opts (''verify_'' @ k) then r else Inr ())
              in first_error
                   [check ''iat'' (validate_iat claims),
                    check ''nbf'' (validate_nbf now claims lws),
                    check ''exp'' (validate_exp now claims lws),
                    check ''aud'' (validate_aud claims (exp_audience ex)),
                    check ''iss'' (validate_iss claims (exp_issuer ex)),
                    check ''sub'' (validate_sub claims (exp_subject ex)),
                    check ''jti'' (validate_jti claims),
                    check ''at_hash'' (validate_at_hash claims (exp_access_token ex) algorithm)]))"

text \<open>
  \<open>decode\<close>.  The algorithm used for \<open>at_hash\<close> is read from the header again; a header without one
  has been refused when signatures are verified.
\<close>

definition jwt_decode ::
    "(json \<Rightarrow> string \<Rightarrow> jwk_key result) \<Rightarrow> instant \<Rightarrow> string \<Rightarrow> json \<Rightarrow> string list option \<Rightarrow>
      (string \<times> bool) list \<Rightarrow> leeway \<Rightarrow> jwt_expectations \<Rightarrow> dict result" where
  "jwt_decode foreign now token key algorithms options lw ex =
     (let defaults = foldl (\<lambda>d (k, v). AList.update k v d) jwt_defaults options;
          check = (case map_of defaults ''verify_signature'' of None \<Rightarrow> True | Some b \<Rightarrow> b)
      in case jws_verify foreign token key algorithms check of
           Inl (JWSError e) \<Rightarrow> Inl (JWTError e)
         | Inl e \<Rightarrow> Inl e
         | Inr payload \<Rightarrow>
             (case jws_get_unverified_header token of
                Inl e \<Rightarrow> Inl e
              | Inr header \<Rightarrow>
                  (case map_of header ''alg'' of
                     None \<Rightarrow> Inl (KeyError ''alg'')
                   | Some alg \<Rightarrow>
                       (case object_of_payload ''payload'' payload of
                          Inl e \<Rightarrow> Inl e
                        | Inr claims \<Rightarrow>
                            (case validate_claims now claims ex
                                    (case alg of JStr a \<Rightarrow> a | _ \<Rightarrow> []) defaults lw of
                               Inl e \<Rightarrow> Inl e
                             | Inr _ \<Rightarrow> Inr claims)))))"

section \<open>base64url\<close>

definition url_char :: "char \<Rightarrow> char" where
  "url_char c = (if c = CHR ''+'' then CHR ''-'' else if c = CHR ''/'' then CHR ''_'' else c)"

lemma base64url_encode_core: "base64url_encode s = map url_char (base64_core s)"
proof -
  have "filter (\<lambda>c. c \<noteq> CHR ''='') (replace_char (CHR ''/'') (CHR ''_'')
      (replace_char (CHR ''+'') (CHR ''-'') t)) = map url_char (filter (\<lambda>c. c \<noteq> CHR ''='') t)" for t
    by (induction t) (simp_all add: replace_char_def url_char_def)
  then show ?thesis by (simp add: base64url_encode_def urlsafe_b64encode_def base64_core_def)
qed

lemma letter_table:
  "list_all (\<lambda>n. base64_char n \<noteq> CHR ''-'' \<and> base64_char n \<noteq> CHR ''_'' \<and>
     base64_char n \<noteq> CHR ''.'' \<and> base64_char n \<noteq> CHR ''$'' \<and> (of_char (base64_char n) :: nat) < 128) [0..<64]"
  by (simp add: upt_rec base64_char_def base64_letters_def)

lemma core_letter:
  assumes "c \<in> set (base64_core s)"
  shows "c \<noteq> CHR ''-''" "c \<noteq> CHR ''_''" "c \<noteq> CHR ''.''" "c \<noteq> CHR ''$''" "(of_char c :: nat) < 128"
    "c \<noteq> CHR ''=''"
proof -
  obtain n where "n < 64" "c = base64_char n" using base64_core_letters assms by blast
  then have n: "n \<in> set [0..<64]" "c = base64_char n" "c \<noteq> CHR ''=''" by simp_all
  from letter_table n(1) have "base64_char n \<noteq> CHR ''-'' \<and> base64_char n \<noteq> CHR ''_'' \<and>
     base64_char n \<noteq> CHR ''.'' \<and> base64_char n \<noteq> CHR ''$'' \<and> (of_char (base64_char n) :: nat) < 128"
    unfolding list_all_iff by (rule bspec)
  with n show "c \<noteq> CHR ''-''" "c \<noteq> CHR ''_''" "c \<noteq> CHR ''.''" "c \<noteq> CHR ''$''"
      "(of_char c :: nat) < 128" "c \<noteq> CHR ''=''"
    by simp_all
qed

lemma base64url_roundtrip [simp]: "base64url_decode (base64url_encode s) = Inr s"
proof -
  let ?c = "base64_core s"
  let ?undo = "\<lambda>t. replace_char (CHR ''_'') (CHR ''/'') (replace_char (CHR ''-'') (CHR ''+'') t)"
  have undo: "?undo (map url_char t) = t" if "set t \<subseteq> set ?c" for t
    using that by (induction t) (auto simp: replace_char_def url_char_def dest: core_letter)
  have "?undo (map url_char ?c @ replicate k (CHR ''='')) = ?c @ replicate k (CHR ''='')" for k
    using undo [of ?c] by (simp add: replace_char_def)
  moreover have "base64url_decode (base64url_encode s) =
      b64decode (?undo (map url_char ?c @ base64_padding ?c))"
    by (auto simp: base64url_decode_def base64url_encode_core urlsafe_b64decode_def base64_padding_def
        Let_def)
  ultimately show ?thesis
    using base64_core_decode [of s] by (simp add: b64decode_def base64_padding_def)
qed

lemma base64url_letter:
  assumes "c \<in> set (base64url_encode s)"
  shows "c \<noteq> CHR ''.''" "(of_char c :: nat) < 128"
  using assms by (auto simp: base64url_encode_core url_char_def dest: core_letter)

lemma encode_utf8_ascii: "\<forall>c \<in> set s. (of_char c :: nat) < 128 \<Longrightarrow> encode_utf8 s = s"
  by (induction s) (simp_all add: encode_utf8_def utf8_char_def)

section \<open>Segments\<close>

lemma split_once_append: "c \<notin> set a \<Longrightarrow> split_once c (a @ c # b) = Some (a, b)"
  by (induction a) (auto simp: split_once_def)

lemma rsplit_once_append: "c \<notin> set b \<Longrightarrow> rsplit_once c (a @ c # b) = Some (a, b)"
  using split_once_append [of c "rev b" "rev a"] by (simp add: rsplit_once_def)

text \<open>Loading a compact serialization gives its parts back.\<close>

lemma jws_load_segments:
  assumes "loads h = Inr (JObj header)"
  shows "jws_load (base64url_encode (encode_utf8 h) @ ''.'' @ base64url_encode payload @ ''.''
      @ base64url_encode signature) =
    Inr \<lparr> jws_header = header, jws_payload = payload,
      jws_signing_input = base64url_encode (encode_utf8 h) @ ''.'' @ base64url_encode payload,
      jws_signature = signature \<rparr>"
proof -
  let ?h = "base64url_encode (encode_utf8 h)" and ?p = "base64url_encode payload"
    and ?s = "base64url_encode signature"
  have "encode_utf8 (?h @ ''.'' @ ?p @ ''.'' @ ?s) = ?h @ ''.'' @ ?p @ ''.'' @ ?s"
    by (rule encode_utf8_ascii) (auto dest: base64url_letter)
  moreover have "rsplit_once (CHR ''.'') ((?h @ ''.'' @ ?p) @ CHR ''.'' # ?s) = Some (?h @ ''.'' @ ?p, ?s)"
    by (rule rsplit_once_append) (auto dest: base64url_letter)
  moreover have "split_once (CHR ''.'') (?h @ CHR ''.'' # ?p) = Some (?h, ?p)"
    by (rule split_once_append) (auto dest: base64url_letter)
  ultimately show ?thesis
    using assms by (simp add: jws_load_def utf8_roundtrip)
qed

section \<open>Signing and verifying with one HMAC secret\<close>

definition hmac_secret :: "string \<Rightarrow> string \<Rightarrow> hash_alg \<Rightarrow> bool" where
  "hmac_secret secret algorithm h \<longleftrightarrow>
     map_of hmac_hashes algorithm = Some h \<and> HMACKey (JStr secret) algorithm = Inr (h, encode_utf8 secret)
       \<and> get_keys (JStr secret) = Inr [JStr secret]"

lemma hmac_algorithm:
  assumes "hmac_secret secret algorithm h"
  shows "algorithm \<in> set ALG_HMAC" "algorithm \<noteq> []" "algorithm \<in> set ALG_SUPPORTED"
    "jwk_construct foreign (JStr secret) (JStr algorithm) =
       Inr (hmac_key_object (h, encode_utf8 secret))"
proof -
  have key: "HMACKey (JStr secret) algorithm = Inr (h, encode_utf8 secret)"
    and alg: "algorithm = ''HS256'' \<or> algorithm = ''HS384'' \<or> algorithm = ''HS512''"
    using assms by (auto simp: hmac_secret_def hmac_hashes_def split: if_splits)
  show "algorithm \<in> set ALG_HMAC" "algorithm \<noteq> []" "algorithm \<in> set ALG_SUPPORTED"
    using alg by (auto simp: ALG_HMAC_def ALG_SUPPORTED_def)
  then show "jwk_construct foreign (JStr secret) (JStr algorithm) =
       Inr (hmac_key_object (h, encode_utf8 secret))"
    by (simp add: jwk_construct_def get_key_def key)
qed

lemma header_text:
  obtains t where "dumps_compact [(''alg'', ClaimStr a), (''typ'', ClaimStr ''JWT'')] = Inr t"
    "loads t = Inr (JObj [(''alg'', JStr a), (''typ'', JStr ''JWT'')])"
proof -
  obtain t where t: "dumps_compact [(''alg'', ClaimStr a), (''typ'', ClaimStr ''JWT'')] = Inr t"
    by (simp add: dumps_compact_def)
  from loads_dumps [OF t] have "loads t = Inr (JObj [(''alg'', JStr a), (''typ'', JStr ''JWT'')])"
    by (simp add: dict_of_pairs_distinct)
  with t that show thesis by blast
qed

text \<open>What is signed is loaded and verified, whatever the payload.\<close>

lemma jws_sign_load:
  assumes secret: "hmac_secret secret algorithm h" and body: "dumps_compact payload = Inr body"
  obtains token p where "jws_sign foreign payload (JStr secret) algorithm = Inr token"
    "jws_load token = Inr p" "jws_payload p = encode_utf8 body"
    "map_of (jws_header p) ''alg'' = Some (JStr algorithm)"
    "jws_signature p = hmac_digest h (encode_utf8 secret) (jws_signing_input p)"
proof -
  obtain t where t: "dumps_compact [(''alg'', ClaimStr algorithm), (''typ'', ClaimStr ''JWT'')] = Inr t"
    "loads t = Inr (JObj [(''alg'', JStr algorithm), (''typ'', JStr ''JWT'')])"
    by (rule header_text)
  let ?in = "base64url_encode (encode_utf8 t) @ ''.'' @ base64url_encode (encode_utf8 body)"
  let ?sig = "hmac_digest h (encode_utf8 secret) ?in"
  have "jws_sign foreign payload (JStr secret) algorithm =
      Inr (base64url_encode (encode_utf8 t) @ ''.'' @ base64url_encode (encode_utf8 body) @ ''.''
        @ base64url_encode ?sig)"
    using hmac_algorithm [OF secret] t body
    by (simp add: jws_sign_def encode_header_def encode_payload_def sign_header_and_claims_def
        hmac_key_object_def Let_def)
  then show thesis
    using that jws_load_segments [OF t(2)] by simp
qed

lemma verify_signature_hmac:
  assumes secret: "hmac_secret secret algorithm h"
    and alg: "map_of (jws_header p) ''alg'' = Some (JStr algorithm)"
  shows "verify_signature foreign p (JStr secret) (Some [algorithm]) =
    (if jws_signature p = hmac_digest h (encode_utf8 secret) (jws_signing_input p) then Inr ()
     else Inl (JWSError ''Signature verification failed.''))"
proof -
  have keys: "get_keys (JStr secret) = Inr [JStr secret]"
    using secret by (simp add: hmac_secret_def)
  show ?thesis
    using hmac_algorithm [OF secret]
    by (simp add: verify_signature_def alg keys Let_def) (simp add: hmac_key_object_def)
qed

text \<open>An algorithm the caller does not allow is refused before any key is used.\<close>

lemma verify_signature_algorithm:
  assumes "verify_signature foreign p key (Some algorithms) = Inr ()"
  shows "\<exists>a \<in> set algorithms. map_of (jws_header p) ''alg'' = Some (JStr a)"
  using assms
  by (auto simp: verify_signature_def Let_def split: option.splits if_splits)

lemma jws_verify_sound:
  assumes secret: "hmac_secret secret algorithm h"
    and ok: "jws_verify foreign token (JStr secret) (Some [algorithm]) True = Inr payload"
  shows "\<exists>p. jws_load token = Inr p \<and> jws_payload p = payload \<and>
    map_of (jws_header p) ''alg'' = Some (JStr algorithm) \<and>
    jws_signature p = hmac_digest h (encode_utf8 secret) (jws_signing_input p)"
proof -
  obtain p where p: "jws_load token = Inr p" "jws_payload p = payload"
    and v: "verify_signature foreign p (JStr secret) (Some [algorithm]) = Inr ()"
    using ok by (auto simp: jws_verify_def split: sum.splits)
  have alg: "map_of (jws_header p) ''alg'' = Some (JStr algorithm)"
    using verify_signature_algorithm [OF v] by simp
  with v p verify_signature_hmac [OF secret alg, of foreign] show ?thesis
    by (auto split: if_splits)
qed

text \<open>The options a caller that passes none gets.\<close>

lemma defaults_on:
  "option_on jwt_defaults ''verify_iat''" "option_on jwt_defaults ''verify_nbf''"
  "option_on jwt_defaults ''verify_exp''" "option_on jwt_defaults ''verify_aud''"
  "option_on jwt_defaults ''verify_iss''" "option_on jwt_defaults ''verify_sub''"
  "option_on jwt_defaults ''verify_jti''" "option_on jwt_defaults ''verify_at_hash''"
  by (simp_all add: option_on_def jwt_defaults_def)

lemma required_none: "required_claims jwt_defaults = []"
  by (simp add: required_claims_def jwt_defaults_def starts_with_def)

lemma validate_claims_defaults:
  "validate_claims now claims ex algorithm jwt_defaults lw =
     first_error [validate_iat claims, validate_nbf now claims (leeway_seconds lw),
       validate_exp now claims (leeway_seconds lw), validate_aud claims (exp_audience ex),
       validate_iss claims (exp_issuer ex), validate_sub claims (exp_subject ex), validate_jti claims,
       validate_at_hash claims (exp_access_token ex) algorithm]"
  unfolding validate_claims_def required_none by (simp add: Let_def defaults_on)

lemma jwt_decode_defaults:
  "jwt_decode foreign now token key algorithms [] lw ex =
     (case jws_verify foreign token key algorithms True of
        Inl (JWSError e) \<Rightarrow> Inl (JWTError e)
      | Inl e \<Rightarrow> Inl e
      | Inr payload \<Rightarrow>
          (case jws_get_unverified_header token of
             Inl e \<Rightarrow> Inl e
           | Inr header \<Rightarrow>
               (case map_of header ''alg'' of
                  None \<Rightarrow> Inl (KeyError ''alg'')
                | Some alg \<Rightarrow>
                    (case object_of_payload ''payload'' payload of
                       Inl e \<Rightarrow> Inl e
                     | Inr claims \<Rightarrow>
                         (case validate_claims now claims ex
                                 (case alg of JStr a \<Rightarrow> a | _ \<Rightarrow> []) jwt_defaults lw of
                            Inl e \<Rightarrow> Inl e
                          | Inr _ \<Rightarrow> Inr claims)))))"
proof -
  have "map_of jwt_defaults ''verify_signature'' = Some True"
    by (simp add: jwt_defaults_def)
  then show ?thesis by (simp add: jwt_decode_def Let_def)
qed

lemma first_error_Inr: "first_error rs = Inr () \<longleftrightarrow> (\<forall>r \<in> set rs. r = Inr ())"
  by (induction rs rule: first_error.induct) auto

text \<open>What is encoded and signed decodes to the same claims, as far as they are valid now.\<close>

lemma jwt_decode_encode:
  assumes secret: "hmac_secret secret algorithm h" and keys: "distinct (map fst claims)"
    and body: "dumps_compact (map convert_time_claim claims) = Inr body"
  obtains token where "jwt_encode foreign claims (JStr secret) algorithm None = Inr token"
    "\<And>now lw ex. jwt_decode foreign now token (JStr secret) (Some [algorithm]) [] lw ex =
       (let cs = map (apsnd claim_json) (map convert_time_claim claims)
        in map_sum id (\<lambda>_. cs) (validate_claims now cs ex algorithm jwt_defaults lw))"
proof -
  let ?claims = "map convert_time_claim claims"
  let ?cs = "map (apsnd claim_json) ?claims"
  obtain token p where token: "jws_sign foreign ?claims (JStr secret) algorithm = Inr token"
    and p: "jws_load token = Inr p" "jws_payload p = encode_utf8 body"
      "map_of (jws_header p) ''alg'' = Some (JStr algorithm)"
      "jws_signature p = hmac_digest h (encode_utf8 secret) (jws_signing_input p)"
    using jws_sign_load [OF secret body] by metis
  have "map fst ?cs = map fst claims"
    by (auto simp: convert_time_claim_def split: claim.splits)
  then have "dict_of_pairs ?cs = ?cs"
    using keys by (intro dict_of_pairs_distinct) (simp only:)
  then have "loads body = Inr (JObj ?cs)"
    using loads_dumps [OF body] by (simp only:)
  then have payload: "object_of_payload ''payload'' (encode_utf8 body) = Inr ?cs"
    by (simp add: object_of_payload_def utf8_roundtrip)
  have verified: "jws_verify foreign token (JStr secret) (Some [algorithm]) True = Inr (encode_utf8 body)"
    using p verify_signature_hmac [OF secret p(3), of foreign] by (simp add: jws_verify_def)
  have header: "jws_get_unverified_header token = Inr (jws_header p)"
    by (simp add: jws_get_unverified_header_def p(1))
  have "jwt_encode foreign claims (JStr secret) algorithm None = Inr token"
    using token by (simp add: jwt_encode_def Let_def)
  moreover have "jwt_decode foreign now token (JStr secret) (Some [algorithm]) [] lw ex =
      map_sum id (\<lambda>_. ?cs) (validate_claims now ?cs ex algorithm jwt_defaults lw)" for now lw ex
    unfolding jwt_decode_defaults verified header
    by (simp add: p(3) payload del: map_map split: sum.splits)
  ultimately show thesis using that unfolding Let_def by blast
qed

section \<open>What an accepted token guarantees\<close>

lemma jwt_signed:
  assumes "hmac_secret secret algorithm h"
    and "jwt_decode foreign now token (JStr secret) (Some [algorithm]) [] lw ex = Inr claims"
  shows "\<exists>p a. jws_load token = Inr p \<and>
    map_of (jws_header p) ''alg'' = Some (JStr algorithm) \<and>
    jws_signature p = hmac_digest h (encode_utf8 secret) (jws_signing_input p) \<and>
    object_of_payload ''payload'' (jws_payload p) = Inr claims \<and>
    validate_claims now claims ex a jwt_defaults lw = Inr ()"
proof -
  obtain payload where v: "jws_verify foreign token (JStr secret) (Some [algorithm]) True = Inr payload"
    and c: "object_of_payload ''payload'' payload = Inr claims"
    and valid: "\<exists>a. validate_claims now claims ex a jwt_defaults lw = Inr ()"
    using assms(2) unfolding jwt_decode_defaults
    by (auto split: sum.splits exn.splits option.splits)
  obtain p where "jws_load token = Inr p" "jws_payload p = payload"
    "map_of (jws_header p) ''alg'' = Some (JStr algorithm)"
    "jws_signature p = hmac_digest h (encode_utf8 secret) (jws_signing_input p)"
    using jws_verify_sound [OF assms(1) v] by blast
  with c valid show ?thesis by blast
qed

text \<open>
  No token is accepted without its signature: a token that decodes names the one allowed
  algorithm in its header, carries the HMAC of its signing input under the secret, its claims are
  the payload that was signed, and its expiry time, if it has one, is not past.  In particular a
  token with algorithm \<open>none\<close>, or one signed with another secret whose digests differ, is refused.
\<close>

lemma accepted_token_signed:
  assumes "hmac_secret secret algorithm h"
    and "jwt_decode foreign now token (JStr secret) (Some [algorithm]) [] (LeewaySeconds 0) ex = Inr claims"
  shows "\<exists>p. jws_load token = Inr p \<and>
    map_of (jws_header p) ''alg'' = Some (JStr algorithm) \<and>
    jws_signature p = hmac_digest h (encode_utf8 secret) (jws_signing_input p) \<and>
    object_of_payload ''payload'' (jws_payload p) = Inr claims \<and>
    (\<exists>e. int_claim claims ''exp'' ''Expiration Time claim (exp) must be an integer.'' = Inr e \<and>
       (e = None \<or> timegm now \<le> the e))"
proof -
  obtain p a where p: "jws_load token = Inr p"
    "map_of (jws_header p) ''alg'' = Some (JStr algorithm)"
    "jws_signature p = hmac_digest h (encode_utf8 secret) (jws_signing_input p)"
    "object_of_payload ''payload'' (jws_payload p) = Inr claims"
    and valid: "validate_claims now claims ex a jwt_defaults (LeewaySeconds 0) = Inr ()"
    using jwt_signed [OF assms] by blast
  have "validate_exp now claims 0 = Inr ()"
    using valid by (simp add: validate_claims_defaults first_error_Inr)
  then have "\<exists>e. int_claim claims ''exp'' ''Expiration Time claim (exp) must be an integer.'' = Inr e \<and>
      (e = None \<or> timegm now \<le> the e)"
    by (auto simp: validate_exp_def split: sum.splits option.splits if_splits)
  with p show ?thesis by blast
qed

end
