(* ===== verification/Passlib.thy ===== *)
theory Passlib
  imports Codec Hashing
begin

text \<open>
  The vendored passlib as the backend uses it, \<open>CryptContext(schemes=["pbkdf2_sha256"])\<close>:
  context.py (hash, verify, the identification of a hash), handlers/pbkdf2.py, the generic
  handler and the modular-crypt format of utils/handlers.py, the base64 variants of
  utils/binary.py, the salt generator and the constant-time comparison of utils/__init__.py and
  the HMAC and PBKDF2 of crypto/digest.py.  The random number generator is an argument: the
  number \<open>getrandbits\<close> returned.
\<close>

section \<open>utils/binary.py\<close>

text \<open>\<open>s.rstrip(chars)\<close>\<close>

definition rstrip_chars :: "char set \<Rightarrow> string \<Rightarrow> string" where
  "rstrip_chars cs s = rev (dropWhile (\<lambda>c. c \<in> cs) (rev s))"

definition b64s_encode :: "string \<Rightarrow> string" where
  "b64s_encode data = rstrip_chars {CHR ''='', CHR 0x0A} (b64encode data @ [CHR 0x0A])"

definition b64s_decode :: "string \<Rightarrow> string result" where
  "b64s_decode data =
     (let off = length data mod 4
      in if off = 1 then Inl (ValueError ''invalid base64 input'')
         else case b64decode (data @ (if off = 2 then ''=='' else if off = 3 then ''='' else [])) of
             Inl e \<Rightarrow> Inl (TypeError ''base64'')
           | Inr s \<Rightarrow> Inr s)"

definition ab64_encode :: "string \<Rightarrow> string" where
  "ab64_encode data = replace_char (CHR ''+'') (CHR ''.'') (b64s_encode data)"

definition ab64_decode :: "string \<Rightarrow> string result" where
  "ab64_decode data = b64s_decode (replace_char (CHR ''.'') (CHR ''+'') data)"

section \<open>utils/handlers.py\<close>

definition MAX_PASSWORD_SIZE :: nat where "MAX_PASSWORD_SIZE = 4096"

definition validate_size :: "nat \<Rightarrow> unit result" where
  "validate_size characters =
     (if MAX_PASSWORD_SIZE < characters then Inl (ValueError ''PasswordSizeError'') else Inr ())"

definition validate_secret :: "string \<Rightarrow> unit result" where
  "validate_secret secret = validate_size (length secret)"

text \<open>
  \<open>prefix[rounds]$salt[$checksum]\<close>; an absent checksum is \<open>None\<close>, and so is an empty one.
\<close>

definition parse_rounds :: "string \<Rightarrow> int result" where
  "parse_rounds r =
     (if starts_with ''0'' r \<and> r \<noteq> ''0'' then Inl (ValueError ''ZeroPaddedRoundsError'')
      else if r \<noteq> [] then parse_int r
      else Inl (ValueError ''MalformedHashError: empty rounds field''))"

definition parse_mc3 :: "string \<Rightarrow> string \<Rightarrow> (int \<times> string \<times> string option) result" where
  "parse_mc3 hash prefix =
     (if \<not> starts_with prefix hash then Inl (ValueError ''InvalidHashError'')
      else case split_on (CHR ''$'') (drop (length prefix) hash) of
          [r, salt, chk] \<Rightarrow> map_sum id (\<lambda>n. (n, salt, if chk = [] then None else Some chk)) (parse_rounds r)
        | [r, salt] \<Rightarrow> map_sum id (\<lambda>n. (n, salt, None)) (parse_rounds r)
        | _ \<Rightarrow> Inl (ValueError ''MalformedHashError''))"

definition render_mc3 :: "string \<Rightarrow> int option \<Rightarrow> string \<Rightarrow> string option \<Rightarrow> string" where
  "render_mc3 ident rounds salt checksum =
     ident @ (case rounds of None \<Rightarrow> [] | Some n \<Rightarrow> show_int n) @ ''$'' @ salt
       @ (case checksum of None \<Rightarrow> [] | Some c \<Rightarrow> if c = [] then [] else CHR ''$'' # c)"

text \<open>\<open>norm_integer\<close> with \<open>relaxed\<close> false.\<close>

definition norm_integer :: "int \<Rightarrow> int \<Rightarrow> int \<Rightarrow> int result" where
  "norm_integer v mn mx =
     (if v < mn then Inl (ValueError ''too low'')
      else if mx \<noteq> 0 \<and> mx < v then Inl (ValueError ''too large'') else Inr v)"

definition norm_salt :: "nat \<Rightarrow> nat \<Rightarrow> string \<Rightarrow> string result" where
  "norm_salt mn mx salt =
     (if length salt < mn then Inl (ValueError ''salt too small'')
      else if mx \<noteq> 0 \<and> mx < length salt then Inl (ValueError ''salt too large'') else Inr salt)"

definition norm_checksum :: "nat \<Rightarrow> string \<Rightarrow> string result" where
  "norm_checksum sz checksum =
     (if sz \<noteq> 0 \<and> length checksum \<noteq> sz then Inl (ValueError ''ChecksumSizeError'')
      else Inr checksum)"

section \<open>utils/__init__.py\<close>

text \<open>
  \<open>getrandbytes\<close>: each byte is the low byte of the random number, which is then shifted by
  three bits.
\<close>

definition getrandbytes :: "nat \<Rightarrow> nat \<Rightarrow> string" where
  "getrandbytes value n = map (\<lambda>i. char_of (value div 2 ^ (3 * i) mod 256)) [0..<n]"

text \<open>The comparison whose running time depends on the length of the second argument only.\<close>

definition str_consteq :: "string \<Rightarrow> string \<Rightarrow> bool" where
  "str_consteq left right =
     (let same_size = (length left = length right);
          tmp = (if same_size then left else right);
          start = (if same_size then 0 else 1 :: nat)
      in foldl (\<lambda>r (a, b). r OR (of_char a XOR of_char b)) start (zip tmp right) = 0)"

section \<open>crypto/digest.py\<close>

text \<open>
  A hash object is the bytes it has consumed; copying it and updating the copy appends.
\<close>

definition compile_hmac :: "hash_alg \<Rightarrow> string \<Rightarrow> string \<Rightarrow> string" where
  "compile_hmac h key =
     (let k = (if hash_block h < length key then hash_digest h key else key);
          padded = (if length k < hash_block h
            then k @ replicate (hash_block h - length k) (CHR 0x00) else k);
          inner = map (\<lambda>c. char_of (of_char c XOR 0x36 :: nat)) padded;
          outer = map (\<lambda>c. char_of (of_char c XOR 0x5C :: nat)) padded
      in (\<lambda>msg. hash_digest h (outer @ hash_digest h (inner @ msg))))"

text \<open>\<open>int.from_bytes\<close> and \<open>int.to_bytes\<close>, big-endian.\<close>

definition from_bytes :: "string \<Rightarrow> nat" where
  "from_bytes bs = foldl (\<lambda>n c. 256 * n + of_char c) 0 bs"

definition to_bytes :: "nat \<Rightarrow> nat \<Rightarrow> string" where
  "to_bytes sz n = bytes_of_nat sz n"

fun pbkdf2_looper_loop :: "(string \<Rightarrow> string) \<Rightarrow> nat \<Rightarrow> string \<Rightarrow> nat \<Rightarrow> nat" where
  "pbkdf2_looper_loop keyed_hmac 0 digest accum = accum"
| "pbkdf2_looper_loop keyed_hmac (Suc n) digest accum =
     pbkdf2_looper_loop keyed_hmac n (keyed_hmac digest) (accum XOR from_bytes (keyed_hmac digest))"

definition pbkdf2_looper :: "nat \<Rightarrow> (string \<Rightarrow> string) \<Rightarrow> string \<Rightarrow> nat \<Rightarrow> string" where
  "pbkdf2_looper digest_size keyed_hmac digest rounds =
     to_bytes digest_size (pbkdf2_looper_loop keyed_hmac (rounds - 1) digest (from_bytes digest))"

text \<open>
  \<open>pbkdf2_hmac\<close>, with the backend it chooses: hashlib's where there is one, otherwise the loop
  above over \<open>compile_hmac\<close>.
\<close>

definition pbkdf2_hmac :: "bool \<Rightarrow> hash_alg \<Rightarrow> string \<Rightarrow> string \<Rightarrow> int \<Rightarrow> nat option \<Rightarrow> string result" where
  "pbkdf2_hmac by_hashlib h secret salt rounds keylen =
     (if rounds < 1 then Inl (ValueError ''rounds must be at least 1'')
      else let n = (case keylen of None \<Rightarrow> hash_size h | Some k \<Rightarrow> k)
        in if n < 1 then Inl (ValueError ''keylen must be at least 1'')
           else let block_count = (n + hash_size h - 1) div hash_size h
             in if 0xFFFFFFFF < block_count then Inl (OverflowError ''keylen too long for digest'')
                else if by_hashlib then Inr (hashlib_pbkdf2 h secret salt (nat rounds) n)
                else let keyed = compile_hmac h secret
                  in Inr (take n (concat (map (\<lambda>i.
                       pbkdf2_looper (hash_size h) keyed (keyed (salt @ bytes_of_nat 4 i)) (nat rounds))
                         [1..<Suc block_count]))))"

section \<open>handlers/pbkdf2.py\<close>

definition pbkdf2_ident :: string where "pbkdf2_ident = ''$pbkdf2-sha256$''"
definition default_rounds :: int where "default_rounds = 29000"
definition checksum_size :: nat where "checksum_size = 32"
definition default_salt_size :: nat where "default_salt_size = 16"
definition max_salt_size :: nat where "max_salt_size = 1024"
definition max_rounds :: int where "max_rounds = 0xFFFFFFFF"

record pbkdf2_sha256 =
  pb_rounds :: int
  pb_salt :: string
  pb_checksum :: "string option"

text \<open>\<open>s.encode("ascii")\<close>\<close>

definition encode_ascii :: "string \<Rightarrow> string result" where
  "encode_ascii s = (if \<forall>c \<in> set s. (of_char c :: nat) < 128 then Inr s else Inl UnicodeError)"

definition new_pbkdf2 :: "int \<Rightarrow> string \<Rightarrow> string option \<Rightarrow> pbkdf2_sha256 result" where
  "new_pbkdf2 rounds salt checksum =
     (case (case checksum of None \<Rightarrow> Inr None | Some c \<Rightarrow> map_sum id Some (norm_checksum checksum_size c)) of
        Inl e \<Rightarrow> Inl e
      | Inr chk \<Rightarrow>
          (case norm_salt 0 max_salt_size salt of
             Inl e \<Rightarrow> Inl e
           | Inr s \<Rightarrow>
               (case norm_integer rounds 1 max_rounds of
                  Inl e \<Rightarrow> Inl e
                | Inr r \<Rightarrow> Inr \<lparr> pb_rounds = r, pb_salt = s, pb_checksum = chk \<rparr>)))"

definition decode_field :: "string \<Rightarrow> string result" where
  "decode_field t = (case encode_ascii t of Inl e \<Rightarrow> Inl e | Inr a \<Rightarrow> ab64_decode a)"

definition from_string :: "string \<Rightarrow> pbkdf2_sha256 result" where
  "from_string hash =
     (case parse_mc3 hash pbkdf2_ident of
        Inl e \<Rightarrow> Inl e
      | Inr (rounds, salt, chk) \<Rightarrow>
          (case decode_field salt of
             Inl e \<Rightarrow> Inl e
           | Inr s \<Rightarrow>
               (case (case chk of None \<Rightarrow> Inr None | Some c \<Rightarrow> map_sum id Some (decode_field c)) of
                  Inl e \<Rightarrow> Inl e
                | Inr c \<Rightarrow> new_pbkdf2 rounds s c)))"

definition to_string :: "pbkdf2_sha256 \<Rightarrow> string" where
  "to_string h =
     render_mc3 pbkdf2_ident (Some (pb_rounds h)) (ab64_encode (pb_salt h))
       (map_option ab64_encode (pb_checksum h))"

text \<open>The checksum of a secret, given as its UTF-8 bytes and as a text of the model.\<close>

definition encoded_checksum :: "pbkdf2_sha256 \<Rightarrow> string \<Rightarrow> string result" where
  "encoded_checksum h secret =
     pbkdf2_hmac True sha256 secret (pb_salt h) (pb_rounds h) (Some checksum_size)"

definition calc_checksum :: "pbkdf2_sha256 \<Rightarrow> string \<Rightarrow> string result" where
  "calc_checksum h secret = encoded_checksum h (encode_utf8 secret)"

text \<open>\<open>GenericHandler.hash\<close> and \<open>verify\<close>\<close>

definition handler_hash :: "nat \<Rightarrow> string \<Rightarrow> string result" where
  "handler_hash value secret =
     (case validate_secret secret of
        Inl e \<Rightarrow> Inl e
      | Inr _ \<Rightarrow>
          (case new_pbkdf2 default_rounds (getrandbytes value default_salt_size) None of
             Inl e \<Rightarrow> Inl e
           | Inr h \<Rightarrow>
               map_sum id (\<lambda>chk. to_string (h\<lparr>pb_checksum := Some chk\<rparr>)) (calc_checksum h secret)))"

text \<open>A secret is checked by its number of characters and hashed by its UTF-8 bytes.\<close>

definition encoded_verify :: "nat \<Rightarrow> string \<Rightarrow> string \<Rightarrow> bool result" where
  "encoded_verify characters secret hash =
     (case validate_size characters of
        Inl e \<Rightarrow> Inl e
      | Inr _ \<Rightarrow>
          (case from_string hash of
             Inl e \<Rightarrow> Inl e
           | Inr h \<Rightarrow>
               (case pb_checksum h of
                  None \<Rightarrow> Inl (ValueError ''MissingDigestError'')
                | Some chk \<Rightarrow> map_sum id (\<lambda>c. c = chk) (encoded_checksum h secret))))"

definition handler_verify :: "string \<Rightarrow> string \<Rightarrow> bool result" where
  "handler_verify secret hash = encoded_verify (length secret) (encode_utf8 secret) hash"

lemma handler_verify_run:
  "handler_verify secret hash =
     (case validate_secret secret of
        Inl e \<Rightarrow> Inl e
      | Inr _ \<Rightarrow>
          (case from_string hash of
             Inl e \<Rightarrow> Inl e
           | Inr h \<Rightarrow>
               (case pb_checksum h of
                  None \<Rightarrow> Inl (ValueError ''MissingDigestError'')
                | Some chk \<Rightarrow> map_sum id (\<lambda>c. c = chk) (calc_checksum h secret))))"
  by (auto simp: handler_verify_def encoded_verify_def validate_secret_def calc_checksum_def
      split: sum.splits option.splits)

section \<open>context.py\<close>

definition identify :: "string \<Rightarrow> bool" where
  "identify hash \<longleftrightarrow> hash \<noteq> [] \<and> starts_with pbkdf2_ident hash"

definition context_hash :: "nat \<Rightarrow> string \<Rightarrow> string result" where
  "context_hash value secret = handler_hash value secret"

definition context_verify :: "string \<Rightarrow> string \<Rightarrow> bool result" where
  "context_verify secret hash =
     (if identify hash then handler_verify secret hash
      else Inl (ValueError ''UnknownHashError: hash could not be identified''))"

section \<open>The encodings\<close>

lemma rstrip_notin:
  "s \<noteq> [] \<Longrightarrow> last s \<notin> cs \<Longrightarrow> rstrip_chars cs s = s"
  by (cases s rule: rev_cases) (simp_all add: rstrip_chars_def)

lemma rstrip_append: "set t \<subseteq> cs \<Longrightarrow> rstrip_chars cs (s @ t) = rstrip_chars cs s"
  by (subst rstrip_chars_def, unfold rev_append, subst dropWhile_append2) (auto simp: rstrip_chars_def)

lemma b64encode_core: "\<exists>k. b64encode s = base64_core s @ replicate k (CHR ''='')"
proof (induction s rule: b64encode.induct)
  case 1
  show ?case by (intro exI [of _ 0]) (simp add: base64_core_steps)
next
  case (2 a)
  show ?case by (intro exI [of _ 2]) (simp add: base64_core_steps Let_def numeral_2_eq_2)
next
  case (3 a b)
  show ?case by (intro exI [of _ 1]) (simp add: base64_core_steps Let_def)
next
  case (4 a b c s)
  then obtain k where "b64encode s = base64_core s @ replicate k (CHR ''='')" by blast
  then show ?case by (intro exI [of _ k]) (simp add: base64_core_steps Let_def)
qed

lemma core_ascii:
  assumes "c \<in> set (base64_core s)"
  shows "c \<noteq> CHR ''='' \<and> c \<noteq> CHR 0x0A \<and> c \<noteq> CHR ''.'' \<and> c \<noteq> CHR ''$'' \<and> (of_char c :: nat) < 128"
proof -
  have tab: "list_all (\<lambda>n. base64_char n \<noteq> CHR ''='' \<and> base64_char n \<noteq> CHR 0x0A \<and>
      base64_char n \<noteq> CHR ''.'' \<and> base64_char n \<noteq> CHR ''$'' \<and> (of_char (base64_char n) :: nat) < 128) [0..<64]"
    by (simp add: upt_rec base64_char_def base64_letters_def)
  obtain n where n: "n < 64" "c = base64_char n" using base64_core_letters assms by blast
  then have "n \<in> set [0..<64]" by simp
  with tab show ?thesis unfolding n(2) list_all_iff by (rule bspec)
qed

lemma b64s_encode_core: "b64s_encode s = base64_core s"
proof -
  obtain k where k: "b64encode s = base64_core s @ replicate k (CHR ''='')"
    using b64encode_core by blast
  have "b64s_encode s = rstrip_chars {CHR ''='', CHR 0x0A} (base64_core s)"
    unfolding b64s_encode_def k append_assoc by (rule rstrip_append) auto
  also have "\<dots> = base64_core s"
  proof (cases "base64_core s = []")
    case False
    then have "last (base64_core s) \<in> set (base64_core s)" by simp
    from core_ascii [OF this] False show ?thesis by (intro rstrip_notin) auto
  qed (simp add: rstrip_chars_def)
  finally show ?thesis .
qed

definition dot_char :: "char \<Rightarrow> char" where
  "dot_char c = (if c = CHR ''+'' then CHR ''.'' else c)"

lemma ab64_encode_core: "ab64_encode s = map dot_char (base64_core s)"
  by (simp add: ab64_encode_def b64s_encode_core replace_char_def dot_char_def)

lemma ab64_char:
  assumes "c \<in> set (ab64_encode s)"
  shows "c \<noteq> CHR ''$''" "(of_char c :: nat) < 128"
  using assms by (auto simp: ab64_encode_core dot_char_def dest: core_ascii)

lemma ab64_roundtrip: "ab64_decode (ab64_encode s) = Inr s"
proof -
  let ?c = "base64_core s"
  have "replace_char (CHR ''.'') (CHR ''+'') (map dot_char t) = t" if "set t \<subseteq> set ?c" for t
    using that by (induction t) (auto simp: replace_char_def dot_char_def dest: core_ascii)
  then have undo: "replace_char (CHR ''.'') (CHR ''+'') (ab64_encode s) = ?c"
    by (simp add: ab64_encode_core)
  have pad: "(if length ?c mod 4 = 2 then ''=='' else if length ?c mod 4 = 3 then ''='' else []) =
      base64_padding ?c"
  proof -
    consider "length ?c mod 4 = 0" | "length ?c mod 4 = 2" | "length ?c mod 4 = 3"
      using base64_core_length [of s] by linarith
    then show ?thesis by cases (simp_all add: base64_padding_def numeral_2_eq_2)
  qed
  show ?thesis
    using base64_core_decode [of s] base64_core_length [of s]
    unfolding ab64_decode_def undo b64s_decode_def Let_def pad
    by (simp add: b64decode_def)
qed

section \<open>Formatting and parsing a hash\<close>

lemma show_int_no_dollar: "CHR ''$'' \<notin> set (show_int n)"
proof (cases n rule: show_int_cases)
  case (1 d ds)
  then have "\<forall>c \<in> set (show_int n). is_digit c" by (auto simp: list_all_iff)
  then show ?thesis by (auto simp: is_digit_def)
next
  case (2 d ds)
  then have "\<forall>c \<in> set (show_int n). is_digit c \<or> c = CHR ''-''" by (auto simp: list_all_iff)
  then show ?thesis by (auto simp: is_digit_def)
qed

lemma parse_int_show: "0 \<le> n \<Longrightarrow> parse_int (show_int n) = Inr n"
  by (simp add: show_int_def parse_int_digits digits_all)

lemma parse_mc3_render:
  assumes "0 \<le> n" "CHR ''$'' \<notin> set salt" "CHR ''$'' \<notin> set chk" "chk \<noteq> []"
  shows "parse_mc3 (render_mc3 prefix (Some n) salt (Some chk)) prefix = Inr (n, salt, Some chk)"
proof -
  have "split_on (CHR ''$'') (show_int n @ CHR ''$'' # salt @ CHR ''$'' # chk) = [show_int n, salt, chk]"
    using assms show_int_no_dollar [of n] by (simp add: split_on_append split_on_notin)
  moreover have "parse_rounds (show_int n) = Inr n"
    using assms(1) parse_int_show [OF assms(1)]
    by (cases n rule: show_int_cases) (auto simp: parse_rounds_def starts_with_def)
  ultimately show ?thesis using assms(4) by (simp add: parse_mc3_def render_mc3_def)
qed

section \<open>The two backends of PBKDF2\<close>

unbundle bit_operations_syntax

lemma xor_byte_lt: "a < 256 \<Longrightarrow> b < 256 \<Longrightarrow> a XOR b < 256" for a b :: nat
proof -
  assume "a < 256" "b < 256"
  then have "take_bit 8 a = a" "take_bit 8 b = b" by (simp_all add: take_bit_eq_mod)
  then have "take_bit 8 (a XOR b) = a XOR b" by (simp add: take_bit_xor)
  then show ?thesis by (simp add: take_bit_eq_mod)
qed

lemma xor_split:
  fixes a b x y :: nat
  assumes "x < 256" "y < 256"
  shows "(256 * a + x) XOR (256 * b + y) = 256 * (a XOR b) + (x XOR y)"
proof -
  let ?z = "(256 * a + x) XOR (256 * b + y)"
  have "?z div 256 = drop_bit 8 ?z" by (simp add: drop_bit_eq_div)
  also have "\<dots> = drop_bit 8 (256 * a + x) XOR drop_bit 8 (256 * b + y)" by (rule drop_bit_xor)
  also have "\<dots> = a XOR b" using assms by (simp add: drop_bit_eq_div)
  finally have d: "?z div 256 = a XOR b" .
  have "?z mod 256 = take_bit 8 ?z" by (simp add: take_bit_eq_mod)
  also have "\<dots> = take_bit 8 (256 * a + x) XOR take_bit 8 (256 * b + y)" by (rule take_bit_xor)
  also have "\<dots> = x XOR y" using assms by (simp add: take_bit_eq_mod)
  finally have m: "?z mod 256 = x XOR y" .
  show ?thesis using d m mult_div_mod_eq [of 256 ?z] by simp
qed

lemma from_bytes_snoc: "from_bytes (bs @ [c]) = 256 * from_bytes bs + of_char c"
  by (simp add: from_bytes_def)

lemma xor_bytes_snoc:
  "length as = length bs \<Longrightarrow> xor_bytes (as @ [a]) (bs @ [b]) =
     xor_bytes as bs @ [char_of (of_char a XOR of_char b :: nat)]"
  by (simp add: xor_bytes_def)

lemma from_bytes_xor:
  "length as = length bs \<Longrightarrow> from_bytes (xor_bytes as bs) = from_bytes as XOR from_bytes bs"
proof (induction as arbitrary: bs rule: rev_induct)
  case Nil
  then show ?case by (simp add: from_bytes_def xor_bytes_def)
next
  case (snoc a as)
  then obtain b bs' where bs: "bs = bs' @ [b]" "length as = length bs'"
    by (cases bs rule: rev_cases) auto
  have "(of_char (char_of (of_char a XOR of_char b :: nat)) :: nat) = of_char a XOR of_char b"
    using xor_byte_lt [OF byte_range byte_range, of a b] by simp
  then show ?case
    using snoc.IH [OF bs(2)] bs
    by (simp add: xor_bytes_snoc from_bytes_snoc xor_split byte_range)
qed

lemma bytes_of_nat_Suc: "bytes_of_nat (Suc n) k = bytes_of_nat n (k div 256) @ [char_of k]"
proof -
  have "[0..<Suc n] = 0 # map Suc [0..<n]" by (simp add: map_Suc_upt upt_conv_Cons)
  then show ?thesis
    by (simp only: bytes_of_nat_def rev.simps list.map rev_map map_append map_map)
      (simp add: div_mult2_eq comp_def flip: rev_map)
qed

lemma char_of_byte: "char_of (256 * n + of_char c :: nat) = c"
proof -
  have "char_of (256 * n + of_char c :: nat) = (char_of ((256 * n + of_char c) mod 256 :: nat) :: char)"
    by (simp only: char_of_mod_256)
  then show ?thesis by simp
qed

lemma to_from_bytes: "to_bytes (length bs) (from_bytes bs) = bs"
proof (induction bs rule: rev_induct)
  case Nil
  show ?case by (simp add: to_bytes_def bytes_of_nat_def)
next
  case (snoc c bs)
  have "(256 * from_bytes bs + of_char c) div 256 = from_bytes bs"
    using byte_range [of c] by simp
  with snoc show ?case
    by (simp add: to_bytes_def bytes_of_nat_Suc from_bytes_snoc char_of_byte)
qed

lemma looper_loop:
  assumes "\<And>u. length (f u) = k" "length acc = k"
  shows "pbkdf2_looper_loop f n d (from_bytes acc) = from_bytes (pbkdf2_loop f n d acc)"
  using assms(2)
proof (induction n arbitrary: d acc)
  case (Suc n)
  have "length (xor_bytes acc (f d)) = k" using assms(1) Suc.prems by (simp add: xor_bytes_def)
  from Suc.IH [OF this] show ?case
    using assms(1) Suc.prems by (simp add: from_bytes_xor)
qed simp

lemma compile_hmac_eq:
  assumes "hash_size h \<le> hash_block h" "\<And>m. length (hash_digest h m) = hash_size h"
  shows "compile_hmac h key = hmac_digest h key"
proof -
  define k where "k = (if hash_block h < length key then hash_digest h key else key)"
  have len: "length k \<le> hash_block h" using assms by (simp add: k_def)
  let ?p = "k @ replicate (hash_block h - length k) (CHR 0x00)"
  have plen: "length ?p = hash_block h" using len by simp
  have xor: "xor_bytes ks (replicate n c) = map (\<lambda>x. char_of (of_char x XOR of_char c :: nat)) ks"
    if "length ks = n" for ks n c
    using that by (induction ks arbitrary: n) (auto simp: xor_bytes_def)
  have pad: "(if length k < hash_block h then ?p else k) = ?p" using len by simp
  show ?thesis
    by (rule ext) (simp add: compile_hmac_def hmac_digest_def hmac_key_def Let_def pad xor [OF plen]
        flip: k_def)
qed

lemma looper_block:
  assumes "\<And>u. length (f u) = k"
  shows "pbkdf2_looper k f (f x) n = pbkdf2_loop f (n - 1) (f x) (f x)"
proof -
  let ?l = "pbkdf2_loop f (n - 1) (f x) (f x)"
  have len: "length ?l = k"
    using assms by (simp add: pbkdf2_loop_length)
  have "pbkdf2_looper k f (f x) n = to_bytes k (from_bytes ?l)"
    using looper_loop [where f = f and acc = "f x" and n = "n - 1" and d = "f x"] assms
    by (simp add: pbkdf2_looper_def)
  also have "\<dots> = ?l" using to_from_bytes [of ?l] len by simp
  finally show ?thesis .
qed

lemma sha256_sizes: "hash_size sha256 = 32" "hash_block sha256 = 64"
  by (simp_all add: sha256_def)

text \<open>
  The two implementations of PBKDF2 agree: for SHA-256, the pure-Python loop over big integers
  on passlib's own HMAC derives the same key as hashlib, for every secret, salt, number of rounds
  and key length, errors included.
\<close>

theorem pbkdf2_backends_agree:
  "pbkdf2_hmac False sha256 secret salt rounds keylen = pbkdf2_hmac True sha256 secret salt rounds keylen"
proof -
  have keyed: "compile_hmac sha256 secret = hmac_digest sha256 secret"
    by (rule compile_hmac_eq) (simp_all add: sha256_sizes)
  have "pbkdf2_looper 32 (hmac_digest sha256 secret)
      (hmac_digest sha256 secret (salt @ bytes_of_nat 4 i)) n = pbkdf2_block sha256 secret salt n i" for n i
    unfolding pbkdf2_block_def Let_def by (rule looper_block) simp
  then show ?thesis
    by (simp add: pbkdf2_hmac_def Let_def keyed hashlib_pbkdf2_def sha256_sizes)
qed

section \<open>Hashing and verifying a password\<close>

lemma getrandbytes_length: "length (getrandbytes v n) = n"
  by (simp add: getrandbytes_def)

definition derived_key :: "string \<Rightarrow> nat \<Rightarrow> string" where
  "derived_key secret v =
     hashlib_pbkdf2 sha256 (encode_utf8 secret) (getrandbytes v default_salt_size)
       (nat default_rounds) checksum_size"

lemma derived_key_length: "length (derived_key secret v) = 32"
  by (simp add: derived_key_def checksum_size_def)

lemma calc_checksum_default:
  "calc_checksum \<lparr>pb_rounds = default_rounds, pb_salt = getrandbytes v default_salt_size, pb_checksum = c\<rparr> secret
     = Inr (derived_key secret v)"
  by (simp add: calc_checksum_def encoded_checksum_def pbkdf2_hmac_def derived_key_def default_rounds_def checksum_size_def
      sha256_sizes Let_def)

lemma context_hash_value:
  assumes "length secret \<le> MAX_PASSWORD_SIZE"
  shows "context_hash v secret = Inr (render_mc3 pbkdf2_ident (Some default_rounds)
     (ab64_encode (getrandbytes v default_salt_size)) (Some (ab64_encode (derived_key secret v))))"
  using assms
  by (simp add: context_hash_def handler_hash_def validate_secret_def validate_size_def new_pbkdf2_def norm_salt_def
      getrandbytes_length norm_integer_def default_rounds_def max_rounds_def max_salt_size_def
      default_salt_size_def to_string_def
      calc_checksum_default [unfolded default_rounds_def default_salt_size_def])

lemma ab64_not_Nil: "s \<noteq> [] \<Longrightarrow> ab64_encode s \<noteq> []"
  by (cases s rule: b64encode.cases) (simp_all add: ab64_encode_core base64_core_steps)

lemma decode_field_ab64: "decode_field (ab64_encode s) = Inr s"
proof -
  have "\<forall>c \<in> set (ab64_encode s). (of_char c :: nat) < 128"
    by (blast dest: ab64_char(2))
  then show ?thesis by (simp add: decode_field_def encode_ascii_def ab64_roundtrip)
qed

lemma from_string_hash:
  assumes "length chk = checksum_size"
  shows "from_string (render_mc3 pbkdf2_ident (Some default_rounds)
      (ab64_encode (getrandbytes v default_salt_size)) (Some (ab64_encode chk))) =
    Inr \<lparr>pb_rounds = default_rounds, pb_salt = getrandbytes v default_salt_size, pb_checksum = Some chk\<rparr>"
proof -
  have "chk \<noteq> []" using assms by (auto simp: checksum_size_def)
  then have "parse_mc3 (render_mc3 pbkdf2_ident (Some default_rounds)
      (ab64_encode (getrandbytes v default_salt_size)) (Some (ab64_encode chk))) pbkdf2_ident =
    Inr (default_rounds, ab64_encode (getrandbytes v default_salt_size), Some (ab64_encode chk))"
    by (intro parse_mc3_render) (auto simp: default_rounds_def ab64_not_Nil dest: ab64_char(1))
  then show ?thesis
    using assms
    by (simp add: from_string_def decode_field_ab64 new_pbkdf2_def norm_checksum_def norm_salt_def
        getrandbytes_length norm_integer_def default_rounds_def max_rounds_def max_salt_size_def
        default_salt_size_def)
qed

lemma password_verifies_run:
  assumes "length secret \<le> MAX_PASSWORD_SIZE" "length other \<le> MAX_PASSWORD_SIZE"
  shows "\<exists>hash. context_hash v secret = Inr hash \<and> context_verify secret hash = Inr True \<and>
    context_verify other hash = Inr (derived_key other v = derived_key secret v)"
proof -
  define hash where "hash = render_mc3 pbkdf2_ident (Some default_rounds)
     (ab64_encode (getrandbytes v default_salt_size)) (Some (ab64_encode (derived_key secret v)))"
  have "length (derived_key secret v) = checksum_size"
    by (simp add: derived_key_length checksum_size_def)
  from from_string_hash [OF this, of v]
  have parsed: "from_string hash = Inr \<lparr>pb_rounds = default_rounds,
      pb_salt = getrandbytes v default_salt_size, pb_checksum = Some (derived_key secret v)\<rparr>"
    unfolding hash_def .
  have known: "identify hash"
    by (simp add: hash_def identify_def render_mc3_def pbkdf2_ident_def starts_with_def)
  have verify: "context_verify p hash = Inr (derived_key p v = derived_key secret v)"
    if "length p \<le> MAX_PASSWORD_SIZE" for p
  proof -
    have "validate_secret p = Inr ()" using that by (simp add: validate_secret_def validate_size_def)
    then show ?thesis
      by (simp only: context_verify_def known if_True handler_verify_run parsed sum.case
          pbkdf2_sha256.select_convs option.case calc_checksum_default map_sum.simps)
  qed
  have "context_hash v secret = Inr hash"
    unfolding hash_def by (rule context_hash_value [OF assms(1)])
  then show ?thesis
    using verify [OF assms(1)] verify [OF assms(2)] by (intro exI [of _ hash]) simp
qed

text \<open>
  C39: A password verifies against a hash of itself, and another password verifies exactly when it
  derives the same key with the salt of the hash; in particular hashing always succeeds for a
  password of at most 4096 characters, and verification does not raise.
\<close>

theorem password_verifies:
  assumes "length secret \<le> MAX_PASSWORD_SIZE" "length other \<le> MAX_PASSWORD_SIZE"
  shows "\<exists>hash. context_hash v secret = Inr hash \<and> context_verify secret hash = Inr True \<and>
    context_verify other hash = Inr (derived_key other v = derived_key secret v)"
  using assms by (rule password_verifies_run)

theorem password_verifies_witness:
  "\<exists>hash. context_hash 0 ''correct horse'' = Inr hash \<and> context_verify ''correct horse'' hash = Inr True"
proof -
  have "length ''correct horse'' \<le> MAX_PASSWORD_SIZE" by (simp add: MAX_PASSWORD_SIZE_def)
  from password_verifies [OF this this, of 0] show ?thesis by blast
qed

section \<open>The salt\<close>

lemma low_bits_div_mod:
  assumes "j + 8 \<le> k"
  shows "n mod 2 ^ k div 2 ^ j mod 256 = n div 2 ^ j mod (256 :: nat)"
proof -
  have "take_bit 8 (drop_bit j (take_bit k n)) = take_bit 8 (drop_bit j n)"
    using assms by (intro bit_eqI) (auto simp: bit_take_bit_iff bit_drop_bit_eq)
  then show ?thesis by (simp add: take_bit_eq_mod drop_bit_eq_div)
qed

text \<open>
  The salt of a password hash has 53 bits of randomness, not the 128 of its 16 bytes: the
  generator shifts the random number by three bits per byte, so neighbouring bytes overlap and
  only the low 53 bits of the random number matter.
\<close>

theorem salt_has_53_bits:
  "getrandbytes value default_salt_size = getrandbytes (value mod 2 ^ 53) default_salt_size"
proof -
  have "value mod 2 ^ 53 div 2 ^ (3 * i) mod 256 = value div 2 ^ (3 * i) mod 256"
    if "i < 16" for i
    using that by (intro low_bits_div_mod) simp
  then show ?thesis by (simp add: getrandbytes_def default_salt_size_def)
qed

section \<open>The constant-time comparison\<close>

lemma xor_zero_iff: "a XOR b = 0 \<longleftrightarrow> a = b" for a b :: nat
proof
  assume z: "a XOR b = 0"
  have "a = (a XOR b) XOR b" by (simp add: xor.assoc)
  then show "a = b" using z by simp
qed simp

lemma or_zero_iff: "a OR b = 0 \<longleftrightarrow> a = 0 \<and> b = 0" for a b :: nat
  by (rule or_eq_0_iff)

lemma consteq_fold:
  "foldl (\<lambda>r (a, b). r OR (of_char a XOR of_char b :: nat)) s xs = 0 \<longleftrightarrow>
     s = 0 \<and> (\<forall>(a, b) \<in> set xs. a = b)"
  by (induction xs arbitrary: s) (auto simp: or_zero_iff xor_zero_iff)

lemma str_consteq_eq: "str_consteq left right \<longleftrightarrow> left = right"
proof (cases "length left = length right")
  case True
  then have "(\<forall>(a, b) \<in> set (zip left right). a = b) \<longleftrightarrow> left = right"
    by (auto simp: list_eq_iff_nth_eq set_zip)
  with True show ?thesis by (simp add: str_consteq_def consteq_fold)
next
  case False
  then show ?thesis by (auto simp: str_consteq_def consteq_fold)
qed

end
