(* ===== verification/Headers.thy ===== *)
theory Headers
  imports Prelude
begin

text \<open>
  The header multidict of the vendored starlette (datastructures.py, classes Headers and
  MutableHeaders), through which the CORS middleware reads requests and writes responses.  A
  header list holds lower-case names, as ASGI delivers them, with their values in order.
\<close>

section \<open>Lower case\<close>

definition lower_char :: "char \<Rightarrow> char" where
  "lower_char c = (let n = of_char c :: nat
     in if 65 \<le> n \<and> n \<le> 90 \<or> 192 \<le> n \<and> n \<le> 222 \<and> n \<noteq> 215 then char_of (n + 32) else c)"

definition lower :: "string \<Rightarrow> string" where
  "lower s = map lower_char s"

lemma lower_char_idem: "lower_char (lower_char c) = lower_char c"
proof -
  let ?n = "of_char c :: nat"
  have *: "lower_char (char_of (?n + 32)) = (char_of (?n + 32) :: char)"
    if "65 \<le> ?n \<and> ?n \<le> 90 \<or> 192 \<le> ?n \<and> ?n \<le> 222 \<and> ?n \<noteq> 215"
  proof -
    have "(of_char (char_of (?n + 32)) :: nat) = ?n + 32" using that by auto
    then show ?thesis using that by (auto simp: lower_char_def Let_def)
  qed
  show ?thesis
  proof (cases "65 \<le> ?n \<and> ?n \<le> 90 \<or> 192 \<le> ?n \<and> ?n \<le> 222 \<and> ?n \<noteq> 215")
    case True
    then have "lower_char c = char_of (?n + 32)" by (simp add: lower_char_def)
    with * [OF True] show ?thesis by simp
  next
    case False
    then have "lower_char c = c" by (auto simp: lower_char_def Let_def)
    then show ?thesis by simp
  qed
qed

lemma lower_idem [simp]: "lower (lower s) = lower s"
  by (simp add: lower_def lower_char_idem)

section \<open>Headers\<close>

type_synonym headers = "(string \<times> string) list"

definition hdr_keys :: "headers \<Rightarrow> string list" where
  "hdr_keys hs = map fst hs"

definition hdr_values :: "headers \<Rightarrow> string list" where
  "hdr_values hs = map snd hs"

definition hdr_items :: "headers \<Rightarrow> headers" where
  "hdr_items hs = map (\<lambda>(k, v). (k, v)) hs"

definition hdr_getlist :: "headers \<Rightarrow> string \<Rightarrow> string list" where
  "hdr_getlist hs key = map snd (filter (\<lambda>kv. fst kv = lower key) hs)"

fun hdr_find :: "string \<Rightarrow> headers \<Rightarrow> string option" where
  "hdr_find k [] = None"
| "hdr_find k ((k', v) # hs) = (if k' = k then Some v else hdr_find k hs)"

definition hdr_getitem :: "headers \<Rightarrow> string \<Rightarrow> string result" where
  "hdr_getitem hs key = (case hdr_find (lower key) hs of None \<Rightarrow> Inl (KeyError key) | Some v \<Rightarrow> Inr v)"

definition hdr_contains :: "headers \<Rightarrow> string \<Rightarrow> bool" where
  "hdr_contains hs key \<longleftrightarrow> list_ex (\<lambda>kv. fst kv = lower key) hs"

text \<open>\<open>Mapping.get\<close>\<close>

definition hdr_get :: "headers \<Rightarrow> string \<Rightarrow> string option" where
  "hdr_get hs key = (case hdr_getitem hs key of Inl _ \<Rightarrow> None | Inr v \<Rightarrow> Some v)"

section \<open>MutableHeaders\<close>

text \<open>\<open>del l[i]\<close>, and the indices at which a key occurs, in increasing order.\<close>

definition del_at :: "nat \<Rightarrow> 'a list \<Rightarrow> 'a list" where
  "del_at i xs = take i xs @ drop (Suc i) xs"

definition found_indexes :: "string \<Rightarrow> headers \<Rightarrow> nat list" where
  "found_indexes k hs = map fst (filter (\<lambda>(i, kv). fst kv = k) (enumerate 0 hs))"

definition hdr_setitem :: "headers \<Rightarrow> string \<Rightarrow> string \<Rightarrow> headers" where
  "hdr_setitem hs key v =
     (let set_key = lower key;
          found = found_indexes set_key hs;
          hs' = foldl (\<lambda>l i. del_at i l) hs (rev (tl found))
      in if found \<noteq> [] then hs'[hd found := (set_key, v)] else hs' @ [(set_key, v)])"

definition hdr_delitem :: "headers \<Rightarrow> string \<Rightarrow> headers" where
  "hdr_delitem hs key = foldl (\<lambda>l i. del_at i l) hs (rev (found_indexes (lower key) hs))"

definition hdr_setdefault :: "headers \<Rightarrow> string \<Rightarrow> string \<Rightarrow> string \<times> headers" where
  "hdr_setdefault hs key v =
     (case hdr_find (lower key) hs of
        Some x \<Rightarrow> (x, hs)
      | None \<Rightarrow> (v, hs @ [(lower key, v)]))"

definition hdr_update :: "headers \<Rightarrow> headers \<Rightarrow> headers" where
  "hdr_update hs other = foldl (\<lambda>l (k, v). hdr_setitem l k v) hs other"

definition hdr_append :: "headers \<Rightarrow> string \<Rightarrow> string \<Rightarrow> headers" where
  "hdr_append hs key v = hs @ [(lower key, v)]"

definition hdr_add_vary :: "headers \<Rightarrow> string \<Rightarrow> headers" where
  "hdr_add_vary hs vary =
     (case hdr_get hs ''vary'' of
        None \<Rightarrow> hdr_setitem hs ''vary'' vary
      | Some existing \<Rightarrow> hdr_setitem hs ''vary'' (existing @ '', '' @ vary))"

section \<open>Deleting by index\<close>

lemma enumerate_shift: "filter P (enumerate (Suc n) xs) = map (\<lambda>(i, x). (Suc i, x))
    (filter (\<lambda>(i, x). P (Suc i, x)) (enumerate n xs))"
  by (induction xs arbitrary: n) auto

lemma found_indexes_Cons:
  "found_indexes k ((k', v) # hs) = (if k' = k then [0] else []) @ map Suc (found_indexes k hs)"
proof -
  have "map fst (filter (\<lambda>(i, kv). fst kv = k) (enumerate (Suc 0) hs)) = map Suc (found_indexes k hs)"
    unfolding enumerate_shift found_indexes_def by (simp add: case_prod_unfold comp_def)
  then show ?thesis by (simp add: found_indexes_def)
qed

lemma found_indexes_Nil [simp]: "found_indexes k [] = []"
  by (simp add: found_indexes_def)

lemma del_at_Suc: "del_at (Suc i) (x # xs) = x # del_at i xs"
  by (simp add: del_at_def)

lemma del_all_Suc: "foldl (\<lambda>l i. del_at i l) (x # xs) (map Suc is) = x # foldl (\<lambda>l i. del_at i l) xs is"
  by (induction "is" arbitrary: xs) (simp_all add: del_at_Suc)

lemma del_all_found:
  "foldl (\<lambda>l i. del_at i l) hs (rev (found_indexes k hs)) = filter (\<lambda>kv. fst kv \<noteq> k) hs"
proof (induction hs)
  case (Cons kv hs)
  obtain k' v where kv: "kv = (k', v)" by fastforce
  have "foldl (\<lambda>l i. del_at i l) (kv # hs) (rev (map Suc (found_indexes k hs))) =
      kv # filter (\<lambda>kv. fst kv \<noteq> k) hs"
    unfolding rev_map del_all_Suc Cons.IH ..
  then show ?case by (simp add: kv found_indexes_Cons del_at_def)
qed simp

text \<open>What assigning does: the first entry of the key is replaced, the others go.\<close>

fun set_first :: "string \<Rightarrow> string \<Rightarrow> headers \<Rightarrow> headers" where
  "set_first k v [] = [(k, v)]"
| "set_first k v ((k', w) # hs) =
     (if k' = k then (k, v) # filter (\<lambda>kv. fst kv \<noteq> k) hs else (k', w) # set_first k v hs)"

lemma hdr_setitem_set_first: "hdr_setitem hs key v = set_first (lower key) v hs"
proof (induction hs)
  case Nil
  show ?case by (simp add: hdr_setitem_def)
next
  case (Cons kv hs)
  let ?k = "lower key" and ?f = "found_indexes (lower key) hs"
  obtain k' w where kv: "kv = (k', w)" by fastforce
  show ?case
  proof (cases "k' = ?k")
    case True
    have "foldl (\<lambda>l i. del_at i l) (kv # hs) (rev (map Suc ?f)) = kv # filter (\<lambda>kv. fst kv \<noteq> ?k) hs"
      unfolding rev_map del_all_Suc del_all_found ..
    with True show ?thesis by (simp add: hdr_setitem_def found_indexes_Cons kv Let_def)
  next
    case False
    have tl: "tl (map Suc ?f) = map Suc (tl ?f)" by (cases ?f) simp_all
    have "foldl (\<lambda>l i. del_at i l) (kv # hs) (rev (tl (map Suc ?f))) =
        kv # foldl (\<lambda>l i. del_at i l) hs (rev (tl ?f))"
      unfolding tl rev_map del_all_Suc ..
    then show ?thesis
      using False Cons.IH
      by (cases ?f) (simp_all add: hdr_setitem_def found_indexes_Cons kv Let_def)
  qed
qed

lemma hdr_delitem_filter: "hdr_delitem hs key = filter (\<lambda>kv. fst kv \<noteq> lower key) hs"
  by (simp add: hdr_delitem_def del_all_found)

section \<open>The contract of a header multidict\<close>

text \<open>
  What the middleware relies on: after an assignment the key has exactly the assigned value,
  under any spelling of its case, and every other key has what it had.
\<close>

locale multidict =
  fixes getlist :: "'h \<Rightarrow> string \<Rightarrow> string list"
    and setitem :: "'h \<Rightarrow> string \<Rightarrow> string \<Rightarrow> 'h"
    and norm_key :: "string \<Rightarrow> string"
  assumes set_same: "norm_key k = norm_key k' \<Longrightarrow> getlist (setitem h k v) k' = [v]"
    and set_other: "norm_key k \<noteq> norm_key k' \<Longrightarrow> getlist (setitem h k v) k' = getlist h k'"
begin

definition assign_all :: "'h \<Rightarrow> (string \<times> string) list \<Rightarrow> 'h" where
  "assign_all h kvs = foldl (\<lambda>l (k, v). setitem l k v) h kvs"

lemma assign_all_untouched:
  "norm_key k \<notin> norm_key ` fst ` set kvs \<Longrightarrow> getlist (assign_all h kvs) k = getlist h k"
proof (induction kvs arbitrary: h)
  case (Cons kv kvs)
  then show ?case by (cases kv) (auto simp: assign_all_def set_other)
qed (simp add: assign_all_def)

lemma assign_all_last:
  "norm_key k \<notin> norm_key ` fst ` set kvs' \<Longrightarrow>
     getlist (assign_all h (kvs @ (k, v) # kvs')) k = [v]"
  using assign_all_untouched [of k kvs'] by (simp add: assign_all_def set_same)

lemma set_twice: "getlist (setitem (setitem h k v) k w) k' = getlist (setitem h k w) k'"
  by (cases "norm_key k = norm_key k'") (simp_all add: set_same set_other)

end

lemma set_first_getlist:
  "map snd (filter (\<lambda>kv. fst kv = k') (set_first k v hs)) =
     (if k' = k then [v] else map snd (filter (\<lambda>kv. fst kv = k') hs))"
proof (induction hs)
  case (Cons kv hs)
  have "filter (\<lambda>kv. fst kv = k') (filter (\<lambda>kv. fst kv \<noteq> k) hs) = filter (\<lambda>kv. fst kv = k') hs"
    if "k' \<noteq> k"
    using that by (auto simp: filter_filter intro: filter_cong)
  with Cons show ?case by (cases kv) (auto simp: filter_empty_conv)
qed simp

interpretation mutable_headers: multidict hdr_getlist hdr_setitem lower
  by unfold_locales (simp_all add: hdr_getlist_def hdr_setitem_set_first set_first_getlist)

lemma hdr_update_assign: "hdr_update = mutable_headers.assign_all"
  by (intro ext) (simp add: hdr_update_def mutable_headers.assign_all_def)

lemma hdr_get_getlist: "hdr_get hs k = (case hdr_getlist hs k of [] \<Rightarrow> None | v # _ \<Rightarrow> Some v)"
proof -
  have "hdr_find k' hs = (case map snd (filter (\<lambda>kv. fst kv = k') hs) of [] \<Rightarrow> None | v # _ \<Rightarrow> Some v)" for k'
    by (induction hs) auto
  then show ?thesis
    by (simp add: hdr_get_def hdr_getitem_def hdr_getlist_def split: option.splits list.splits)
qed

text \<open>
  Assigning a header, written with deletions by index, is the multidict operation it stands
  for: the first entry of the key, in any spelling, takes the new value where it was, its other
  entries disappear, and an absent key is appended; no other header moves or changes.
\<close>

theorem setitem_refines:
  "hdr_setitem hs key v = set_first (lower key) v hs \<and>
   hdr_getlist (hdr_setitem hs key v) key = [v] \<and>
   filter (\<lambda>kv. fst kv \<noteq> lower key) (hdr_setitem hs key v) = filter (\<lambda>kv. fst kv \<noteq> lower key) hs"
proof -
  have "filter (\<lambda>kv. fst kv \<noteq> k) (set_first k v hs) = filter (\<lambda>kv. fst kv \<noteq> k) hs" for k
    by (induction hs) auto
  then show ?thesis by (simp add: hdr_setitem_set_first mutable_headers.set_same [unfolded hdr_setitem_set_first])
qed

end
