(* ===== verification/Auth.thy ===== *)
theory Auth
  imports Devices Jose Passlib Headers
begin

text \<open>
  app/modules/auth_service (schemas.py, oauth.py, router.py): registering a user, logging in,
  access tokens and the dependency that authenticates a request, over the models of python-jose
  (Jose) and passlib (Passlib).  Two things are parameters: \<open>email\<close>, the validation and
  normalisation of an \<open>EmailStr\<close> (package email-validator, which is not in the repository), and
  \<open>foreign\<close>, the key classes of jose other than the HMAC one.  The number drawn for a salt is an
  argument of the operation that draws it.
\<close>

section \<open>schemas.py\<close>

definition UserRegisterRequest :: "(string \<Rightarrow> string option) \<Rightarrow> string \<Rightarrow> string result" where
  "UserRegisterRequest email address =
     (case email address of None \<Rightarrow> Inl (ValidationError ''email'') | Some e \<Rightarrow> Inr e)"

definition UserLoginRequest :: "(string \<Rightarrow> string option) \<Rightarrow> string \<Rightarrow> string result" where
  "UserLoginRequest email address =
     (case email address of None \<Rightarrow> Inl (ValidationError ''email'') | Some e \<Rightarrow> Inr e)"

record UserOut =
  out_id :: string
  out_email :: string

definition user_out :: "User \<Rightarrow> UserOut" where
  "user_out u = \<lparr> out_id = usr_id u, out_email = usr_email u \<rparr>"

record TokenResponse =
  access_token :: string
  token_type :: string

section \<open>oauth.py\<close>

definition hash_password :: "nat \<Rightarrow> string \<Rightarrow> string result" where
  "hash_password value plain = context_hash value plain"

definition verify_password :: "string \<Rightarrow> string \<Rightarrow> bool result" where
  "verify_password plain hashed = context_verify plain hashed"

definition create_access_token ::
    "(json \<Rightarrow> string \<Rightarrow> jwk_key result) \<Rightarrow> string \<Rightarrow> string handler" where
  "create_access_token foreign user_id = (\<lambda>w.
     (let expire = clock w + ACCESS_TOKEN_EXPIRE_MINUTES (config w) * 60 * usec;
          payload = [(''sub'', ClaimStr user_id), (''exp'', ClaimTime expire)]
      in (jwt_encode foreign payload (JStr (SECRET_KEY (config w))) (ALGORITHM (config w)) None, w)))"

text \<open>The subject jose has validated is a string or absent.\<close>

definition decode_token :: "(json \<Rightarrow> string \<Rightarrow> jwk_key result) \<Rightarrow> string \<Rightarrow> string handler" where
  "decode_token foreign token = (\<lambda>w.
     (case jwt_decode foreign (clock w) token (JStr (SECRET_KEY (config w)))
             (Some [ALGORITHM (config w)]) [] (LeewaySeconds 0) no_expectations of
        Inl (JWTError _) \<Rightarrow> (Inl (Unauthorized ''Invalid or expired token''), w)
      | Inl e \<Rightarrow> (Inl e, w)
      | Inr payload \<Rightarrow>
          (case map_of payload ''sub'' of
             Some (JStr user_id) \<Rightarrow>
               if user_id = [] then (Inl (Unauthorized ''Not authenticated''), w)
               else (Inr user_id, w)
           | _ \<Rightarrow> (Inl (Unauthorized ''Not authenticated''), w))))"

definition find_user :: "(User \<Rightarrow> bool) \<Rightarrow> User option handler" where
  "find_user p = select_one users p"

definition get_current_user :: "(json \<Rightarrow> string \<Rightarrow> jwk_key result) \<Rightarrow> string \<Rightarrow> User handler" where
  "get_current_user foreign token =
     bindE (decode_token foreign token) (\<lambda>user_id.
     bindE (find_user (\<lambda>u. usr_id u = user_id)) (\<lambda>user.
       case user of
         None \<Rightarrow> raise (Unauthorized ''User no longer exists'')
       | Some u \<Rightarrow> ret u))"

text \<open>
  The credentials of a login, with the message each of the two routers answers when they do not
  hold; the password is verified only when the user exists.
\<close>

definition authenticate :: "string \<Rightarrow> string \<Rightarrow> string \<Rightarrow> User handler" where
  "authenticate detail address password =
     bindE (find_user (\<lambda>u. usr_email u = address)) (\<lambda>user.
       case user of
         None \<Rightarrow> raise (Unauthorized detail)
       | Some u \<Rightarrow>
           bindE (lift (verify_password password (usr_hashed_password u))) (\<lambda>ok.
             if ok then ret u else raise (Unauthorized detail)))"

definition login :: "(json \<Rightarrow> string \<Rightarrow> jwk_key result) \<Rightarrow> string \<Rightarrow> string \<Rightarrow> TokenResponse handler" where
  "login foreign username password =
     bindE (authenticate ''Invalid credentials'' username password) (\<lambda>u.
     bindE (create_access_token foreign (usr_id u)) (\<lambda>t.
       ret \<lparr> access_token = t, token_type = ''bearer'' \<rparr>))"

definition create_user :: "nat \<Rightarrow> string \<Rightarrow> string \<Rightarrow> User handler" where
  "create_user value address password =
     bindE (find_user (\<lambda>u. usr_email u = address)) (\<lambda>existing.
       case existing of
         Some _ \<Rightarrow> raise (ConflictError ''Email already registered'')
       | None \<Rightarrow>
           bindE (lift (hash_password value password)) (\<lambda>hashed.
           bindE uuid4 (\<lambda>i.
           bindE now_utc (\<lambda>t.
             let user = \<lparr> usr_id = i, usr_email = address, usr_hashed_password = hashed,
                   usr_created_at = t \<rparr>
             in andThen (add_user user) (ret user)))))"

definition register :: "(string \<Rightarrow> string option) \<Rightarrow> nat \<Rightarrow> string \<Rightarrow> string \<Rightarrow> UserOut handler" where
  "register email value address password =
     bindE (lift (UserRegisterRequest email address)) (\<lambda>e.
     bindE (create_user value e password) (\<lambda>u. ret (user_out u)))"

section \<open>router.py\<close>

text \<open>The same endpoints with JSON bodies; this router is not mounted by main.py.\<close>

definition router_register :: "(string \<Rightarrow> string option) \<Rightarrow> nat \<Rightarrow> string \<Rightarrow> string \<Rightarrow> UserOut handler" where
  "router_register email value address password =
     bindE (lift (UserRegisterRequest email address)) (\<lambda>e.
     bindE (create_user value e password) (\<lambda>u. ret (user_out u)))"

definition router_login ::
    "(string \<Rightarrow> string option) \<Rightarrow> (json \<Rightarrow> string \<Rightarrow> jwk_key result) \<Rightarrow> string \<Rightarrow> string \<Rightarrow>
      TokenResponse handler" where
  "router_login email foreign address password =
     bindE (lift (UserLoginRequest email address)) (\<lambda>e.
     bindE (authenticate ''Invalid email or password'' e password) (\<lambda>u.
     bindE (create_access_token foreign (usr_id u)) (\<lambda>t.
       ret \<lparr> access_token = t, token_type = ''bearer'' \<rparr>)))"

definition me :: "(json \<Rightarrow> string \<Rightarrow> jwk_key result) \<Rightarrow> string \<Rightarrow> UserOut handler" where
  "me foreign token = bindE (get_current_user foreign token) (\<lambda>u. ret (user_out u))"

section \<open>The bearer token of a request (fastapi/security)\<close>

text \<open>\<open>get_authorization_scheme_param\<close>: the text before and after the first space.\<close>

definition authorization_scheme_param :: "string option \<Rightarrow> string \<times> string" where
  "authorization_scheme_param header =
     (case header of
        None \<Rightarrow> ([], [])
      | Some h \<Rightarrow>
          (case split_once (CHR '' '') h of None \<Rightarrow> (h, []) | Some p \<Rightarrow> p))"

definition oauth2_scheme :: "string option \<Rightarrow> string result" where
  "oauth2_scheme authorization =
     (case authorization_scheme_param authorization of
        (scheme, param) \<Rightarrow>
          if authorization = None \<or> authorization = Some [] \<or> lower scheme \<noteq> ''bearer''
          then Inl (HTTPException 401 ''Not authenticated'') else Inr param)"

text \<open>
  A request of an authenticated endpoint: the token is taken from the header, the user is looked
  up in the session of the request, and the endpoint runs in the same session.
\<close>

definition authenticated ::
    "(json \<Rightarrow> string \<Rightarrow> jwk_key result) \<Rightarrow> string option \<Rightarrow> (User \<Rightarrow> 'a handler) \<Rightarrow> 'a handler" where
  "authenticated foreign authorization endpoint =
     bindE (lift (oauth2_scheme authorization)) (\<lambda>token.
       get_db (bindE (get_current_user foreign token) endpoint))"

section \<open>The secret of the settings\<close>

definition token_secret :: "settings \<Rightarrow> hash_alg \<Rightarrow> bool" where
  "token_secret cfg h \<longleftrightarrow> hmac_secret (SECRET_KEY cfg) (ALGORITHM cfg) h"

lemma default_key_not_json: "loads_with text_hooks ''change-me-in-production'' = Inl (ValueError ''JSONDecodeError'')"
  by (simp add: loads_with_def skip_space_def is_json_space_def starts_with_def scan_number_def
      scan_int_part_def is_digit_def scan_literal_def)

lemma contains_text_first:
  "p \<noteq> [] \<Longrightarrow> hd p \<notin> set s \<Longrightarrow> \<not> contains_text p s"
proof -
  assume p: "p \<noteq> []" "hd p \<notin> set s"
  have "\<not> starts_with p (drop i s)" for i
  proof
    assume "starts_with p (drop i s)"
    then obtain r where "drop i s = p @ r" by (auto simp: starts_with_iff)
    then have "hd p \<in> set (drop i s)" using p(1) by simp
    with p(2) show False by (auto dest: in_set_dropD)
  qed
  then show "\<not> contains_text p s" by (simp add: contains_text_def list_ex_iff)
qed

lemma default_token_secret: "token_secret (default_settings tmp) sha256"
proof -
  have utf: "encode_utf8 ''change-me-in-production'' = ''change-me-in-production''"
    by (simp add: encode_utf8_def utf8_char_def)
  have "\<not> contains_text m ''change-me-in-production''" if "m \<in> set asymmetric_markers" for m
    using that by (auto simp: asymmetric_markers_def contains_text_def starts_with_def upt_rec)
  then have "\<not> list_ex (\<lambda>m. contains_text m ''change-me-in-production'') asymmetric_markers"
    by (simp only: list_ex_iff not_False_eq_True) blast
  then show ?thesis
    by (simp add: token_secret_def hmac_secret_def default_settings_def hmac_hashes_def HMACKey_def
        utf Let_def get_keys_def default_key_not_json)
qed

section \<open>Tokens\<close>

definition expiry :: "world \<Rightarrow> int" where
  "expiry w = timegm (clock w + ACCESS_TOKEN_EXPIRE_MINUTES (config w) * 60 * usec)"

lemma access_claims_valid:
  "validate_claims now [(''sub'', JStr u), (''exp'', JInt n)] no_expectations a jwt_defaults (LeewaySeconds 0) =
     (if n < timegm now then Inl (JWTError ''Signature has expired.'') else Inr ())"
  by (simp add: validate_claims_defaults no_expectations_def validate_iat_def validate_nbf_def
      validate_exp_def validate_aud_def validate_iss_def validate_sub_def validate_jti_def
      validate_at_hash_def int_claim_def)

lemma create_access_token_run:
  assumes "token_secret (config w) h"
  shows "\<exists>t. create_access_token foreign u w = (Inr t, w) \<and>
    (\<forall>w'. config w' = config w \<longrightarrow> decode_token foreign t w' =
       (if expiry w < timegm (clock w') then (Inl (Unauthorized ''Invalid or expired token''), w')
        else if u = [] then (Inl (Unauthorized ''Not authenticated''), w') else (Inr u, w')))"
proof -
  let ?claims = "[(''sub'', ClaimStr u),
    (''exp'', ClaimTime (clock w + ACCESS_TOKEN_EXPIRE_MINUTES (config w) * 60 * usec))]"
  have conv: "map convert_time_claim ?claims = [(''sub'', ClaimStr u), (''exp'', ClaimInt (expiry w))]"
    by (simp add: convert_time_claim_def expiry_def)
  obtain body where body: "dumps_compact (map convert_time_claim ?claims) = Inr body"
    unfolding conv by (simp add: dumps_compact_def)
  have dist: "distinct (map fst ?claims)" by simp
  obtain t where enc: "jwt_encode foreign ?claims (JStr (SECRET_KEY (config w))) (ALGORITHM (config w)) None = Inr t"
    and dec: "\<And>now lw ex. jwt_decode foreign now t (JStr (SECRET_KEY (config w))) (Some [ALGORITHM (config w)]) [] lw ex =
       (let cs = map (apsnd claim_json) (map convert_time_claim ?claims)
        in map_sum id (\<lambda>_. cs) (validate_claims now cs ex (ALGORITHM (config w)) jwt_defaults lw))"
    using jwt_decode_encode [OF assms [unfolded token_secret_def] dist body] by blast
  have dec': "jwt_decode foreign now t (JStr (SECRET_KEY (config w))) (Some [ALGORITHM (config w)]) []
        (LeewaySeconds 0) no_expectations =
      (if expiry w < timegm now then Inl (JWTError ''Signature has expired.'')
       else Inr [(''sub'', JStr u), (''exp'', JInt (expiry w))])" for now
    unfolding dec conv Let_def by (simp add: access_claims_valid)
  have "create_access_token foreign u w = (Inr t, w)"
    using enc by (simp add: create_access_token_def Let_def)
  moreover have "decode_token foreign t w' =
       (if expiry w < timegm (clock w') then (Inl (Unauthorized ''Invalid or expired token''), w')
        else if u = [] then (Inl (Unauthorized ''Not authenticated''), w') else (Inr u, w'))"
    if "config w' = config w" for w'
    unfolding decode_token_def that dec' by simp
  ultimately show ?thesis by blast
qed

text \<open>
  C15: An access token names its user until it expires, and no longer: decoded by a server with the
  same settings, it gives the user it was created for up to and including the second of its expiry,
  and is refused with 401 from the next second on.  (That the second itself is still accepted is
  what \<open>_validate_exp\<close> does, \<open>exp < now - leeway\<close>, and not what its docstring says, which forbids it
  on or after that time.)
\<close>

theorem access_token_lifetime:
  assumes secret: "token_secret (config w) h" and same: "config w' = config w" and u: "u \<noteq> []"
  shows "\<exists>t. create_access_token foreign u w = (Inr t, w) \<and>
    decode_token foreign t w' =
      (if expiry w < timegm (clock w') then Inl (Unauthorized ''Invalid or expired token'') else Inr u, w')"
proof -
  from create_access_token_run [OF secret, of foreign u]
  obtain t where "create_access_token foreign u w = (Inr t, w)"
    and dec: "\<forall>w'. config w' = config w \<longrightarrow> decode_token foreign t w' =
       (if expiry w < timegm (clock w') then (Inl (Unauthorized ''Invalid or expired token''), w')
        else if u = [] then (Inl (Unauthorized ''Not authenticated''), w') else (Inr u, w'))"
    by blast
  moreover from dec same u have "decode_token foreign t w' =
      (if expiry w < timegm (clock w') then Inl (Unauthorized ''Invalid or expired token'') else Inr u, w')"
    by simp
  ultimately show ?thesis by blast
qed

lemma sample_world_config [simp]: "config (sample_world t d) = default_settings ''/tmp''"
  "clock (sample_world t d) = t" "working (sample_world t d) = d" "committed (sample_world t d) = d"
  "uuid_next (sample_world t d) = 0" "uuids (sample_world t d) = ids_stream"
  by (simp_all add: sample_world_def)

lemma sample_expiry: "expiry (sample_world 0 d) = 86400"
  by (simp add: expiry_def timegm_def default_settings_def usec_def)

theorem access_token_lifetime_witness:
  "\<exists>t. fst (create_access_token (\<lambda>k a. Inl (JWKError a)) ''a'' (sample_world 0 sample_db)) = Inr t \<and>
     fst (decode_token (\<lambda>k a. Inl (JWKError a)) t (sample_world (86400 * usec) sample_db)) = Inr ''a''"
proof -
  have "token_secret (config (sample_world 0 sample_db)) sha256"
    by (simp only: sample_world_config default_token_secret)
  from access_token_lifetime [OF this, of "sample_world (86400 * usec) sample_db" "''a''"]
  obtain t where "create_access_token (\<lambda>k a. Inl (JWKError a)) ''a'' (sample_world 0 sample_db) =
      (Inr t, sample_world 0 sample_db)"
    "decode_token (\<lambda>k a. Inl (JWKError a)) t (sample_world (86400 * usec) sample_db) =
      (if expiry (sample_world 0 sample_db) < timegm (86400 * usec)
       then Inl (Unauthorized ''Invalid or expired token'') else Inr ''a'',
       sample_world (86400 * usec) sample_db)"
    by (simp only: sample_world_config) blast
  moreover have "timegm (86400 * usec) = 86400" by (simp add: timegm_def usec_def)
  ultimately show ?thesis by (intro exI [of _ t]) (simp add: sample_expiry)
qed

section \<open>Requests\<close>

lemma find_user_unique:
  assumes "db_wf (working w)"
  shows "find_user (\<lambda>u. usr_email u = a) w =
      (Inr (map_of (map (\<lambda>u. (usr_email u, u)) (users (working w))) a), w)"
    "find_user (\<lambda>u. usr_id u = i) w =
      (Inr (map_of (map (\<lambda>u. (usr_id u, u)) (users (working w))) i), w)"
  using assms
  by (simp_all add: find_user_def select_one_run scalar_unique_key db_wf_def)

text \<open>
  C6: Nobody is authenticated by a token the server did not sign: when the bearer token of a
  request is accepted, its header names the algorithm of the settings, its signature is the HMAC of
  its header and payload under the secret of the settings, its expiry time, if it has one, is not
  past, and the user it names exists; the request then runs as that user.
\<close>

theorem authenticated_user_signed:
  assumes secret: "token_secret (config w) h"
    and ok: "get_current_user foreign token w = (Inr u, w')"
  shows "w' = w \<and> u \<in> set (users (working w)) \<and>
    (\<exists>p claims. jws_load token = Inr p \<and>
       jws_signature p = hmac_digest h (encode_utf8 (SECRET_KEY (config w))) (jws_signing_input p) \<and>
       map_of (jws_header p) ''alg'' = Some (JStr (ALGORITHM (config w))) \<and>
       object_of_payload ''payload'' (jws_payload p) = Inr claims \<and>
       map_of claims ''sub'' = Some (JStr (usr_id u)) \<and>
       (\<exists>e. int_claim claims ''exp'' ''Expiration Time claim (exp) must be an integer.'' = Inr e \<and>
          (e = None \<or> timegm (clock w) \<le> the e)))"
proof -
  obtain i where i: "decode_token foreign token w = (Inr i, w)"
    and f: "find_user (\<lambda>x. usr_id x = i) w = (Inr (Some u), w')"
    using ok by (auto simp: get_current_user_def bindE_run decode_token_def
        split: prod.splits sum.splits option.splits exn.splits json.splits if_splits)
  from f have u: "u \<in> set (users (working w))" "usr_id u = i" "w' = w"
    by (auto simp: find_user_def select_one_run dest: scalar_Some)
  obtain claims where claims: "jwt_decode foreign (clock w) token (JStr (SECRET_KEY (config w)))
      (Some [ALGORITHM (config w)]) [] (LeewaySeconds 0) no_expectations = Inr claims"
    "map_of claims ''sub'' = Some (JStr i)"
    using i by (auto simp: decode_token_def split: sum.splits exn.splits option.splits json.splits if_splits)
  from accepted_token_signed [OF secret [unfolded token_secret_def] claims(1)] u claims(2)
  show ?thesis by blast
qed

theorem authenticated_user_signed_witness:
  "\<exists>t. fst (get_current_user (\<lambda>k a. Inl (JWKError a)) t (sample_world 0 sample_db)) = Inr alice \<and>
     (\<exists>p. jws_load t = Inr p \<and> jws_signature p =
        hmac_digest sha256 (encode_utf8 (SECRET_KEY (default_settings ''/tmp''))) (jws_signing_input p))"
proof -
  let ?f = "\<lambda>k a. Inl (JWKError a)" and ?w = "sample_world 0 sample_db"
  have sec: "token_secret (config ?w) sha256"
    by (simp only: sample_world_config default_token_secret)
  from create_access_token_run [OF sec, of ?f "''a''"]
  obtain t where "decode_token ?f t ?w =
       (if expiry ?w < timegm (clock ?w) then (Inl (Unauthorized ''Invalid or expired token''), ?w)
        else if ''a'' = [] then (Inl (Unauthorized ''Not authenticated''), ?w) else (Inr ''a'', ?w))"
    by blast
  then have "decode_token ?f t ?w = (Inr ''a'', ?w)"
    by (simp add: sample_expiry timegm_def)
  moreover have "find_user (\<lambda>u. usr_id u = ''a'') ?w = (Inr (Some alice), ?w)"
    using sample_db_wf by (simp add: find_user_unique sample_db_def alice_def)
  ultimately have ok: "get_current_user ?f t ?w = (Inr alice, ?w)"
    by (simp add: get_current_user_def bindE_run)
  from authenticated_user_signed [OF sec ok] ok show ?thesis
    by (intro exI [of _ t]) auto
qed

definition new_user :: "world \<Rightarrow> string \<Rightarrow> string \<Rightarrow> User" where
  "new_user w e hashed = \<lparr> usr_id = uuids w (uuid_next w), usr_email = e,
     usr_hashed_password = hashed, usr_created_at = clock w \<rparr>"

lemma map_of_key:
  "x \<in> set xs \<Longrightarrow> distinct (map k xs) \<Longrightarrow> map_of (map (\<lambda>x. (k x, x)) xs) (k x) = Some x"
  by (induction xs) (auto simp: image_iff)

lemma create_user_existing:
  assumes "db_wf (working w)" "e \<in> usr_email ` set (users (working w))"
  shows "create_user v e password w = (Inl (ConflictError ''Email already registered''), w)"
proof -
  have "map_of (map (\<lambda>u. (usr_email u, u)) (users (working w))) e \<noteq> None"
    using assms(2) by (auto simp: map_of_eq_None_iff image_iff)
  then show ?thesis
    using assms(1) by (auto simp: create_user_def bindE_run find_user_unique)
qed

lemma create_user_new:
  assumes "db_wf (working w)" "e \<notin> usr_email ` set (users (working w))"
    "uuids w (uuid_next w) \<notin> usr_id ` set (users (working w))" "context_hash v password = Inr hashed"
  shows "create_user v e password w = (Inr (new_user w e hashed),
     w\<lparr>uuid_next := Suc (uuid_next w), working := users_update (\<lambda>us. us @ [new_user w e hashed]) (working w)\<rparr>)"
proof -
  have "map_of (map (\<lambda>u. (usr_email u, u)) (users (working w))) e = None"
    using assms(2) by (auto simp: map_of_eq_None_iff image_iff)
  moreover have "\<not> list_ex (\<lambda>b. uuids w (uuid_next w) = usr_id b \<or> e = usr_email b) (users (working w))"
    using assms(2,3) by (auto simp: list_ex_iff)
  ultimately show ?thesis
    using assms(1,4)
    by (simp add: create_user_def bindE_run find_user_unique hash_password_def andThen_def
        add_user_def add_row_def new_user_def Let_def)
qed

lemma authenticate_run:
  assumes "db_wf (working w)"
  shows "authenticate detail a password w =
    (case map_of (map (\<lambda>u. (usr_email u, u)) (users (working w))) a of
       None \<Rightarrow> Inl (Unauthorized detail)
     | Some u \<Rightarrow> (case verify_password password (usr_hashed_password u) of
         Inl x \<Rightarrow> Inl x | Inr ok \<Rightarrow> if ok then Inr u else Inl (Unauthorized detail)), w)"
  using assms
  by (simp add: authenticate_def bindE_run find_user_unique split: option.splits sum.splits)

text \<open>
  An address can be registered once: registering an address some user already has is answered
  409 and changes nothing, whatever the password.
\<close>

theorem duplicate_email_refused:
  assumes "db_wf (committed w)" "email address = Some e" "e \<in> usr_email ` set (users (committed w))"
  shows "fst (get_db (register email v address password) w) = Inl (ConflictError ''Email already registered'') \<and>
    committed (snd (get_db (register email v address password) w)) = committed w"
  using create_user_existing [of "w\<lparr>working := committed w\<rparr>" e v password] assms
  by (simp add: get_db_result get_db_committed register_def bindE_run UserRegisterRequest_def)

theorem duplicate_email_refused_witness:
  "fst (get_db (register Some 0 ''a@x'' ''pw'') (sample_world 0 sample_db)) =
     Inl (ConflictError ''Email already registered'')"
proof -
  have "db_wf (committed (sample_world 0 sample_db))" using sample_db_wf by simp
  moreover have "''a@x'' \<in> usr_email ` set (users (committed (sample_world 0 sample_db)))"
    by (simp add: sample_db_def alice_def)
  ultimately show ?thesis
    using duplicate_email_refused [of "sample_world 0 sample_db" Some "''a@x''" "''a@x''" 0 "''pw''"] by blast
qed

text \<open>
  A stored account: a login with its address succeeds exactly with a password that derives its key,
  and the token of that login names the user as long as it is in the table.
\<close>

lemma login_known:
  assumes wf: "db_wf (committed w)" and secret: "token_secret (config w) h"
    and mem: "u \<in> set (users (committed w))"
    and hashed: "context_hash v password = Inr (usr_hashed_password u)"
    and pw: "length password \<le> MAX_PASSWORD_SIZE" "length other \<le> MAX_PASSWORD_SIZE"
  shows "\<exists>t. fst (get_db (login foreign (usr_email u) other) w) =
      (if derived_key other v = derived_key password v then Inr \<lparr> access_token = t, token_type = ''bearer'' \<rparr>
       else Inl (Unauthorized ''Invalid credentials'')) \<and>
    (\<forall>w'. config w' = config w \<longrightarrow> timegm (clock w') \<le> expiry w \<longrightarrow> usr_id u \<noteq> [] \<longrightarrow>
       decode_token foreign t w' = (Inr (usr_id u), w'))"
proof -
  let ?w = "w\<lparr>working := committed w\<rparr>"
  have verify: "context_verify other (usr_hashed_password u) = Inr (derived_key other v = derived_key password v)"
    using password_verifies_run [OF pw, of v] hashed by auto
  have bymail: "map_of (map (\<lambda>x. (usr_email x, x)) (users (committed w))) (usr_email u) = Some u"
    using wf map_of_key [OF mem, of usr_email] by (simp add: db_wf_def)
  have "token_secret (config ?w) h" using secret by simp
  from create_access_token_run [OF this, of foreign "usr_id u"]
  obtain t where t: "create_access_token foreign (usr_id u) ?w = (Inr t, ?w)"
    and dec: "\<forall>w'. config w' = config w \<longrightarrow> decode_token foreign t w' =
       (if expiry ?w < timegm (clock w') then (Inl (Unauthorized ''Invalid or expired token''), w')
        else if usr_id u = [] then (Inl (Unauthorized ''Not authenticated''), w') else (Inr (usr_id u), w'))"
    by auto
  have "expiry ?w = expiry w" by (simp add: expiry_def)
  with dec have "\<forall>w'. config w' = config w \<longrightarrow> timegm (clock w') \<le> expiry w \<longrightarrow> usr_id u \<noteq> [] \<longrightarrow>
       decode_token foreign t w' = (Inr (usr_id u), w')" by simp
  moreover have "fst (get_db (login foreign (usr_email u) other) w) =
      (if derived_key other v = derived_key password v then Inr \<lparr> access_token = t, token_type = ''bearer'' \<rparr>
       else Inl (Unauthorized ''Invalid credentials''))"
    using wf verify t
    by (simp add: get_db_result login_def bindE_run authenticate_run bymail verify_password_def)
  ultimately show ?thesis by blast
qed

lemma token_user:
  assumes wf: "db_wf (committed w)" and mem: "u \<in> set (users (committed w))"
    and dec: "\<And>w'. config w' = config w \<Longrightarrow> clock w' = clock w \<Longrightarrow> decode_token foreign t w' = (Inr (usr_id u), w')"
  shows "fst (get_db (get_current_user foreign t) w) = Inr u"
proof -
  let ?w = "w\<lparr>working := committed w\<rparr>"
  have "map_of (map (\<lambda>x. (usr_id x, x)) (users (committed w))) (usr_id u) = Some u"
    using wf map_of_key [OF mem, of usr_id] by (simp add: db_wf_def)
  then have "find_user (\<lambda>x. usr_id x = usr_id u) ?w = (Inr (Some u), ?w)"
    using find_user_unique(2) [of ?w "usr_id u"] wf by simp
  moreover have d: "decode_token foreign t ?w = (Inr (usr_id u), ?w)" by (rule dec) simp_all
  ultimately have "get_current_user foreign t ?w = (Inr u, ?w)"
    unfolding get_current_user_def
    by (subst bindE_Inr [where m = "decode_token foreign t" and s = ?w, OF d])
      (simp add: bindE_run [of "find_user p" for p])
  then show ?thesis by (simp add: get_db_result)
qed

text \<open>
  C11: Registering, logging in and using the token works end to end: after a registration with a
  new address, a login with the stored address succeeds exactly with a password that derives the
  same key, and the token of the login authenticates the new user.
\<close>

theorem register_login_authenticate:
  assumes wf: "db_wf (committed w)" and secret: "token_secret (config w) h"
    and e: "email address = Some e" "e \<notin> usr_email ` set (users (committed w))"
    and i: "uuids w (uuid_next w) \<notin> usr_id ` set (users (committed w))" "uuids w (uuid_next w) \<noteq> []"
    and pw: "length password \<le> MAX_PASSWORD_SIZE" "length other \<le> MAX_PASSWORD_SIZE"
    and life: "0 \<le> ACCESS_TOKEN_EXPIRE_MINUTES (config w)"
    and w1: "w1 = snd (get_db (register email v address password) w)"
  shows "\<exists>u t. fst (get_db (register email v address password) w) = Inr (user_out u) \<and> usr_email u = e \<and>
    fst (get_db (login foreign e other) w1) =
      (if derived_key other v = derived_key password v then Inr \<lparr> access_token = t, token_type = ''bearer'' \<rparr>
       else Inl (Unauthorized ''Invalid credentials'')) \<and>
    fst (get_db (get_current_user foreign t) w1) = Inr u"
proof -
  let ?w = "w\<lparr>working := committed w\<rparr>"
  obtain hashed where hashed: "context_hash v password = Inr hashed"
    using password_verifies_run [OF pw, of v] by blast
  define u where "u = new_user ?w e hashed"
  define d where "d = users_update (\<lambda>us. us @ [u]) (committed w)"
  have run: "register email v address password ?w =
      (Inr (user_out u), ?w\<lparr>uuid_next := Suc (uuid_next w), working := d\<rparr>)"
    using create_user_new [of ?w e v password hashed] wf e i hashed
    by (simp add: register_def bindE_run UserRegisterRequest_def u_def d_def)
  have reg: "get_db (register email v address password) w =
      (Inr (user_out u), w\<lparr>uuid_next := Suc (uuid_next w), working := d, committed := d\<rparr>)"
    using get_db_Inr [where w = w and body = "register email v address password", OF run] by simp
  then have w1': "w1 = w\<lparr>uuid_next := Suc (uuid_next w), working := d, committed := d\<rparr>"
    using w1 by simp
  have u: "usr_id u = uuids w (uuid_next w)" "usr_email u = e" "usr_hashed_password u = hashed"
    by (simp_all add: u_def new_user_def)
  have wfd: "db_wf d"
    using wf e(2) i(1) by (auto simp: d_def db_wf_def u image_iff)
  have mem: "u \<in> set (users d)" by (simp add: d_def)
  have w1s: "committed w1 = d" "config w1 = config w" "clock w1 = clock w" by (simp_all add: w1')
  have "timegm (clock w) \<le> timegm (clock w + ACCESS_TOKEN_EXPIRE_MINUTES (config w) * 60 * usec)"
    unfolding timegm_def using life by (intro zdiv_mono1) (simp_all add: usec_def)
  then have fresh: "timegm (clock w1) \<le> expiry w1" by (simp add: expiry_def w1s)
  obtain t where login: "fst (get_db (login foreign e other) w1) =
      (if derived_key other v = derived_key password v then Inr \<lparr> access_token = t, token_type = ''bearer'' \<rparr>
       else Inl (Unauthorized ''Invalid credentials''))"
    and dec: "\<forall>w'. config w' = config w1 \<longrightarrow> timegm (clock w') \<le> expiry w1 \<longrightarrow> usr_id u \<noteq> [] \<longrightarrow>
       decode_token foreign t w' = (Inr (usr_id u), w')"
    using login_known [of w1 h u v password other foreign] wfd secret mem hashed pw u w1s by auto
  have "fst (get_db (get_current_user foreign t) w1) = Inr u"
    using wfd mem w1s(1) fresh dec i(2) u(1) by (intro token_user) simp_all
  then show ?thesis
    using reg u(2) login by (intro exI [of _ u] exI [of _ t]) simp
qed

theorem register_login_authenticate_witness:
  "\<exists>u t. fst (get_db (login (\<lambda>k a. Inl (JWKError a)) ''c@x'' ''secret'')
        (snd (get_db (register Some 7 ''c@x'' ''secret'') (sample_world 0 sample_db)))) =
      Inr \<lparr> access_token = t, token_type = ''bearer'' \<rparr> \<and> usr_email u = ''c@x'' \<and>
    fst (get_db (get_current_user (\<lambda>k a. Inl (JWKError a)) t)
        (snd (get_db (register Some 7 ''c@x'' ''secret'') (sample_world 0 sample_db)))) = Inr u"
proof -
  let ?w = "sample_world 0 sample_db"
  have wf: "db_wf (committed ?w)" and sec: "token_secret (config ?w) sha256"
    using sample_db_wf default_token_secret by (simp_all only: sample_world_config)
  have pw: "length ''secret'' \<le> MAX_PASSWORD_SIZE" by (simp add: MAX_PASSWORD_SIZE_def)
  have new: "''c@x'' \<notin> usr_email ` set (users (committed ?w))"
    "uuids ?w (uuid_next ?w) \<notin> usr_id ` set (users (committed ?w))" "uuids ?w (uuid_next ?w) \<noteq> []"
    by (simp_all add: sample_db_def alice_def bob_def ids_stream_def)
  have life: "0 \<le> ACCESS_TOKEN_EXPIRE_MINUTES (config ?w)"
    by (simp add: default_settings_def)
  from register_login_authenticate [OF wf sec, where email = Some and address = "''c@x''" and e = "''c@x''",
      OF refl new pw pw life refl, where foreign = "\<lambda>k a. Inl (JWKError a)" and v = 7]
  show ?thesis by (metis (no_types, lifting))
qed

text \<open>
  An over-long password is an error of the server, and it tells whether an address is
  registered: with a password of more than 4096 characters the login of an existing user ends in a
  \<open>ValueError\<close> nobody handles, and the login of an unknown address in a 401.
\<close>

theorem long_password_probe:
  assumes "db_wf (committed w)" "MAX_PASSWORD_SIZE < length password"
    and "\<forall>u \<in> set (users (committed w)). identify (usr_hashed_password u)"
  shows "fst (get_db (login foreign a password) w) =
    (if a \<in> usr_email ` set (users (committed w)) then Inl (ValueError ''PasswordSizeError'')
     else Inl (Unauthorized ''Invalid credentials''))"
proof (cases "a \<in> usr_email ` set (users (committed w))")
  case True
  then obtain u where u: "u \<in> set (users (committed w))" "usr_email u = a" by auto
  have "map_of (map (\<lambda>u. (usr_email u, u)) (users (committed w))) (usr_email u) = Some u"
    using assms(1) u(1) by (intro map_of_key) (simp_all add: db_wf_def)
  moreover have "context_verify password (usr_hashed_password u) = Inl (ValueError ''PasswordSizeError'')"
    using assms(2,3) u(1) by (simp add: context_verify_def handler_verify_run validate_secret_def validate_size_def)
  ultimately show ?thesis
    using assms(1) True u(2)
    by (simp add: get_db_result login_def bindE_run authenticate_run verify_password_def)
next
  case False
  then have "map_of (map (\<lambda>u. (usr_email u, u)) (users (committed w))) a = None"
    by (auto simp: map_of_eq_None_iff image_iff)
  then show ?thesis
    using assms(1) False by (simp add: get_db_result login_def bindE_run authenticate_run)
qed

theorem long_password_probe_witness:
  "fst (get_db (login (\<lambda>k a. Inl (JWKError a)) ''nobody@x'' (replicate 5000 (CHR ''x''))) (sample_world 0 empty_db)) =
     Inl (Unauthorized ''Invalid credentials'')"
proof -
  have "db_wf (committed (sample_world 0 empty_db))" by simp
  moreover have "MAX_PASSWORD_SIZE < length (replicate 5000 (CHR ''x''))"
    by (simp add: MAX_PASSWORD_SIZE_def)
  moreover have "\<forall>u \<in> set (users (committed (sample_world 0 empty_db))). identify (usr_hashed_password u)"
    by (simp add: empty_db_def)
  ultimately show ?thesis
    using long_password_probe [of "sample_world 0 empty_db" "replicate 5000 (CHR ''x'')" _ "''nobody@x''"]
    by (simp add: empty_db_def)
qed

end
