(* ===== verification/Conflict.thy ===== *)
theory Conflict
  imports RedisClient
begin

text \<open>
  app/modules/sync_engine/conflict.py: the deterministic choice between two conflicting device
  events (forced sync, last write wins, priority, device id), its audit record and the capped audit
  stream.
\<close>

section \<open>Definitions\<close>

definition AUDIT_STREAM_KEY :: string where "AUDIT_STREAM_KEY = ''screensync:conflict:audit''"
definition AUDIT_STREAM_MAXLEN :: nat where "AUDIT_STREAM_MAXLEN = 10000"

datatype ConflictReason = TIMESTAMP | PRIORITY | UUID_TIEBREAK | FORCED_SYNC

record DeviceEvent =
  de_device_id :: string
  de_user_id :: string
  de_priority :: int
  de_timestamp :: instant
  de_payload :: dict
  de_forced :: bool
  de_event_id :: string

record ConflictRecord =
  conflict_id :: string
  winner_id :: string
  loser_id :: string
  winner_device :: string
  loser_device :: string
  conflict_reason :: ConflictReason
  resolved_at :: string
  winner_ts :: string
  loser_ts :: string

text \<open>
  \<open>_pick_winner\<close> returns one of its arguments, and \<open>resolve\<close> asks which one it was by
  identity: \<open>pick_first\<close> is that answer.
\<close>

definition pick_first :: "DeviceEvent \<Rightarrow> DeviceEvent \<Rightarrow> bool \<times> ConflictReason" where
  "pick_first a b =
     (if de_forced a \<and> \<not> de_forced b then (True, FORCED_SYNC)
      else if de_forced b \<and> \<not> de_forced a then (False, FORCED_SYNC)
      else if de_timestamp a \<noteq> de_timestamp b then (de_timestamp b < de_timestamp a, TIMESTAMP)
      else if de_priority a \<noteq> de_priority b then (de_priority b < de_priority a, PRIORITY)
      else (de_device_id b < de_device_id a, UUID_TIEBREAK))"

definition pick_winner :: "DeviceEvent \<Rightarrow> DeviceEvent \<Rightarrow> DeviceEvent \<times> ConflictReason" where
  "pick_winner a b = (case pick_first a b of (first, reason) \<Rightarrow> (if first then a else b, reason))"

definition resolve :: "DeviceEvent \<Rightarrow> DeviceEvent \<Rightarrow> (DeviceEvent \<times> ConflictRecord) handler" where
  "resolve event_a event_b =
     (let winner = fst (pick_winner event_a event_b);
          reason = snd (pick_winner event_a event_b);
          loser = (if fst (pick_first event_a event_b) then event_b else event_a)
      in bindE uuid4 (\<lambda>i.
         bindE now_utc (\<lambda>t.
           ret (winner,
             \<lparr> conflict_id = i, winner_id = de_event_id winner, loser_id = de_event_id loser,
               winner_device = de_device_id winner, loser_device = de_device_id loser,
               conflict_reason = reason, resolved_at = iso_instant t,
               winner_ts = iso_instant (de_timestamp winner),
               loser_ts = iso_instant (de_timestamp loser) \<rparr>))))"

text \<open>\<open>{k: str(v) for k, v in asdict(record).items()}\<close>; \<open>str\<close> of an enum member is its name.\<close>

fun reason_str :: "ConflictReason \<Rightarrow> string" where
  "reason_str TIMESTAMP = ''ConflictReason.TIMESTAMP''"
| "reason_str PRIORITY = ''ConflictReason.PRIORITY''"
| "reason_str UUID_TIEBREAK = ''ConflictReason.UUID_TIEBREAK''"
| "reason_str FORCED_SYNC = ''ConflictReason.FORCED_SYNC''"

definition audit_fields :: "ConflictRecord \<Rightarrow> audit_entry" where
  "audit_fields r =
     [(''conflict_id'', conflict_id r), (''winner_id'', winner_id r), (''loser_id'', loser_id r),
      (''winner_device'', winner_device r), (''loser_device'', loser_device r),
      (''reason'', reason_str (conflict_reason r)), (''resolved_at'', resolved_at r),
      (''winner_ts'', winner_ts r), (''loser_ts'', loser_ts r)]"

definition write_audit_log :: "ConflictRecord \<Rightarrow> unit handler" where
  "write_audit_log rec =
     bindE get_redis (\<lambda>redis.
       tryExcept (redis_xadd redis AUDIT_STREAM_KEY (audit_fields rec) AUDIT_STREAM_MAXLEN)
         (\<lambda>_. ret ()))"

definition read_audit_log :: "nat \<Rightarrow> audit_entry list handler" where
  "read_audit_log n =
     bindE get_redis (\<lambda>redis. redis_xrevrange redis AUDIT_STREAM_KEY n)"

section \<open>The rank of an event\<close>

text \<open>
  What the matrix of the source compares, in the order of its rules: forced, timestamp, priority,
  device id.
\<close>

datatype rank = Rank bool int int string

instantiation rank :: linorder
begin

fun less_rank :: "rank \<Rightarrow> rank \<Rightarrow> bool" where
  "less_rank (Rank f t p i) (Rank g u q j) =
     ((\<not> f \<and> g) \<or> (f = g \<and> (t < u \<or> (t = u \<and> (p < q \<or> (p = q \<and> i < j))))))"

definition less_eq_rank :: "rank \<Rightarrow> rank \<Rightarrow> bool" where
  "less_eq_rank x y \<longleftrightarrow> x = y \<or> x < (y :: rank)"

instance
proof
  fix x y z :: rank
  show "x < y \<longleftrightarrow> x \<le> y \<and> \<not> y \<le> x"
    by (cases x; cases y) (auto simp: less_eq_rank_def)
  show "x \<le> x" by (simp add: less_eq_rank_def)
  show "x \<le> y \<Longrightarrow> y \<le> z \<Longrightarrow> x \<le> z"
    by (cases x; cases y; cases z) (auto simp: less_eq_rank_def)
  show "x \<le> y \<Longrightarrow> y \<le> x \<Longrightarrow> x = y"
    by (cases x; cases y) (auto simp: less_eq_rank_def)
  show "x \<le> y \<or> y \<le> x"
    by (cases x; cases y) (auto simp: less_eq_rank_def)
qed

end

definition rank_of :: "DeviceEvent \<Rightarrow> rank" where
  "rank_of e = Rank (de_forced e) (de_timestamp e) (de_priority e) (de_device_id e)"

lemma pick_winner_rank: "fst (pick_winner a b) = (if rank_of b < rank_of a then a else b)"
  by (auto simp: pick_winner_def pick_first_def rank_of_def)

section \<open>Choosing by rank\<close>

text \<open>
  The contract of a resolver: of two candidates it returns the one of the larger key, the second
  when the keys agree.  Then the order in which conflicts are resolved does not matter.
\<close>

locale ranked_choice =
  fixes pick :: "'e \<Rightarrow> 'e \<Rightarrow> 'e" and key :: "'e \<Rightarrow> 'k :: linorder"
  assumes pick_eq: "pick a b = (if key b < key a then a else b)"
begin

lemma pick_one_of: "pick a b = a \<or> pick a b = b"
  by (simp add: pick_eq)

lemma key_pick: "key (pick a b) = max (key a) (key b)"
  by (auto simp: pick_eq max_def)

lemma pick_commute: "key a \<noteq> key b \<Longrightarrow> pick a b = pick b a"
  by (auto simp: pick_eq)

lemma pick_idem: "pick a a = a"
  by (simp add: pick_eq)

lemma pick_assoc: "pick (pick a b) c = pick a (pick b c)"
  by (auto simp: pick_eq split: if_splits)

lemma fold_member: "foldl pick e es \<in> set (e # es)"
proof (induction es arbitrary: e)
  case (Cons x xs)
  have "foldl pick (pick e x) xs \<in> set (pick e x # xs)" by (rule Cons.IH)
  then show ?case using pick_one_of [of e x] by auto
qed simp

lemma fold_key: "key (foldl pick e es) = Max (key ` set (e # es))"
proof (induction es arbitrary: e)
  case (Cons x xs)
  have "key (foldl pick e (x # xs)) = Max (key ` set (pick e x # xs))" using Cons.IH by simp
  also have "\<dots> = Max (key ` set (e # x # xs))"
    by (cases xs) (simp_all add: key_pick max.assoc)
  finally show ?case .
qed simp

lemma fold_order:
  assumes "mset (e # es) = mset (e' # es')" "inj_on key (set (e # es))"
  shows "foldl pick e es = foldl pick e' es'"
proof -
  have sets: "set (e # es) = set (e' # es')" using assms(1) by (metis set_mset_mset)
  then have "key (foldl pick e es) = key (foldl pick e' es')" by (simp only: fold_key)
  moreover have "foldl pick e es \<in> set (e # es)" by (rule fold_member)
  moreover have "foldl pick e' es' \<in> set (e # es)" unfolding sets by (rule fold_member)
  ultimately show ?thesis using assms(2) by (meson inj_onD)
qed

end

interpretation events: ranked_choice "\<lambda>a b. fst (pick_winner a b)" rank_of
  by unfold_locales (rule pick_winner_rank)

section \<open>Properties\<close>

text \<open>
  C12: Conflict resolution does not depend on the order in which events meet: resolving any number
  of events pairwise, from either end and in any order, gives the same winner, the one with the
  greatest rank (forced, timestamp, priority, device id), when no two events share a rank.
\<close>

theorem resolution_order_independent:
  assumes "mset (e # es) = mset (e' # es')" "inj_on rank_of (set (e # es))"
  shows "foldl (\<lambda>a b. fst (pick_winner a b)) e es = foldl (\<lambda>a b. fst (pick_winner a b)) e' es' \<and>
    rank_of (foldl (\<lambda>a b. fst (pick_winner a b)) e es) = Max (rank_of ` set (e # es))"
  using events.fold_order [OF assms] events.fold_key [of e es] by simp

definition event_at :: "instant \<Rightarrow> int \<Rightarrow> string \<Rightarrow> DeviceEvent" where
  "event_at t p i =
     \<lparr> de_device_id = i, de_user_id = ''a'', de_priority = p, de_timestamp = t, de_payload = [],
       de_forced = False, de_event_id = i \<rparr>"

theorem resolution_order_independent_witness:
  "foldl (\<lambda>a b. fst (pick_winner a b)) (event_at 5 1 ''p'') [event_at 5 2 ''q'', event_at 4 9 ''r''] =
     foldl (\<lambda>a b. fst (pick_winner a b)) (event_at 4 9 ''r'') [event_at 5 1 ''p'', event_at 5 2 ''q'']"
  using resolution_order_independent [of "event_at 5 1 ''p''" "[event_at 5 2 ''q'', event_at 4 9 ''r'']"
      "event_at 4 9 ''r''" "[event_at 5 1 ''p'', event_at 5 2 ''q'']"]
  by (simp add: inj_on_def rank_of_def event_at_def)

text \<open>The reason a resolution states, read off the ranks.\<close>

definition expected_reason :: "DeviceEvent \<Rightarrow> DeviceEvent \<Rightarrow> ConflictReason" where
  "expected_reason a b =
     (if de_forced a \<noteq> de_forced b then FORCED_SYNC
      else if de_timestamp a \<noteq> de_timestamp b then TIMESTAMP
      else if de_priority a \<noteq> de_priority b then PRIORITY
      else UUID_TIEBREAK)"

lemma pick_winner_reason: "snd (pick_winner a b) = expected_reason a b"
  by (auto simp: pick_winner_def pick_first_def expected_reason_def)

text \<open>
  \<open>resolve\<close> returns the event of the greater rank (the second one when the ranks agree), its
  record names that event as the winner and the other one as the loser, with the first criterion
  that tells them apart as the reason; so with different ranks the order of the arguments does not
  matter.
\<close>

theorem resolve_matrix:
  "\<exists>rec w'. resolve a b w = (Inr (if rank_of b < rank_of a then a else b, rec), w') \<and>
    (winner_id rec, loser_id rec) =
      (if rank_of b < rank_of a then (de_event_id a, de_event_id b) else (de_event_id b, de_event_id a)) \<and>
    (winner_device rec, loser_device rec) =
      (if rank_of b < rank_of a then (de_device_id a, de_device_id b) else (de_device_id b, de_device_id a)) \<and>
    conflict_reason rec = expected_reason a b \<and>
    (rank_of a \<noteq> rank_of b \<longrightarrow> resolve b a w = resolve a b w)"
proof -
  have first: "fst (pick_first a b) \<longleftrightarrow> rank_of b < rank_of a" for a b
    by (auto simp: pick_first_def rank_of_def)
  have sym: "expected_reason a b = expected_reason b a" by (auto simp: expected_reason_def)
  show ?thesis
    by (auto simp: resolve_def Let_def pick_winner_rank pick_winner_reason first sym)
qed

theorem resolve_matrix_witness:
  "\<exists>rec w'. resolve (event_at 5 1 ''p'') (event_at 5 2 ''q'') (sample_world 9 empty_db) =
      (Inr (event_at 5 2 ''q'', rec), w') \<and>
    winner_id rec = ''q'' \<and> loser_id rec = ''p'' \<and> conflict_reason rec = PRIORITY \<and>
    resolve (event_at 5 2 ''q'') (event_at 5 1 ''p'') (sample_world 9 empty_db) =
      (Inr (event_at 5 2 ''q'', rec), w')"
proof -
  have "\<not> rank_of (event_at 5 2 ''q'') < rank_of (event_at 5 1 ''p'')"
      "rank_of (event_at 5 1 ''p'') \<noteq> rank_of (event_at 5 2 ''q'')"
      "expected_reason (event_at 5 1 ''p'') (event_at 5 2 ''q'') = PRIORITY"
      "de_event_id (event_at 5 2 ''q'') = ''q''" "de_event_id (event_at 5 1 ''p'') = ''p''"
    by (simp_all add: rank_of_def event_at_def expected_reason_def)
  with resolve_matrix [of "event_at 5 1 ''p''" "event_at 5 2 ''q''" "sample_world 9 empty_db"]
  show ?thesis by auto
qed

text \<open>A server that answers the text client.\<close>

definition redis_ready :: "world \<Rightarrow> bool" where
  "redis_ready w \<longleftrightarrow> text_client w = Some TextClient \<and> srv_up (server w)"

lemma take_rev_last_n: "n \<le> k \<Longrightarrow> take n (rev (last_n k xs)) = take n (rev xs)"
proof -
  assume n: "n \<le> k"
  have "rev (last_n k xs) = take (length xs - (length xs - k)) (rev xs)"
    by (simp add: last_n_def rev_drop)
  then show ?thesis using n by (cases "k \<le> length xs") (simp_all add: min_def)
qed

text \<open>
  The audit stream: with Redis up, writing a record returns, the next read of \<open>n\<close> entries
  starts with that record followed by the newest entries from before, the stream never holds more
  than 10,000 entries beyond the slack the server allows itself for approximate trimming, and the
  database is not involved.  When Redis is down the write still returns.
\<close>

theorem audit_log_roundtrip:
  "(redis_ready w \<longrightarrow>
     (\<exists>w'. write_audit_log rec w = (Inr (), w') \<and>
       (\<forall>n \<le> AUDIT_STREAM_MAXLEN.
          fst (read_audit_log n w') =
            Inr (take n (audit_fields rec # rev (srv_stream AUDIT_STREAM_KEY (server w))))) \<and>
       length (srv_stream AUDIT_STREAM_KEY (server w')) \<le> AUDIT_STREAM_MAXLEN + srv_slack (server w))) \<and>
   fst (write_audit_log rec w) = Inr () \<and>
   committed (snd (write_audit_log rec w)) = committed w"
proof -
  have leaves: "leaves_db (write_audit_log rec)"
    unfolding write_audit_log_def by (intro leaves_db_intro)
  have "fst (get_redis w) = Inr (case text_client (snd (get_redis w)) of None \<Rightarrow> NullRedis | Some h \<Rightarrow> h)"
    by (simp add: get_redis_def andThen_def bindE_run rc_initialize_def)
  then have returns: "fst (write_audit_log rec w) = Inr ()"
    by (auto simp: write_audit_log_def bindE_run tryExcept_def split: prod.splits sum.splits)
  have ready: "\<exists>w'. write_audit_log rec w = (Inr (), w') \<and>
       (\<forall>n \<le> AUDIT_STREAM_MAXLEN.
          fst (read_audit_log n w') =
            Inr (take n (audit_fields rec # rev (srv_stream AUDIT_STREAM_KEY (server w))))) \<and>
       length (srv_stream AUDIT_STREAM_KEY (server w')) \<le> AUDIT_STREAM_MAXLEN + srv_slack (server w)"
    if r: "redis_ready w"
  proof -
    let ?old = "srv_stream AUDIT_STREAM_KEY (server w)" and ?k = "AUDIT_STREAM_MAXLEN + srv_slack (server w)"
    let ?new = "last_n ?k (?old @ [audit_fields rec])"
    let ?w' = "w\<lparr>server := (server w)\<lparr>srv_streams := AList.update AUDIT_STREAM_KEY ?new (srv_streams (server w))\<rparr>\<rparr>"
    have run: "write_audit_log rec w = (Inr (), ?w')"
      using r by (simp add: write_audit_log_def redis_ready_def get_redis_known redis_xadd_def at_server_up)
    have stream: "srv_stream AUDIT_STREAM_KEY (server ?w') = ?new"
      by (simp add: srv_stream_def update_conv')
    have "take n (rev ?new) = take n (rev (?old @ [audit_fields rec]))" if "n \<le> AUDIT_STREAM_MAXLEN" for n
      using that by (intro take_rev_last_n) simp
    moreover have "read_audit_log n ?w' = (Inr (take n (rev ?new)), ?w')" for n
      using r stream by (simp add: read_audit_log_def redis_ready_def get_redis_known redis_xrevrange_def at_server_up)
    moreover have "length ?new \<le> ?k" by (simp add: last_n_def)
    ultimately show ?thesis using run stream by (intro exI [of _ ?w']) simp
  qed
  show ?thesis using ready returns leaves_db_committed [OF leaves] by blast
qed

definition sample_record :: ConflictRecord where
  "sample_record = \<lparr> conflict_id = ''c'', winner_id = ''1'', loser_id = ''2'', winner_device = ''p'',
     loser_device = ''q'', conflict_reason = PRIORITY, resolved_at = [], winner_ts = [], loser_ts = [] \<rparr>"

theorem audit_log_roundtrip_witness:
  "\<exists>w'. write_audit_log sample_record ((sample_world 0 empty_db)\<lparr>text_client := Some TextClient\<rparr>) = (Inr (), w') \<and>
     fst (read_audit_log 5 w') = Inr [audit_fields sample_record]"
proof -
  let ?w = "(sample_world 0 empty_db)\<lparr>text_client := Some TextClient\<rparr>"
  have "redis_ready ?w" by (simp add: redis_ready_def sample_world_def)
  with audit_log_roundtrip [of ?w sample_record] obtain w' where
    "write_audit_log sample_record ?w = (Inr (), w')"
    "\<forall>n \<le> AUDIT_STREAM_MAXLEN. fst (read_audit_log n w') =
       Inr (take n (audit_fields sample_record # rev (srv_stream AUDIT_STREAM_KEY (server ?w))))"
    by auto
  moreover have "srv_stream AUDIT_STREAM_KEY (server ?w) = []"
    by (simp add: srv_stream_def sample_world_def)
  ultimately show ?thesis by (intro exI [of _ w']) (simp add: AUDIT_STREAM_MAXLEN_def)
qed

end
