(* ===== verification/SyncEngine.thy ===== *)
theory SyncEngine
  imports Conflict MqttClient PyValues
begin

text \<open>
  app/modules/sync_engine/sync.py: the per-user lock, the device snapshots in Redis, the presence
  sets, the ingestion of an event and the consumer that retries the events found locked.  The
  client is whichever \<^const>\<open>get_redis\<close> returns; a world whose text client is the bytes client
  stands for one created with \<open>decode_responses\<close> off, which is what the calls of \<open>decode\<close> expect.
\<close>

section \<open>Keys\<close>

definition state_key :: "string \<Rightarrow> string \<Rightarrow> string" where
  "state_key user_id device_id = ''screensync:state:'' @ user_id @ '':'' @ device_id"

definition online_set_key :: "string \<Rightarrow> string" where
  "online_set_key user_id = ''screensync:online:'' @ user_id"

definition lock_key :: "string \<Rightarrow> string" where
  "lock_key user_id = ''screensync:lock:'' @ user_id"

definition LOCK_TIMEOUT_MS :: int where "LOCK_TIMEOUT_MS = 3000"
definition SNAPSHOT_TTL_SECS :: int where "SNAPSHOT_TTL_SECS = 86400"
definition PUBSUB_CHANNEL :: string where "PUBSUB_CHANNEL = ''screensync:sync:events''"

section \<open>The lock\<close>

text \<open>\<open>str(t.timestamp())\<close>: seconds since the epoch with up to six decimals, at least one.\<close>

definition show_timestamp :: "instant \<Rightarrow> string" where
  "show_timestamp t =
     (let frac = rev (dropWhile (\<lambda>c. c = CHR ''0'') (rev (padded 6 (t mod usec))))
      in show_int (t div usec) @ ''.'' @ (if frac = [] then ''0'' else frac))"

definition lock_token :: "string \<Rightarrow> instant \<Rightarrow> pytext" where
  "lock_token user_id t = Raw (user_id @ '':'' @ show_timestamp t)"

definition release_lock :: "redis_handle \<Rightarrow> string \<Rightarrow> pytext \<Rightarrow> unit handler" where
  "release_lock redis key token =
     bindE (redis_get redis key) (\<lambda>current.
       if truthy current
       then bindE (lift (py_decode current)) (\<lambda>c. if c = token then redis_delete redis [key] else ret ())
       else ret ())"

text \<open>\<open>async with _user_lock(user_id) as acquired: body acquired\<close>\<close>

definition user_lock :: "string \<Rightarrow> (bool \<Rightarrow> 'a handler) \<Rightarrow> 'a handler" where
  "user_lock user_id body =
     bindE get_redis (\<lambda>redis.
     bindE now_utc (\<lambda>t.
       let key = lock_key user_id; token = lock_token user_id t
       in bindE (redis_set_px_nx redis key (VStr token) LOCK_TIMEOUT_MS) (\<lambda>acquired.
            tryFinally (body acquired)
              (if acquired then release_lock redis key token else ret ()))))"

section \<open>Snapshots\<close>

definition get_device_snapshot :: "string \<Rightarrow> string \<Rightarrow> json option handler" where
  "get_device_snapshot user_id device_id =
     bindE get_redis (\<lambda>redis.
     bindE (redis_get redis (state_key user_id device_id)) (\<lambda>raw.
       if truthy raw then bindE (lift (loads_val raw)) (\<lambda>j. ret (Some j)) else ret None))"

definition write_snapshot :: "string \<Rightarrow> string \<Rightarrow> dict \<Rightarrow> unit handler" where
  "write_snapshot user_id device_id state =
     bindE get_redis (\<lambda>redis.
       redis_set redis (state_key user_id device_id) (VStr (json_dumps (JObj state)))
         (Some SNAPSHOT_TTL_SECS))"

text \<open>The name of a key as the server knows it, whether the client returns \<open>str\<close> or \<open>bytes\<close>.\<close>

fun key_text :: "pyval \<Rightarrow> string" where
  "key_text (VStr (Raw s)) = s"
| "key_text (VBytes (BText (Raw s))) = s"
| "key_text _ = []"

definition raw_text :: "pytext \<Rightarrow> string" where
  "raw_text t = (case t of Raw s \<Rightarrow> s | Dumped _ \<Rightarrow> [])"

text \<open>\<open>key.decode().rsplit(":", 1)[-1]\<close>\<close>

definition family_entry :: "redis_handle \<Rightarrow> pyval \<Rightarrow> (string \<times> json) list handler" where
  "family_entry redis key =
     bindE (redis_get redis (key_text key)) (\<lambda>raw.
       if truthy raw
       then bindE (lift (py_decode key)) (\<lambda>k.
            bindE (lift (loads_val raw)) (\<lambda>j. ret [(last (split_on (CHR '':'') (raw_text k)), j)]))
       else ret [])"

definition get_family_snapshot :: "string \<Rightarrow> dict handler" where
  "get_family_snapshot user_id =
     bindE get_redis (\<lambda>redis.
     bindE (redis_keys redis (''screensync:state:'' @ user_id @ '':'')) (\<lambda>keys.
     bindE (forEach (family_entry redis) keys) (\<lambda>entries.
       ret (fold (\<lambda>(k, j). AList.update k j) (concat entries) []))))"

section \<open>Presence\<close>

definition mark_online :: "string \<Rightarrow> string \<Rightarrow> unit handler" where
  "mark_online user_id device_id =
     bindE get_redis (\<lambda>redis.
     andThen (redis_sadd redis (online_set_key user_id) device_id)
       (redis_expire redis (online_set_key user_id) SNAPSHOT_TTL_SECS))"

definition mark_offline :: "string \<Rightarrow> string \<Rightarrow> unit handler" where
  "mark_offline user_id device_id =
     bindE get_redis (\<lambda>redis. redis_srem redis (online_set_key user_id) device_id)"

definition get_online_devices :: "string \<Rightarrow> pytext list handler" where
  "get_online_devices user_id =
     bindE get_redis (\<lambda>redis.
     bindE (redis_smembers redis (online_set_key user_id)) (\<lambda>members.
       forEach (\<lambda>m. lift (py_decode m)) members))"

section \<open>Ingestion\<close>

definition datetime_min :: instant where "datetime_min = - 62135596800 * usec"

text \<open>\<open>datetime.fromisoformat\<close>\<close>

fun fromisoformat :: "json \<Rightarrow> instant result" where
  "fromisoformat (JTime t) = Inr t"
| "fromisoformat (JStr _) = Inl (ValueError ''isoformat'')"
| "fromisoformat (JQuoted _) = Inl (ValueError ''isoformat'')"
| "fromisoformat _ = Inl (TypeError ''fromisoformat'')"

definition item_or_null :: "dict \<Rightarrow> string \<Rightarrow> json" where
  "item_or_null d k = (case map_of d k of None \<Rightarrow> JNull | Some x \<Rightarrow> x)"

definition snapshot_to_event :: "dict \<Rightarrow> DeviceEvent \<Rightarrow> DeviceEvent result" where
  "snapshot_to_event snapshot reference =
     (let synced = item_or_null snapshot ''_synced_at'';
          ts_raw = (if json_truthy synced then synced else item_or_null snapshot ''recorded_at'')
      in case (if json_truthy ts_raw then fromisoformat ts_raw else Inr datetime_min) of
           Inl e \<Rightarrow> Inl e
         | Inr ts \<Rightarrow> Inr \<lparr> de_device_id = de_device_id reference, de_user_id = de_user_id reference,
             de_priority = de_priority reference, de_timestamp = ts, de_payload = snapshot,
             de_forced = False,
             de_event_id = (case map_of snapshot ''_event_id'' of Some (JStr s) \<Rightarrow> s | _ \<Rightarrow> []) \<rparr>)"

definition needs_resolution :: "DeviceEvent \<Rightarrow> DeviceEvent \<Rightarrow> bool" where
  "needs_resolution existing incoming \<longleftrightarrow> de_timestamp incoming \<le> de_timestamp existing"

definition broadcast_family_state :: "string \<Rightarrow> unit handler" where
  "broadcast_family_state user_id =
     bindE (get_family_snapshot user_id) (\<lambda>family.
       if family = [] then ret ()
       else bindE now_utc (\<lambda>t.
         await_publish (''screensync/'' @ user_id @ ''/family/sync/state'')
           (PText (json_dumps (JObj
             [(''user_id'', JStr user_id), (''snapshot'', JObj family), (''broadcast_at'', JTime t)]))) 1))"

text \<open>The payload that survives: the incoming one, unless a resolution prefers the snapshot.\<close>

definition snapshot_dict :: "json \<Rightarrow> dict result" where
  "snapshot_dict j = (case j of JObj d \<Rightarrow> Inr d | _ \<Rightarrow> Inl (AttributeError ''get''))"

definition winning_payload :: "json option \<Rightarrow> DeviceEvent \<Rightarrow> dict handler" where
  "winning_payload existing_state incoming =
     (case existing_state of
        None \<Rightarrow> ret (de_payload incoming)
      | Some j \<Rightarrow>
          bindE (lift (snapshot_dict j)) (\<lambda>snapshot.
          bindE (lift (snapshot_to_event snapshot incoming)) (\<lambda>existing_event.
            if needs_resolution existing_event incoming
            then bindE (resolve existing_event incoming) (\<lambda>(winner, conflict_record).
                 andThen (write_audit_log conflict_record) (ret (de_payload winner)))
            else ret (de_payload incoming))))"

definition stamp :: "instant \<Rightarrow> DeviceEvent \<Rightarrow> dict \<Rightarrow> dict" where
  "stamp t incoming payload =
     AList.update ''_event_id'' (JStr (de_event_id incoming))
       (AList.update ''_device_id'' (JStr (de_device_id incoming))
         (AList.update ''_synced_at'' (JTime t) payload))"

definition retry_message :: "DeviceEvent \<Rightarrow> json" where
  "retry_message incoming =
     JObj [(''user_id'', JStr (de_user_id incoming)), (''device_id'', JStr (de_device_id incoming)),
           (''payload'', JObj (de_payload incoming)), (''timestamp'', JTime (de_timestamp incoming)),
           (''priority'', JInt (de_priority incoming)), (''forced'', JBool (de_forced incoming))]"

definition ingest_event :: "DeviceEvent \<Rightarrow> unit handler" where
  "ingest_event incoming =
     user_lock (de_user_id incoming) (\<lambda>acquired.
       if \<not> acquired
       then bindE get_redis (\<lambda>redis.
              redis_publish redis PUBSUB_CHANNEL (json_dumps (retry_message incoming)))
       else
         bindE (get_device_snapshot (de_user_id incoming) (de_device_id incoming)) (\<lambda>existing_state.
         bindE (winning_payload existing_state incoming) (\<lambda>winner_payload.
         bindE now_utc (\<lambda>t.
         andThen (write_snapshot (de_user_id incoming) (de_device_id incoming)
                    (stamp t incoming winner_payload))
           (broadcast_family_state (de_user_id incoming))))))"

section \<open>The consumer\<close>

text \<open>
  One message of the channel (its type and its data), with the fields of the JSON types that
  \<open>retry_message\<close> gives them; whatever the processing raises is logged and dropped.
\<close>

definition json_bool :: "json \<Rightarrow> bool result" where
  "json_bool j = (case j of JBool b \<Rightarrow> Inr b | _ \<Rightarrow> Inl (TypeError ''bool''))"

definition dict_item :: "dict \<Rightarrow> string \<Rightarrow> json result" where
  "dict_item d k = (case map_of d k of None \<Rightarrow> Inl (KeyError k) | Some x \<Rightarrow> Inr x)"

definition item_str :: "dict \<Rightarrow> string \<Rightarrow> string result" where
  "item_str d k = (case dict_item d k of Inr (JStr s) \<Rightarrow> Inr s | Inr _ \<Rightarrow> Inl (TypeError k) | Inl e \<Rightarrow> Inl e)"

definition event_of_message :: "dict \<Rightarrow> DeviceEvent result" where
  "event_of_message data =
     (case item_str data ''device_id'' of Inl e \<Rightarrow> Inl e | Inr d \<Rightarrow>
      case item_str data ''user_id'' of Inl e \<Rightarrow> Inl e | Inr u \<Rightarrow>
      case (case map_of data ''priority'' of None \<Rightarrow> Inr 1 | Some (JInt n) \<Rightarrow> Inr n
            | Some _ \<Rightarrow> Inl (TypeError ''priority'')) of Inl e \<Rightarrow> Inl e | Inr p \<Rightarrow>
      case (case dict_item data ''timestamp'' of Inl e \<Rightarrow> Inl e | Inr x \<Rightarrow> fromisoformat x) of
        Inl e \<Rightarrow> Inl e | Inr t \<Rightarrow>
      case (case dict_item data ''payload'' of Inl e \<Rightarrow> Inl e | Inr x \<Rightarrow> snapshot_dict x) of
        Inl e \<Rightarrow> Inl e | Inr pl \<Rightarrow>
      case (case map_of data ''forced'' of None \<Rightarrow> Inr False | Some x \<Rightarrow> json_bool x) of
        Inl e \<Rightarrow> Inl e | Inr f \<Rightarrow>
      Inr \<lparr> de_device_id = d, de_user_id = u, de_priority = p, de_timestamp = t, de_payload = pl,
            de_forced = f, de_event_id = [] \<rparr>)"

definition consume_message :: "string \<Rightarrow> pytext \<Rightarrow> unit handler" where
  "consume_message message_type data =
     (if message_type \<noteq> ''message'' then ret ()
      else tryExcept
        (bindE (lift (json_loads data)) (\<lambda>j.
         bindE (lift (snapshot_dict j)) (\<lambda>d.
         bindE (lift (event_of_message d)) (\<lambda>event.
         bindE uuid4 (\<lambda>i. ingest_event (event\<lparr>de_event_id := i\<rparr>))))))
        (\<lambda>_. ret ()))"

text \<open>The consumer on the messages that arrive while it runs.\<close>

definition start_sync_consumer :: "(string \<times> pytext) list \<Rightarrow> unit handler" where
  "start_sync_consumer messages =
     bindE get_redis (\<lambda>redis.
     andThen (if redis = NullRedis then missing_method ''pubsub'' else at_server (\<lambda>t s. (Inr (), s)))
     (andThen (forEach (\<lambda>(ty, d). consume_message ty d) messages) (ret ())))"

section \<open>Reads leave the world alone\<close>

definition real_client :: "world \<Rightarrow> redis_handle \<Rightarrow> bool" where
  "real_client w h \<longleftrightarrow> text_client w = Some h \<and> h \<noteq> NullRedis \<and> srv_up (server w)"

lemma get_redis_real: "real_client w h \<Longrightarrow> get_redis w = (Inr h, w)"
  by (simp add: real_client_def get_redis_known)

lemma redis_keys_state: "snd (redis_keys h p w) = w"
  by (simp add: redis_keys_def missing_method_def at_server_def)

definition reads_only :: "'a handler \<Rightarrow> bool" where
  "reads_only m \<longleftrightarrow> (\<forall>w. snd (m w) = w)"

lemma reads_only_keeps: "reads_only m \<longleftrightarrow> (\<forall>w0. keeps (\<lambda>w. w = w0) m)"
  by (auto simp: reads_only_def keeps_def)

lemma reads_only_bindE: "reads_only m \<Longrightarrow> (\<And>x. reads_only (f x)) \<Longrightarrow> reads_only (bindE m f)"
  unfolding reads_only_keeps by (blast intro: keeps_bindE)

lemma reads_only_forEach: "(\<And>x. reads_only (f x)) \<Longrightarrow> reads_only (forEach f xs)"
  unfolding reads_only_keeps by (blast intro: keeps_forEach)

lemma reads_only_basic: "reads_only (ret x)" "reads_only (lift r)" "reads_only (redis_get h k)"
  "reads_only (redis_keys h p)" "reads_only now_utc"
  by (simp_all add: reads_only_def redis_get_state redis_keys_state)

lemma family_entry_reads: "reads_only (family_entry h key)"
  unfolding family_entry_def
  by (intro reads_only_bindE reads_only_basic) (simp add: reads_only_bindE reads_only_basic)

lemma get_family_reads: "real_client w h \<Longrightarrow> snd (get_family_snapshot u w) = w"
proof -
  assume h: "real_client w h"
  have "reads_only (bindE (redis_keys h (''screensync:state:'' @ u @ '':'')) (\<lambda>keys.
      bindE (forEach (family_entry h) keys) (\<lambda>entries.
        ret (fold (\<lambda>(k, j). AList.update k j) (concat entries) []))))"
    by (intro reads_only_bindE reads_only_basic reads_only_forEach family_entry_reads)
  then show ?thesis by (simp add: get_family_snapshot_def get_redis_real [OF h] reads_only_def)
qed

text \<open>One iteration that raises makes the whole loop raise.\<close>

lemma forEach_raises:
  assumes "\<And>x. reads_only (f x)" "x \<in> set xs" "fst (f x w) = Inl e"
  shows "\<exists>e'. forEach f xs w = (Inl e', w)"
  using assms(2)
proof (induction xs)
  case (Cons y ys)
  obtain r where r: "f y w = (r, w)" using assms(1) [of y] by (cases "f y w") (auto simp: reads_only_def dest: spec [of _ w])
  show ?case
  proof (cases r)
    case (Inl e')
    with r show ?thesis by simp
  next
    case (Inr v)
    then have "x \<in> set ys" using Cons.prems r assms(3) by auto
    from Cons.IH [OF this] r Inr show ?thesis by auto
  qed
qed simp

section \<open>The lock on a server\<close>

lemma lock_state_keys [simp]: "lock_key u \<noteq> state_key v i" "state_key v i \<noteq> lock_key u"
  by (simp_all add: lock_key_def state_key_def)

definition lock_held :: "string \<Rightarrow> world \<Rightarrow> bool" where
  "lock_held u w \<longleftrightarrow> srv_get (clock w) (lock_key u) (server w) \<noteq> None"

definition with_lock :: "string \<Rightarrow> world \<Rightarrow> world" where
  "with_lock u w = w\<lparr>server := srv_set (lock_key u) (BText (lock_token u (clock w)))
     (Some (clock w + LOCK_TIMEOUT_MS * 1000)) (server w)\<rparr>"

lemma with_lock_real: "real_client w h \<Longrightarrow> real_client (with_lock u w) h"
  by (simp add: with_lock_def real_client_def)

lemma user_lock_free:
  assumes "real_client w h" "\<not> lock_held u w"
  shows "user_lock u body w =
    tryFinally (body True) (release_lock h (lock_key u) (lock_token u (clock w))) (with_lock u w)"
proof -
  have "redis_set_px_nx h (lock_key u) (VStr (lock_token u (clock w))) LOCK_TIMEOUT_MS w =
      (Inr True, with_lock u w)"
    using assms by (simp add: redis_set_px_nx_def real_client_def at_server_up lock_held_def with_lock_def)
  then show ?thesis using get_redis_real [OF assms(1)] by (simp add: user_lock_def Let_def)
qed

lemma user_lock_taken:
  assumes "real_client w h" "lock_held u w"
  shows "user_lock u body w = tryFinally (body False) (ret ()) w"
proof -
  have "redis_set_px_nx h (lock_key u) (VStr (lock_token u (clock w))) LOCK_TIMEOUT_MS w = (Inr False, w)"
    using assms by (simp add: redis_set_px_nx_def real_client_def at_server_up lock_held_def)
  then show ?thesis using get_redis_real [OF assms(1)] 
    by (simp add: user_lock_def Let_def bindE_run [of "redis_set_px_nx a b c d" for a b c d])
qed

lemma lock_token_truthy [simp]: "lock_token u t \<noteq> Raw []"
  by (simp add: lock_token_def)

text \<open>
  Releasing: the bytes client compares and deletes; the text client raises and leaves the lock.
\<close>

lemma release_text:
  assumes "srv_up (server w)" "srv_get (clock w) key (server w) = Some (BText (lock_token u t))"
  shows "release_lock TextClient key token w = (Inl (AttributeError ''decode''), w)"
  using assms by (simp add: release_lock_def redis_get_run redis_decode_def utf8_decode_def)

lemma release_bytes:
  assumes "srv_up (server w)" "srv_get (clock w) key (server w) = Some (BText (lock_token u t))"
  shows "release_lock BytesClient key (lock_token u t) w =
    (Inr (), w\<lparr>server := srv_delete key (server w)\<rparr>)"
  using assms
  by (simp add: release_lock_def redis_get_run redis_decode_def utf8_decode_def redis_delete_def at_server_up)

section \<open>Merging\<close>

definition snapshot_time :: "dict \<Rightarrow> instant result" where
  "snapshot_time snapshot =
     (let synced = item_or_null snapshot ''_synced_at'';
          ts_raw = (if json_truthy synced then synced else item_or_null snapshot ''recorded_at'')
      in if json_truthy ts_raw then fromisoformat ts_raw else Inr datetime_min)"

text \<open>The payload that is stored, as a function of the stored snapshot and the event.\<close>

definition merge :: "dict option \<Rightarrow> DeviceEvent \<Rightarrow> dict" where
  "merge existing e =
     (case existing of
        None \<Rightarrow> de_payload e
      | Some snap \<Rightarrow> (case snapshot_time snap of
            Inr t \<Rightarrow> if t \<le> de_timestamp e \<or> de_forced e then de_payload e else snap
          | Inl _ \<Rightarrow> snap))"

definition readable :: "dict option \<Rightarrow> bool" where
  "readable existing \<longleftrightarrow> (\<forall>snap. existing = Some snap \<longrightarrow> (\<exists>t. snapshot_time snap = Inr t))"

lemma audit_effect:
  assumes "real_client w h"
  shows "\<exists>s'. write_audit_log rec w = (Inr (), w\<lparr>server := s'\<rparr>) \<and>
    srv_strings s' = srv_strings (server w) \<and> srv_up s' \<and> srv_published s' = srv_published (server w)"
  using assms
  by (intro exI [of _ "(server w)\<lparr>srv_streams := AList.update AUDIT_STREAM_KEY
        (last_n (AUDIT_STREAM_MAXLEN + srv_slack (server w))
          (srv_stream AUDIT_STREAM_KEY (server w) @ [audit_fields rec])) (srv_streams (server w))\<rparr>"])
    (simp add: write_audit_log_def get_redis_known redis_xadd_def real_client_def at_server_up)

lemma winning_payload_run:
  assumes "real_client w h" "readable existing"
  shows "\<exists>s' n. winning_payload (map_option JObj existing) e w =
      (Inr (merge existing e), w\<lparr>server := s', uuid_next := n\<rparr>) \<and>
    srv_strings s' = srv_strings (server w) \<and> srv_up s' \<and> srv_published s' = srv_published (server w)"
proof (cases existing)
  case None
  then show ?thesis using assms
    by (intro exI [of _ "server w"] exI [of _ "uuid_next w"])
      (simp add: winning_payload_def merge_def real_client_def)
next
  case (Some snap)
  then obtain t where t: "snapshot_time snap = Inr t" using assms(2) by (auto simp: readable_def)
  let ?old = "\<lparr> de_device_id = de_device_id e, de_user_id = de_user_id e, de_priority = de_priority e,
    de_timestamp = t, de_payload = snap, de_forced = False,
    de_event_id = (case map_of snap ''_event_id'' of Some (JStr s) \<Rightarrow> s | _ \<Rightarrow> []) \<rparr>"
  have old: "snapshot_to_event snap e = Inr ?old"
    using t by (auto simp: snapshot_to_event_def snapshot_time_def Let_def split: if_splits)
  show ?thesis
  proof (cases "de_timestamp e \<le> t")
    case False
    then show ?thesis using assms(1) Some t old
      by (intro exI [of _ "server w"] exI [of _ "uuid_next w"])
        (simp add: winning_payload_def merge_def real_client_def snapshot_dict_def needs_resolution_def)
  next
    case True
    obtain rec where res: "resolve ?old e w = (Inr (fst (pick_winner ?old e), rec), w\<lparr>uuid_next := Suc (uuid_next w)\<rparr>)"
      by (simp add: resolve_def Let_def)
    have "real_client (w\<lparr>uuid_next := Suc (uuid_next w)\<rparr>) h" using assms(1) by (simp add: real_client_def)
    from audit_effect [OF this, of rec] obtain s' where
      s': "write_audit_log rec (w\<lparr>uuid_next := Suc (uuid_next w)\<rparr>) = (Inr (), w\<lparr>uuid_next := Suc (uuid_next w), server := s'\<rparr>)"
      "srv_strings s' = srv_strings (server w)" "srv_up s'" "srv_published s' = srv_published (server w)" by auto
    have win: "de_payload (fst (pick_winner ?old e)) = merge existing e"
      using Some t True by (auto simp: merge_def pick_winner_def pick_first_def)
    have "winning_payload (map_option JObj existing) e w =
        (Inr (merge existing e), w\<lparr>uuid_next := Suc (uuid_next w), server := s'\<rparr>)"
      using Some old True res s'(1) win
      by (simp add: winning_payload_def snapshot_dict_def needs_resolution_def)
    moreover have "w\<lparr>uuid_next := Suc (uuid_next w), server := s'\<rparr> = w\<lparr>server := s', uuid_next := Suc (uuid_next w)\<rparr>"
      by simp
    ultimately show ?thesis using s'(2-4) by (intro exI [of _ s'] exI [of _ "Suc (uuid_next w)"]) simp
  qed
qed

lemma snapshot_read:
  assumes "real_client w h" "srv_get (clock w) (state_key u i) (server w) =
    map_option (\<lambda>snap. BText (Dumped (JObj snap))) existing"
  shows "get_device_snapshot u i w = (Inr (map_option JObj existing), w)"
  using assms
  by (cases existing; cases h)
    (simp_all add: get_device_snapshot_def get_redis_known real_client_def redis_get_run
      redis_decode_def utf8_decode_def)

lemma srv_get_strings: "srv_strings s = srv_strings s' \<Longrightarrow> srv_get t k s = srv_get t k s'"
  by (simp add: srv_get_def)

lemma write_snapshot_run:
  assumes "real_client w h"
  shows "write_snapshot u i d w =
    (Inr (), w\<lparr>server := srv_set (state_key u i) (BText (Dumped (JObj d)))
       (Some (clock w + SNAPSHOT_TTL_SECS * usec)) (server w)\<rparr>)"
  using assms by (simp add: write_snapshot_def get_redis_known real_client_def redis_set_run json_dumps_def)

text \<open>The world once the snapshot has been written, the lock still held.\<close>

definition synced :: "DeviceEvent \<Rightarrow> dict option \<Rightarrow> world \<Rightarrow> world \<Rightarrow> bool" where
  "synced e existing w w' \<longleftrightarrow>
     srv_up (server w') \<and> text_client w' = text_client w \<and> clock w' = clock w \<and>
     srv_published (server w') = srv_published (server w) \<and>
     srv_get (clock w) (state_key (de_user_id e) (de_device_id e)) (server w') =
       Some (BText (Dumped (JObj (stamp (clock w) e (merge existing e))))) \<and>
     (\<forall>t < clock w + LOCK_TIMEOUT_MS * 1000.
        srv_get t (lock_key (de_user_id e)) (server w') = Some (BText (lock_token (de_user_id e) (clock w)))) \<and>
     outbox w' = outbox w \<and>
     (\<exists>b x. (state_key (de_user_id e) (de_device_id e), b, x) \<in> set (srv_strings (server w')) \<and>
        live (clock w) x)"

lemma ingest_body:
  assumes "real_client w h" "\<not> lock_held (de_user_id e) w" "readable existing"
    "srv_get (clock w) (state_key (de_user_id e) (de_device_id e)) (server w) =
       map_option (\<lambda>snap. BText (Dumped (JObj snap))) existing"
  shows "\<exists>w'. ingest_event e w = tryFinally (broadcast_family_state (de_user_id e))
      (release_lock h (lock_key (de_user_id e)) (lock_token (de_user_id e) (clock w))) w' \<and>
    synced e existing w w'"
proof -
  let ?u = "de_user_id e" and ?i = "de_device_id e"
  let ?wl = "with_lock ?u w"
  have wl: "real_client ?wl h" "clock ?wl = clock w" "text_client ?wl = text_client w"
    using with_lock_real [OF assms(1)] by (simp_all add: with_lock_def)
  have "srv_get (clock ?wl) (state_key ?u ?i) (server ?wl) = map_option (\<lambda>snap. BText (Dumped (JObj snap))) existing"
    using assms(4) by (simp add: with_lock_def srv_get_set_other)
  note read = snapshot_read [OF wl(1) this]
  obtain s' n where win: "winning_payload (map_option JObj existing) e ?wl =
      (Inr (merge existing e), ?wl\<lparr>server := s', uuid_next := n\<rparr>)"
    and s': "srv_strings s' = srv_strings (server ?wl)" "srv_up s'" "srv_published s' = srv_published (server ?wl)"
    using winning_payload_run [OF wl(1) assms(3), of e] by blast
  let ?w2 = "?wl\<lparr>server := s', uuid_next := n\<rparr>"
  let ?d = "stamp (clock w) e (merge existing e)"
  let ?w' = "?w2\<lparr>server := srv_set (state_key ?u ?i) (BText (Dumped (JObj ?d)))
     (Some (clock w + SNAPSHOT_TTL_SECS * usec)) s'\<rparr>"
  have w2: "real_client ?w2 h" using wl s'(2) by (simp add: real_client_def)
  have wr: "write_snapshot ?u ?i ?d ?w2 = (Inr (), ?w')"
    using write_snapshot_run [OF w2] wl(2) by simp
  have lock: "srv_get t (lock_key ?u) (server ?w') = Some (BText (lock_token ?u (clock w)))"
    if "t < clock w + LOCK_TIMEOUT_MS * 1000" for t
    using that srv_get_strings [OF s'(1), of t "lock_key ?u"]
    by (simp add: srv_get_set_other with_lock_def srv_get_set_same)
  have state: "srv_get (clock w) (state_key ?u ?i) (server ?w') = Some (BText (Dumped (JObj ?d)))"
    by (simp add: srv_get_set_same SNAPSHOT_TTL_SECS_def usec_def)
  have "(state_key ?u ?i, BText (Dumped (JObj ?d)), Some (clock w + SNAPSHOT_TTL_SECS * usec))
      \<in> set (srv_strings (server ?w'))"
    using map_of_SomeD [of "srv_strings (server ?w')" "state_key ?u ?i"]
    by (simp add: srv_set_def update_conv')
  moreover have "live (clock w) (Some (clock w + SNAPSHOT_TTL_SECS * usec))"
    by (simp add: SNAPSHOT_TTL_SECS_def usec_def)
  ultimately have entry: "\<exists>b x. (state_key ?u ?i, b, x) \<in> set (srv_strings (server ?w')) \<and> live (clock w) x"
    by blast
  have "srv_up (server ?w')" "srv_published (server ?w') = srv_published (server w)"
    "clock ?w' = clock w" "text_client ?w' = text_client w" "outbox ?w' = outbox w"
    using s' by (simp_all add: with_lock_def srv_set_def)
  then have "synced e existing w ?w'"
    unfolding synced_def using lock state entry by blast
  moreover have "ingest_event e w = tryFinally (broadcast_family_state ?u)
      (release_lock h (lock_key ?u) (lock_token ?u (clock w))) ?w'"
  proof -
    have "(bindE (get_device_snapshot ?u ?i) (\<lambda>existing_state.
         bindE (winning_payload existing_state e) (\<lambda>winner_payload.
         bindE now_utc (\<lambda>t.
         andThen (write_snapshot ?u ?i (stamp t e winner_payload)) (broadcast_family_state ?u))))) ?wl =
       broadcast_family_state ?u ?w'"
      using read win wr wl(2) by simp
    then show ?thesis
      unfolding ingest_event_def user_lock_free [OF assms(1,2)] by (simp add: tryFinally_def)
  qed
  ultimately show ?thesis by blast
qed

section \<open>Properties\<close>

lemma starts_with_state_key: "starts_with (''screensync:state:'' @ u @ '':'') (state_key u i)"
  by (simp add: state_key_def starts_with_def)

lemma key_text_of: "key_text (if h = TextClient then VStr (Raw k) else VBytes (BText (Raw k))) = k"
  by simp

text \<open>With the text client the broadcast raises, whatever else the family has stored.\<close>

lemma broadcast_text:
  assumes "real_client w TextClient"
    "srv_get (clock w) (state_key u i) (server w) = Some (BText (Dumped j))"
    "\<exists>b x. (state_key u i, b, x) \<in> set (srv_strings (server w)) \<and> live (clock w) x"
  shows "\<exists>e. broadcast_family_state u w = (Inl e, w)"
proof -
  let ?p = "''screensync:state:'' @ u @ '':''"
  let ?keys = "map (\<lambda>k. VStr (Raw k)) (srv_keys (clock w) ?p (server w))"
  have keys: "redis_keys TextClient ?p w = (Inr ?keys, w)"
    using assms(1) by (simp add: redis_keys_def at_server_up real_client_def)
  have "state_key u i \<in> set (srv_keys (clock w) ?p (server w))"
    using assms(3) starts_with_state_key [of u i] by (force simp: srv_keys_def image_iff)
  then have mem: "VStr (Raw (state_key u i)) \<in> set ?keys" by simp
  have "fst (family_entry TextClient (VStr (Raw (state_key u i))) w) = Inl (AttributeError ''decode'')"
    using assms(1,2) by (simp add: family_entry_def redis_get_run real_client_def redis_decode_def utf8_decode_def)
  from forEach_raises [where f = "family_entry TextClient", OF family_entry_reads mem this] obtain e
    where "forEach (family_entry TextClient) ?keys w = (Inl e, w)" by blast
  then show ?thesis
    using keys get_redis_real [OF assms(1)]
    by (simp add: broadcast_family_state_def get_family_snapshot_def)
qed

text \<open>
  C13: Ingesting an event as deployed (the client decodes replies), with the user's lock free and a
  readable snapshot or none: the device's snapshot becomes the merge of the stored snapshot and the
  event, stamped with the time and the event's id, and is readable; but the call then fails (the
  code decodes what is already text), nothing is broadcast or published, and the lock stays taken
  until its three seconds are over.
\<close>

theorem ingest_deployed:
  assumes "real_client w TextClient" "\<not> lock_held (de_user_id e) w" "readable existing"
    "srv_get (clock w) (state_key (de_user_id e) (de_device_id e)) (server w) =
       map_option (\<lambda>snap. BText (Dumped (JObj snap))) existing"
  shows "\<exists>w'. ingest_event e w = (Inl (AttributeError ''decode''), w') \<and>
    get_device_snapshot (de_user_id e) (de_device_id e) w' =
      (Inr (Some (JObj (stamp (clock w) e (merge existing e)))), w') \<and>
    (\<forall>t < clock w + 3 * usec. lock_held (de_user_id e) (w'\<lparr>clock := t\<rparr>)) \<and>
    outbox w' = outbox w \<and> srv_published (server w') = srv_published (server w)"
proof -
  let ?u = "de_user_id e" and ?i = "de_device_id e"
  obtain w' where run: "ingest_event e w = tryFinally (broadcast_family_state ?u)
      (release_lock TextClient (lock_key ?u) (lock_token ?u (clock w))) w'" and s: "synced e existing w w'"
    using ingest_body [OF assms] by blast
  have w': "real_client w' TextClient" "clock w' = clock w" "srv_up (server w')"
    using s assms(1) by (simp_all add: synced_def real_client_def)
  have state: "srv_get (clock w') (state_key ?u ?i) (server w') =
      Some (BText (Dumped (JObj (stamp (clock w) e (merge existing e)))))"
    using s by (simp add: synced_def)
  have "\<exists>b x. (state_key ?u ?i, b, x) \<in> set (srv_strings (server w')) \<and> live (clock w') x"
    using s by (simp add: synced_def)
  from broadcast_text [OF w'(1) state this] obtain er where b: "broadcast_family_state ?u w' = (Inl er, w')"
    by blast
  have held: "srv_get t (lock_key ?u) (server w') = Some (BText (lock_token ?u (clock w)))"
    if "t < clock w + 3 * usec" for t
    using s that by (simp add: synced_def LOCK_TIMEOUT_MS_def usec_def)
  have "srv_get (clock w') (lock_key ?u) (server w') = Some (BText (lock_token ?u (clock w)))"
    using w'(2) by (intro held) (simp add: usec_def)
  from release_text [OF w'(3) this] have "ingest_event e w = (Inl (AttributeError ''decode''), w')"
    using b by (simp add: run tryFinally_run)
  moreover have "get_device_snapshot ?u ?i w' = (Inr (Some (JObj (stamp (clock w) e (merge existing e)))), w')"
    using snapshot_read [OF w'(1), of ?u ?i "Some (stamp (clock w) e (merge existing e))"] state by simp
  moreover have "lock_held ?u (w'\<lparr>clock := t\<rparr>)" if "t < clock w + 3 * usec" for t
    using held [OF that] by (simp add: lock_held_def)
  ultimately show ?thesis using s by (auto simp: synced_def)
qed

definition sync_world :: "redis_handle \<Rightarrow> instant \<Rightarrow> world" where
  "sync_world h t = (sample_world t empty_db)\<lparr>text_client := Some h\<rparr>"

lemma sync_world_sel [simp]:
  "h \<noteq> NullRedis \<Longrightarrow> real_client (sync_world h t) h" "\<not> lock_held u (sync_world h t)"
  "srv_get t' k (server (sync_world h t)) = None" "clock (sync_world h t) = t"
  "srv_published (server (sync_world h t)) = []"
  by (simp_all add: sync_world_def real_client_def lock_held_def srv_get_def sample_world_def)

definition phone_event :: "instant \<Rightarrow> int \<Rightarrow> DeviceEvent" where
  "phone_event t n = (event_at t 5 ''p'')\<lparr>de_payload := [(''used_seconds'', JInt n)]\<rparr>"

theorem ingest_deployed_witness:
  "\<exists>w'. ingest_event (phone_event 100 60) (sync_world TextClient 200) = (Inl (AttributeError ''decode''), w') \<and>
     lock_held ''a'' (w'\<lparr>clock := 3000199\<rparr>)"
proof -
  have "readable None" by (simp add: readable_def)
  from ingest_deployed [OF _ _ this, of "sync_world TextClient 200" "phone_event 100 60"]
  show ?thesis by (auto simp: phone_event_def event_at_def usec_def)
qed

text \<open>The message of a retry, delivered: the same event is ingested under a new event id.\<close>

lemma consume_retry:
  "consume_message ''message'' (Dumped (retry_message e)) w =
     tryExcept (ingest_event (e\<lparr>de_event_id := uuids w (uuid_next w)\<rparr>)) (\<lambda>_. ret ())
       (w\<lparr>uuid_next := Suc (uuid_next w)\<rparr>)"
proof -
  have "event_of_message (case retry_message e of JObj d \<Rightarrow> d | _ \<Rightarrow> []) = Inr (e\<lparr>de_event_id := []\<rparr>)"
    by (simp add: retry_message_def event_of_message_def item_str_def dict_item_def json_bool_def snapshot_dict_def)
  moreover have "retry_message e = JObj (case retry_message e of JObj d \<Rightarrow> d | _ \<Rightarrow> [])"
    by (simp add: retry_message_def)
  ultimately show ?thesis
    unfolding consume_message_def
    by (auto simp: tryExcept_def bindE_run snapshot_dict_def split: json.splits)
qed

text \<open>
  While the lock of a user is held, an event of the user changes no snapshot: it is published
  for a retry, and a consumer that receives the message later ingests the same event (under a new
  event id).  As the deployed client keeps the lock, the second event of a user within three seconds always ends here.
\<close>

theorem ingest_contention:
  assumes "real_client w h" "lock_held (de_user_id e) w"
  shows "ingest_event e w =
      (Inr (), w\<lparr>server := (server w)\<lparr>srv_published :=
         srv_published (server w) @ [(PUBSUB_CHANNEL, Dumped (retry_message e))]\<rparr>\<rparr>) \<and>
    consume_message ''message'' (Dumped (retry_message e)) w2 =
      tryExcept (ingest_event (e\<lparr>de_event_id := uuids w2 (uuid_next w2)\<rparr>)) (\<lambda>_. ret ())
        (w2\<lparr>uuid_next := Suc (uuid_next w2)\<rparr>)"
proof -
  have up: "srv_up (server w)" "h \<noteq> NullRedis" using assms(1) by (simp_all add: real_client_def)
  have "ingest_event e w =
      (Inr (), w\<lparr>server := (server w)\<lparr>srv_published :=
         srv_published (server w) @ [(PUBSUB_CHANNEL, Dumped (retry_message e))]\<rparr>\<rparr>)"
    unfolding ingest_event_def user_lock_taken [OF assms]
    using up get_redis_real [OF assms(1)]
    by (simp add: tryFinally_def redis_publish_def at_server_up json_dumps_def)
  then show ?thesis using consume_retry by blast
qed

theorem ingest_contention_witness:
  "\<exists>w2. ingest_event (phone_event 100 60) (with_lock ''a'' (sync_world TextClient 200)) = (Inr (), w2) \<and>
     srv_published (server w2) = [(PUBSUB_CHANNEL, Dumped (retry_message (phone_event 100 60)))]"
proof -
  let ?w = "with_lock ''a'' (sync_world TextClient 200)"
  have r: "real_client ?w TextClient" by (rule with_lock_real) simp
  have l: "lock_held (de_user_id (phone_event 100 60)) ?w"
    by (simp add: lock_held_def with_lock_def srv_get_set_same LOCK_TIMEOUT_MS_def phone_event_def event_at_def)
  have "srv_published (server ?w) = []" by (simp add: with_lock_def srv_set_def)
  with ingest_contention [OF r l, THEN conjunct1] show ?thesis by simp
qed

lemma item_or_null_update:
  "item_or_null (AList.update k v d) k' = (if k' = k then v else item_or_null d k')"
  by (simp add: item_or_null_def update_conv')

lemma snapshot_time_stamp: "snapshot_time (stamp t e p) = Inr t"
  by (simp add: snapshot_time_def stamp_def item_or_null_update)

text \<open>
  A stored snapshot is dated by the time it was synced, not by the time of its event: an event
  that is newer than the stored one on the devices' clocks, and would win the resolution against it,
  is discarded when it happened before the stored one was synced.
\<close>

theorem newer_event_discarded:
  assumes "de_timestamp e1 < de_timestamp e2" "de_timestamp e2 < t" "\<not> de_forced e1" "\<not> de_forced e2"
  shows "fst (pick_winner e1 e2) = e2 \<and>
    merge (Some (stamp t e1 (de_payload e1))) e2 = stamp t e1 (de_payload e1)"
  using assms by (simp add: merge_def snapshot_time_stamp pick_winner_def pick_first_def)

theorem newer_event_discarded_witness:
  "merge (Some (stamp 300 (phone_event 100 60) (de_payload (phone_event 100 60)))) (phone_event 200 90) =
     stamp 300 (phone_event 100 60) (de_payload (phone_event 100 60))"
  using newer_event_discarded [of "phone_event 100 60" "phone_event 200 90" 300]
  by (simp add: phone_event_def event_at_def)

section \<open>With the client the code expects\<close>

definition same_server :: "world \<Rightarrow> world \<Rightarrow> bool" where
  "same_server w0 w \<longleftrightarrow> server w = server w0 \<and> clock w = clock w0 \<and> text_client w = text_client w0"

lemma keeps_same_server_publish: "keeps (same_server w0) (await_publish topic payload qos)"
proof -
  have build: "server (snd (get_mqtt_client w)) = server w \<and> clock (snd (get_mqtt_client w)) = clock w \<and>
      text_client (snd (get_mqtt_client w)) = text_client w" for w
    by (auto simp: get_mqtt_client_def bindE_run build_client_def andThen_def)
  have send: "server (snd (paho_publish tp p q w)) = server w \<and> clock (snd (paho_publish tp p q w)) = clock w \<and>
      text_client (snd (paho_publish tp p q w)) = text_client w" for tp p q w
    by (auto simp: paho_publish_def bindE_run split: sum.splits)
  have "same_server w0 (snd (publish topic payload qos w))" if "same_server w0 w" for w
  proof (cases "get_mqtt_client w")
    case (Pair r w1)
    have b: "server w1 = server w" "clock w1 = clock w" "text_client w1 = text_client w"
      using build [of w] Pair by simp_all
    show ?thesis
      using that b send [of topic "PText (dumps_payload payload)" qos w1]
      by (cases r) (simp_all add: publish_def Pair same_server_def)
  qed
  then have "keeps (same_server w0) (publish topic payload qos)" by (rule keepsI)
  then show ?thesis unfolding await_publish_def by (intro keeps_intro)
qed

lemma broadcast_same_server:
  assumes "real_client w h"
  shows "same_server w (snd (broadcast_family_state u w))"
proof -
  obtain r where r: "get_family_snapshot u w = (r, w)"
    using get_family_reads [OF assms, of u] by (cases "get_family_snapshot u w") simp
  have "same_server w w" by (simp add: same_server_def)
  then show ?thesis
    using r keepsD [OF keeps_same_server_publish [of w]]
    by (cases r) (simp_all add: broadcast_family_state_def same_server_def bindE_run)
qed

text \<open>
  Not the deployed client: were replies returned as bytes, which is what the calls of \<open>decode\<close>
  expect, the lock of the user would be free again after an event has been ingested, whatever the
  broadcast raised, with the merged snapshot stored.
\<close>

lemma ingest_releases_lock:
  assumes "real_client w BytesClient" "\<not> lock_held (de_user_id e) w" "readable existing"
    "srv_get (clock w) (state_key (de_user_id e) (de_device_id e)) (server w) =
       map_option (\<lambda>snap. BText (Dumped (JObj snap))) existing"
  shows "\<not> lock_held (de_user_id e) (snd (ingest_event e w)) \<and>
    srv_get (clock w) (state_key (de_user_id e) (de_device_id e)) (server (snd (ingest_event e w))) =
      Some (BText (Dumped (JObj (stamp (clock w) e (merge existing e)))))"
proof -
  let ?u = "de_user_id e" and ?i = "de_device_id e" and ?k = "lock_key (de_user_id e)"
  obtain w' where run: "ingest_event e w = tryFinally (broadcast_family_state ?u)
      (release_lock BytesClient ?k (lock_token ?u (clock w))) w'" and s: "synced e existing w w'"
    using ingest_body [OF assms] by blast
  have w': "real_client w' BytesClient" using s assms(1) by (simp add: synced_def real_client_def)
  obtain r w2 where b: "broadcast_family_state ?u w' = (r, w2)" by (cases "broadcast_family_state ?u w'")
  then have w2: "server w2 = server w'" "clock w2 = clock w"
    using broadcast_same_server [OF w', of ?u] s by (simp_all add: same_server_def synced_def)
  have up: "srv_up (server w2)"
    and tok: "srv_get (clock w2) ?k (server w2) = Some (BText (lock_token ?u (clock w)))"
    using s w2 by (simp_all add: synced_def LOCK_TIMEOUT_MS_def)
  have "ingest_event e w = (r, w2\<lparr>server := srv_delete ?k (server w2)\<rparr>)"
    using b release_bytes [OF up tok] by (simp add: run tryFinally_run)
  then show ?thesis
    using s w2 by (simp add: lock_held_def srv_get_delete synced_def)
qed

end
