(* ===== verification/System.thy ===== *)
theory System
  imports Override Usage Aggregator Auth SyncEngine
begin

text \<open>
  The service as a whole: the requests its components handle, one handler at a time, and the
  environment in between.  The contract between the handlers and the storage they share is a
  locale: an invariant of the databases that each kind of statement keeps.  It is interpreted with
  two invariants, and both hold in every reachable world.
\<close>

section \<open>Requests\<close>

text \<open>
  What is not in the repository: the address validator, the keys of the other algorithms, the
  keyed hash of the decisions and the numerical library.
\<close>

record 'a platform =
  plat_email :: "string \<Rightarrow> string option"
  plat_foreign :: "json \<Rightarrow> string \<Rightarrow> jwk_key result"
  plat_mac :: "string \<Rightarrow> pytext \<Rightarrow> string"
  plat_numpy :: "'a numpy"

text \<open>
  The endpoints main.py mounts (with the Authorization header where they need a user), the
  usage endpoints, the messages of the broker and of the synchronisation channel, and the
  services of the other modules, which take the session of \<open>get_db\<close>.
\<close>

datatype 'a request =
    Register string string nat
  | Login string string
  | RegisterDevice "string option" string string "int option"
  | Heartbeat "string option" string "int option"
  | ListDevices "string option"
  | Deregister "string option" string
  | ReportUsage "string option" string string int
  | UsageSummary "string option" "int option"
  | MqttMessage string blob
  | SyncMessage string pytext
  | IngestEvent DeviceEvent
  | ProcessUsage Device string int
  | InitialiseBudgets string int
  | TriggerRebalance string
  | GrantExtraTime string int int
  | CreateOverride string int
  | CastVote string ValidatorKey bool
  | SubmitGradient string 'a int
  | Aggregate int

definition answered :: "'b handler \<Rightarrow> unit handler" where
  "answered m = andThen m (ret ())"

fun serve :: "'a platform \<Rightarrow> 'a request \<Rightarrow> unit handler" where
  "serve p (Register address password salt) =
     answered (get_db (register (plat_email p) salt address password))"
| "serve p (Login address password) = answered (get_db (login (plat_foreign p) address password))"
| "serve p (RegisterDevice auth name ty priority) =
     answered (authenticated (plat_foreign p) auth (\<lambda>u. register_endpoint u name ty priority))"
| "serve p (Heartbeat auth device battery) =
     answered (authenticated (plat_foreign p) auth (\<lambda>u. heartbeat_endpoint u device battery))"
| "serve p (ListDevices auth) = answered (authenticated (plat_foreign p) auth list_endpoint)"
| "serve p (Deregister auth device) =
     answered (authenticated (plat_foreign p) auth (\<lambda>u. deregister_endpoint u device))"
| "serve p (ReportUsage auth device category seconds) =
     answered (authenticated (plat_foreign p) auth (\<lambda>u. report_endpoint u device category seconds))"
| "serve p (UsageSummary auth date) =
     answered (authenticated (plat_foreign p) auth (\<lambda>u. usage_summary u date))"
| "serve p (MqttMessage topic payload) = on_message topic payload"
| "serve p (SyncMessage ty data) = consume_message ty data"
| "serve p (IngestEvent event) = ingest_event event"
| "serve p (ProcessUsage device category seconds) =
     answered (get_db (process_usage_event device category seconds))"
| "serve p (InitialiseBudgets user date) = answered (get_db (initialise_daily_budgets user date))"
| "serve p (TriggerRebalance user) = answered (get_db (trigger_rebalance user))"
| "serve p (GrantExtraTime device seconds date) =
     answered (get_db (grant_extra_time device seconds date))"
| "serve p (CreateOverride device seconds) = answered (get_db (create_override_request device seconds))"
| "serve p (CastVote override_id voter approve) =
     answered (get_db (cast_vote (plat_mac p) override_id voter approve))"
| "serve p (SubmitGradient device delta round_number) =
     answered (get_db (store_gradient_update (plat_numpy p) device delta round_number))"
| "serve p (Aggregate round_number) = answered (get_db (run_aggregation (plat_numpy p) round_number))"

section \<open>The steps of the service\<close>

text \<open>
  Between two requests anything but the databases may change: time passes, Redis evicts keys or
  goes down, the broker is not reachable, a process restarts.
\<close>

inductive step :: "'a platform \<Rightarrow> world \<Rightarrow> world \<Rightarrow> bool" for p :: "'a platform" where
  request: "step p w (snd (serve p r w))"
| environment: "committed w' = committed w \<Longrightarrow> working w' = working w \<Longrightarrow> step p w w'"

inductive reachable :: "'a platform \<Rightarrow> world \<Rightarrow> world \<Rightarrow> bool" for p :: "'a platform" and w0 :: world where
  start: "reachable p w0 w0"
| next_step: "reachable p w0 w \<Longrightarrow> step p w w' \<Longrightarrow> reachable p w0 w'"

inductive_cases stepE: "step p w w'"

section \<open>What storage promises the handlers\<close>

text \<open>
  An invariant of the databases in the sense of the handlers: it implies that the tables are well
  formed, it depends on nothing but the two databases, and every statement the handlers use keeps
  it, those that add a row with a reference or decide a request under the condition the code
  checks before.
\<close>

locale session_invariant =
  fixes I :: "world \<Rightarrow> bool"
  assumes wf: "I w \<Longrightarrow> world_wf w"
    and databases: "I w \<Longrightarrow> committed w' = committed w \<Longrightarrow> working w' = working w \<Longrightarrow> I w'"
    and on_commit: "I w \<Longrightarrow> I (w\<lparr>committed := working w\<rparr>)"
    and on_rollback: "I w \<Longrightarrow> I (w\<lparr>working := committed w\<rparr>)"
    and on_add_user: "I w \<Longrightarrow> I (snd (add_user u w))"
    and on_add_device: "I w \<Longrightarrow> dev_user_id d \<in> usr_id ` set (users (working w)) \<Longrightarrow>
      I (snd (add_device d w))"
    and on_add_event: "I w \<Longrightarrow> ev_device_id e \<in> dev_id ` set (devices (working w)) \<Longrightarrow>
      I (snd (add_event e w))"
    and on_add_budget: "I w \<Longrightarrow> bud_device_id b \<in> dev_id ` set (devices (working w)) \<Longrightarrow>
      I (snd (add_budget b w))"
    and on_add_override: "I w \<Longrightarrow> I (snd (add_override r w))"
    and on_beat: "I w \<Longrightarrow> I (snd (update_where devices_update q (beat t) w))"
    and on_delete: "I w \<Longrightarrow> I (snd (delete_device_row i w))"
    and on_budgets: "I w \<Longrightarrow> (\<And>b. bud_id (f b) = bud_id b) \<Longrightarrow>
      (\<And>b. bud_device_id (f b) = bud_device_id b) \<Longrightarrow> (\<And>b. bud_date (f b) = bud_date b) \<Longrightarrow>
      I (snd (update_where budgets_update q' f w))"
    and on_vote: "I w \<Longrightarrow>
      (\<And>r. r \<in> set (override_requests (working w)) \<Longrightarrow> ovr_id r = j \<Longrightarrow> ovr_status r = PENDING) \<Longrightarrow>
      I (snd (update_where override_requests_update (\<lambda>r. ovr_id r = j) (resolve_request st rs sg t) w))"
    and on_fl_delete: "I w \<Longrightarrow> I (snd (delete_where fl_model_updates_update g w))"
    and on_fl_add: "I w \<Longrightarrow> I (snd (add_fl_update fu w))"
begin

lemma quiet [intro]: "leaves_db m \<Longrightarrow> keeps I m"
  by (rule keepsI) (auto simp: leaves_db_def intro: databases)

lemma sessions [keeps_intro]: "keeps I commit" "keeps I rollback" "keeps I open_session"
  by (rule keepsI, simp add: on_commit on_rollback)+

lemma statements [keeps_intro]: "keeps I (add_user u)" "keeps I (add_override r)"
  "keeps I (update_where devices_update q (beat t))" "keeps I (delete_device_row i)"
  "keeps I (delete_where fl_model_updates_update g)" "keeps I (add_fl_update fu)"
  by (auto simp: keeps_def on_add_user on_add_override on_beat on_delete on_fl_delete on_fl_add)

lemma counters [keeps_intro]: "keeps I uuid4" "keeps I next_event_id"
  by (auto simp: keeps_def next_event_id_def intro: databases)

lemma kept_get_db [keeps_intro]: "keeps I body \<Longrightarrow> keeps I (get_db body)"
  unfolding get_db_def by (intro keeps_intro)

lemma kept_answered [keeps_intro]: "keeps I m \<Longrightarrow> keeps I (answered m)"
  unfolding answered_def by (intro keeps_intro)

text \<open>A handler that goes on with what it has read.\<close>

lemma after: "I w \<Longrightarrow> keeps I m \<Longrightarrow> (\<And>x w1. m w = (Inr x, w1) \<Longrightarrow> I w1 \<Longrightarrow> I (snd (f x w1))) \<Longrightarrow>
    I (snd (bindE m f w))"
  using keepsD [of I m w] by (auto simp: bindE_run split: prod.splits sum.splits)

lemma kept_get_current_user [keeps_intro]: "keeps I (get_current_user foreign token)"
proof -
  have "leaves_db (decode_token foreign token)"
    by (auto simp: leaves_db_def decode_token_def split: sum.splits option.splits exn.splits json.splits)
  then show ?thesis
    unfolding get_current_user_def find_user_def by (intro keeps_intro quiet)
qed

text \<open>The endpoint of an authenticated request runs for a user of the database.\<close>

lemma current_user_row:
  "get_current_user foreign token w = (Inr u, w1) \<Longrightarrow> w1 = w \<and> u \<in> set (users (working w))"
  by (auto simp: get_current_user_def decode_token_def find_user_def bindE_run select_one_run Let_def
      dest!: scalar_Some split: sum.splits option.splits exn.splits json.splits if_splits)

lemma kept_authenticated:
  assumes "\<And>u w. I w \<Longrightarrow> u \<in> set (users (working w)) \<Longrightarrow> I (snd (endpoint u w))"
  shows "keeps I (authenticated foreign auth endpoint)"
proof -
  have "keeps I (bindE (get_current_user foreign token) endpoint)" for token
  proof (rule keepsI)
    fix w assume "I w"
    then show "I (snd (bindE (get_current_user foreign token) endpoint w))"
      by (rule after) (use assms in \<open>auto intro: keeps_intro dest!: current_user_row\<close>)
  qed
  then have "keeps I (get_db (bindE (get_current_user foreign token) endpoint))" for token
    by (rule kept_get_db)
  then show ?thesis unfolding authenticated_def by (rule keeps_bindE [OF keeps_lift])
qed

subsection \<open>References that stay valid\<close>

text \<open>
  The row a handler has read is still there when it adds one that refers to it, whatever it has
  done to other tables in between.
\<close>

definition has_user :: "string \<Rightarrow> world \<Rightarrow> bool" where
  "has_user i w \<longleftrightarrow> I w \<and> i \<in> usr_id ` set (users (working w))"

definition has_devices :: "string set \<Rightarrow> world \<Rightarrow> bool" where
  "has_devices S w \<longleftrightarrow> I w \<and> S \<subseteq> dev_id ` set (devices (working w))"

lemma has_user_quiet: "leaves_db m \<Longrightarrow> keeps (has_user i) m"
  using quiet [of m] by (auto simp: keeps_def has_user_def leaves_db_def)

lemma has_devices_quiet: "leaves_db m \<Longrightarrow> keeps (has_devices S) m"
  using quiet [of m] by (auto simp: keeps_def has_devices_def leaves_db_def)

lemma has_user_add_device: "dev_user_id d = i \<Longrightarrow> keeps (has_user i) (add_device d)"
  by (auto simp: keeps_def has_user_def add_device_def add_row_def on_add_device [unfolded add_device_def add_row_def])

lemma has_devices_add_event: "ev_device_id e \<in> S \<Longrightarrow> keeps (has_devices S) (add_event e)"
  using on_add_event [of _ e]
  by (fastforce simp: keeps_def has_devices_def add_event_def add_row_def split: if_splits)

lemma has_devices_add_budget: "bud_device_id b \<in> S \<Longrightarrow> keeps (has_devices S) (add_budget b)"
  using on_add_budget [of _ b]
  by (fastforce simp: keeps_def has_devices_def add_budget_def add_row_def split: if_splits)

lemma has_devices_commit: "keeps (has_devices S) commit"
  by (auto simp: keeps_def has_devices_def on_commit)

lemma has_devices_counters: "keeps (has_devices S) next_event_id" "keeps (has_devices S) uuid4"
  by (auto simp: keeps_def has_devices_def next_event_id_def intro: databases)

lemmas has_devices_intro = keeps_bindE keeps_andThen keeps_ret keeps_raise keeps_lift keeps_if
  keeps_case_option keeps_select keeps_select_one has_devices_commit has_devices_counters
  has_devices_quiet leaves_db_intro

lemma has_devices_I: "keeps (has_devices S) m \<Longrightarrow> has_devices S w \<Longrightarrow> I (snd (m w))"
  by (metis has_devices_def keepsD)

text \<open>A device found by a query is such a row.\<close>

lemma kept_with_device:
  assumes "keeps I none" "\<And>d. keeps I (other d)" "\<And>d. keeps (has_devices {i}) (rest d)"
  shows "keeps I (bindE (select_one devices (\<lambda>d. dev_id d = i))
    (\<lambda>row. case row of None \<Rightarrow> none | Some d \<Rightarrow> if c d then other d else rest d))"
proof (rule keepsI)
  fix w assume w: "I w"
  show "I (snd (bindE (select_one devices (\<lambda>d. dev_id d = i))
    (\<lambda>row. case row of None \<Rightarrow> none | Some d \<Rightarrow> if c d then other d else rest d) w))"
  proof (rule after [OF w keeps_select_one])
    fix row w1 assume "select_one devices (\<lambda>d. dev_id d = i) w = (Inr row, w1)" "I w1"
    then have "row = Some d \<Longrightarrow> has_devices {i} w1" for d
      by (auto simp: select_one_run has_devices_def dest: scalar_Some)
    with \<open>I w1\<close>
    show "I (snd ((case row of None \<Rightarrow> none | Some d \<Rightarrow> if c d then other d else rest d) w1))"
      by (auto split: option.split intro: has_devices_I [OF assms(3)] keepsD [OF assms(1)] keepsD [OF assms(2)])
  qed
qed

subsection \<open>Accounts and devices\<close>

lemma kept_register [keeps_intro]: "keeps I (register email salt address password)"
  unfolding register_def create_user_def find_user_def Let_def by (intro keeps_intro quiet leaves_db_intro)

lemma kept_login [keeps_intro]: "keeps I (login foreign address password)"
proof -
  have "leaves_db (create_access_token foreign u)" for u
    by (simp add: leaves_db_def create_access_token_def Let_def)
  then show ?thesis
    unfolding login_def authenticate_def find_user_def by (intro keeps_intro quiet)
qed

lemma kept_register_device:
  assumes "I w" "u \<in> set (users (working w))"
  shows "I (snd (register_endpoint u name ty priority w))"
proof -
  have add: "keeps (has_user (usr_id u)) (add_device d)" if "dev_user_id d = usr_id u" for d
    using that by (intro has_user_add_device)
  have "keeps (has_user (usr_id u)) (register_device u name ty n)" for n
    unfolding register_device_def Let_def
    by (intro keeps_bindE keeps_andThen keeps_ret has_user_quiet leaves_db_intro add) simp
  moreover have "has_user (usr_id u) w" using assms by (simp add: has_user_def)
  ultimately have "I (snd (register_device u name ty n w))" for n
    by (metis has_user_def keepsD)
  with assms(1) show ?thesis by (simp add: register_endpoint_def split: sum.splits)
qed

lemma kept_get_device [keeps_intro]: "keeps I (get_device_for_user i u)"
  unfolding get_device_for_user_def by (intro keeps_intro)

lemma kept_devices [keeps_intro]: "keeps I (heartbeat_endpoint u i b)" "keeps I (list_endpoint u)"
    "keeps I (deregister_endpoint u i)"
  unfolding heartbeat_endpoint_def heartbeat_def list_endpoint_def list_devices_def
    deregister_endpoint_def deregister_device_def
  by (intro keeps_intro quiet leaves_db_intro)+

subsection \<open>Usage\<close>

lemma kept_report: "keeps I (report_endpoint u i c n)"
proof -
  have "keeps I (report_usage i c n u)"
    unfolding report_usage_def Let_def
    by (intro kept_with_device keeps_raise has_devices_intro has_devices_add_event) simp_all
  then show ?thesis by (auto simp: report_endpoint_def split: sum.splits intro: keeps_raise)
qed

lemma kept_summary: "keeps I (usage_summary u date)"
  unfolding usage_summary_def daily_summary_def Let_def by (intro keeps_intro)

lemma kept_session: "keeps I body \<Longrightarrow> keeps I (sync_session body)"
  unfolding sync_session_def by (intro keeps_intro)

lemma kept_handle_usage [keeps_intro]: "keeps I (handle_usage user i payload)"
  unfolding handle_usage_def evaluate_and_enforce_def Let_def
  by (intro keeps_bindE keeps_lift keeps_if keeps_ret kept_session kept_with_device
      has_devices_intro has_devices_add_event) simp_all

lemma kept_handle_heartbeat [keeps_intro]: "keeps I (handle_heartbeat i)"
  unfolding handle_heartbeat_def by (intro keeps_intro kept_session)

lemma kept_on_message: "keeps I (on_message topic payload)"
  unfolding on_message_def Let_def by (intro keeps_intro)

subsection \<open>Budgets\<close>

lemma quiet_get_budget: "leaves_db (get_budget i t)" "leaves_db (rc_delete k)"
  by (intro leaves_db_intro)+

lemma kept_initialise: "keeps I (initialise_daily_budgets user date)"
proof -
  have row: "keeps (has_devices S) (initialise_budget date x)" if "dev_id x \<in> S" for x S
    unfolding initialise_budget_def Let_def
    using that by (intro has_devices_intro has_devices_add_budget) simp_all
  have rows: "keeps (has_devices S) (forEach (initialise_budget date) xs)" if "dev_id ` set xs \<subseteq> S" for xs S
    using that by (induction xs) (auto intro!: keeps_bindE keeps_ret row)
  show ?thesis
  proof (rule keepsI)
    fix w assume w: "I w"
    let ?xs = "filter (\<lambda>d. dev_user_id d = user \<and> dev_is_online d) (devices (working w))"
    have "has_devices (dev_id ` set ?xs) w" using w by (auto simp: has_devices_def)
    moreover have "keeps (has_devices (dev_id ` set ?xs)) (bindE (forEach (initialise_budget date) ?xs)
        (\<lambda>created. andThen commit (ret (concat created))))"
      by (intro has_devices_intro rows) simp
    ultimately show "I (snd (initialise_daily_budgets user date w))"
      by (auto simp: initialise_daily_budgets_def bindE_run [of "select_where _ _"] intro: has_devices_I)
  qed
qed

lemma kept_budget_update:
  "(\<And>b. bud_id (f b) = bud_id b) \<Longrightarrow> (\<And>b. bud_device_id (f b) = bud_device_id b) \<Longrightarrow>
     (\<And>b. bud_date (f b) = bud_date b) \<Longrightarrow> keeps I (update_where budgets_update q f)"
  by (simp add: keeps_def on_budgets)

lemma kept_record_usage: "keeps I (record_usage i n date)" "keeps I (grant_extra_time i n date)"
  unfolding record_usage_def record_usage_with_def grant_extra_time_def grant_extra_time_with_def
  by (intro keeps_intro kept_budget_update quiet quiet_get_budget; simp)+

lemma kept_rebalance: "keeps I (trigger_rebalance user)"
  unfolding trigger_rebalance_def trigger_rebalance_with_def rebalance_budgets_with_def
    rebalance_row_def publish_update_def Let_def
  by (intro keeps_intro kept_budget_update quiet leaves_db_intro; simp)

lemma kept_process_usage: "keeps I (process_usage_event device category n)"
proof -
  have quiet_parts: "leaves_db (remaining_item b)" "leaves_db (publish_enforcement device r b)" for b r
    unfolding publish_enforcement_def remaining_item_def int_item_def by (intro leaves_db_intro)+
  show ?thesis
    unfolding process_usage_event_def process_usage_event_with_def Let_def
    by (intro keeps_intro kept_initialise quiet quiet_parts quiet_get_budget
        kept_record_usage(1) [unfolded record_usage_def])
qed

subsection \<open>Overrides, gradients, synchronisation\<close>

lemma kept_create_override: "keeps I (create_override_request i n)"
  unfolding create_override_request_def Let_def by (intro keeps_intro quiet leaves_db_intro)

lemma quiet_quorum: "leaves_db (evaluate_quorum_with mac lookup_budget_by_text i d votes)"
  unfolding evaluate_quorum_with_def validate_time_of_day_def sign_decision_def Let_def
  by (intro leaves_db_intro)

text \<open>A vote is recorded for a request that was found pending, which no step in between changes.\<close>

definition pending :: "string \<Rightarrow> world \<Rightarrow> bool" where
  "pending j w \<longleftrightarrow> I w \<and>
     (\<forall>r \<in> set (override_requests (working w)). ovr_id r = j \<longrightarrow> ovr_status r = PENDING)"

lemma pending_quiet: "leaves_db m \<Longrightarrow> keeps (pending j) m"
  using quiet [of m] by (auto simp: keeps_def pending_def leaves_db_def)

lemma pending_bind:
  "pending j w \<Longrightarrow> leaves_db m \<Longrightarrow> (\<And>x w1. pending j w1 \<Longrightarrow> I (snd (f x w1))) \<Longrightarrow>
     I (snd (bindE m f w))"
  using keepsD [OF pending_quiet, of m j w]
  by (auto simp: bindE_run pending_def split: prod.splits sum.splits)

lemma pending_vote:
  "pending j w \<Longrightarrow> keeps I rest \<Longrightarrow>
     I (snd (andThen (update_where override_requests_update (\<lambda>r. ovr_id r = j)
       (resolve_request st rs sg t)) rest w))"
  using on_vote [of w j st rs sg t]
  by (auto simp: pending_def andThen_def bindE_run keeps_def split: prod.splits sum.splits)

lemma found_pending:
  assumes "I w" "select_one override_requests (\<lambda>r. ovr_id r = j) w = (Inr (Some r), w1)"
    "ovr_status r = PENDING"
  shows "pending j w1"
proof -
  have r: "r \<in> set (override_requests (working w))" "ovr_id r = j" "w1 = w"
    using assms(2) by (auto simp: select_one_run dest: scalar_Some)
  have "inj_on ovr_id (set (override_requests (working w)))"
    using wf [OF assms(1)] by (simp add: world_wf_def db_wf_def distinct_map)
  then have "r' = r" if "r' \<in> set (override_requests (working w))" "ovr_id r' = j" for r'
    using that r by (simp add: inj_onD)
  with r(3) assms(1,3) show ?thesis unfolding pending_def by blast
qed

lemma kept_cast_vote: "keeps I (cast_vote mac j voter approve)"
proof (rule keepsI)
  fix w assume w: "I w"
  have tail: "keeps I (andThen commit (andThen (if b1 then publish_override_result d j True n
       else if b2 then publish_override_result d j False 0 else ret ()) (ret r)))" for b1 b2 d n r
    by (intro keeps_intro quiet leaves_db_publish_result)
  have vote: "pending j w1 \<Longrightarrow> I (snd (bindE now_utc (\<lambda>t.
      andThen (update_where override_requests_update (\<lambda>r. ovr_id r = j) (resolve_request st rs sg t))
        (rest t)) w1))" if "\<And>t. keeps I (rest t)" for st rs sg w1 and rest :: "instant \<Rightarrow> OverrideRequest handler"
    using that by (auto intro: pending_bind leaves_db_clock(1) pending_vote)
  show "I (snd (cast_vote mac j voter approve w))"
    unfolding cast_vote_def cast_vote_with_def Let_def
    by (rule after [OF w keeps_select_one])
      (auto split: option.split intro!: pending_bind [OF found_pending [OF w]] quiet_quorum
        vote tail)
qed

lemma kept_gradients: "keeps I (store_gradient_update np i delta n)" "keeps I (run_aggregation np n)"
proof -
  have quiet_import: "leaves_db (import_module m)" for m
    by (simp add: leaves_db_def import_module_def)
  note quiets = quiet quiet_import leaves_db_intro
  have quiet_parts: "leaves_db (load_global_weights np' sh)" "leaves_db (save_global_weights np' ws k)"
    for np' :: "'c numpy" and sh ws k
    unfolding load_global_weights_def save_global_weights_def by (intro leaves_db_intro)+
  show "keeps I (store_gradient_update np i delta n)"
    unfolding store_gradient_update_def submission_count_def Let_def by (intro keeps_intro quiets)
  show "keeps I (run_aggregation np n)"
    unfolding run_aggregation_def by (intro keeps_intro quiet_parts quiets)
qed

lemma kept_sync: "keeps I (ingest_event event)" "keeps I (consume_message ty data)"
proof -
  have ingest: "leaves_db (ingest_event event)" for event
    unfolding ingest_event_def user_lock_def release_lock_def get_device_snapshot_def
      winning_payload_def resolve_def write_audit_log_def write_snapshot_def
      broadcast_family_state_def get_family_snapshot_def family_entry_def Let_def case_prod_unfold
    by (intro leaves_db_intro leaves_db_mqtt)
  then show "keeps I (ingest_event event)" by (rule quiet)
  show "keeps I (consume_message ty data)"
    unfolding consume_message_def by (intro keeps_intro quiet ingest)
qed

subsection \<open>Every request\<close>

lemma kept_serve: "keeps I (serve p r)"
proof (cases r)
  case (RegisterDevice auth name ty priority)
  then show ?thesis by (auto intro!: kept_answered kept_authenticated kept_register_device)
next
  case (ReportUsage auth i c n)
  then show ?thesis by (auto intro!: kept_answered kept_authenticated keepsD [OF kept_report])
next
  case (UsageSummary auth date)
  then show ?thesis by (auto intro!: kept_answered kept_authenticated keepsD [OF kept_summary])
next
  case (Heartbeat auth i b)
  then show ?thesis by (auto intro!: kept_answered kept_authenticated keepsD [OF kept_devices(1)])
next
  case (ListDevices auth)
  then show ?thesis by (auto intro!: kept_answered kept_authenticated keepsD [OF kept_devices(2)])
next
  case (Deregister auth i)
  then show ?thesis by (auto intro!: kept_answered kept_authenticated keepsD [OF kept_devices(3)])
qed (simp_all only: serve.simps, (intro kept_answered kept_get_db kept_register kept_login
      kept_on_message kept_sync kept_process_usage kept_initialise kept_rebalance kept_record_usage
      kept_create_override kept_cast_vote kept_gradients)+)

lemma kept_step: "step p w w' \<Longrightarrow> I w \<Longrightarrow> I w'"
  by (erule stepE) (auto intro: keepsD [OF kept_serve] databases)

lemma kept_reachable: "reachable p w0 w \<Longrightarrow> I w0 \<Longrightarrow> I w"
  by (induction rule: reachable.induct) (auto intro: kept_step)

end

section \<open>The tables are well formed\<close>

lemma fl_add_databases:
  "override_requests (working (snd (add_fl_update fu w))) = override_requests (working w)"
  "committed (snd (add_fl_update fu w)) = committed w"
  "world_wf w \<Longrightarrow> world_wf (snd (add_fl_update fu w))"
  by (auto simp: add_fl_update_def add_row_def list_ex_iff world_wf_def db_wf_def)

lemma wf_sessions:
  "world_wf w \<Longrightarrow> world_wf (w\<lparr>committed := working w\<rparr>)"
  "world_wf w \<Longrightarrow> world_wf (w\<lparr>working := committed w\<rparr>)"
  "world_wf w \<Longrightarrow> committed w' = committed w \<Longrightarrow> working w' = working w \<Longrightarrow> world_wf w'"
  by (simp_all add: world_wf_def)

interpretation tables: session_invariant world_wf
proof
  fix w :: world and i
  assume "world_wf w"
  then show "world_wf (snd (delete_device_row i w))"
    by (simp add: delete_device_row_run world_wf_def remove_rows_wf)
next
  fix w :: world and q and f :: "Budget \<Rightarrow> Budget"
  assume "world_wf w" "\<And>b. bud_id (f b) = bud_id b" "\<And>b. bud_device_id (f b) = bud_device_id b"
    "\<And>b. bud_date (f b) = bud_date b"
  then show "world_wf (snd (update_where budgets_update q f w))"
    by (intro keepsD [OF update_budgets_wf])
qed (simp_all add: wf_sessions keepsD [OF add_user_wf] keepsD [OF add_override_wf] add_device_wf
      add_event_wf add_budget_wf fl_add_databases keepsD [OF delete_fl_wf]
      keepsD [OF update_devices_wf] keepsD [OF update_overrides_wf] beat_def resolve_request_def)

text \<open>
  C4: Every reachable database is well formed: starting from well-formed tables, and whatever
  requests arrive in whatever order, with whatever changes of the environment in between and
  whatever errors, identifiers and email addresses stay unique, a device has at most one budget per
  day, and every device, event and budget refers to a row that exists.
\<close>

theorem reachable_tables_wf:
  assumes "reachable p w0 w" "world_wf w0"
  shows "db_wf (committed w) \<and> db_wf (working w)"
  using tables.kept_reachable [OF assms] by (simp add: world_wf_def)

theorem reachable_tables_wf_witness:
  "\<forall>p :: unit platform.
     let w1 = snd (serve p (Register ''a@b.org'' ''secret'' 7) (sample_world 5 empty_db));
         w2 = snd (serve p (InitialiseBudgets ''idx'' 3) (w1\<lparr>clock := 9\<rparr>))
     in db_wf (committed w2)"
proof (rule allI)
  fix p :: "unit platform"
  let ?w0 = "sample_world 5 empty_db"
  define w1 where "w1 = snd (serve p (Register ''a@b.org'' ''secret'' 7) ?w0)"
  have "reachable p ?w0 (w1\<lparr>clock := 9\<rparr>)"
    unfolding w1_def
    by (rule next_step [OF next_step [OF start request [where r = "Register ''a@b.org'' ''secret'' 7"]]
          environment]) simp_all
  then have "reachable p ?w0 (snd (serve p (InitialiseBudgets ''idx'' 3) (w1\<lparr>clock := 9\<rparr>)))"
    by (rule next_step [OF _ request])
  then have "db_wf (committed (snd (serve p (InitialiseBudgets ''idx'' 3) (w1\<lparr>clock := 9\<rparr>))))"
    using reachable_tables_wf [of p ?w0] by (simp add: world_wf_def sample_world_def)
  then show "let w1 = snd (serve p (Register ''a@b.org'' ''secret'' 7) ?w0);
      w2 = snd (serve p (InitialiseBudgets ''idx'' 3) (w1\<lparr>clock := 9\<rparr>)) in db_wf (committed w2)"
    by (simp add: w1_def Let_def)
qed

section \<open>Decisions are final\<close>

definition decided :: "OverrideRequest \<Rightarrow> world \<Rightarrow> bool" where
  "decided r w \<longleftrightarrow> world_wf w \<and> ovr_status r \<noteq> PENDING \<and>
     r \<in> set (override_requests (committed w)) \<and> r \<in> set (override_requests (working w))"

lemma add_row_overrides:
  "override_requests (working (snd (add_user u w))) = override_requests (working w)"
  "override_requests (working (snd (add_device d w))) = override_requests (working w)"
  "override_requests (working (snd (add_event e w))) = override_requests (working w)"
  "override_requests (working (snd (add_budget b w))) = override_requests (working w)"
  "set (override_requests (working w)) \<subseteq> set (override_requests (working (snd (add_override r w))))"
  "committed (snd (add_user u w)) = committed w" "committed (snd (add_device d w)) = committed w"
  "committed (snd (add_event e w)) = committed w" "committed (snd (add_budget b w)) = committed w"
  "committed (snd (add_override r w)) = committed w"
  by (auto simp: add_user_def add_device_def add_event_def add_budget_def add_override_def add_row_def)

lemma other_overrides:
  "override_requests (working (snd (update_where devices_update q f w))) = override_requests (working w)"
  "override_requests (working (snd (update_where budgets_update q' g w))) = override_requests (working w)"
  "override_requests (working (snd (delete_where fl_model_updates_update h w))) = override_requests (working w)"
  "override_requests (working (snd (delete_device_row i w))) = override_requests (working w)"
  "committed (snd (update_where devices_update q f w)) = committed w"
  "committed (snd (update_where budgets_update q' g w)) = committed w"
  "committed (snd (update_where override_requests_update q'' k w)) = committed w"
  "committed (snd (delete_where fl_model_updates_update h w)) = committed w"
  "committed (snd (delete_device_row i w)) = committed w"
  by (simp_all add: update_where_def delete_where_def delete_device_row_run remove_rows_def)

lemmas decided_frame = add_row_overrides(1-4,6-) other_overrides fl_add_databases(1,2)

interpretation decision: session_invariant "decided r" for r
proof
  fix w :: world and q and f :: "Budget \<Rightarrow> Budget"
  assume "decided r w" "\<And>b. bud_id (f b) = bud_id b" "\<And>b. bud_device_id (f b) = bud_device_id b"
    "\<And>b. bud_date (f b) = bud_date b"
  then show "decided r (snd (update_where budgets_update q f w))"
    unfolding decided_def decided_frame by (blast intro: tables.on_budgets)
next
  fix w :: world and j st rs sg t
  assume d: "decided r w" and pend: "\<And>r'. r' \<in> set (override_requests (working w)) \<Longrightarrow> ovr_id r' = j \<Longrightarrow> ovr_status r' = PENDING"
  then have "ovr_id r \<noteq> j" by (auto simp: decided_def)
  with d have "r \<in> set (override_requests (working (snd (update_where override_requests_update
      (\<lambda>r. ovr_id r = j) (resolve_request st rs sg t) w))))"
    by (force simp: decided_def update_where_def image_iff)
  with d pend show "decided r (snd (update_where override_requests_update
      (\<lambda>r. ovr_id r = j) (resolve_request st rs sg t) w))"
    unfolding decided_def decided_frame by (blast intro: tables.on_vote)
next
  fix w w' :: world
  assume "decided r w" "committed w' = committed w" "working w' = working w"
  then show "decided r w'" by (auto simp: decided_def world_wf_def)
next
  fix w :: world and r'
  assume "decided r w"
  then show "decided r (snd (add_override r' w))"
    unfolding decided_def decided_frame using add_row_overrides(5) tables.on_add_override by blast
qed (simp_all add: decided_def decided_frame tables.on_add_user tables.on_add_device
      tables.on_add_event tables.on_add_budget tables.on_beat tables.on_delete tables.on_fl_delete
      tables.on_fl_add wf_sessions)

text \<open>
  C8: The decision on an override request is final: once a request is stored approved or denied, its
  row (status, votes, time and signature) is the same in every world the service can reach, under
  any requests, later votes included, and any changes of the environment.
\<close>

theorem decisions_final:
  assumes "reachable p w0 w" "world_wf w0" "working w0 = committed w0"
    and "r \<in> set (override_requests (committed w0))" "ovr_status r \<noteq> PENDING"
  shows "r \<in> set (override_requests (committed w))"
  using decision.kept_reachable [OF assms(1), of r] assms(2-) by (simp add: decided_def)

theorem decisions_final_witness:
  "\<forall>p :: unit platform. hour_request ''i'' APPROVED \<in> set (override_requests (committed
     (snd (serve p (CastVote ''i'' PARENT False) (sample_world afternoon asking_db)))))"
proof (rule allI)
  fix p :: "unit platform"
  have "reachable p (sample_world afternoon asking_db)
      (snd (serve p (CastVote ''i'' PARENT False) (sample_world afternoon asking_db)))"
    by (rule next_step [OF start request])
  then show "hour_request ''i'' APPROVED \<in> set (override_requests (committed
     (snd (serve p (CastVote ''i'' PARENT False) (sample_world afternoon asking_db)))))"
    by (rule decisions_final) (simp_all add: world_wf_def sample_world_def asking_db_wf)
qed

section \<open>Accounts last\<close>

text \<open>No statement of the service removes or changes a user.\<close>

definition account :: "User \<Rightarrow> world \<Rightarrow> bool" where
  "account u w \<longleftrightarrow> world_wf w \<and> u \<in> set (users (committed w)) \<and> u \<in> set (users (working w))"

lemma users_kept:
  "set (users (working w)) \<subseteq> set (users (working (snd (add_user u w))))"
  "users (working (snd (add_device d w))) = users (working w)"
  "users (working (snd (add_event e w))) = users (working w)"
  "users (working (snd (add_budget b w))) = users (working w)"
  "users (working (snd (add_override r w))) = users (working w)"
  "users (working (snd (add_fl_update fu w))) = users (working w)"
  "users (working (snd (update_where devices_update q f w))) = users (working w)"
  "users (working (snd (update_where budgets_update q' g w))) = users (working w)"
  "users (working (snd (update_where override_requests_update q'' k w))) = users (working w)"
  "users (working (snd (delete_where fl_model_updates_update h w))) = users (working w)"
  "users (working (snd (delete_device_row i w))) = users (working w)"
  by (auto simp: add_user_def add_device_def add_event_def add_budget_def add_override_def add_fl_update_def
      add_row_def update_where_def delete_where_def delete_device_row_run remove_rows_def)

lemmas account_frame = users_kept(2-) add_row_overrides(6-) other_overrides(5-) fl_add_databases(2)

interpretation accounts: session_invariant "account u" for u
proof
  fix w :: world and u'
  assume "account u w"
  then show "account u (snd (add_user u' w))"
    unfolding account_def account_frame using users_kept(1) tables.on_add_user by blast
next
  fix w :: world and q and f :: "Budget \<Rightarrow> Budget"
  assume "account u w" "\<And>b. bud_id (f b) = bud_id b" "\<And>b. bud_device_id (f b) = bud_device_id b"
    "\<And>b. bud_date (f b) = bud_date b"
  then show "account u (snd (update_where budgets_update q f w))"
    unfolding account_def account_frame by (blast intro: tables.on_budgets)
next
  fix w :: world and j st rs sg t
  assume "account u w" "\<And>r. r \<in> set (override_requests (working w)) \<Longrightarrow> ovr_id r = j \<Longrightarrow> ovr_status r = PENDING"
  then show "account u (snd (update_where override_requests_update (\<lambda>r. ovr_id r = j) (resolve_request st rs sg t) w))"
    unfolding account_def account_frame by (blast intro: tables.on_vote)
next
  fix w w' :: world
  assume "account u w" "committed w' = committed w" "working w' = working w"
  then show "account u w'" by (auto simp: account_def world_wf_def)
qed (simp_all add: account_def account_frame tables.on_add_device tables.on_add_event tables.on_add_budget
      tables.on_add_override tables.on_beat tables.on_delete tables.on_fl_delete tables.on_fl_add wf_sessions)

text \<open>
  C9: An account lasts, and so does a session: once a user is stored, then in every world the
  service can reach, after whatever requests and changes of the environment, the login with the
  address of the account succeeds exactly with a password that derives the stored key (passwords of
  at most 4096 characters: a longer one makes the hashing raise), and the token it returns names the
  same user in every world reachable from there, as long as the settings are the same and the clock
  has not reached the second the token expires at.
\<close>

theorem account_lasts:
  assumes "reachable p w0 w1" "reachable p w1 w2" "world_wf w0" "working w0 = committed w0"
    and "u \<in> set (users (committed w0))" "usr_id u \<noteq> []"
    and "context_hash v password = Inr (usr_hashed_password u)"
    and "length password \<le> MAX_PASSWORD_SIZE" "length other \<le> MAX_PASSWORD_SIZE"
    and "token_secret (config w1) h" "config w2 = config w1" "timegm (clock w2) < expiry w1"
  shows "\<exists>t. fst (get_db (login foreign (usr_email u) other) w1) =
      (if derived_key other v = derived_key password v then Inr \<lparr> access_token = t, token_type = ''bearer'' \<rparr>
       else Inl (Unauthorized ''Invalid credentials'')) \<and>
    fst (get_db (get_current_user foreign t) w2) = Inr u"
proof -
  have a0: "account u w0" using assms(3-5) by (simp add: account_def)
  have a1: "account u w1" by (rule accounts.kept_reachable [OF assms(1) a0])
  have a2: "account u w2" by (rule accounts.kept_reachable [OF assms(2) a1])
  obtain t where login: "fst (get_db (login foreign (usr_email u) other) w1) =
      (if derived_key other v = derived_key password v then Inr \<lparr> access_token = t, token_type = ''bearer'' \<rparr>
       else Inl (Unauthorized ''Invalid credentials''))"
    and dec: "\<forall>w'. config w' = config w1 \<longrightarrow> timegm (clock w') \<le> expiry w1 \<longrightarrow> usr_id u \<noteq> [] \<longrightarrow>
       decode_token foreign t w' = (Inr (usr_id u), w')"
    using login_known [of w1 h u v password other foreign] a1 assms(7-10)
    by (auto simp: account_def world_wf_def)
  have "fst (get_db (get_current_user foreign t) w2) = Inr u"
    using a2 dec assms(6,11,12) by (intro token_user) (auto simp: account_def world_wf_def)
  with login show ?thesis by blast
qed

definition keeper :: User where
  "keeper = \<lparr> usr_id = ''k'', usr_email = ''k@x'',
     usr_hashed_password = (case context_hash 7 ''secret'' of Inl _ \<Rightarrow> [] | Inr s \<Rightarrow> s), usr_created_at = 0 \<rparr>"

definition keeper_db :: db where
  "keeper_db = empty_db\<lparr>users := [keeper]\<rparr>"

theorem account_lasts_witness:
  "\<forall>p :: unit platform.
     let w1 = sample_world 0 keeper_db;
         w2 = (snd (serve p (InitialiseBudgets ''k'' 3) w1))\<lparr>config := config w1, clock := 60 * usec\<rparr>
     in \<exists>t. fst (get_db (login (\<lambda>k a. Inl (JWKError a)) ''k@x'' ''secret'') w1) =
          Inr \<lparr> access_token = t, token_type = ''bearer'' \<rparr> \<and>
        fst (get_db (get_current_user (\<lambda>k a. Inl (JWKError a)) t) w2) = Inr keeper"
proof (rule allI)
  fix p :: "unit platform"
  let ?w = "sample_world 0 keeper_db"
  let ?w2 = "(snd (serve p (InitialiseBudgets ''k'' 3) ?w))\<lparr>config := config ?w, clock := 60 * usec\<rparr>"
  have w1: "reachable p ?w ?w" by (rule start)
  have w2: "reachable p ?w ?w2"
    by (rule next_step [OF next_step [OF start request [where r = "InitialiseBudgets ''k'' 3"]] environment])
      simp_all
  have wf: "world_wf ?w"
    by (simp add: world_wf_def db_wf_def keeper_db_def empty_db_def)
  have pw: "length ''secret'' \<le> MAX_PASSWORD_SIZE" by (simp add: MAX_PASSWORD_SIZE_def)
  obtain hash where "context_hash 7 ''secret'' = Inr hash"
    using password_verifies_run [OF pw pw, of 7] by blast
  then have hashed: "context_hash 7 ''secret'' = Inr (usr_hashed_password keeper)" by (simp add: keeper_def)
  have sec: "token_secret (config ?w) sha256" by (simp only: sample_world_config default_token_secret)
  have mem: "keeper \<in> set (users (committed ?w))" "usr_id keeper \<noteq> []"
    by (simp_all add: keeper_db_def keeper_def)
  have time: "timegm (clock ?w2) < expiry ?w"
    by (simp add: sample_expiry) (simp add: timegm_def usec_def)
  have same: "working ?w = committed ?w" "config ?w2 = config ?w" by simp_all
  have "usr_email keeper = ''k@x''" by (simp add: keeper_def)
  with account_lasts [OF w1 w2 wf same(1) mem hashed pw pw sec same(2) time, of "\<lambda>k a. Inl (JWKError a)"]
  show "let w1 = ?w; w2 = (snd (serve p (InitialiseBudgets ''k'' 3) w1))\<lparr>config := config w1, clock := 60 * usec\<rparr>
     in \<exists>t. fst (get_db (login (\<lambda>k a. Inl (JWKError a)) ''k@x'' ''secret'') w1) =
          Inr \<lparr> access_token = t, token_type = ''bearer'' \<rparr> \<and>
        fst (get_db (get_current_user (\<lambda>k a. Inl (JWKError a)) t) w2) = Inr keeper"
    by (simp add: Let_def)
qed

end
