(* ===== verification/Cors.thy ===== *)
theory Cors
  imports Headers Codec
begin

text \<open>
  The CORS policy of the service: the middleware main.py installs, with the vendored starlette's
  implementation (middleware/cors.py).  The application behind the middleware is represented by
  the header list it starts its response with; a compiled origin pattern is its \<open>fullmatch\<close>
  predicate.
\<close>

section \<open>The middleware\<close>

definition ALL_METHODS :: "string list" where
  "ALL_METHODS = [''DELETE'', ''GET'', ''HEAD'', ''OPTIONS'', ''PATCH'', ''POST'', ''PUT'']"

definition SAFELISTED_HEADERS :: "string list" where
  "SAFELISTED_HEADERS = [''Accept'', ''Accept-Language'', ''Content-Language'', ''Content-Type'']"

text \<open>\<open>", ".join(xs)\<close> and \<open>sorted(set)\<close>\<close>

fun comma_join :: "string list \<Rightarrow> string" where
  "comma_join [] = []"
| "comma_join [x] = x"
| "comma_join (x # y # xs) = x @ '', '' @ comma_join (y # xs)"

definition sorted_set :: "string list \<Rightarrow> string list" where
  "sorted_set xs = sort (remdups xs)"

record cors_args =
  arg_origins :: "string list"
  arg_methods :: "string list"
  arg_headers :: "string list"
  arg_credentials :: bool
  arg_regex :: "(string \<Rightarrow> bool) option"
  arg_expose :: "string list"
  arg_max_age :: int

record cors =
  allow_origins :: "string list"
  allow_methods :: "string list"
  allow_headers :: "string list"
  allow_all_origins :: bool
  allow_all_headers :: bool
  preflight_explicit_allow_origin :: bool
  allow_origin_regex :: "(string \<Rightarrow> bool) option"
  simple_headers :: headers
  preflight_headers :: headers

definition ACAO :: string where "ACAO = ''Access-Control-Allow-Origin''"
definition ACAC :: string where "ACAC = ''Access-Control-Allow-Credentials''"

definition cors_simple_headers :: "cors_args \<Rightarrow> headers" where
  "cors_simple_headers a =
     (if ''*'' \<in> set (arg_origins a) then [(ACAO, ''*'')] else []) @
     (if arg_credentials a then [(ACAC, ''true'')] else []) @
     (if arg_expose a \<noteq> [] then [(''Access-Control-Expose-Headers'', comma_join (arg_expose a))] else [])"

definition cors_preflight_headers :: "cors_args \<Rightarrow> string list \<Rightarrow> headers" where
  "cors_preflight_headers a methods =
     (let explicit = (''*'' \<notin> set (arg_origins a) \<or> arg_credentials a);
          hs = sorted_set (SAFELISTED_HEADERS @ arg_headers a)
      in (if explicit then [(''Vary'', ''Origin'')] else [(ACAO, ''*'')]) @
         [(''Access-Control-Allow-Methods'', comma_join methods),
          (''Access-Control-Max-Age'', show_int (arg_max_age a))] @
         (if hs \<noteq> [] \<and> ''*'' \<notin> set (arg_headers a)
          then [(''Access-Control-Allow-Headers'', comma_join hs)] else []) @
         (if arg_credentials a then [(ACAC, ''true'')] else []))"

definition CORSMiddleware :: "cors_args \<Rightarrow> cors" where
  "CORSMiddleware a =
     (let methods = (if ''*'' \<in> set (arg_methods a) then ALL_METHODS else arg_methods a)
      in \<lparr> allow_origins = arg_origins a, allow_methods = methods,
           allow_headers = map lower (sorted_set (SAFELISTED_HEADERS @ arg_headers a)),
           allow_all_origins = (''*'' \<in> set (arg_origins a)),
           allow_all_headers = (''*'' \<in> set (arg_headers a)),
           preflight_explicit_allow_origin = (''*'' \<notin> set (arg_origins a) \<or> arg_credentials a),
           allow_origin_regex = arg_regex a,
           simple_headers = cors_simple_headers a,
           preflight_headers = cors_preflight_headers a methods \<rparr>)"

definition is_allowed_origin :: "cors \<Rightarrow> string \<Rightarrow> bool" where
  "is_allowed_origin c origin \<longleftrightarrow>
     allow_all_origins c \<or>
     (case allow_origin_regex c of None \<Rightarrow> False | Some fullmatch \<Rightarrow> fullmatch origin) \<or>
     origin \<in> set (allow_origins c)"

section \<open>Responses\<close>

text \<open>
  starlette/responses.py: the body is rendered, then the given headers are stored in lower case
  and the length and the type of the content are added unless the caller gave them.
\<close>

record response =
  rsp_status :: int
  rsp_body :: string
  rsp_headers :: headers

definition init_headers :: "int \<Rightarrow> string option \<Rightarrow> string \<Rightarrow> headers option \<Rightarrow> headers" where
  "init_headers status media_type body given =
     (let raw = (case given of None \<Rightarrow> [] | Some hs \<Rightarrow> map (\<lambda>(k, v). (lower k, v)) hs);
          keys = map fst raw
      in raw @
         (if ''content-length'' \<notin> set keys \<and> \<not> (status < 200 \<or> status = 204 \<or> status = 304)
          then [(''content-length'', show_int (int (length body)))] else []) @
         (case media_type of
            None \<Rightarrow> []
          | Some t \<Rightarrow>
              if ''content-type'' \<in> set keys then []
              else [(''content-type'',
                     if take 5 t = ''text/'' then t @ ''; charset=utf-8'' else t)]))"

definition PlainTextResponse :: "string \<Rightarrow> int \<Rightarrow> headers \<Rightarrow> response" where
  "PlainTextResponse content status hs =
     (let body = encode_utf8 content
      in \<lparr> rsp_status = status, rsp_body = body,
           rsp_headers = init_headers status (Some ''text/plain'') body (Some hs) \<rparr>)"

section \<open>Answering requests\<close>

definition header_allowed :: "cors \<Rightarrow> string \<Rightarrow> bool" where
  "header_allowed c h \<longleftrightarrow> strip h \<in> set (allow_headers c)"

definition preflight_response :: "cors \<Rightarrow> headers \<Rightarrow> response result" where
  "preflight_response c request =
     (case hdr_getitem request ''origin'' of
        Inl e \<Rightarrow> Inl e
      | Inr origin \<Rightarrow>
     (case hdr_getitem request ''access-control-request-method'' of
        Inl e \<Rightarrow> Inl e
      | Inr requested_method \<Rightarrow>
     (let requested_headers = hdr_get request ''access-control-request-headers'';
          headers1 =
            (if is_allowed_origin c origin \<and> preflight_explicit_allow_origin c
             then AList.update ACAO origin (preflight_headers c) else preflight_headers c);
          headers2 =
            (case requested_headers of
               Some r \<Rightarrow> if allow_all_headers c
                 then AList.update ''Access-Control-Allow-Headers'' r headers1 else headers1
             | None \<Rightarrow> headers1);
          failures =
            (if is_allowed_origin c origin then [] else [''origin'']) @
            (if requested_method \<in> set (allow_methods c) then [] else [''method'']) @
            (case requested_headers of
               Some r \<Rightarrow> if allow_all_headers c then []
                 else if list_all (header_allowed c) (map lower (split_on (CHR '','') r)) then []
                 else [''headers'']
             | None \<Rightarrow> [])
      in Inr (if failures \<noteq> []
              then PlainTextResponse (''Disallowed CORS '' @ comma_join failures) 400 headers2
              else PlainTextResponse ''OK'' 200 headers2))))"

definition allow_explicit_origin :: "headers \<Rightarrow> string \<Rightarrow> headers" where
  "allow_explicit_origin hs origin = hdr_add_vary (hdr_setitem hs ACAO origin) ''Origin''"

text \<open>\<open>send\<close>: what becomes of the header list an application starts its response with.\<close>

definition cors_send :: "cors \<Rightarrow> headers \<Rightarrow> headers \<Rightarrow> headers result" where
  "cors_send c request app_headers =
     (let hs = hdr_update app_headers (simple_headers c)
      in case hdr_getitem request ''Origin'' of
           Inl e \<Rightarrow> Inl e
         | Inr origin \<Rightarrow>
             Inr (if allow_all_origins c \<and> hdr_contains request ''cookie''
                  then allow_explicit_origin hs origin
                  else if \<not> allow_all_origins c \<and> is_allowed_origin c origin
                  then allow_explicit_origin hs origin
                  else hs))"

text \<open>\<open>__call__\<close>: a request without an origin passes through unchanged.\<close>

datatype outcome = Answered response | Forwarded headers

definition cors_call :: "cors \<Rightarrow> string \<Rightarrow> headers \<Rightarrow> headers \<Rightarrow> outcome result" where
  "cors_call c meth request app_headers =
     (if hdr_get request ''origin'' = None then Inr (Forwarded app_headers)
      else if meth = ''OPTIONS'' \<and> hdr_contains request ''access-control-request-method''
      then map_sum id Answered (preflight_response c request)
      else map_sum id Forwarded (cors_send c request app_headers))"

text \<open>What the client may read off the answer.\<close>

fun outcome_headers :: "outcome \<Rightarrow> headers" where
  "outcome_headers (Answered r) = rsp_headers r"
| "outcome_headers (Forwarded hs) = hs"

section \<open>main.py\<close>

definition app_cors :: "settings \<Rightarrow> cors" where
  "app_cors cfg = CORSMiddleware
     \<lparr> arg_origins = ALLOWED_ORIGINS cfg, arg_methods = [''*''], arg_headers = [''*''],
       arg_credentials = True, arg_regex = None, arg_expose = [], arg_max_age = 600 \<rparr>"

section \<open>Lemmas\<close>

lemma lower_names [simp]:
  "lower ''origin'' = ''origin''"
  "lower ''Origin'' = ''origin''"
  "lower ''Vary'' = ''vary''"
  "lower ''vary'' = ''vary''"
  "lower ''cookie'' = ''cookie''"
  "lower ''access-control-request-method'' = ''access-control-request-method''"
  "lower ''access-control-request-headers'' = ''access-control-request-headers''"
  "lower ''Access-Control-Allow-Origin'' = ''access-control-allow-origin''"
  "lower ''Access-Control-Allow-Credentials'' = ''access-control-allow-credentials''"
  "lower ''Access-Control-Allow-Methods'' = ''access-control-allow-methods''"
  "lower ''Access-Control-Allow-Headers'' = ''access-control-allow-headers''"
  "lower ''Access-Control-Max-Age'' = ''access-control-max-age''"
  "lower ''Access-Control-Expose-Headers'' = ''access-control-expose-headers''"
  by code_simp+

lemma hdr_get_Some: "hdr_get hs k = Some v \<longleftrightarrow> hdr_getitem hs k = Inr v"
  by (simp add: hdr_get_def split: sum.splits)

lemma hdr_get_contains:
  assumes "hdr_get hs k = Some v"
  shows "hdr_contains hs k"
proof -
  have "hdr_find k' hs = Some v \<Longrightarrow> list_ex (\<lambda>kv. fst kv = k') hs" for k'
    by (induction hs) (auto split: if_splits)
  with assms show ?thesis
    by (simp add: hdr_get_def hdr_getitem_def hdr_contains_def split: option.splits)
qed

lemma add_vary_getlist:
  "lower k \<noteq> ''vary'' \<Longrightarrow> hdr_getlist (hdr_add_vary hs v) k = hdr_getlist hs k"
  by (auto simp: hdr_add_vary_def mutable_headers.set_other split: option.splits)

lemma explicit_origin_getlist:
  "hdr_getlist (allow_explicit_origin hs origin) ACAO = [origin]"
  by (simp add: allow_explicit_origin_def add_vary_getlist ACAO_def mutable_headers.set_same)

text \<open>The middleware writes the origin header itself only when all origins are allowed.\<close>

lemma simple_headers_origin:
  "\<not> allow_all_origins (CORSMiddleware a) \<Longrightarrow>
     lower ACAO \<notin> lower ` fst ` set (simple_headers (CORSMiddleware a))"
  by (auto simp: CORSMiddleware_def Let_def cors_simple_headers_def ACAO_def ACAC_def)

lemma allowed_listed:
  "\<not> allow_all_origins c \<Longrightarrow> allow_origin_regex c = None \<Longrightarrow>
     is_allowed_origin c origin \<longleftrightarrow> origin \<in> set (allow_origins c)"
  by (simp add: is_allowed_origin_def)

lemma preflight_headers_origin:
  assumes "preflight_explicit_allow_origin (CORSMiddleware a)"
  shows "ACAO \<notin> fst ` set (preflight_headers (CORSMiddleware a))"
    "\<forall>k \<in> fst ` set (preflight_headers (CORSMiddleware a)). lower k \<noteq> lower ACAO"
  using assms
  by (auto simp: CORSMiddleware_def Let_def cors_preflight_headers_def ACAO_def ACAC_def)

lemma PlainTextResponse_getlist:
  assumes "lower n \<noteq> ''content-length''" "lower n \<noteq> ''content-type''"
  shows "hdr_getlist (rsp_headers (PlainTextResponse body status hs)) n =
     map snd (filter (\<lambda>kv. lower (fst kv) = lower n) hs)"
proof -
  have "map snd (filter (\<lambda>kv. fst kv = lower n) (map (\<lambda>(k, v). (lower k, v)) hs)) =
      map snd (filter (\<lambda>kv. lower (fst kv) = lower n) hs)"
    by (induction hs) auto
  with assms show ?thesis
    by (simp add: PlainTextResponse_def init_headers_def hdr_getlist_def Let_def)
qed

lemma filter_update_other:
  assumes "k \<notin> fst ` set d" "P k" "\<forall>k' \<in> fst ` set d. \<not> P k'"
  shows "filter (\<lambda>kv. P (fst kv)) (AList.update k v d) = [(k, v)]"
proof -
  have "AList.update k v d = d @ [(k, v)]" using assms(1) by (induction d) auto
  moreover have "filter (\<lambda>kv. P (fst kv)) d = []" using assms(3) by (simp add: filter_empty_conv)
  ultimately show ?thesis using assms(2) by simp
qed

lemma filter_update_untouched:
  "\<not> P k \<Longrightarrow> filter (\<lambda>kv. P (fst kv)) (AList.update k v d) = filter (\<lambda>kv. P (fst kv)) d"
  by (induction d) auto

text \<open>What a preflight answer says of a header, other than the mirrored list of headers.\<close>

lemma preflight_getlist:
  assumes pre: "preflight_response (CORSMiddleware a) request = Inr r"
    and n: "lower n \<notin> {''access-control-allow-headers'', ''content-length'', ''content-type''}"
  shows "\<exists>origin. hdr_get request ''origin'' = Some origin \<and>
    hdr_getlist (rsp_headers r) n =
      map snd (filter (\<lambda>kv. lower (fst kv) = lower n)
        (if is_allowed_origin (CORSMiddleware a) origin \<and>
            preflight_explicit_allow_origin (CORSMiddleware a)
         then AList.update ACAO origin (preflight_headers (CORSMiddleware a))
         else preflight_headers (CORSMiddleware a)))"
proof -
  let ?c = "CORSMiddleware a"
  let ?P = "\<lambda>kv :: string \<times> string. lower (fst kv) = lower n"
  have other: "lower ''Access-Control-Allow-Headers'' \<noteq> lower n" using n by auto
  note untouched = filter_update_untouched [where P = "\<lambda>k. lower k = lower n", OF other]
  obtain origin where o: "hdr_getitem request ''origin'' = Inr origin"
    using pre by (cases "hdr_getitem request ''origin''") (simp_all add: preflight_response_def)
  obtain rm where m: "hdr_getitem request ''access-control-request-method'' = Inr rm"
    using pre o by (cases "hdr_getitem request ''access-control-request-method''")
      (simp_all add: preflight_response_def)
  let ?h1 = "if is_allowed_origin ?c origin \<and> preflight_explicit_allow_origin ?c
    then AList.update ACAO origin (preflight_headers ?c) else preflight_headers ?c"
  let ?h2 = "case hdr_get request ''access-control-request-headers'' of
      Some q \<Rightarrow> if allow_all_headers ?c
        then AList.update ''Access-Control-Allow-Headers'' q ?h1 else ?h1
    | None \<Rightarrow> ?h1"
  have either: "\<exists>b st. r' = f b st" if "(if d then f b1 s1 else f b2 s2) = r'"
    for f :: "string \<Rightarrow> int \<Rightarrow> response" and d b1 s1 b2 s2 r'
    using that by (auto split: if_splits)
  have "\<exists>b st. r = PlainTextResponse b st ?h2"
    using pre unfolding preflight_response_def o m sum.case Let_def sum.inject
    by (rule either [where f = "\<lambda>b st. PlainTextResponse b st ?h2"])
  moreover have "filter ?P ?h2 = filter ?P ?h1"
    by (cases "hdr_get request ''access-control-request-headers''") (simp_all add: untouched)
  ultimately show ?thesis using o n by (auto simp: hdr_get_Some PlainTextResponse_getlist)
qed

text \<open>So its origin headers are the origin of the request, where that is allowed, and none otherwise.\<close>

lemma preflight_origin:
  assumes pre: "preflight_response (CORSMiddleware a) request = Inr r"
    and explicit: "preflight_explicit_allow_origin (CORSMiddleware a)"
    and o: "hdr_get request ''origin'' = Some origin"
  shows "hdr_getlist (rsp_headers r) ACAO =
    (if is_allowed_origin (CORSMiddleware a) origin then [origin] else [])"
proof -
  let ?c = "CORSMiddleware a"
  have none: "filter (\<lambda>kv. lower (fst kv) = lower ACAO) (preflight_headers ?c) = []"
    using preflight_headers_origin(2) [OF explicit] by (simp add: filter_empty_conv)
  have one: "filter (\<lambda>kv. lower (fst kv) = lower ACAO) (AList.update ACAO origin (preflight_headers ?c)) =
      [(ACAO, origin)]"
    using preflight_headers_origin [OF explicit]
    by (intro filter_update_other [where P = "\<lambda>k. lower k = lower ACAO"]) simp_all
  have "lower ACAO \<notin> {''access-control-allow-headers'', ''content-length'', ''content-type''}"
    by (simp add: ACAO_def)
  from preflight_getlist [OF pre this] show ?thesis using explicit o none one by auto
qed

lemma preflight_credentials:
  assumes pre: "preflight_response (CORSMiddleware a) request = Inr r"
    and cred: "arg_credentials a"
  shows "hdr_getlist (rsp_headers r) ACAC = [''true'']"
proof -
  let ?c = "CORSMiddleware a" and ?P = "\<lambda>kv :: string \<times> string. lower (fst kv) = lower ACAC"
  have own: "filter ?P (preflight_headers ?c) = [(ACAC, ''true'')]"
    using cred by (simp add: CORSMiddleware_def Let_def cors_preflight_headers_def ACAO_def ACAC_def)
  have kept: "filter ?P (AList.update ACAO v d) = filter ?P d" for v d
    by (rule filter_update_untouched [where P = "\<lambda>k. lower k = lower ACAC"]) (simp add: ACAO_def ACAC_def)
  have "lower ACAC \<notin> {''access-control-allow-headers'', ''content-length'', ''content-type''}"
    by (simp add: ACAC_def)
  from preflight_getlist [OF pre this] show ?thesis by (auto simp: kept own split: if_splits)
qed

lemma cors_call_cases:
  assumes "cors_call c meth request app_headers = Inr out"
  shows "hdr_get request ''origin'' = None \<and> out = Forwarded app_headers \<or>
    (\<exists>r. preflight_response c request = Inr r \<and> out = Answered r) \<or>
    (\<exists>hs. cors_send c request app_headers = Inr hs \<and> out = Forwarded hs)"
  using assms
  by (cases "preflight_response c request"; cases "cors_send c request app_headers")
    (simp_all add: cors_call_def split: if_splits)

section \<open>Who may read the answers\<close>

text \<open>
  C40: With a list of origins and no wildcard, the middleware grants access only to origins on the
  list: whatever the request, any value of Access-Control-Allow-Origin in the answer, beyond those
  the application wrote itself, is the origin of the request and is on the list.
\<close>

theorem cors_grants_listed_only:
  assumes listed: "''*'' \<notin> set (arg_origins a)" "arg_regex a = None"
    and call: "cors_call (CORSMiddleware a) meth request app_headers = Inr out"
    and granted: "v \<in> set (hdr_getlist (outcome_headers out) ACAO)"
    and own: "hdr_getlist app_headers ACAO = []"
  shows "v \<in> set (arg_origins a) \<and> hdr_get request ''origin'' = Some v"
proof -
  let ?c = "CORSMiddleware a"
  have c: "\<not> allow_all_origins ?c" "allow_origin_regex ?c = None" "allow_origins ?c = arg_origins a"
    "preflight_explicit_allow_origin ?c"
    using listed by (simp_all add: CORSMiddleware_def Let_def)
  note allowed = allowed_listed [OF c(1,2), unfolded c(3)]
  consider (pass) "hdr_get request ''origin'' = None" "out = Forwarded app_headers"
    | (pre) r where "preflight_response ?c request = Inr r" "out = Answered r"
    | (simple) hs where "cors_send ?c request app_headers = Inr hs" "out = Forwarded hs"
    using cors_call_cases [OF call] by metis
  then show ?thesis
  proof cases
    case pass
    with granted own show ?thesis by simp
  next
    case simple
    have base: "hdr_getlist (hdr_update app_headers (simple_headers ?c)) ACAO = []"
      unfolding hdr_update_assign
      using mutable_headers.assign_all_untouched simple_headers_origin [OF c(1)] own by metis
    obtain origin where o: "hdr_getitem request ''Origin'' = Inr origin"
      and hs: "hs = (if is_allowed_origin ?c origin
        then allow_explicit_origin (hdr_update app_headers (simple_headers ?c)) origin
        else hdr_update app_headers (simple_headers ?c))"
      using simple(1) c(1) by (auto simp: cors_send_def Let_def split: sum.splits if_splits)
    have "is_allowed_origin ?c origin \<and> v = origin"
      using granted base simple(2) unfolding hs
      by (auto simp: explicit_origin_getlist split: if_splits)
    moreover have "hdr_get request ''origin'' = Some origin"
      using o by (simp add: hdr_get_Some hdr_getitem_def split: option.splits)
    ultimately show ?thesis using allowed by simp
  next
    case pre
    obtain origin where o: "hdr_get request ''origin'' = Some origin"
      using pre(1) by (cases "hdr_getitem request ''origin''")
        (simp_all add: preflight_response_def hdr_get_def)
    have "is_allowed_origin ?c origin \<and> v = origin"
      using granted pre(2) preflight_origin [OF pre(1) c(4) o] by (auto split: if_splits)
    then show ?thesis using allowed o by simp
  qed
qed

theorem cors_grants_listed_only_witness:
  "let a = \<lparr> arg_origins = [''https://app.local''], arg_methods = [''*''], arg_headers = [],
      arg_credentials = True, arg_regex = None, arg_expose = [], arg_max_age = 600 \<rparr>
   in \<exists>hs. cors_call (CORSMiddleware a) ''GET'' [(''origin'', ''https://app.local'')] [] =
        Inr (Forwarded hs) \<and> hdr_getlist hs ACAO = [''https://app.local''] \<and>
      ''https://app.local'' \<in> set (arg_origins a)"
proof -
  let ?a = "\<lparr> arg_origins = [''https://app.local''], arg_methods = [''*''], arg_headers = [],
      arg_credentials = True, arg_regex = None, arg_expose = [], arg_max_age = 600 \<rparr>"
  let ?hs = "[(lower ACAC, ''true''), (lower ACAO, ''https://app.local''), (''vary'', ''Origin'')]"
  have call: "cors_call (CORSMiddleware ?a) ''GET'' [(''origin'', ''https://app.local'')] [] =
      Inr (Forwarded ?hs)"
    by (simp add: cors_call_def cors_send_def CORSMiddleware_def Let_def cors_simple_headers_def
        hdr_get_def hdr_getitem_def hdr_update_def hdr_setitem_set_first is_allowed_origin_def
        allow_explicit_origin_def hdr_add_vary_def ACAO_def ACAC_def)
  have granted: "hdr_getlist ?hs ACAO = [''https://app.local'']"
    by (simp add: hdr_getlist_def ACAO_def ACAC_def)
  have "''https://app.local'' \<in> set (arg_origins ?a)"
    using cors_grants_listed_only [OF _ _ call] granted by (simp add: hdr_getlist_def)
  with call granted show ?thesis by simp
qed

text \<open>
  The policy main.py deploys is open: with a wildcard among the configured origins and
  credentials always allowed, every preflight request that names a known method is granted, the
  answer repeating the very origin that asked and allowing it credentials.
\<close>

theorem deployed_policy_mirrors:
  assumes wild: "''*'' \<in> set (ALLOWED_ORIGINS cfg)"
    and origin: "hdr_get request ''origin'' = Some origin"
    and meth: "hdr_get request ''access-control-request-method'' = Some m" "m \<in> set ALL_METHODS"
  shows "\<exists>r. cors_call (app_cors cfg) ''OPTIONS'' request app_headers = Inr (Answered r) \<and>
      rsp_status r = 200 \<and> hdr_getlist (rsp_headers r) ACAO = [origin] \<and>
      hdr_getlist (rsp_headers r) ACAC = [''true'']"
proof -
  let ?c = "app_cors cfg"
  have c: "allow_all_origins ?c" "allow_all_headers ?c" "allow_methods ?c = ALL_METHODS"
      "preflight_explicit_allow_origin ?c" "is_allowed_origin ?c origin"
    using wild by (simp_all add: app_cors_def CORSMiddleware_def Let_def is_allowed_origin_def)
  have "hdr_getitem request ''access-control-request-method'' = Inr m"
    using meth(1) by (simp add: hdr_get_Some)
  moreover have "hdr_getitem request ''origin'' = Inr origin" using origin by (simp add: hdr_get_Some)
  ultimately obtain r where r: "preflight_response ?c request = Inr r" "rsp_status r = 200"
    using meth(2) c
    by (auto simp: preflight_response_def Let_def PlainTextResponse_def split: option.splits)
  have "hdr_contains request ''access-control-request-method''"
    using meth(1) by (rule hdr_get_contains)
  then have "cors_call ?c ''OPTIONS'' request app_headers = Inr (Answered r)"
    using r origin by (simp add: cors_call_def)
  moreover have "hdr_getlist (rsp_headers r) ACAO = [origin]"
    "hdr_getlist (rsp_headers r) ACAC = [''true'']"
    using preflight_origin [OF r(1) [unfolded app_cors_def]] c(4,5) origin
      preflight_credentials [OF r(1) [unfolded app_cors_def]]
    by (simp_all add: app_cors_def)
  ultimately show ?thesis using r(2) by blast
qed

theorem deployed_policy_mirrors_witness:
  "let cfg = default_settings ''/tmp'';
       request = [(''origin'', ''https://evil.example''), (''access-control-request-method'', ''PUT'')]
   in \<exists>r. cors_call (app_cors cfg) ''OPTIONS'' request [] = Inr (Answered r) \<and>
      hdr_getlist (rsp_headers r) ACAO = [''https://evil.example'']"
proof -
  let ?r = "[(''origin'', ''https://evil.example''), (''access-control-request-method'', ''PUT'')]"
  have "hdr_get ?r ''origin'' = Some ''https://evil.example''"
    "hdr_get ?r ''access-control-request-method'' = Some ''PUT''"
    by (simp_all add: hdr_get_def hdr_getitem_def)
  from deployed_policy_mirrors [OF _ this, of "default_settings ''/tmp''" "[]"]
  show ?thesis by (auto simp: default_settings_def ALL_METHODS_def)
qed

end
