(* ===== verification/Server.thy ===== *)
theory Server
  imports Usage Aggregator Cors
begin

text \<open>
  main.py: the lifespan of the application (tables, Redis, MQTT, the listener), its mounted routes
  and the two endpoints of its own.  The CORS policy it installs is in the theory on the
  middleware.
\<close>

section \<open>Start and stop\<close>

definition model_modules :: "string list" where
  "model_modules =
     [''app.modules.auth_service.models'', ''app.modules.decision_engine.models'',
      ''app.modules.device_registry.models'', ''app.modules.usage_ingestion.models'']"

definition import_models :: "unit handler" where
  "import_models = andThen (forEach import_module model_modules) (ret ())"

text \<open>\<open>create_all\<close> is the database's: it creates the missing tables, or raises.\<close>

definition init_db :: "unit handler \<Rightarrow> unit handler" where
  "init_db create_all = andThen import_models create_all"

text \<open>What the startup remembers is whether it got a publishing client.\<close>

definition startup :: "unit handler \<Rightarrow> bool handler" where
  "startup create_all =
     andThen import_models
     (andThen create_all
     (andThen (tryExcept rc_initialize (\<lambda>_. ret ()))
     (bindE (tryExcept (andThen get_mqtt_client (ret True)) (\<lambda>_. ret False)) (\<lambda>client.
        andThen start_mqtt_listener (ret client)))))"

definition shutdown :: "unit handler \<Rightarrow> bool \<Rightarrow> unit handler" where
  "shutdown disconnect client = andThen (if client then disconnect else ret ()) rc_close"

text \<open>The application runs at the \<open>yield\<close>; what it raises there skips the shutdown.\<close>

definition lifespan :: "unit handler \<Rightarrow> unit handler \<Rightarrow> unit handler \<Rightarrow> unit handler" where
  "lifespan create_all disconnect running =
     bindE (startup create_all) (\<lambda>client. andThen running (shutdown disconnect client))"

section \<open>Routes\<close>

definition API_PREFIX :: string where "API_PREFIX = ''/api/v1''"

definition mounted_prefixes :: "string list" where
  "mounted_prefixes = [API_PREFIX @ ''/auth'', API_PREFIX @ ''/devices'']"

definition root :: dict where
  "root = [(''service'', JStr ''ScreenSync''), (''status'', JStr ''running''), (''version'', JStr ''1.0.0'')]"

definition up_down :: "bool \<Rightarrow> json" where
  "up_down ok = JStr (if ok then ''up'' else ''down'')"

text \<open>The connection state of the publishing client is the state of the broker.\<close>

definition client_is_connected :: "bool handler" where
  "client_is_connected = readS broker_up"

definition health :: "dict handler" where
  "health =
     bindE rc_ping (\<lambda>redis_ok.
     bindE (tryExcept (andThen get_mqtt_client client_is_connected) (\<lambda>_. ret False)) (\<lambda>mqtt_ok.
       ret [(''status'', JStr (if redis_ok \<and> mqtt_ok then ''ok'' else ''degraded'')),
            (''redis'', up_down redis_ok), (''mqtt'', up_down mqtt_ok)]))"

section \<open>Lemmas\<close>

lemma import_models_run:
  "set model_modules \<subseteq> set (app_modules w) \<Longrightarrow> import_models w = (Inr (), w)"
proof -
  assume all: "set model_modules \<subseteq> set (app_modules w)"
  have "set ms \<subseteq> set (app_modules w) \<Longrightarrow> \<exists>us. forEach import_module ms w = (Inr us, w)" for ms
    by (induction ms) (auto simp: import_module_run)
  from this [OF all] show ?thesis by (auto simp: import_models_def andThen_def)
qed

text \<open>Which broker connection a call of \<open>get_mqtt_client\<close> leaves.\<close>

definition broker_usable :: "world \<Rightarrow> bool" where
  "broker_usable w \<longleftrightarrow> pub_client w \<or> MQTT_ENABLED (config w) \<and> broker_up w"

lemma get_mqtt_client_run:
  "broker_usable w \<Longrightarrow> get_mqtt_client w = (Inr (), w\<lparr>pub_client := True\<rparr>)"
  "\<not> broker_usable w \<Longrightarrow> \<exists>e. get_mqtt_client w = (Inl e, w)"
  by (auto simp: broker_usable_def get_mqtt_client_def build_client_def bindE_run andThen_def)

lemma try_get_mqtt_client:
  "tryExcept (andThen get_mqtt_client (f :: bool handler)) (\<lambda>_. ret False) w =
     (if broker_usable w
      then tryExcept f (\<lambda>_. ret False) (w\<lparr>pub_client := True\<rparr>) else (Inr False, w))"
  using get_mqtt_client_run [of w]
  by (cases "broker_usable w") (auto simp: tryExcept_def andThen_def bindE_run)

definition redis_reachable :: "world \<Rightarrow> bool" where
  "redis_reachable w \<longleftrightarrow> srv_up (server w) \<and>
     (\<exists>h. text_client w = Some h \<and> h \<noteq> NullRedis)"

lemma rc_ping_run: "rc_ping w = (Inr (redis_reachable w), w)"
  by (cases "srv_up (server w)")
    (auto simp: rc_ping_def bindE_run redis_ping_def redis_reachable_def tryExcept_def at_server_up
      at_server_down split: option.splits)

lemma start_mqtt_listener_run:
  "start_mqtt_listener w = (Inr (), w\<lparr>subscriptions := subscriptions w @
     (if MQTT_ENABLED (config w) \<and> broker_up w then [(TOPIC_USAGE, 1), (TOPIC_HEARTBEAT, 1)] else [])\<rparr>)"
  by (simp add: start_mqtt_listener_def bindE_run on_connect_def)

section \<open>Properties\<close>

text \<open>
  The service starts without its brokers: when the models can be imported and the tables
  created, the startup returns whatever the state of Redis and of the MQTT broker; afterwards the
  Redis clients are set (the null object when Redis is disabled), the publishing client exists
  exactly when MQTT is enabled and the broker can be reached, the listener has subscribed to both
  topics exactly then, and the databases are as the creation of the tables left them.
\<close>

theorem startup_survives_brokers:
  assumes models: "set model_modules \<subseteq> set (app_modules w)"
    and tables: "create_all w = (Inr (), w1)"
    and first: "\<not> pub_client w1"
  shows "\<exists>w'. startup create_all w = (Inr (MQTT_ENABLED (config w1) \<and> broker_up w1), w') \<and>
    text_client w' = Some (if REDIS_ENABLED (config w1) then TextClient else NullRedis) \<and>
    pub_client w' = (MQTT_ENABLED (config w1) \<and> broker_up w1) \<and>
    subscriptions w' = subscriptions w1 @
      (if MQTT_ENABLED (config w1) \<and> broker_up w1 then [(TOPIC_USAGE, 1), (TOPIC_HEARTBEAT, 1)] else []) \<and>
    committed w' = committed w1 \<and> working w' = working w1"
proof -
  obtain w2 where w2: "rc_initialize w1 = (Inr (), w2)"
      "text_client w2 = Some (if REDIS_ENABLED (config w1) then TextClient else NullRedis)"
      "config w2 = config w1" "broker_up w2 = broker_up w1" "pub_client w2 = pub_client w1"
      "subscriptions w2 = subscriptions w1" "committed w2 = committed w1" "working w2 = working w1"
    by (simp add: rc_initialize_def)
  have usable: "broker_usable w2 \<longleftrightarrow> MQTT_ENABLED (config w1) \<and> broker_up w1"
    using first w2 by (simp add: broker_usable_def)
  have start: "startup create_all w =
      bindE (tryExcept (andThen get_mqtt_client (ret True)) (\<lambda>_. ret False)) (\<lambda>client.
        andThen start_mqtt_listener (ret client)) w2"
    using import_models_run [OF models] tables w2(1)
    by (simp add: startup_def andThen_def tryExcept_def bindE_run)
  show ?thesis
    using w2 usable first
    by (cases "broker_usable w2")
      (simp_all add: start bindE_run try_get_mqtt_client andThen_Inr [OF start_mqtt_listener_run])
qed

definition stopped_world :: "bool \<Rightarrow> world" where
  "stopped_world up = (sample_world 5 empty_db)\<lparr>app_modules := model_modules, broker_up := up\<rparr>"

theorem startup_survives_brokers_witness:
  "\<exists>w'. startup (ret ()) (stopped_world False) = (Inr False, w') \<and>
     text_client w' = Some TextClient \<and> subscriptions w' = []"
proof -
  let ?w = "stopped_world False"
  have "set model_modules \<subseteq> set (app_modules ?w)" "\<not> pub_client ?w" "\<not> broker_up ?w"
      "REDIS_ENABLED (config ?w)" "subscriptions ?w = []"
    by (simp_all add: stopped_world_def sample_world_def default_settings_def)
  with startup_survives_brokers [of ?w "ret ()" ?w] show ?thesis by auto
qed

text \<open>
  The health probe answers in every state, and says what it means: Redis is up when a real
  client is set and the server answers, MQTT is up when there is a publishing client, or one can be
  created now, and the broker is reachable, and the status is ok exactly when both are up.  The
  databases and Redis are untouched.
\<close>

theorem health_reports:
  "\<exists>w'. health w =
     (Inr [(''status'', JStr (if redis_reachable w \<and> broker_usable w \<and> broker_up w then ''ok'' else ''degraded'')),
           (''redis'', up_down (redis_reachable w)),
           (''mqtt'', up_down (broker_usable w \<and> broker_up w))], w') \<and>
     committed w' = committed w \<and> working w' = working w \<and> server w' = server w"
  by (cases "broker_usable w")
    (simp_all add: health_def bindE_run rc_ping_run try_get_mqtt_client client_is_connected_def)

end
