(* ===== verification/Locking.thy ===== *)
theory Locking
  imports SyncEngine
begin

text \<open>
  The user lock of sync.py under concurrency: any number of workers that interleave between the
  commands of \<open>_user_lock\<close>.  Each step is one command of the Redis client the workers were given by
  \<^const>\<open>get_redis\<close>; between the steps anything may happen that leaves the key of the lock alone.
  The deployed client is \<^const>\<open>TextClient\<close>, with which the ownership check of the release raises;
  \<^const>\<open>BytesClient\<close> is the one the code of the release is written for.
\<close>

section \<open>Workers\<close>

text \<open>
  What a worker of one user is doing: nothing, its section (with the instant its token names), or
  the exit of the context manager after it has read its own token and before it deletes the key.
\<close>

datatype phase = Idle | Inside instant | Leaving instant

fun holds :: "phase \<Rightarrow> instant option" where
  "holds Idle = None"
| "holds (Inside t) = Some t"
| "holds (Leaving t) = Some t"

type_synonym workers = "nat \<Rightarrow> phase"

definition LOCK_USEC :: int where "LOCK_USEC = LOCK_TIMEOUT_MS * 1000"

definition try_acquire :: "redis_handle \<Rightarrow> string \<Rightarrow> bool handler" where
  "try_acquire redis u =
     bindE now_utc (\<lambda>t. redis_set_px_nx redis (lock_key u) (VStr (lock_token u t)) LOCK_TIMEOUT_MS)"

text \<open>\<open>if current and current.decode() == token\<close>\<close>

definition owns :: "pytext \<Rightarrow> pyval \<Rightarrow> bool result" where
  "owns token current =
     (if truthy current then map_sum id (\<lambda>c. c = token) (py_decode current) else Inr False)"

definition check_owner :: "redis_handle \<Rightarrow> string \<Rightarrow> instant \<Rightarrow> bool handler" where
  "check_owner redis u t =
     bindE (redis_get redis (lock_key u)) (\<lambda>current. lift (owns (lock_token u t) current))"

definition drop_lock :: "redis_handle \<Rightarrow> string \<Rightarrow> unit handler" where
  "drop_lock redis u = redis_delete redis [lock_key u]"

text \<open>Read one after the other, these are the code's release.\<close>

lemma release_lock_steps:
  "release_lock redis (lock_key u) (lock_token u t) =
     bindE (check_owner redis u t) (\<lambda>own. if own then drop_lock redis u else ret ())"
proof (rule ext)
  fix w
  show "release_lock redis (lock_key u) (lock_token u t) w =
     bindE (check_owner redis u t) (\<lambda>own. if own then drop_lock redis u else ret ()) w"
    by (cases "redis_get redis (lock_key u) w"; cases "fst (redis_get redis (lock_key u) w)")
      (auto simp: release_lock_def check_owner_def owns_def drop_lock_def bindE_run split: sum.splits)
qed

section \<open>Steps\<close>

text \<open>
  A worker takes the lock or is refused; it leaves its section, where the ownership check may answer
  or raise (the worker is then out of the context manager, the key untouched); it deletes the key.
  In a \<open>prompt\<close> system time does not pass beyond the timeout of a worker that is still inside.
\<close>

inductive lock_step :: "redis_handle \<Rightarrow> bool \<Rightarrow> string \<Rightarrow> world \<times> workers \<Rightarrow> world \<times> workers \<Rightarrow> bool"
  for redis :: redis_handle and prompt :: bool and u :: string where
  acquire: "ph i = Idle \<Longrightarrow> try_acquire redis u w = (Inr True, w') \<Longrightarrow>
    lock_step redis prompt u (w, ph) (w', ph(i := Inside (clock w)))"
| refuse: "ph i = Idle \<Longrightarrow> try_acquire redis u w = (Inr False, w') \<Longrightarrow>
    lock_step redis prompt u (w, ph) (w', ph)"
| leave: "ph i = Inside t \<Longrightarrow> check_owner redis u t w = (Inr own, w') \<Longrightarrow>
    lock_step redis prompt u (w, ph) (w', ph(i := if own then Leaving t else Idle))"
| leave_raises: "ph i = Inside t \<Longrightarrow> check_owner redis u t w = (Inl e, w') \<Longrightarrow>
    lock_step redis prompt u (w, ph) (w', ph(i := Idle))"
| release: "ph i = Leaving t \<Longrightarrow> drop_lock redis u w = (Inr (), w') \<Longrightarrow>
    lock_step redis prompt u (w, ph) (w', ph(i := Idle))"
| other: "clock w' = clock w \<Longrightarrow>
    map_of (srv_strings (server w')) (lock_key u) = map_of (srv_strings (server w)) (lock_key u) \<Longrightarrow>
    lock_step redis prompt u (w, ph) (w', ph)"
| wait: "clock w \<le> t' \<Longrightarrow> (prompt \<Longrightarrow> \<forall>i t. holds (ph i) = Some t \<longrightarrow> t' < t + LOCK_USEC) \<Longrightarrow>
    lock_step redis prompt u (w, ph) (w\<lparr>clock := t'\<rparr>, ph)"

inductive lock_run :: "redis_handle \<Rightarrow> bool \<Rightarrow> string \<Rightarrow> world \<Rightarrow> world \<times> workers \<Rightarrow> bool"
  for redis :: redis_handle and prompt :: bool and u :: string and w0 :: world where
  initial: "lock_run redis prompt u w0 (w0, \<lambda>_. Idle)"
| further: "lock_run redis prompt u w0 s \<Longrightarrow> lock_step redis prompt u s s' \<Longrightarrow> lock_run redis prompt u w0 s'"

section \<open>The commands on the key of the lock\<close>

definition lock_entry :: "string \<Rightarrow> world \<Rightarrow> (blob \<times> instant option) option" where
  "lock_entry u w = map_of (srv_strings (server w)) (lock_key u)"

lemma srv_get_lock: "srv_get (clock w) (lock_key u) (server w) =
    (case lock_entry u w of None \<Rightarrow> None | Some (b, e) \<Rightarrow> if live (clock w) e then Some b else None)"
  by (simp add: srv_get_def lock_entry_def)

lemma try_acquire_run:
  "srv_up (server w) \<Longrightarrow> h \<noteq> NullRedis \<Longrightarrow> try_acquire h u w =
     (if srv_get (clock w) (lock_key u) (server w) = None
      then (Inr True, w\<lparr>server := srv_set (lock_key u) (BText (lock_token u (clock w)))
              (Some (clock w + LOCK_USEC)) (server w)\<rparr>)
      else (Inr False, w))"
  by (simp add: try_acquire_def redis_set_px_nx_def bindE_run at_server_up lock_token_def LOCK_USEC_def)

lemma try_acquire_raises:
  "\<not> srv_up (server w) \<or> h = NullRedis \<Longrightarrow> \<exists>e. try_acquire h u w = (Inl e, w)"
  by (auto simp: try_acquire_def redis_set_px_nx_def bindE_run at_server_down lock_token_def)

lemma try_acquire_answers:
  assumes "try_acquire h u w = (Inr b, w')"
  shows "srv_up (server w)" "h \<noteq> NullRedis"
  using assms try_acquire_raises [of w h u] by auto

lemma try_acquire_True:
  assumes "try_acquire h u w = (Inr True, w')"
  shows "srv_get (clock w) (lock_key u) (server w) = None" "clock w' = clock w"
    "lock_entry u w' = Some (BText (lock_token u (clock w)), Some (clock w + LOCK_USEC))"
  using assms try_acquire_answers [OF assms]
  by (auto simp: try_acquire_run lock_entry_def srv_set_def update_conv' split: if_splits)

lemma try_acquire_False: "try_acquire h u w = (Inr False, w') \<Longrightarrow> w' = w"
  using try_acquire_answers [of h u w False w'] by (auto simp: try_acquire_run split: if_splits)

lemma check_owner_state: "check_owner h u t w = (r, w') \<Longrightarrow> w' = w"
  using redis_get_state [of h "lock_key u" w]
  by (auto simp: check_owner_def bindE_run split: prod.splits sum.splits)

lemma drop_lock_run:
  "drop_lock h u w = (Inr (), w') \<Longrightarrow> clock w' = clock w \<and> (lock_entry u w' = None \<or> w' = w)"
  by (cases "h = NullRedis"; cases "srv_up (server w)")
    (auto simp: drop_lock_def redis_delete_def at_server_up at_server_down lock_entry_def
      srv_delete_def delete_conv')

text \<open>The text client: a key that is set is text, on which the check raises; it never answers yes.\<close>

lemma check_owner_text_set:
  assumes "srv_up (server w)" "srv_get (clock w) (lock_key u) (server w) = Some (BText (lock_token u t'))"
  shows "check_owner TextClient u t w = (Inl (AttributeError ''decode''), w)"
  using assms by (simp add: check_owner_def bindE_run redis_get_run redis_decode_def utf8_decode_def owns_def)

lemma check_owner_text_no: "check_owner TextClient u t w = (Inr own, w') \<Longrightarrow> \<not> own"
  by (cases "srv_up (server w)")
    (auto simp: check_owner_def bindE_run redis_get_def at_server_up at_server_down redis_decode_def
      owns_def split: option.splits sum.splits if_splits prod.splits)

section \<open>Mutual exclusion\<close>

text \<open>
  With the deployed client no key is ever deleted: it names the worker that took the lock last, and
  the others that are still inside took it at least three seconds earlier, all of them apart.
\<close>

definition text_inv :: "string \<Rightarrow> world \<times> workers \<Rightarrow> bool" where
  "text_inv u = (\<lambda>(w, ph).
     (\<forall>i t. ph i \<noteq> Leaving t) \<and>
     (\<forall>i t. ph i = Inside t \<longrightarrow> (\<exists>t0. lock_entry u w = Some (BText (lock_token u t0), Some (t0 + LOCK_USEC)) \<and>
        t0 \<le> clock w \<and> (t = t0 \<or> t + LOCK_USEC \<le> t0))) \<and>
     (\<forall>i j t t'. i \<noteq> j \<longrightarrow> ph i = Inside t \<longrightarrow> ph j = Inside t' \<longrightarrow> LOCK_USEC \<le> \<bar>t - t'\<bar>))"

lemma text_invD:
  assumes "text_inv u (w, ph)"
  shows "ph i \<noteq> Leaving t"
    and "ph i = Inside t \<Longrightarrow> \<exists>t0. lock_entry u w = Some (BText (lock_token u t0), Some (t0 + LOCK_USEC)) \<and>
        t0 \<le> clock w \<and> (t = t0 \<or> t + LOCK_USEC \<le> t0)"
    and "i \<noteq> j \<Longrightarrow> ph i = Inside t \<Longrightarrow> ph j = Inside t' \<Longrightarrow> LOCK_USEC \<le> \<bar>t - t'\<bar>"
  using assms by (simp_all add: text_inv_def)

lemma text_inv_fewer:
  assumes "text_inv u (w, ph)" "\<And>j. ph' j = ph j \<or> ph' j = Idle"
    and "clock w \<le> clock w'" "lock_entry u w' = lock_entry u w"
  shows "text_inv u (w', ph')"
proof -
  have in_ph: "ph' j = Inside t \<Longrightarrow> ph j = Inside t" "ph' j = Leaving t \<Longrightarrow> ph j = Leaving t" for j t
    using assms(2) [of j] by auto
  note inv = text_invD [OF assms(1)]
  have "ph' j \<noteq> Leaving t" for j t using in_ph(2) inv(1) by blast
  moreover have "\<exists>t0. lock_entry u w' = Some (BText (lock_token u t0), Some (t0 + LOCK_USEC)) \<and>
      t0 \<le> clock w' \<and> (t = t0 \<or> t + LOCK_USEC \<le> t0)" if "ph' j = Inside t" for j t
    using inv(2) [OF in_ph(1) [OF that]] assms(3,4) by fastforce
  moreover have "LOCK_USEC \<le> \<bar>t - t'\<bar>" if "j \<noteq> k" "ph' j = Inside t" "ph' k = Inside t'" for j k t t'
    using inv(3) [OF that(1) in_ph(1) [OF that(2)] in_ph(1) [OF that(3)]] .
  ultimately show ?thesis by (simp add: text_inv_def)
qed

lemma lock_usec_pos: "0 < LOCK_USEC" by (simp add: LOCK_USEC_def LOCK_TIMEOUT_MS_def)

lemma text_inv_acquire:
  assumes inv: "text_inv u (w, ph)" and acq: "try_acquire TextClient u w = (Inr True, w')"
  shows "text_inv u (w', ph(i := Inside (clock w)))"
proof -
  have old: "t + LOCK_USEC \<le> clock w" if "ph j = Inside t" for j t
    using text_invD(2) [OF inv that] try_acquire_True(1) [OF acq] lock_usec_pos
    by (auto simp: srv_get_lock live_def split: if_splits)
  note w' = try_acquire_True(2,3) [OF acq]
  have none: "ph j \<noteq> Leaving t" for j t using text_invD(1) [OF inv] .
  have apart: "LOCK_USEC \<le> \<bar>t - t'\<bar>" if "j \<noteq> k" "(ph(i := Inside (clock w))) j = Inside t"
      "(ph(i := Inside (clock w))) k = Inside t'" for j k t t'
  proof (cases "j = i \<or> k = i")
    case True
    then show ?thesis using that old [of k t'] old [of j t] by (auto split: if_splits)
  next
    case False
    then show ?thesis using that text_invD(3) [OF inv that(1)] by simp
  qed
  show ?thesis unfolding text_inv_def case_prod_conv
    using none apart old w' by (auto split: if_splits)
qed

lemma text_inv_step: "lock_step TextClient prompt u s s' \<Longrightarrow> text_inv u s \<Longrightarrow> text_inv u s'"
proof (induction rule: lock_step.induct)
  case (acquire ph i w w')
  then show ?case by (blast intro: text_inv_acquire)
next
  case (refuse ph i w w')
  then show ?case by (auto dest: try_acquire_False)
next
  case (leave ph i t w own w')
  then have w': "w' = w" "\<not> own" by (blast dest: check_owner_state check_owner_text_no)+
  show ?case by (rule text_inv_fewer [OF leave.prems]) (simp_all add: w')
next
  case (leave_raises ph i t w e w')
  then have w': "w' = w" by (blast dest: check_owner_state)
  show ?case by (rule text_inv_fewer [OF leave_raises.prems]) (simp_all add: w')
next
  case (release ph i t w w')
  then show ?case using text_invD(1) by blast
next
  case (other w' w ph)
  then show ?case by (intro text_inv_fewer [OF other.prems]) (simp_all add: lock_entry_def)
next
  case (wait w t' ph)
  then show ?case by (intro text_inv_fewer [OF wait.prems]) (simp_all add: lock_entry_def)
qed

lemma text_inv_run: "lock_run TextClient prompt u w0 s \<Longrightarrow> text_inv u s"
proof (induction rule: lock_run.induct)
  case initial
  show ?case by (simp add: text_inv_def)
next
  case (further s s')
  then show ?case by (blast intro: text_inv_step)
qed

text \<open>
  C7: The lock of a user as deployed (the client decodes replies), however the workers interleave
  and however long they stay: two workers that are inside at the same time took the lock at least
  three seconds apart; and for the three seconds after a worker took it, while it is inside, the key
  is its token, so nobody else gets in, and its own release would raise and leave the key in place.
\<close>

theorem lock_excludes:
  assumes "lock_run TextClient prompt u w0 (w, ph)" "holds (ph i) = Some t"
  shows "(\<forall>j t'. j \<noteq> i \<longrightarrow> holds (ph j) = Some t' \<longrightarrow> LOCK_USEC \<le> \<bar>t - t'\<bar>) \<and>
    (clock w < t + LOCK_USEC \<longrightarrow>
      srv_get (clock w) (lock_key u) (server w) = Some (BText (lock_token u t)) \<and>
      (srv_up (server w) \<longrightarrow> check_owner TextClient u t w = (Inl (AttributeError ''decode''), w)))"
proof -
  note inv = text_invD [OF text_inv_run [OF assms(1)]]
  have inside: "holds (ph j) = Some t' \<longleftrightarrow> ph j = Inside t'" for j t'
    using inv(1) by (cases "ph j") auto
  obtain t0 where t0: "lock_entry u w = Some (BText (lock_token u t0), Some (t0 + LOCK_USEC))"
      "t0 \<le> clock w" "t = t0 \<or> t + LOCK_USEC \<le> t0"
    using inv(2) assms(2) by (auto simp: inside)
  have key: "srv_get (clock w) (lock_key u) (server w) = Some (BText (lock_token u t))"
    if "clock w < t + LOCK_USEC" using that t0 by (auto simp: srv_get_lock live_def)
  have "LOCK_USEC \<le> \<bar>t - t'\<bar>" if "j \<noteq> i" "holds (ph j) = Some t'" for j t'
    using inv(3) [of i j t t'] assms(2) that by (simp add: inside)
  then show ?thesis using key check_owner_text_set by blast
qed

text \<open>A lock that was free, taken by worker 0, who holds it a second later.\<close>

definition taken :: "string \<Rightarrow> world \<Rightarrow> world" where
  "taken u w = w\<lparr>server := srv_set (lock_key u) (BText (lock_token u (clock w)))
     (Some (clock w + LOCK_USEC)) (server w)\<rparr>"

lemma taken_step:
  "srv_up (server w) \<Longrightarrow> h \<noteq> NullRedis \<Longrightarrow> srv_get (clock w) (lock_key u) (server w) = None \<Longrightarrow>
     ph i = Idle \<Longrightarrow> lock_step h prompt u (w, ph) (taken u w, ph(i := Inside (clock w)))"
  by (rule acquire) (simp_all add: try_acquire_run taken_def)

lemma taken_sel [simp]: "clock (taken u w) = clock w" "srv_up (server (taken u w)) = srv_up (server w)"
  "srv_get t (lock_key u) (server (taken u w)) =
     (if t < clock w + LOCK_USEC then Some (BText (lock_token u (clock w))) else None)"
  by (simp_all add: taken_def srv_get_set_same live_def)

theorem lock_excludes_witness:
  "let w = (taken ''a'' (sample_world 5 empty_db))\<lparr>clock := 1000005\<rparr>
   in srv_get (clock w) (lock_key ''a'') (server w) = Some (BText (lock_token ''a'' 5)) \<and>
      check_owner TextClient ''a'' 5 w = (Inl (AttributeError ''decode''), w)"
proof -
  let ?w0 = "sample_world 5 empty_db"
  have up: "srv_up (server ?w0)" "srv_get (clock ?w0) (lock_key ''a'') (server ?w0) = None" "clock ?w0 = 5"
    by (simp_all add: sample_world_def srv_get_def)
  have "lock_run TextClient False ''a'' ?w0 (taken ''a'' ?w0, (\<lambda>_. Idle)(0 := Inside (clock ?w0)))"
    by (rule further [OF initial taken_step [OF up(1) _ up(2)]]) simp_all
  then have "lock_run TextClient False ''a'' ?w0 ((taken ''a'' ?w0)\<lparr>clock := 1000005\<rparr>, (\<lambda>_. Idle)(0 := Inside 5))"
    unfolding up(3) by (rule further [OF _ wait]) (auto simp: up(3))
  from lock_excludes [OF this, of 0 5] up show ?thesis by (simp add: LOCK_USEC_def LOCK_TIMEOUT_MS_def)
qed

section \<open>No deadlock\<close>

text \<open>The entry of the lock never expires later than one timeout from now.\<close>

definition bounded_lock :: "string \<Rightarrow> world \<times> workers \<Rightarrow> bool" where
  "bounded_lock u = (\<lambda>(w, ph). case lock_entry u w of None \<Rightarrow> True
     | Some (b, e) \<Rightarrow> \<exists>x. e = Some x \<and> x \<le> clock w + LOCK_USEC)"

lemma bounded_lock_step: "lock_step redis prompt u s s' \<Longrightarrow> bounded_lock u s \<Longrightarrow> bounded_lock u s'"
proof (induction rule: lock_step.induct)
  case (acquire ph i w w')
  then show ?case using try_acquire_True(2,3) [OF acquire.hyps(2)] by (simp add: bounded_lock_def)
next
  case (refuse ph i w w')
  then show ?case by (auto simp: bounded_lock_def dest: try_acquire_False)
next
  case (leave ph i t w own w')
  then show ?case by (auto simp: bounded_lock_def dest: check_owner_state)
next
  case (leave_raises ph i t w e w')
  then show ?case by (auto simp: bounded_lock_def dest: check_owner_state)
next
  case (release ph i t w w')
  then show ?case by (auto simp: bounded_lock_def dest!: drop_lock_run)
next
  case (other w' w ph)
  then show ?case by (auto simp: bounded_lock_def lock_entry_def split: option.splits)
next
  case (wait w t' ph)
  then show ?case by (fastforce simp: bounded_lock_def lock_entry_def split: option.splits)
qed

lemma bounded_lock_run:
  "lock_run redis prompt u w0 s \<Longrightarrow> lock_entry u w0 = None \<Longrightarrow> bounded_lock u s"
proof (induction rule: lock_run.induct)
  case initial
  then show ?case by (simp add: bounded_lock_def)
next
  case (further s s')
  then show ?case by (blast intro: bounded_lock_step)
qed

text \<open>
  C17: The lock never stays: whatever the workers have done, crashes inside the section and releases
  that raise included, the next worker that asks three seconds later gets the lock, if Redis is
  up and enabled, whichever of its two clients is used.
\<close>

theorem lock_comes_back:
  assumes "lock_run redis prompt u w0 (w, ph)" "lock_entry u w0 = None"
    and "srv_up (server w)" "redis \<noteq> NullRedis" "clock w + LOCK_USEC \<le> t" "ph i = Idle"
  shows "\<exists>w'. try_acquire redis u (w\<lparr>clock := t\<rparr>) = (Inr True, w') \<and>
    lock_step redis prompt u (w\<lparr>clock := t\<rparr>, ph) (w', ph(i := Inside t))"
proof -
  let ?w = "w\<lparr>clock := t\<rparr>"
  have none: "srv_get (clock ?w) (lock_key u) (server ?w) = None"
    using bounded_lock_run [OF assms(1,2)] assms(5)
    by (auto simp: bounded_lock_def srv_get_def lock_entry_def live_def split: option.splits)
  then have "try_acquire redis u ?w = (Inr True, taken u ?w)"
    using assms(3,4) by (simp add: try_acquire_run taken_def)
  moreover have "lock_step redis prompt u (?w, ph) (taken u ?w, ph(i := Inside (clock ?w)))"
    by (rule taken_step) (use none assms(3,4,6) in simp_all)
  ultimately show ?thesis by auto
qed

theorem lock_comes_back_witness:
  "\<exists>w'. try_acquire TextClient ''a'' ((taken ''a'' (sample_world 5 empty_db))\<lparr>clock := 3000005\<rparr>) = (Inr True, w')"
proof -
  let ?w0 = "sample_world 5 empty_db"
  have up: "srv_up (server ?w0)" "srv_get (clock ?w0) (lock_key ''a'') (server ?w0) = None"
      "lock_entry ''a'' ?w0 = None" "clock ?w0 = 5"
    by (simp_all add: sample_world_def srv_get_def lock_entry_def)
  have "lock_run TextClient False ''a'' ?w0 (taken ''a'' ?w0, (\<lambda>_. Idle)(0 := Inside (clock ?w0)))"
    by (rule further [OF initial taken_step [OF up(1) _ up(2)]]) simp_all
  from lock_comes_back [OF this up(3), of 3000005 1] up(1,4)
  show ?thesis by (auto simp: LOCK_USEC_def LOCK_TIMEOUT_MS_def)
qed

section \<open>The race of a late release\<close>

text \<open>
  Were the client the one the release is written for, another flaw would show.  The check of the
  release (delete only if we still own it) and the deletion are two commands: a
  worker that is late between them deletes the lock of the next one, so a worker can be inside,
  well within its three seconds, while the lock is free for a third.
\<close>

theorem late_release_frees_other:
  assumes "srv_up (server w0)" "lock_entry u w0 = None"
  shows "\<exists>w ph t. lock_run BytesClient False u w0 (w, ph) \<and> ph 1 = Inside t \<and> clock w < t + LOCK_USEC \<and>
    srv_get (clock w) (lock_key u) (server w) = None"
proof -
  let ?t0 = "clock w0" and ?t1 = "clock w0 + LOCK_USEC"
  let ?w1 = "taken u w0"
  let ?w2 = "?w1\<lparr>clock := ?t1\<rparr>"
  let ?w3 = "taken u ?w2"
  let ?w4 = "?w3\<lparr>server := srv_delete (lock_key u) (server ?w3)\<rparr>"
  have pos: "0 < LOCK_USEC" by (simp add: LOCK_USEC_def LOCK_TIMEOUT_MS_def)
  have free: "srv_get (clock w0) (lock_key u) (server w0) = None"
    using assms(2) by (simp add: srv_get_lock)
  have r1: "lock_run BytesClient False u w0 (?w1, (\<lambda>_. Idle)(0 := Inside ?t0))"
    by (rule further [OF initial taken_step]) (simp_all add: assms(1) free)
  have own: "check_owner BytesClient u ?t0 ?w1 = (Inr True, ?w1)"
    using pos assms(1)
    by (simp add: check_owner_def bindE_run redis_get_run redis_decode_def owns_def utf8_decode_def
        lock_token_def)
  have "lock_run BytesClient False u w0 (?w1, (\<lambda>_. Idle)(0 := Inside ?t0, 0 := if True then Leaving ?t0 else Idle))"
    by (rule further [OF r1 leave [OF _ own]]) simp
  then have r2: "lock_run BytesClient False u w0 (?w1, (\<lambda>_. Idle)(0 := Leaving ?t0))" by simp
  have r3: "lock_run BytesClient False u w0 (?w2, (\<lambda>_. Idle)(0 := Leaving ?t0))"
    by (rule further [OF r2 wait]) (use pos in simp_all)
  have "lock_run BytesClient False u w0 (?w3, (\<lambda>_. Idle)(0 := Leaving ?t0, 1 := Inside (clock ?w2)))"
    by (rule further [OF r3 taken_step]) (simp_all add: assms(1) pos)
  then have r4: "lock_run BytesClient False u w0 (?w3, (\<lambda>_. Idle)(0 := Leaving ?t0, 1 := Inside ?t1))" by simp
  have "drop_lock BytesClient u ?w3 = (Inr (), ?w4)"
    using assms(1) by (simp add: drop_lock_def redis_delete_def at_server_up)
  then have "lock_run BytesClient False u w0 (?w4, (\<lambda>_. Idle)(0 := Leaving ?t0, 1 := Inside ?t1, 0 := Idle))"
    by (intro further [OF r4 release]) simp_all
  moreover have "clock ?w4 < ?t1 + LOCK_USEC" "srv_get (clock ?w4) (lock_key u) (server ?w4) = None"
    using pos by (simp_all add: srv_get_delete)
  ultimately show ?thesis
    by (intro exI [of _ ?w4] exI [of _ "(\<lambda>_. Idle)(0 := Leaving ?t0, 1 := Inside ?t1, 0 := Idle)"]
        exI [of _ ?t1]) simp
qed

theorem late_release_frees_other_witness:
  "\<exists>w ph t. lock_run BytesClient False ''a'' (sample_world 5 empty_db) (w, ph) \<and> ph 1 = Inside t \<and>
     clock w < t + LOCK_USEC \<and> srv_get (clock w) (lock_key ''a'') (server w) = None"
  by (rule late_release_frees_other) (simp_all add: sample_world_def lock_entry_def)

section \<open>Retries\<close>

text \<open>
  What the subscriber of the channel has still to be given when it has been given the first \<open>seen\<close>
  messages the server published, and \<open>n\<close> turns of its loop: each time, \<open>d\<close> microseconds later, it
  handles what was published since.
\<close>

definition undelivered :: "nat \<Rightarrow> world \<Rightarrow> pytext list" where
  "undelivered seen w =
     map snd (filter (\<lambda>(c, _). c = PUBSUB_CHANNEL) (drop seen (srv_published (server w))))"

fun consumer_rounds :: "int \<Rightarrow> nat \<Rightarrow> nat \<Rightarrow> world \<Rightarrow> nat \<times> world" where
  "consumer_rounds d 0 seen w = (seen, w)"
| "consumer_rounds d (Suc n) seen w =
     (let w1 = w\<lparr>clock := clock w + d\<rparr>;
          w2 = snd (forEach (consume_message ''message'') (undelivered seen w1) w1)
      in consumer_rounds d n (length (srv_published (server w1))) w2)"

lemma retry_message_id: "retry_message (e\<lparr>de_event_id := i\<rparr>) = retry_message e"
  by (simp add: retry_message_def)

lemma merge_id: "merge existing (e\<lparr>de_event_id := i\<rparr>) = merge existing e"
  by (simp add: merge_def split: option.splits sum.splits)

text \<open>A message that finds the lock taken is published again; one that finds it free is handled.\<close>

lemma consume_held:
  assumes "real_client w TextClient" "lock_held (de_user_id e) w"
  shows "snd (consume_message ''message'' (Dumped (retry_message e)) w) =
    w\<lparr>uuid_next := Suc (uuid_next w), server := (server w)\<lparr>srv_published :=
      srv_published (server w) @ [(PUBSUB_CHANNEL, Dumped (retry_message e))]\<rparr>\<rparr>"
proof -
  let ?w = "w\<lparr>uuid_next := Suc (uuid_next w)\<rparr>" and ?e = "e\<lparr>de_event_id := uuids w (uuid_next w)\<rparr>"
  have "real_client ?w TextClient" "lock_held (de_user_id ?e) ?w"
    using assms by (simp_all add: real_client_def lock_held_def)
  from ingest_contention [OF this, THEN conjunct1] show ?thesis
    by (simp add: consume_retry tryExcept_def retry_message_id)
qed

lemma consume_free:
  assumes "real_client w TextClient" "\<not> lock_held (de_user_id e) w" "readable existing"
    and "srv_get (clock w) (state_key (de_user_id e) (de_device_id e)) (server w) =
      map_option (\<lambda>snap. BText (Dumped (JObj snap))) existing"
  shows "\<exists>w' i. snd (consume_message ''message'' (Dumped (retry_message e)) w) = w' \<and>
    get_device_snapshot (de_user_id e) (de_device_id e) w' =
      (Inr (Some (JObj (stamp (clock w) (e\<lparr>de_event_id := i\<rparr>) (merge existing e)))), w') \<and>
    srv_published (server w') = srv_published (server w)"
proof -
  let ?w = "w\<lparr>uuid_next := Suc (uuid_next w)\<rparr>" and ?e = "e\<lparr>de_event_id := uuids w (uuid_next w)\<rparr>"
  have "real_client ?w TextClient" "\<not> lock_held (de_user_id ?e) ?w"
    "srv_get (clock ?w) (state_key (de_user_id ?e) (de_device_id ?e)) (server ?w) =
       map_option (\<lambda>snap. BText (Dumped (JObj snap))) existing"
    using assms by (simp_all add: real_client_def lock_held_def)
  from ingest_deployed [OF this(1,2) assms(3) this(3)] show ?thesis
    by (auto simp: consume_retry tryExcept_def merge_id)
qed

lemma one_message: "snd (forEach (consume_message ''message'') [m] w) = snd (consume_message ''message'' m w)"
  by (cases "consume_message ''message'' m w"; cases "fst (consume_message ''message'' m w)")
    (auto simp: bindE_run)

text \<open>One turn with the message of the event, in a world where its lock is free.\<close>

lemma free_round:
  assumes "real_client w TextClient" "srv_published (server w) = pre @ [(PUBSUB_CHANNEL, Dumped (retry_message e))]"
    and "\<not> lock_held (de_user_id e) (w\<lparr>clock := clock w + d\<rparr>)" "readable existing"
    and "srv_get (clock w + d) (state_key (de_user_id e) (de_device_id e)) (server w) =
      map_option (\<lambda>snap. BText (Dumped (JObj snap))) existing"
  shows "\<exists>seen w' i. consumer_rounds d 1 (length pre) w = (seen, w') \<and> undelivered seen w' = [] \<and>
    get_device_snapshot (de_user_id e) (de_device_id e) w' = (Inr (Some (JObj
      (stamp (clock w + d) (e\<lparr>de_event_id := i\<rparr>) (merge existing e)))), w')"
proof -
  let ?w = "w\<lparr>clock := clock w + d\<rparr>"
  let ?w' = "snd (consume_message ''message'' (Dumped (retry_message e)) ?w)"
  have real: "real_client ?w TextClient" using assms(1) by (simp add: real_client_def)
  obtain i where "get_device_snapshot (de_user_id e) (de_device_id e) ?w' = (Inr (Some (JObj
      (stamp (clock w + d) (e\<lparr>de_event_id := i\<rparr>) (merge existing e)))), ?w')"
      "srv_published (server ?w') = srv_published (server w)"
    using consume_free [OF real assms(3,4)] assms(5) by auto
  moreover have "undelivered (length pre) ?w = [Dumped (retry_message e)]"
    using assms(2) by (simp add: undelivered_def)
  then have "consumer_rounds d 1 (length pre) w = (length (srv_published (server w)), ?w')"
    using one_message [of "Dumped (retry_message e)" ?w] by (simp add: Let_def)
  ultimately show ?thesis using assms(2) by (auto simp: undelivered_def)
qed

lemma rounds_enough:
  assumes "0 < d" "real_client w TextClient" "srv_published (server w) = pre @ [(PUBSUB_CHANNEL, Dumped (retry_message e))]"
    and "map_of (srv_strings (server w)) (lock_key (de_user_id e)) = Some (b, Some x)" "x \<le> clock w + int (Suc n) * d"
    and "readable existing" "\<And>s. clock w \<le> s \<Longrightarrow> s \<le> clock w + int (Suc n) * d \<Longrightarrow>
      srv_get s (state_key (de_user_id e) (de_device_id e)) (server w) =
        map_option (\<lambda>snap. BText (Dumped (JObj snap))) existing"
  shows "\<exists>k seen w' i. consumer_rounds d k (length pre) w = (seen, w') \<and> k \<le> Suc n \<and> undelivered seen w' = [] \<and>
    get_device_snapshot (de_user_id e) (de_device_id e) w' = (Inr (Some (JObj
      (stamp (clock w + int k * d) (e\<lparr>de_event_id := i\<rparr>) (merge existing e)))), w')"
  using assms(2-5,7)
proof (induction n arbitrary: w pre)
  case (0 w pre)
  have free: "\<not> lock_held (de_user_id e) (w\<lparr>clock := clock w + d\<rparr>)"
    using "0.prems"(3,4) by (simp add: lock_held_def srv_get_def live_def)
  show ?case by (rule exI [of _ "1::nat"])
      (use free_round [OF "0.prems"(1,2) free assms(6) "0.prems"(5)] assms(1) in simp)
next
  case (Suc n w pre)
  let ?w = "w\<lparr>clock := clock w + d\<rparr>" and ?m = "Dumped (retry_message e)"
  have d: "0 \<le> d * int n" using assms(1) by simp
  show ?case
  proof (cases "lock_held (de_user_id e) ?w")
    case False
    have "srv_get (clock w + d) (state_key (de_user_id e) (de_device_id e)) (server w) =
        map_option (\<lambda>snap. BText (Dumped (JObj snap))) existing"
      using Suc.prems(5) [of "clock w + d"] assms(1) d by (simp add: algebra_simps)
    from free_round [OF Suc.prems(1,2) False assms(6) this] show ?thesis
      by - (rule exI [of _ "1::nat"], simp)
  next
    case True
    let ?w2 = "snd (consume_message ''message'' ?m ?w)"
    have real: "real_client ?w TextClient" using Suc.prems(1) by (simp add: real_client_def)
    note w2 = consume_held [OF real True]
    have strings: "srv_strings (server ?w2) = srv_strings (server w)" "clock ?w2 = clock w + d"
      and real2: "real_client ?w2 TextClient"
      and pub: "srv_published (server ?w2) = srv_published (server w) @ [(PUBSUB_CHANNEL, ?m)]"
      using real by (simp_all add: w2 real_client_def)
    have "undelivered (length pre) ?w = [?m]" using Suc.prems(2) by (simp add: undelivered_def)
    then have turn: "consumer_rounds d (Suc k) (length pre) w =
        consumer_rounds d k (length (srv_published (server w))) ?w2" for k
      using one_message [of ?m ?w] by (simp add: Let_def)
    have "\<exists>k seen w' i. consumer_rounds d k (length (srv_published (server w))) ?w2 = (seen, w') \<and>
        k \<le> Suc n \<and> undelivered seen w' = [] \<and>
        get_device_snapshot (de_user_id e) (de_device_id e) w' = (Inr (Some (JObj
          (stamp (clock ?w2 + int k * d) (e\<lparr>de_event_id := i\<rparr>) (merge existing e)))), w')"
    proof (rule Suc.IH [OF real2 pub])
      show "map_of (srv_strings (server ?w2)) (lock_key (de_user_id e)) = Some (b, Some x)"
        using Suc.prems(3) strings by simp
      show "x \<le> clock ?w2 + int (Suc n) * d" using Suc.prems(4) strings by (simp add: algebra_simps)
      show "srv_get s (state_key (de_user_id e) (de_device_id e)) (server ?w2) =
          map_option (\<lambda>snap. BText (Dumped (JObj snap))) existing"
        if "clock ?w2 \<le> s" "s \<le> clock ?w2 + int (Suc n) * d" for s
        using Suc.prems(5) [of s] that strings assms(1) srv_get_strings [OF strings(1)]
        by (simp add: algebra_simps)
    qed
    then obtain k seen w' i where "consumer_rounds d k (length (srv_published (server w))) ?w2 = (seen, w')"
        "k \<le> Suc n" "undelivered seen w' = []"
        "get_device_snapshot (de_user_id e) (de_device_id e) w' = (Inr (Some (JObj
          (stamp (clock ?w2 + int k * d) (e\<lparr>de_event_id := i\<rparr>) (merge existing e)))), w')" by blast
    with turn [of k] strings(2) show ?thesis
      by (intro exI [of _ "Suc k"] exI [of _ seen] exI [of _ w'] exI [of _ i]) (simp add: algebra_simps)
  qed
qed

lemma rounds_in_timeout:
  assumes "0 < d"
  shows "LOCK_USEC \<le> int (Suc (nat (LOCK_USEC div d))) * d" "int (Suc (nat (LOCK_USEC div d))) * d \<le> LOCK_USEC + d"
proof -
  have q: "0 \<le> LOCK_USEC div d" using assms lock_usec_pos by (simp add: pos_imp_zdiv_nonneg_iff)
  have "(LOCK_USEC div d) * d + LOCK_USEC mod d = LOCK_USEC" by (rule div_mult_mod_eq)
  moreover have "LOCK_USEC mod d < d" "0 \<le> LOCK_USEC mod d" using assms by simp_all
  moreover have "int (Suc (nat (LOCK_USEC div d))) * d = (LOCK_USEC div d) * d + d" using q by (simp add: distrib_right)
  ultimately show "LOCK_USEC \<le> int (Suc (nat (LOCK_USEC div d))) * d"
    "int (Suc (nat (LOCK_USEC div d))) * d \<le> LOCK_USEC + d" by linarith+
qed

text \<open>
  C16: An event that finds the lock of its user taken is not lost while a consumer runs: it is
  published, the consumer (each of its turns \<open>d\<close> microseconds after the one before, with everything
  published so far handled when the event arrives) publishes it again as long as the lock is held,
  and after at most \<open>3 s / d\<close> turns and one more nothing waits for the consumer and the snapshot of
  the device is the merge of the stored snapshot and the event, stamped with a fresh event id.
  This is with the deployed client, if Redis stays up, the lock runs out within its three seconds, no
  other worker takes it or writes the snapshot meanwhile, and the snapshot is readable and does not
  expire before.  (No code of the repository starts the consumer.)
\<close>

theorem retries_end:
  assumes "0 < d" "real_client w TextClient"
    and "map_of (srv_strings (server w)) (lock_key (de_user_id e)) = Some (b, Some x)"
    and "clock w < x" "x \<le> clock w + LOCK_USEC"
    and "readable existing" "\<And>s. clock w \<le> s \<Longrightarrow> s \<le> clock w + LOCK_USEC + d \<Longrightarrow>
      srv_get s (state_key (de_user_id e) (de_device_id e)) (server w) =
        map_option (\<lambda>snap. BText (Dumped (JObj snap))) existing"
  shows "\<exists>k seen w' i.
    consumer_rounds d k (length (srv_published (server w))) (snd (ingest_event e w)) = (seen, w') \<and>
    int k \<le> LOCK_USEC div d + 1 \<and> undelivered seen w' = [] \<and>
    get_device_snapshot (de_user_id e) (de_device_id e) w' = (Inr (Some (JObj
      (stamp (clock w + int k * d) (e\<lparr>de_event_id := i\<rparr>) (merge existing e)))), w')"
proof -
  let ?n = "nat (LOCK_USEC div d)" and ?w1 = "snd (ingest_event e w)"
  have q: "0 \<le> LOCK_USEC div d" using assms(1) lock_usec_pos by (simp add: pos_imp_zdiv_nonneg_iff)
  note n = rounds_in_timeout [OF assms(1)]
  have "lock_held (de_user_id e) w" using assms(3,4) by (simp add: lock_held_def srv_get_def live_def)
  note w1 = ingest_contention [OF assms(2) this, THEN conjunct1]
  have "real_client ?w1 TextClient" "srv_strings (server ?w1) = srv_strings (server w)" "clock ?w1 = clock w"
    "srv_published (server ?w1) = srv_published (server w) @ [(PUBSUB_CHANNEL, Dumped (retry_message e))]"
    using assms(2) by (simp_all add: w1 real_client_def)
  note w1 = this
  have "\<exists>k seen w' i. consumer_rounds d k (length (srv_published (server w))) ?w1 = (seen, w') \<and> k \<le> Suc ?n \<and>
    undelivered seen w' = [] \<and>
    get_device_snapshot (de_user_id e) (de_device_id e) w' = (Inr (Some (JObj
      (stamp (clock ?w1 + int k * d) (e\<lparr>de_event_id := i\<rparr>) (merge existing e)))), w')"
  proof (rule rounds_enough [OF assms(1) w1(1,4) _ _ assms(6)])
    show "map_of (srv_strings (server ?w1)) (lock_key (de_user_id e)) = Some (b, Some x)" using assms(3) w1(2) by simp
    show "x \<le> clock ?w1 + int (Suc ?n) * d" using assms(5) n(1) w1(3) by linarith
    show "srv_get s (state_key (de_user_id e) (de_device_id e)) (server ?w1) =
        map_option (\<lambda>snap. BText (Dumped (JObj snap))) existing"
      if "clock ?w1 \<le> s" "s \<le> clock ?w1 + int (Suc ?n) * d" for s
      using assms(7) [of s] that w1(3) n(2) srv_get_strings [OF w1(2)] by simp
  qed
  moreover have "k \<le> Suc ?n \<Longrightarrow> int k \<le> LOCK_USEC div d + 1" for k using q by linarith
  ultimately show ?thesis unfolding w1(3) by meson
qed

theorem retries_end_witness:
  "\<exists>k seen w' i. consumer_rounds 1000000 k 0
       (snd (ingest_event (phone_event 100 60) (with_lock ''a'' (sync_world TextClient 200)))) = (seen, w') \<and>
     k \<le> 4 \<and> undelivered seen w' = [] \<and>
     get_device_snapshot ''a'' ''p'' w' = (Inr (Some (JObj (stamp (200 + int k * 1000000)
       ((phone_event 100 60)\<lparr>de_event_id := i\<rparr>) [(''used_seconds'', JInt 60)]))), w')"
proof -
  let ?w = "with_lock ''a'' (sync_world TextClient 200)" and ?e = "phone_event 100 60"
  have u: "de_user_id ?e = ''a''" "de_device_id ?e = ''p''" "merge None ?e = [(''used_seconds'', JInt 60)]"
    by (simp_all add: phone_event_def event_at_def merge_def)
  have real: "real_client ?w TextClient" by (rule with_lock_real) simp
  have lock: "map_of (srv_strings (server ?w)) (lock_key ''a'') =
      Some (BText (lock_token ''a'' 200), Some (200 + LOCK_USEC))" "clock ?w = 200"
    "srv_published (server ?w) = []"
    by (simp_all add: with_lock_def srv_set_def update_conv' LOCK_USEC_def)
  have state: "srv_get s (state_key ''a'' ''p'') (server ?w) = None" for s
    by (simp add: with_lock_def srv_get_set_other)
  have "readable None" by (simp add: readable_def)
  from retries_end [of 1000000 ?w ?e "BText (lock_token ''a'' 200)" "200 + LOCK_USEC", OF _ _ _ _ _ this]
  show ?thesis using real lock state lock_usec_pos by (simp add: u LOCK_USEC_def LOCK_TIMEOUT_MS_def)
qed

end
