(* ===== verification/Drift.thy ===== *)
theory Drift
  imports Aggregator
begin

text \<open>
  app/modules/fl_worker/drift_detector.py: the three detectors on a device's gradient, their vote and
  the drift score, and the run over the submissions of a round.  Arrays are numpy's (theory
  Aggregator); floats are rounded after every operation.
\<close>

section \<open>Thresholds and results\<close>

definition COSINE_SIMILARITY_FLOOR :: rat where "COSINE_SIMILARITY_FLOOR = float_lit (70 / 100)"
definition L2_RATIO_CEILING :: rat where "L2_RATIO_CEILING = float_lit 3"
definition SIGN_FLIP_FLOOR :: rat where "SIGN_FLIP_FLOOR = float_lit (60 / 100)"
definition VOTE_THRESHOLD :: nat where "VOTE_THRESHOLD = 2"

record DeviceDriftReport =
  rep_device_id :: string
  rep_round_number :: int
  rep_is_flagged :: bool
  rep_drift_score :: rat
  rep_detectors_fired :: "string list"
  rep_metrics :: dict
  rep_evaluated_at :: instant

record RoundDriftSummary =
  sum_round_number :: int
  sum_devices_evaluated :: nat
  sum_devices_flagged :: nat
  sum_reports :: "DeviceDriftReport list"

section \<open>Detector math\<close>

definition cosine_similarity :: "'a numpy \<Rightarrow> 'a \<Rightarrow> 'a \<Rightarrow> rat" where
  "cosine_similarity np a b =
     (let a_flat = np_flatten np a; b_flat = np_flatten np b;
          norm_a = np_norm np a_flat; norm_b = np_norm np b_flat
      in if norm_a < float_lit (1 / 10 ^ 10) \<or> norm_b < float_lit (1 / 10 ^ 10) then 1
         else rnd (np_dot np a_flat b_flat / rnd (norm_a * norm_b)))"

text \<open>
  The quotient of two counts; arrays are not empty (for an empty one numpy gives NaN, which no
  comparison of the code takes as an anomaly, as the zero here).
\<close>

definition sign_flip_ratio :: "'a numpy \<Rightarrow> 'a \<Rightarrow> 'a \<Rightarrow> rat" where
  "sign_flip_ratio np delta global_mean =
     (let delta_signs = np_signs np delta; mean_signs = np_signs np global_mean;
          flipped = length (filter (\<lambda>(x, y). x \<noteq> y) (zip delta_signs mean_signs))
      in int_truediv (int flipped) (int (length delta_signs)))"

definition compute_drift_score :: "'a numpy \<Rightarrow> rat \<Rightarrow> rat \<Rightarrow> rat \<Rightarrow> rat" where
  "compute_drift_score np cosine_sim l2_ratio flip_ratio =
     (let cosine_component = rnd (1 - rnd (rnd (cosine_sim + 1) / 2));
          l2_component = min (rnd (l2_ratio / L2_RATIO_CEILING)) 1
      in py_round (np_mean_floats np [cosine_component, l2_component, flip_ratio]) 4)"

section \<open>One device\<close>

definition drift_vote :: "bool list \<Rightarrow> bool" where
  "drift_vote fired = (VOTE_THRESHOLD \<le> length (filter id fired))"

definition l2_ratio_of :: "'a numpy \<Rightarrow> 'a \<Rightarrow> rat \<Rightarrow> rat" where
  "l2_ratio_of np delta mean_norm =
     rnd (np_norm np delta / rnd (mean_norm + float_lit (1 / 10 ^ 8)))"

definition evaluate_device ::
    "'a numpy \<Rightarrow> instant \<Rightarrow> string \<Rightarrow> int \<Rightarrow> 'a \<Rightarrow> 'a \<Rightarrow> rat \<Rightarrow> DeviceDriftReport" where
  "evaluate_device np now device_id round_number delta global_mean mean_norm =
     (let cosine_sim = cosine_similarity np delta global_mean;
          device_norm = np_norm np delta;
          l2_ratio = l2_ratio_of np delta mean_norm;
          flip_ratio = sign_flip_ratio np delta global_mean;
          detectors_fired =
            (if cosine_sim < COSINE_SIMILARITY_FLOOR then [''cosine_direction_drift''] else []) @
            (if L2_RATIO_CEILING < l2_ratio then [''l2_magnitude_outlier''] else []) @
            (if SIGN_FLIP_FLOOR < flip_ratio then [''sign_flip_anomaly''] else [])
      in \<lparr> rep_device_id = device_id, rep_round_number = round_number,
           rep_is_flagged = (VOTE_THRESHOLD \<le> length detectors_fired),
           rep_drift_score = compute_drift_score np cosine_sim l2_ratio flip_ratio,
           rep_detectors_fired = detectors_fired,
           rep_metrics = [(''cosine_similarity'', JReal (py_round cosine_sim 4)),
             (''l2_norm'', JReal (py_round device_norm 4)),
             (''l2_norm_ratio'', JReal (py_round l2_ratio 4)),
             (''sign_flip_ratio'', JReal (py_round flip_ratio 4))],
           rep_evaluated_at = now \<rparr>)"

section \<open>A round\<close>

text \<open>The deltas that can be loaded, the last submission of a device winning.\<close>

definition collect_deltas :: "'a numpy \<Rightarrow> FLModelUpdate list \<Rightarrow> (string \<times> 'a) list" where
  "collect_deltas np submissions =
     foldl (\<lambda>m s. case np_load np (fl_gradient_delta s) of
              Inl _ \<Rightarrow> m | Inr x \<Rightarrow> AList.update (fl_device_id s) x m) [] submissions"

fun join_names :: "string list \<Rightarrow> string" where
  "join_names [] = []"
| "join_names [x] = x"
| "join_names (x # y # ys) = x @ '', '' @ join_names (y # ys)"

definition evaluate_and_flag ::
    "'a numpy \<Rightarrow> int \<Rightarrow> 'a \<Rightarrow> rat \<Rightarrow> string \<times> 'a \<Rightarrow> DeviceDriftReport handler" where
  "evaluate_and_flag np round_number global_mean mean_norm = (\<lambda>(device_id, delta).
     bindE now_utc (\<lambda>t.
       let report = evaluate_device np t device_id round_number delta global_mean mean_norm
       in if rep_is_flagged report
          then andThen (flag_anomalous_device device_id (rep_drift_score report)
                          (join_names (rep_detectors_fired report)))
                 (ret report)
          else ret report))"

definition run_drift_detection :: "'a numpy \<Rightarrow> int \<Rightarrow> RoundDriftSummary handler" where
  "run_drift_detection np round_number =
     andThen (import_module FL_MODELS)
     (bindE (select_where fl_model_updates (\<lambda>u. fl_round_number u = round_number)) (\<lambda>submissions.
        if submissions = []
        then ret \<lparr> sum_round_number = round_number, sum_devices_evaluated = 0,
                   sum_devices_flagged = 0, sum_reports = [] \<rparr>
        else
          (let device_deltas = collect_deltas np submissions
           in if length device_deltas < 2
              then ret \<lparr> sum_round_number = round_number,
                         sum_devices_evaluated = length device_deltas,
                         sum_devices_flagged = 0, sum_reports = [] \<rparr>
              else
                (let all_deltas = map snd device_deltas
                 in bindE (lift (np_mean np all_deltas)) (\<lambda>global_mean.
                    let mean_norm = np_mean_floats np (map (np_norm np) all_deltas)
                    in bindE (forEach (evaluate_and_flag np round_number global_mean mean_norm) device_deltas)
                         (\<lambda>reports.
                           ret \<lparr> sum_round_number = round_number,
                                 sum_devices_evaluated = length reports,
                                 sum_devices_flagged = length (filter rep_is_flagged reports),
                                 sum_reports = reports \<rparr>))))))"

section \<open>The vote of the detectors\<close>

interpretation detectors: threshold_vote 2 drift_vote
  by unfold_locales (simp add: drift_vote_def VOTE_THRESHOLD_def)

lemma evaluate_device_vote:
  "rep_is_flagged (evaluate_device np t i r delta m n) = drift_vote
     [cosine_similarity np delta m < COSINE_SIMILARITY_FLOOR, L2_RATIO_CEILING < l2_ratio_of np delta n,
      SIGN_FLIP_FLOOR < sign_flip_ratio np delta m]"
  by (simp add: evaluate_device_def Let_def drift_vote_def)

definition flipped_signs :: "'a numpy \<Rightarrow> 'a \<Rightarrow> 'a \<Rightarrow> nat" where
  "flipped_signs np delta m = length (filter (\<lambda>(x, y). x \<noteq> y) (zip (np_signs np delta) (np_signs np m)))"

lemma flip_threshold:
  assumes "length (np_signs np delta) = n" "0 < n" "n < 2 ^ 40"
  shows "SIGN_FLIP_FLOOR < sign_flip_ratio np delta m \<longleftrightarrow> 3 * n < 5 * flipped_signs np delta m"
proof -
  let ?k = "flipped_signs np delta m"
  have three: "rnd (60 / 100) = rnd (of_int 3 / of_int 5)" by simp
  have "int n < 2 ^ 40" using assms(3) by simp
  then have "rnd (of_int 3 / of_int 5) < rnd (of_int (int ?k) / of_int (int n)) \<longleftrightarrow> 3 * int n < int ?k * 5"
    using assms(2) by (intro double.greater_threshold) auto
  then have "rnd (60 / 100) < rnd (of_int (int ?k) / of_int (int n)) \<longleftrightarrow> 3 * n < 5 * ?k"
    unfolding three by linarith
  then show ?thesis
    by (simp only: SIGN_FLIP_FLOOR_def float_lit_def sign_flip_ratio_def int_truediv_def
        Let_def flipped_signs_def assms(1))
qed

text \<open>
  C36: A device is flagged exactly when two of the three detectors fire; the sign detector, which
  compares a float quotient with 0.6, fires exactly when more than three fifths of the signs differ
  (for gradients of fewer than \<open>2 ^ 40\<close> elements).
\<close>

theorem drift_flag_majority:
  assumes "length (np_signs np delta) = n" "0 < n" "n < 2 ^ 40"
  shows "rep_is_flagged (evaluate_device np t i r delta m mean_norm) \<longleftrightarrow>
    (let a = cosine_similarity np delta m < COSINE_SIMILARITY_FLOOR;
         b = L2_RATIO_CEILING < l2_ratio_of np delta mean_norm;
         c = 3 * n < 5 * flipped_signs np delta m
     in (a \<and> b) \<or> (a \<and> c) \<or> (b \<and> c))"
  unfolding evaluate_device_vote Let_def flip_threshold [OF assms, symmetric]
  by (rule detectors.decide_three) simp

theorem drift_flag_majority_witness:
  "rep_is_flagged (evaluate_device small_numpy 0 ''p'' 1 [0, 0] [1, 1] 1) \<longleftrightarrow>
     (cosine_similarity small_numpy [0, 0] [1, 1] < COSINE_SIMILARITY_FLOOR \<or>
      L2_RATIO_CEILING < l2_ratio_of small_numpy [0, 0] 1)"
  using drift_flag_majority [of small_numpy "[0, 0]" 2 0 "''p''" 1 "[1, 1]" 1]
  by (auto simp: small_numpy_def flipped_signs_def Let_def)

lemma evaluate_and_flag_state: "snd (evaluate_and_flag np r m n p w) = w"
  by (cases p) (simp add: evaluate_and_flag_def Let_def andThen_def bindE_run
      flag_anomalous_device_def rc_set_dict)

lemma forEach_state: "(\<And>x w. snd (f x w) = w) \<Longrightarrow> snd (forEach f xs w) = w"
proof (induction xs arbitrary: w)
  case (Cons x xs)
  then show ?case
    by (cases "f x w"; cases "fst (f x w)") (auto simp: bindE_run split: prod.splits sum.splits, (metis snd_conv)+)
qed simp

lemma flag_loop_state: "snd (forEach (evaluate_and_flag np r m n) xs w) = w"
  by (rule forEach_state) (rule evaluate_and_flag_state)

lemma drift_state:
  assumes "FL_MODELS \<in> set (app_modules w)"
  shows "snd (run_drift_detection np r w) = w"
proof -
  have "snd (bindE (forEach (evaluate_and_flag np r m n) xs) (\<lambda>reports. ret (f reports)) w) = w"
    for m n xs and f :: "DeviceDriftReport list \<Rightarrow> RoundDriftSummary"
    using flag_loop_state [of np r m n xs w]
    by (cases "forEach (evaluate_and_flag np r m n) xs w"; cases "fst (forEach (evaluate_and_flag np r m n) xs w)")
      (simp_all add: bindE_run)
  then show ?thesis
    using assms
    by (cases "np_mean np (map snd (collect_deltas np (filter (\<lambda>u. fl_round_number u = r) (fl_model_updates (working w)))))")
      (simp_all add: run_drift_detection_def andThen_def import_module_run Let_def)
qed

text \<open>
  Drift detection has no effect and, where the pipeline runs it, nothing to look at: it leaves
  the world as it was whatever it finds (the flags are dropped), and after the aggregation of the
  same round, which deletes the submissions, it evaluates no device.
\<close>

theorem drift_detection_idle:
  assumes "numpy_ok np" "FL_MODELS \<in> set (app_modules w)" "clients_ready w"
    "3 \<le> length (round_rows r (working w))"
    "map (\<lambda>u. np_load np (fl_gradient_delta u)) (round_rows r (working w)) = map Inr deltas"
    "\<forall>x \<in> set deltas. np_shape np x = s"
    "stored_weights np s w = Inr g" "np_shape np g = s"
  shows "snd (run_drift_detection np r w) = w \<and>
    (\<exists>out. run_drift_detection np r (snd (run_aggregation np r w)) =
       (Inr out, snd (run_aggregation np r w)) \<and> sum_devices_evaluated out = 0 \<and> sum_reports out = [])"
proof
  show "snd (run_drift_detection np r w) = w"
    by (rule drift_state [OF assms(2)])
  obtain m out where agg: "run_aggregation np r w = (Inr out, aggregated_world np m r w)"
    using run_aggregation_run [OF assms] by blast
  let ?w = "aggregated_world np m r w"
  have "app_modules ?w = app_modules w" by (simp add: aggregated_world_def Let_def)
  moreover have "filter (\<lambda>u. fl_round_number u = r) (fl_model_updates (working ?w)) = []"
    by (simp add: aggregated_world_def Let_def filter_empty_conv)
  ultimately show "\<exists>out. run_drift_detection np r (snd (run_aggregation np r w)) =
       (Inr out, snd (run_aggregation np r w)) \<and> sum_devices_evaluated out = 0 \<and> sum_reports out = []"
    using assms(2) by (simp add: agg run_drift_detection_def andThen_def import_module_run)
qed

theorem drift_detection_idle_witness:
  "\<exists>out. run_drift_detection small_numpy 1 (snd (run_aggregation small_numpy 1
       (fl_world [submission ''p'' [5], submission ''q'' [5], submission ''r'' [5]]))) =
     (Inr out, snd (run_aggregation small_numpy 1
       (fl_world [submission ''p'' [5], submission ''q'' [5], submission ''r'' [5]]))) \<and>
     sum_devices_evaluated out = 0"
proof -
  let ?us = "[submission ''p'' [5], submission ''q'' [5], submission ''r'' [5]]"
  let ?w = "fl_world ?us"
  have rows: "round_rows 1 (working ?w) = ?us" by (simp add: round_rows_def submission_def)
  have ready: "clients_ready ?w" "FL_MODELS \<in> set (app_modules ?w)" by (simp_all add: clients_ready_def)
  have load: "map (\<lambda>u. np_load small_numpy (fl_gradient_delta u)) (round_rows 1 (working ?w)) =
      map Inr [[5], [5], [5]]" unfolding rows by (simp add: submission_def small_numpy_def)
  have old: "stored_weights small_numpy [1] ?w = Inr [0]"
    by (simp add: stored_weights_def srv_get_def) (simp add: small_numpy_def)
  have shape: "\<forall>x \<in> set [[5], [5], [5]]. np_shape small_numpy x = [1]" "np_shape small_numpy [0] = [1]"
    by (simp_all add: small_numpy_def)
  have three: "3 \<le> length (round_rows 1 (working ?w))" unfolding rows by simp
  show ?thesis
    using drift_detection_idle [OF small_numpy_ok ready(2,1) three load shape(1) old shape(2)] by blast
qed

text \<open>
  The repository as it stands: the module of the table is missing, so submitting a gradient,
  aggregating a round and looking for drift raise \<open>ImportError\<close> before they do anything, while the
  global model, which does not need the table, is still read.
\<close>

theorem fl_unavailable:
  assumes "FL_MODELS \<notin> set (app_modules w)"
  shows "store_gradient_update np i delta r w = (Inl (ImportError FL_MODELS), w) \<and>
    run_aggregation np r w = (Inl (ImportError FL_MODELS), w) \<and>
    run_drift_detection np r w = (Inl (ImportError FL_MODELS), w)"
  using assms
  by (simp add: store_gradient_update_def run_aggregation_def run_drift_detection_def andThen_def import_module_def)

theorem fl_unavailable_witness:
  "run_aggregation small_numpy 1 (sample_world 5 empty_db) = (Inl (ImportError FL_MODELS), sample_world 5 empty_db)"
proof -
  have "FL_MODELS \<notin> set (app_modules (sample_world 5 empty_db))" by (simp add: sample_world_def)
  from fl_unavailable [OF this, of small_numpy "''p''" "[]" 1] show ?thesis by blast
qed

end
