(* ===== verification/Urlencode.thy ===== *)
theory Urlencode
  imports Codec
begin

text \<open>
  Texts with all their code points, and the percent encoding of form fields: \<open>unquote_plus\<close> of
  the standard library as starlette/formparsers.py uses it, with the decoding of UTF-8 that puts
  U+FFFD for what is not UTF-8, and the encoding a client applies (\<open>quote_plus\<close>).  The last
  lemma is their round trip on every text.
\<close>

section \<open>Code points and UTF-8\<close>

text \<open>A Python \<open>str\<close> as the list of its code points; \<open>points\<close> is that of a text of the model.\<close>

type_synonym ustring = "nat list"

definition points :: "string \<Rightarrow> ustring" where
  "points s = map of_char s"

definition chars :: "ustring \<Rightarrow> string" where
  "chars ps = map char_of ps"

definition scalar_value :: "nat \<Rightarrow> bool" where
  "scalar_value p \<longleftrightarrow> p < 0xD800 \<or> (0xE000 \<le> p \<and> p < 0x110000)"

definition utf8_bytes :: "nat \<Rightarrow> nat list" where
  "utf8_bytes p =
     (if p < 0x80 then [p]
      else if p < 0x800 then [0xC0 + p div 64, 0x80 + p mod 64]
      else if p < 0x10000 then [0xE0 + p div 4096, 0x80 + p div 64 mod 64, 0x80 + p mod 64]
      else [0xF0 + p div 262144, 0x80 + p div 4096 mod 64, 0x80 + p div 64 mod 64, 0x80 + p mod 64])"

text \<open>
  A lead byte: how many bytes continue it, the range of the first of them and the bits it carries.
\<close>

definition utf8_lead :: "nat \<Rightarrow> (nat \<times> nat \<times> nat \<times> nat) option" where
  "utf8_lead b =
     (if 0xC2 \<le> b \<and> b \<le> 0xDF then Some (1, 0x80, 0xBF, b - 0xC0)
      else if b = 0xE0 then Some (2, 0xA0, 0xBF, 0)
      else if b = 0xED then Some (2, 0x80, 0x9F, 13)
      else if 0xE1 \<le> b \<and> b \<le> 0xEF then Some (2, 0x80, 0xBF, b - 0xE0)
      else if b = 0xF0 then Some (3, 0x90, 0xBF, 0)
      else if 0xF1 \<le> b \<and> b \<le> 0xF3 then Some (3, 0x80, 0xBF, b - 0xF0)
      else if b = 0xF4 then Some (3, 0x80, 0x8F, 4)
      else None)"

text \<open>The continuation bytes; a byte that does not continue the sequence is left in place.\<close>

fun utf8_tail :: "nat \<Rightarrow> nat \<Rightarrow> nat \<Rightarrow> nat \<Rightarrow> nat list \<Rightarrow> nat option \<times> nat list" where
  "utf8_tail 0 lo hi acc bs = (Some acc, bs)"
| "utf8_tail (Suc k) lo hi acc [] = (None, [])"
| "utf8_tail (Suc k) lo hi acc (b # bs) =
     (if lo \<le> b \<and> b \<le> hi then utf8_tail k 0x80 0xBF (acc * 64 + (b - 0x80)) bs else (None, b # bs))"

lemma utf8_tail_shrinks: "length (snd (utf8_tail k lo hi acc bs)) \<le> length bs"
  by (induction k lo hi acc bs rule: utf8_tail.induct) auto

text \<open>\<open>bytes.decode("utf-8", errors="replace")\<close>: one U+FFFD per maximal broken sequence.\<close>

function decode_replace :: "nat list \<Rightarrow> ustring" where
  "decode_replace [] = []"
| "decode_replace (b # bs) =
     (if b < 0x80 then b # decode_replace bs
      else case utf8_lead b of
          None \<Rightarrow> 0xFFFD # decode_replace bs
        | Some (k, lo, hi, acc) \<Rightarrow>
            (case fst (utf8_tail k lo hi acc bs) of None \<Rightarrow> 0xFFFD | Some p \<Rightarrow> p)
              # decode_replace (snd (utf8_tail k lo hi acc bs)))"
  by pat_completeness auto
termination
  by (relation "measure length") (auto simp: less_Suc_eq_le utf8_tail_shrinks)

section \<open>unquote_plus\<close>

text \<open>\<open>unquote_to_bytes\<close>: a percent sign that two hexadecimal digits do not follow is kept.\<close>

definition hexpair :: "nat \<Rightarrow> nat \<Rightarrow> nat option" where
  "hexpair h l =
     (if h < 128 \<and> l < 128 then
        (case (hex_value (char_of h), hex_value (char_of l)) of
           (Some x, Some y) \<Rightarrow> Some (x * 16 + y) | _ \<Rightarrow> None)
      else None)"

fun unquote_to_bytes :: "nat list \<Rightarrow> nat list" where
  "unquote_to_bytes [] = []"
| "unquote_to_bytes (c # cs) =
     (if c = 37
      then (case cs of
              h # l # rest \<Rightarrow>
                (case hexpair h l of
                   Some b \<Rightarrow> b # unquote_to_bytes rest
                 | None \<Rightarrow> c # unquote_to_bytes cs)
            | _ \<Rightarrow> c # unquote_to_bytes cs)
      else c # unquote_to_bytes cs)"

lemma runs_shrink:
  assumes "cs \<noteq> []"
  shows "length (dropWhile (\<lambda>c. \<not> P c) (dropWhile P cs)) < length cs"
proof -
  obtain c t where cs: "cs = c # t" using assms by (cases cs) auto
  have "length (dropWhile Q xs) \<le> length xs" for Q and xs :: "'a list"
    by (rule length_dropWhile_le)
  from this [of "\<lambda>c. \<not> P c" "dropWhile P t"] this [of P t] this [of "\<lambda>c. \<not> P c" t]
  show ?thesis by (simp add: cs)
qed

text \<open>
  \<open>unquote\<close> decodes the maximal runs of ASCII characters and keeps the rest; without a percent
  sign the text is returned as it is.
\<close>

function unquote_runs :: "ustring \<Rightarrow> ustring" where
  "unquote_runs cs =
     (if cs = [] then []
      else let after = dropWhile (\<lambda>c. c < 128) cs
           in decode_replace (unquote_to_bytes (takeWhile (\<lambda>c. c < 128) cs))
                @ takeWhile (\<lambda>c. \<not> c < 128) after @ unquote_runs (dropWhile (\<lambda>c. \<not> c < 128) after))"
  by pat_completeness auto

termination
  by (relation "measure length") (simp_all add: runs_shrink)

declare unquote_runs.simps [simp del]

definition unquote :: "ustring \<Rightarrow> ustring" where
  "unquote cs = (if 37 \<notin> set cs then cs else unquote_runs cs)"

text \<open>\<open>s.replace("+", " ")\<close>\<close>

definition plus_to_space :: "ustring \<Rightarrow> ustring" where
  "plus_to_space cs = map (\<lambda>c. if c = 43 then 32 else c) cs"

definition unquote_plus :: "ustring \<Rightarrow> ustring" where
  "unquote_plus cs = unquote (plus_to_space cs)"

section \<open>quote_plus\<close>

definition always_safe :: "nat \<Rightarrow> bool" where
  "always_safe b \<longleftrightarrow>
     (48 \<le> b \<and> b \<le> 57) \<or> (65 \<le> b \<and> b \<le> 90) \<or> (97 \<le> b \<and> b \<le> 122) \<or> b \<in> {45, 46, 95, 126}"

definition upper_hex :: "nat \<Rightarrow> nat" where
  "upper_hex n = (if n < 10 then 48 + n else 55 + n)"

definition quote_byte :: "nat \<Rightarrow> nat list" where
  "quote_byte b =
     (if always_safe b then [b] else if b = 32 then [43]
      else [37, upper_hex (b div 16), upper_hex (b mod 16)])"

definition quote_plus :: "ustring \<Rightarrow> nat list" where
  "quote_plus ps = concat (map quote_byte (concat (map utf8_bytes ps)))"

section \<open>The round trip\<close>

lemma utf8_tail_step:
  "0 < k \<Longrightarrow> lo \<le> b \<Longrightarrow> b \<le> hi \<Longrightarrow>
     utf8_tail k lo hi acc (b # bs) = utf8_tail (k - 1) 0x80 0xBF (acc * 64 + (b - 0x80)) bs"
  by (cases k) auto

lemma decode_replace_lead:
  assumes "utf8_lead b = Some (k, lo, hi, acc)" and "utf8_tail k lo hi acc bs = (Some p, rest)"
  shows "decode_replace (b # bs) = p # decode_replace rest"
proof -
  have "\<not> b < 0x80" using assms(1) by (simp add: utf8_lead_def split: if_splits)
  then show ?thesis using assms by simp
qed

lemma sextet_join: "n div (k * 64) * 64 + n div k mod 64 = n div k" for n k :: nat
  by (simp add: div_mult2_eq)

text \<open>The bytes of a code point, one case per length.\<close>

lemma decode_two:
  assumes "0x80 \<le> p" "p < 0x800"
  shows "decode_replace ((0xC0 + p div 64) # (0x80 + p mod 64) # t) = p # decode_replace t"
proof (rule decode_replace_lead)
  show "utf8_lead (0xC0 + p div 64) = Some (1, 0x80, 0xBF, p div 64)"
    using assms by (simp add: utf8_lead_def) linarith
  show "utf8_tail 1 0x80 0xBF (p div 64) ((0x80 + p mod 64) # t) = (Some p, t)"
    by (simp add: utf8_tail_step)
qed

lemma decode_three:
  assumes "0x800 \<le> p" "p < 0x10000" "p < 0xD800 \<or> 0xE000 \<le> p"
  shows "decode_replace ((0xE0 + p div 4096) # (0x80 + p div 64 mod 64) # (0x80 + p mod 64) # t)
      = p # decode_replace t"
proof -
  let ?h = "p div 4096" and ?m = "p div 64 mod 64"
  have join: "?h * 64 + ?m = p div 64" by (rule sextet_join [of p 64, simplified])
  have h: "?h < 16" using assms by linarith
  obtain lo hi where lead: "utf8_lead (0xE0 + ?h) = Some (2, lo, hi, ?h)"
    and range: "lo \<le> 0x80 + ?m" "0x80 + ?m \<le> hi"
  proof -
    consider "?h = 0" | "?h = 13" | "?h \<noteq> 0" "?h \<noteq> 13" by blast
    then show ?thesis
    proof cases
      case 1
      then have "0x20 \<le> ?m" using assms join by linarith
      with 1 show ?thesis by (intro that [of "0xA0" "0xBF"]) (simp_all add: utf8_lead_def)
    next
      case 2
      then have "?m < 0x20" using assms join by linarith
      with 2 show ?thesis by (intro that [of "0x80" "0x9F"]) (simp_all add: utf8_lead_def)
    next
      case 3
      with h show ?thesis by (intro that [of "0x80" "0xBF"]) (simp_all add: utf8_lead_def)
    qed
  qed
  from lead show ?thesis
    by (rule decode_replace_lead) (simp add: utf8_tail_step range join)
qed

lemma decode_four:
  assumes "0x10000 \<le> p" "p < 0x110000"
  shows "decode_replace ((0xF0 + p div 262144) # (0x80 + p div 4096 mod 64) # (0x80 + p div 64 mod 64)
      # (0x80 + p mod 64) # t) = p # decode_replace t"
proof -
  let ?h = "p div 262144" and ?m = "p div 4096 mod 64"
  have join: "?h * 64 + ?m = p div 4096" by (rule sextet_join [of p 4096, simplified])
  have low: "p div 4096 * 64 + p div 64 mod 64 = p div 64" by (rule sextet_join [of p 64, simplified])
  have h: "?h \<le> 4" using assms by linarith
  obtain lo hi where lead: "utf8_lead (0xF0 + ?h) = Some (3, lo, hi, ?h)"
    and range: "lo \<le> 0x80 + ?m" "0x80 + ?m \<le> hi"
  proof -
    consider "?h = 0" | "?h = 4" | "?h \<noteq> 0" "?h < 4" using h by linarith
    then show ?thesis
    proof cases
      case 1
      then have "0x10 \<le> ?m" using assms join by linarith
      with 1 show ?thesis by (intro that [of "0x90" "0xBF"]) (simp_all add: utf8_lead_def)
    next
      case 2
      then have "?m < 0x10" using assms join by linarith
      with 2 show ?thesis by (intro that [of "0x80" "0x8F"]) (simp_all add: utf8_lead_def)
    next
      case 3
      then show ?thesis by (intro that [of "0x80" "0xBF"]) (simp_all add: utf8_lead_def)
    qed
  qed
  from lead show ?thesis
    by (rule decode_replace_lead) (simp add: utf8_tail_step range join low)
qed

lemma decode_replace_bytes:
  "scalar_value p \<Longrightarrow> decode_replace (utf8_bytes p @ t) = p # decode_replace t"
  using decode_two [of p t] decode_three [of p t] decode_four [of p t]
  by (auto simp: utf8_bytes_def scalar_value_def simp del: decode_replace.simps(2))
    (simp_all add: not_less)

lemma decode_replace_text:
  "\<forall>p \<in> set ps. scalar_value p \<Longrightarrow> decode_replace (concat (map utf8_bytes ps)) = ps"
  by (induction ps) (simp_all add: decode_replace_bytes del: decode_replace.simps(2))

lemma utf8_bytes_range: "scalar_value p \<Longrightarrow> b \<in> set (utf8_bytes p) \<Longrightarrow> b < 256"
  by (auto simp: utf8_bytes_def scalar_value_def split: if_splits)

lemma hexpair_upper: "b < 256 \<Longrightarrow> hexpair (upper_hex (b div 16)) (upper_hex (b mod 16)) = Some b"
proof -
  assume "b < 256"
  then have "b div 16 < 16" by linarith
  moreover have "hex_value (char_of (upper_hex n)) = Some n" "upper_hex n < 128" if "n < 16" for n
    using that by (auto simp: hex_value_def upper_hex_def)
  ultimately show ?thesis by (simp add: hexpair_def)
qed

lemma upper_hex_range: "n < 16 \<Longrightarrow> upper_hex n \<in> {48..57} \<union> {65..70}"
  by (simp add: upper_hex_def)

lemma quote_byte_ascii:
  assumes "b < 256" and "c \<in> set (quote_byte b)"
  shows "c < 128 \<and> c \<noteq> 38 \<and> c \<noteq> 59 \<and> c \<noteq> 61"
proof -
  from assms(2) consider "always_safe b" "c = b" | "c = 43" | "c = 37"
    | "c = upper_hex (b div 16)" | "c = upper_hex (b mod 16)"
    by (auto simp: quote_byte_def split: if_splits)
  then show ?thesis
  proof cases
    case 1
    then show ?thesis by (auto simp: always_safe_def)
  next
    case 4
    moreover have "b div 16 < 16" using assms(1) by linarith
    ultimately show ?thesis using upper_hex_range [of "b div 16"] by auto
  next
    case 5
    then show ?thesis using upper_hex_range [of "b mod 16"] by auto
  qed simp_all
qed

lemma unquote_quoted_byte:
  assumes "b < 256"
  shows "unquote_to_bytes (plus_to_space (quote_byte b) @ t) = b # unquote_to_bytes t"
proof -
  consider "always_safe b" | "\<not> always_safe b" "b = 32" | "\<not> always_safe b" "b \<noteq> 32" by blast
  then show ?thesis
  proof cases
    case 1
    then show ?thesis by (auto simp: quote_byte_def plus_to_space_def always_safe_def)
  next
    case 2
    then show ?thesis by (simp add: quote_byte_def plus_to_space_def)
  next
    case 3
    have "upper_hex (b div 16) \<noteq> 43" "upper_hex (b mod 16) \<noteq> 43" by (auto simp: upper_hex_def)
    with 3 hexpair_upper [OF assms] show ?thesis
      by (simp add: quote_byte_def plus_to_space_def)
  qed
qed

lemma unquote_quoted:
  "\<forall>b \<in> set bs. b < 256 \<Longrightarrow>
     unquote_to_bytes (plus_to_space (concat (map quote_byte bs))) = bs"
  by (induction bs)
    (simp_all add: unquote_quoted_byte [unfolded plus_to_space_def] plus_to_space_def)

lemma quote_plus_ascii:
  assumes "\<forall>p \<in> set ps. scalar_value p" and "c \<in> set (quote_plus ps)"
  shows "c < 128 \<and> c \<noteq> 38 \<and> c \<noteq> 59 \<and> c \<noteq> 61"
proof -
  from assms(2) obtain p b where "p \<in> set ps" "b \<in> set (utf8_bytes p)" and c: "c \<in> set (quote_byte b)"
    by (auto simp: quote_plus_def)
  with assms(1) have "b < 256" by (blast intro: utf8_bytes_range)
  then show ?thesis using c by (rule quote_byte_ascii)
qed

lemma unquote_runs_ascii:
  assumes "\<forall>c \<in> set cs. c < 128"
  shows "unquote_runs cs = decode_replace (unquote_to_bytes cs)"
proof -
  have run: "takeWhile (\<lambda>c. c < 128) cs = cs" and rest: "dropWhile (\<lambda>c. c < 128) cs = []"
    using assms by (simp_all add: takeWhile_eq_all_conv dropWhile_eq_Nil_conv)
  have "unquote_runs [] = []" by (simp add: unquote_runs.simps)
  then show ?thesis unfolding unquote_runs.simps [of cs] Let_def run rest by simp
qed

lemma plain_bytes: "37 \<notin> set cs \<Longrightarrow> unquote_to_bytes cs = cs"
  by (induction cs) auto

lemma decode_ascii: "\<forall>c \<in> set cs. c < 128 \<Longrightarrow> decode_replace cs = cs"
  by (induction cs) auto

lemma unquote_ascii:
  "\<forall>c \<in> set cs. c < 128 \<Longrightarrow> unquote cs = decode_replace (unquote_to_bytes cs)"
  by (simp add: unquote_def unquote_runs_ascii plain_bytes decode_ascii)

lemma unquote_quote_plus:
  assumes "\<forall>p \<in> set ps. scalar_value p"
  shows "unquote_plus (quote_plus ps) = ps"
proof -
  let ?bs = "concat (map utf8_bytes ps)"
  have bytes: "\<forall>b \<in> set ?bs. b < 256" using assms utf8_bytes_range by auto
  have "\<forall>c \<in> set (plus_to_space (quote_plus ps)). c < 128"
    using quote_plus_ascii [OF assms] by (auto simp: plus_to_space_def)
  then have "unquote_plus (quote_plus ps) = decode_replace (unquote_to_bytes (plus_to_space (quote_plus ps)))"
    by (simp add: unquote_plus_def unquote_ascii)
  also have "\<dots> = ps"
    using bytes assms by (simp add: quote_plus_def unquote_quoted decode_replace_text)
  finally show ?thesis .
qed

lemma scalar_points: "p \<in> set (points s) \<Longrightarrow> scalar_value p"
proof -
  assume "p \<in> set (points s)"
  then obtain c where "p = of_char c" by (auto simp: points_def)
  with byte_range [of c] show ?thesis unfolding scalar_value_def by linarith
qed

lemma chars_points [simp]: "chars (points s) = s"
  by (simp add: chars_def points_def comp_def)

end
