(* ===== verification/Forms.thy ===== *)
theory Forms
  imports Urlencode Headers PyValues
begin

text \<open>
  The path of a posted form: the body chunks a request yields (starlette/requests.py), the
  querystring parser of python-multipart with its callbacks (multipart/multipart.py), the messages
  starlette's FormParser collects from them (starlette/formparsers.py) and the multidict of the
  fields (starlette/datastructures.py).  The parser works on indexes into one chunk; a reference
  automaton reads one byte at a time, and the lemmas relate the two and split the body at its
  ampersands.
\<close>

section \<open>multipart/multipart.py: the querystring parser\<close>

datatype QuerystringState = BEFORE_FIELD | FIELD_NAME | FIELD_DATA

text \<open>The callbacks of FormParser append messages; \<open>on_end\<close> and the notifications carry no bytes.\<close>

datatype FormMessage = MSG_FIELD_START | MSG_FIELD_NAME | MSG_FIELD_DATA | MSG_FIELD_END | MSG_END

type_synonym messages = "(FormMessage \<times> string) list"

definition notify :: "FormMessage \<Rightarrow> messages \<Rightarrow> messages" where
  "notify m ms = ms @ [(m, [])]"

definition slice :: "string \<Rightarrow> nat \<Rightarrow> nat \<Rightarrow> string" where
  "slice data start stop = take (stop - start) (drop start data)"

text \<open>A data callback is not called for an empty range.\<close>

definition callback_data :: "FormMessage \<Rightarrow> string \<Rightarrow> nat \<Rightarrow> nat \<Rightarrow> messages \<Rightarrow> messages" where
  "callback_data m data start stop ms =
     (if start = stop then ms else ms @ [(m, slice data start stop)])"

text \<open>\<open>data.find(c, i, j)\<close>\<close>

definition find_byte :: "char \<Rightarrow> string \<Rightarrow> nat \<Rightarrow> nat \<Rightarrow> nat option" where
  "find_byte c data i j = List.find (\<lambda>k. data ! k = c) [i..<min j (length data)]"

definition is_separator :: "char \<Rightarrow> bool" where
  "is_separator c \<longleftrightarrow> c = CHR ''&'' \<or> c = CHR '';''"

definition find_separator :: "string \<Rightarrow> nat \<Rightarrow> nat option" where
  "find_separator data i =
     (case find_byte (CHR ''&'') data i (length data) of
        Some k \<Rightarrow> Some k
      | None \<Rightarrow> find_byte (CHR '';'') data i (length data))"

text \<open>
  The variables of the loop of \<open>_internal_write\<close>.  One turn either raises, at an offset, or moves
  on; \<open>sc_pos\<close> is the index after the \<open>i += 1\<close> that ends the turn.
\<close>

record scan =
  sc_pos :: nat
  sc_state :: QuerystringState
  sc_found_sep :: bool
  sc_messages :: messages

definition before_field_step :: "bool \<Rightarrow> string \<Rightarrow> scan \<Rightarrow> nat + scan" where
  "before_field_step strict data s =
     (if is_separator (data ! sc_pos s)
      then if sc_found_sep s
           then if strict then Inl (sc_pos s) else Inr (s\<lparr> sc_pos := sc_pos s + 1 \<rparr>)
           else Inr (s\<lparr> sc_pos := sc_pos s + 1, sc_found_sep := True \<rparr>)
      else Inr (s\<lparr> sc_state := FIELD_NAME, sc_found_sep := False,
             sc_messages := notify MSG_FIELD_START (sc_messages s) \<rparr>))"

definition field_name_step :: "bool \<Rightarrow> string \<Rightarrow> nat \<Rightarrow> scan \<Rightarrow> nat + scan" where
  "field_name_step strict data len s =
     (let i = sc_pos s; ms = sc_messages s; sep_pos = find_separator data i;
          equals_pos = (case sep_pos of
              Some k \<Rightarrow> find_byte (CHR ''='') data i k
            | None \<Rightarrow> find_byte (CHR ''='') data i (length data))
      in case equals_pos of
           Some k \<Rightarrow> Inr (s\<lparr> sc_pos := k + 1, sc_state := FIELD_DATA,
             sc_messages := callback_data MSG_FIELD_NAME data i k ms \<rparr>)
         | None \<Rightarrow>
             (case sep_pos of
                Some k \<Rightarrow>
                  if strict then Inl i
                  else Inr (s\<lparr> sc_pos := k, sc_state := BEFORE_FIELD,
                    sc_messages := notify MSG_FIELD_END (callback_data MSG_FIELD_NAME data i k ms) \<rparr>)
              | None \<Rightarrow> Inr (s\<lparr> sc_pos := len + 1,
                  sc_messages := callback_data MSG_FIELD_NAME data i len ms \<rparr>)))"

definition field_data_step :: "string \<Rightarrow> nat \<Rightarrow> scan \<Rightarrow> nat + scan" where
  "field_data_step data len s =
     (let i = sc_pos s; ms = sc_messages s
      in case find_separator data i of
           Some k \<Rightarrow> Inr (s\<lparr> sc_pos := k, sc_state := BEFORE_FIELD,
             sc_messages := notify MSG_FIELD_END (callback_data MSG_FIELD_DATA data i k ms) \<rparr>)
         | None \<Rightarrow> Inr (s\<lparr> sc_pos := len + 1,
             sc_messages := callback_data MSG_FIELD_DATA data i len ms \<rparr>))"

definition scan_step :: "bool \<Rightarrow> string \<Rightarrow> nat \<Rightarrow> scan \<Rightarrow> nat + scan" where
  "scan_step strict data len s =
     (case sc_state s of
        BEFORE_FIELD \<Rightarrow> before_field_step strict data s
      | FIELD_NAME \<Rightarrow> field_name_step strict data len s
      | FIELD_DATA \<Rightarrow> field_data_step data len s)"

text \<open>
  The loop.  A turn moves forward or, at the same index, from the end of a field to its separator
  or from before a field into it; the measure counts those.
\<close>

definition scan_measure :: "string \<Rightarrow> nat \<Rightarrow> scan \<Rightarrow> nat" where
  "scan_measure data len s =
     3 * (len - sc_pos s) +
     (if sc_state s \<noteq> BEFORE_FIELD then 1 else if is_separator (data ! sc_pos s) then 0 else 2)"

lemma find_upt_Some:
  assumes "List.find P [i..<e] = Some k"
  shows "i \<le> k \<and> k < e \<and> P k \<and> (\<forall>m. i \<le> m \<and> m < k \<longrightarrow> \<not> P m)"
proof -
  from assms obtain n where n: "n < e - i" "P (i + n)" "k = i + n" and before: "\<forall>m < n. \<not> P (i + m)"
    by (auto simp: find_Some_iff)
  have "\<not> P m" if "i \<le> m" "m < k" for m
    using before [THEN spec, of "m - i"] that n(3) by simp
  with n show ?thesis by auto
qed

lemma find_byte_Some:
  "find_byte c data i j = Some k \<Longrightarrow>
     i \<le> k \<and> k < j \<and> k < length data \<and> data ! k = c \<and> (\<forall>m. i \<le> m \<and> m < k \<longrightarrow> data ! m \<noteq> c)"
  using find_upt_Some [of "\<lambda>k. data ! k = c" i "min j (length data)" k] by (simp add: find_byte_def)

lemma find_byte_None:
  "find_byte c data i j = None \<Longrightarrow> i \<le> m \<Longrightarrow> m < j \<Longrightarrow> m < length data \<Longrightarrow> data ! m \<noteq> c"
  by (auto simp: find_byte_def find_None_iff)

lemma find_separator_Some:
  "find_separator data i = Some k \<Longrightarrow> i \<le> k \<and> k < length data \<and> is_separator (data ! k)"
  by (auto simp: find_separator_def is_separator_def dest: find_byte_Some split: option.splits)

lemma scan_step_progress:
  assumes "sc_pos s < len" and "scan_step strict data len s = Inr s'"
  shows "scan_measure data len s' < scan_measure data len s"
proof (cases "sc_state s")
  case BEFORE_FIELD
  then show ?thesis
    using assms by (auto simp: scan_step_def before_field_step_def scan_measure_def split: if_splits)
next
  case FIELD_NAME
  then show ?thesis
    using assms
    by (auto simp: scan_step_def field_name_step_def scan_measure_def Let_def
        dest!: find_byte_Some find_separator_Some split: if_splits option.splits)
next
  case FIELD_DATA
  then show ?thesis
    using assms
    by (auto simp: scan_step_def field_data_step_def scan_measure_def Let_def
        dest!: find_separator_Some split: option.splits)
qed

function scan_loop :: "bool \<Rightarrow> string \<Rightarrow> nat \<Rightarrow> scan \<Rightarrow> nat option \<times> scan" where
  "scan_loop strict data len s =
     (if sc_pos s < len
      then (case scan_step strict data len s of
              Inl offset \<Rightarrow> (Some offset, s)
            | Inr s' \<Rightarrow> scan_loop strict data len s')
      else (None, s))"
  by pat_completeness auto
termination
  by (relation "measure (\<lambda>(strict, data, len, s). scan_measure data len s)")
    (simp_all add: scan_step_progress)

declare scan_loop.simps [simp del]

record querystring_parser =
  qp_state :: QuerystringState
  qp_found_sep :: bool
  qp_max_size :: "nat option"
  qp_current_size :: nat
  qp_strict_parsing :: bool

text \<open>\<open>max_size\<close> is \<open>None\<close> for infinity.\<close>

definition QuerystringParser :: "bool \<Rightarrow> nat option \<Rightarrow> querystring_parser result" where
  "QuerystringParser strict max_size =
     (case max_size of
        Some 0 \<Rightarrow> Inl (ValueError ''max_size must be a positive number'')
      | _ \<Rightarrow> Inr \<lparr> qp_state = BEFORE_FIELD, qp_found_sep = False, qp_max_size = max_size,
          qp_current_size = 0, qp_strict_parsing = strict \<rparr>)"

datatype form_error = QuerystringParseError nat | ClientDisconnect

text \<open>
  The state is stored after the loop only; the messages of the turns before an error have been
  sent.  The size of a chunk that is cut is counted in full.
\<close>

definition internal_write ::
    "querystring_parser \<Rightarrow> messages \<Rightarrow> string \<Rightarrow> nat \<Rightarrow> (form_error + nat) \<times> querystring_parser \<times> messages" where
  "internal_write p ms data len =
     (case scan_loop (qp_strict_parsing p) data len
         \<lparr> sc_pos = 0, sc_state = qp_state p, sc_found_sep = qp_found_sep p, sc_messages = ms \<rparr> of
        (Some offset, s) \<Rightarrow> (Inl (QuerystringParseError offset), p, sc_messages s)
      | (None, s) \<Rightarrow> (Inr (length data),
          p\<lparr> qp_state := sc_state s, qp_found_sep := sc_found_sep s \<rparr>, sc_messages s))"

definition querystring_write ::
    "querystring_parser \<Rightarrow> messages \<Rightarrow> string \<Rightarrow> (form_error + nat) \<times> querystring_parser \<times> messages" where
  "querystring_write p ms data =
     (let data_len = (case qp_max_size p of
          None \<Rightarrow> length data
        | Some m \<Rightarrow> if qp_current_size p + length data > m then m - qp_current_size p else length data)
      in case internal_write p ms data data_len of
           (r, p', ms') \<Rightarrow>
             (r, p'\<lparr> qp_current_size := qp_current_size p + (case r of Inl _ \<Rightarrow> 0 | Inr l \<Rightarrow> l) \<rparr>, ms'))"

definition querystring_finalize :: "querystring_parser \<Rightarrow> messages \<Rightarrow> messages" where
  "querystring_finalize p ms =
     notify MSG_END (if qp_state p = FIELD_DATA then notify MSG_FIELD_END ms else ms)"

section \<open>starlette/formparsers.py: collecting the fields\<close>

type_synonym form_items = "(ustring \<times> ustring) list"

record fields =
  field_name :: string
  field_value :: string
  items :: form_items

definition decode_form_text :: "string \<Rightarrow> ustring" where
  "decode_form_text bytes = unquote_plus (points bytes)"

fun handle_message :: "fields \<Rightarrow> FormMessage \<times> string \<Rightarrow> fields" where
  "handle_message a (MSG_FIELD_START, b) = a\<lparr> field_name := [], field_value := [] \<rparr>"
| "handle_message a (MSG_FIELD_NAME, b) = a\<lparr> field_name := field_name a @ b \<rparr>"
| "handle_message a (MSG_FIELD_DATA, b) = a\<lparr> field_value := field_value a @ b \<rparr>"
| "handle_message a (MSG_FIELD_END, b) =
     a\<lparr> items := items a @ [(decode_form_text (field_name a), decode_form_text (field_value a))] \<rparr>"
| "handle_message a (MSG_END, b) = a"

text \<open>
  \<open>FormParser.parse\<close> for the chunks of the stream: an empty chunk finalizes the parser.  The
  messages of a chunk are handled before the next one is read.
\<close>

fun parse_chunks :: "querystring_parser \<Rightarrow> fields \<Rightarrow> string list \<Rightarrow> form_error + fields" where
  "parse_chunks p a [] = Inr a"
| "parse_chunks p a (chunk # chunks) =
     (if chunk = [] then parse_chunks p (foldl handle_message a (querystring_finalize p [])) chunks
      else case querystring_write p [] chunk of
          (Inl e, _, _) \<Rightarrow> Inl e
        | (Inr _, p', ms) \<Rightarrow> parse_chunks p' (foldl handle_message a ms) chunks)"

text \<open>
  \<open>Request.stream\<close>: the bodies of the messages the server sends, empty ones left out, then an
  empty chunk; a disconnect raises.  With no last message the stream still waits.
\<close>

datatype asgi_message = http_request string bool | http_disconnect

datatype stream_end = Finished | Disconnected | Waiting

fun request_stream :: "asgi_message list \<Rightarrow> string list \<times> stream_end" where
  "request_stream [] = ([], Waiting)"
| "request_stream (http_disconnect # ms) = ([], Disconnected)"
| "request_stream (http_request body more_body # ms) =
     (let (chunks, e) = (if more_body then request_stream ms else ([[]], Finished))
      in (if body = [] then chunks else body # chunks, e))"

definition initial_fields :: fields where
  "initial_fields = \<lparr> field_name = [], field_value = [], items = [] \<rparr>"

definition parse_form :: "asgi_message list \<Rightarrow> (form_error + form_items) option" where
  "parse_form received =
     (case request_stream received of (chunks, e) \<Rightarrow>
        (case QuerystringParser False None of
           Inl _ \<Rightarrow> None
         | Inr p \<Rightarrow>
             (case parse_chunks p initial_fields chunks of
                Inl err \<Rightarrow> Some (Inl err)
              | Inr a \<Rightarrow>
                  (case e of
                     Finished \<Rightarrow> Some (Inr (items a))
                   | Disconnected \<Rightarrow> Some (Inl ClientDisconnect)
                   | Waiting \<Rightarrow> None))))"

section \<open>A reference automaton\<close>

text \<open>
  One byte at a time, with the ampersand as the only separator.  Its state is the parser's state
  with the fields collected so far.
\<close>

fun field_step :: "QuerystringState \<times> fields \<Rightarrow> char \<Rightarrow> QuerystringState \<times> fields" where
  "field_step (BEFORE_FIELD, a) c =
     (if c = CHR ''&'' then (BEFORE_FIELD, a)
      else if c = CHR ''='' then (FIELD_DATA, a\<lparr> field_name := [], field_value := [] \<rparr>)
      else (FIELD_NAME, a\<lparr> field_value := [], field_name := [c] \<rparr>))"
| "field_step (FIELD_NAME, a) c =
     (if c = CHR ''&'' then (BEFORE_FIELD, handle_message a (MSG_FIELD_END, []))
      else if c = CHR ''='' then (FIELD_DATA, a)
      else (FIELD_NAME, a\<lparr> field_name := field_name a @ [c] \<rparr>))"
| "field_step (FIELD_DATA, a) c =
     (if c = CHR ''&'' then (BEFORE_FIELD, handle_message a (MSG_FIELD_END, []))
      else (FIELD_DATA, a\<lparr> field_value := field_value a @ [c] \<rparr>))"

text \<open>What finalizing leaves, and the fields of a body cut at its ampersands.\<close>

definition finish_fields :: "QuerystringState \<times> fields \<Rightarrow> fields" where
  "finish_fields r =
     (if fst r = FIELD_DATA then handle_message (snd r) (MSG_FIELD_END, []) else snd r)"

definition field_of :: "string \<Rightarrow> ustring \<times> ustring" where
  "field_of w =
     (decode_form_text (takeWhile (\<lambda>c. c \<noteq> CHR ''='') w), decode_form_text (tl (dropWhile (\<lambda>c. c \<noteq> CHR ''='') w)))"

fun form_fields :: "string list \<Rightarrow> form_items" where
  "form_fields [] = []"
| "form_fields [w] = (if CHR ''='' \<in> set w then [field_of w] else [])"
| "form_fields (w # v # ws) = (if w = [] then [] else [field_of w]) @ form_fields (v # ws)"

subsection \<open>The parser computes the automaton\<close>

lemma fold_field_name:
  "CHR ''&'' \<notin> set w \<Longrightarrow> CHR ''='' \<notin> set w \<Longrightarrow>
     foldl field_step (FIELD_NAME, a) w = (FIELD_NAME, a\<lparr> field_name := field_name a @ w \<rparr>)"
  by (induction w arbitrary: a) auto

lemma fold_field_data:
  "CHR ''&'' \<notin> set w \<Longrightarrow>
     foldl field_step (FIELD_DATA, a) w = (FIELD_DATA, a\<lparr> field_value := field_value a @ w \<rparr>)"
  by (induction w arbitrary: a) auto

lemma handle_callback_name [simp]:
  "foldl handle_message a (callback_data MSG_FIELD_NAME data i k ms) =
     (foldl handle_message a ms)\<lparr> field_name := field_name (foldl handle_message a ms) @ slice data i k \<rparr>"
  by (simp add: callback_data_def slice_def)

lemma handle_callback_data [simp]:
  "foldl handle_message a (callback_data MSG_FIELD_DATA data i k ms) =
     (foldl handle_message a ms)\<lparr> field_value := field_value (foldl handle_message a ms) @ slice data i k \<rparr>"
  by (simp add: callback_data_def slice_def)

lemma handle_notify [simp]:
  "foldl handle_message a (notify m ms) = handle_message (foldl handle_message a ms) (m, [])"
  by (simp add: notify_def)

lemma drop_slice: "i \<le> k \<Longrightarrow> drop i data = slice data i k @ drop k data"
  unfolding slice_def by (metis append_take_drop_id drop_drop le_add_diff_inverse2)

lemma slice_avoids:
  assumes "\<forall>m. i \<le> m \<and> m < k \<longrightarrow> data ! m \<noteq> c" and "k \<le> length data"
  shows "c \<notin> set (slice data i k)"
  using assms by (auto simp: slice_def in_set_conv_nth)

lemma slice_end: "slice data i (length data) = drop i data"
  by (simp add: slice_def)

lemma semicolon_free:
  assumes "CHR '';'' \<notin> set data"
  shows "find_separator data i = find_byte (CHR ''&'') data i (length data)"
proof -
  have "find_byte (CHR '';'') data i (length data) = None"
    using find_byte_Some [of "CHR '';''" data i "length data"] assms by (metis nth_mem option.exhaust)
  then show ?thesis by (simp add: find_separator_def split: option.splits)
qed

lemma scan_step_lenient: "scan_step False data len s \<noteq> Inl offset"
  by (auto simp: scan_step_def before_field_step_def field_name_step_def field_data_step_def Let_def
      split: QuerystringState.splits option.splits)

lemma scan_loop_lenient: "fst (scan_loop False data len s) = None"
proof (induction False data len s rule: scan_loop.induct)
  case (1 data len s)
  then show ?case
    using scan_step_lenient by (subst scan_loop.simps) (auto split: sum.splits)
qed

text \<open>One turn of the loop reads the bytes it skips.\<close>

definition view :: "fields \<Rightarrow> scan \<Rightarrow> QuerystringState \<times> fields" where
  "view a s = (sc_state s, foldl handle_message a (sc_messages s))"

lemma before_field_reads:
  assumes "CHR '';'' \<notin> set data" and "sc_pos s < length data" and "sc_state s = BEFORE_FIELD"
    and "scan_step False data (length data) s = Inr s'"
  shows "foldl field_step (view a s) (drop (sc_pos s) data) = foldl field_step (view a s') (drop (sc_pos s') data)"
proof -
  have "data ! sc_pos s \<noteq> CHR '';''" using assms(1,2) nth_mem by metis
  moreover have "drop (sc_pos s) data = data ! sc_pos s # drop (Suc (sc_pos s)) data"
    using assms(2) by (simp add: Cons_nth_drop_Suc)
  ultimately show ?thesis
    using assms(3,4)
    by (auto simp: scan_step_def before_field_step_def is_separator_def view_def split: if_splits)
qed

lemma field_data_reads:
  assumes "CHR '';'' \<notin> set data" and "sc_pos s < length data" and "sc_state s = FIELD_DATA"
    and "scan_step False data (length data) s = Inr s'"
  shows "foldl field_step (view a s) (drop (sc_pos s) data) = foldl field_step (view a s') (drop (sc_pos s') data)"
proof (cases "find_byte (CHR ''&'') data (sc_pos s) (length data)")
  case None
  then have "CHR ''&'' \<notin> set (drop (sc_pos s) data)"
    using find_byte_None [OF None] by (auto simp: in_set_conv_nth)
  then show ?thesis
    using assms(3,4) None
    by (auto simp: scan_step_def field_data_step_def semicolon_free [OF assms(1)] view_def slice_end
        fold_field_data)
next
  case (Some k)
  note k = find_byte_Some [OF Some]
  then have free: "CHR ''&'' \<notin> set (slice data (sc_pos s) k)" by (intro slice_avoids) auto
  have rest: "drop (sc_pos s) data = slice data (sc_pos s) k @ CHR ''&'' # drop (Suc k) data"
    "drop k data = CHR ''&'' # drop (Suc k) data"
    using k drop_slice [of "sc_pos s" k data] by (simp_all add: Cons_nth_drop_Suc [symmetric])
  show ?thesis
    using assms(3,4) Some free
    by (auto simp: scan_step_def field_data_step_def semicolon_free [OF assms(1)] view_def rest
        fold_field_data)
qed

text \<open>The name of a field up to \<open>k\<close>, and what the step reads there.\<close>

lemma name_reads:
  assumes "i \<le> k" "k \<le> length data"
    and "\<forall>m. i \<le> m \<and> m < k \<longrightarrow> data ! m \<noteq> CHR ''&''" "\<forall>m. i \<le> m \<and> m < k \<longrightarrow> data ! m \<noteq> CHR ''=''"
  shows "foldl field_step (FIELD_NAME, a) (drop i data) =
    foldl field_step (FIELD_NAME, a\<lparr> field_name := field_name a @ slice data i k \<rparr>) (drop k data)"
  using slice_avoids [OF assms(3,2)] slice_avoids [OF assms(4,2)]
  by (simp add: drop_slice [OF assms(1)] fold_field_name)

lemma field_name_reads:
  assumes "CHR '';'' \<notin> set data" and "sc_pos s < length data" and "sc_state s = FIELD_NAME"
    and "scan_step False data (length data) s = Inr s'"
  shows "foldl field_step (view a s) (drop (sc_pos s) data) = foldl field_step (view a s') (drop (sc_pos s') data)"
proof -
  let ?i = "sc_pos s" and ?n = "length data" and ?a = "foldl handle_message a (sc_messages s)"
  let ?sep = "find_byte (CHR ''&'') data ?i ?n"
  let ?stop = "case ?sep of Some k \<Rightarrow> k | None \<Rightarrow> ?n"
  let ?eq = "find_byte (CHR ''='') data ?i ?stop"
  have stop: "?i \<le> ?stop" "?stop \<le> ?n" "\<forall>m. ?i \<le> m \<and> m < ?stop \<longrightarrow> data ! m \<noteq> CHR ''&''"
    using find_byte_Some [of "CHR ''&''" data ?i ?n] find_byte_None [of "CHR ''&''" data ?i ?n] assms(2)
    by (auto split: option.splits)
  have step: "s' = (case ?eq of
      Some k \<Rightarrow> s\<lparr> sc_pos := k + 1, sc_state := FIELD_DATA,
        sc_messages := callback_data MSG_FIELD_NAME data ?i k (sc_messages s) \<rparr>
    | None \<Rightarrow> (case ?sep of
        Some k \<Rightarrow> s\<lparr> sc_pos := k, sc_state := BEFORE_FIELD,
          sc_messages := notify MSG_FIELD_END (callback_data MSG_FIELD_NAME data ?i k (sc_messages s)) \<rparr>
      | None \<Rightarrow> s\<lparr> sc_pos := ?n + 1,
          sc_messages := callback_data MSG_FIELD_NAME data ?i ?n (sc_messages s) \<rparr>))"
    using assms(3,4)
    by (auto simp: scan_step_def field_name_step_def semicolon_free [OF assms(1)] Let_def split: option.splits)
  show ?thesis
  proof (cases ?eq)
    case (Some k)
    note k = find_byte_Some [OF Some]
    have "drop k data = CHR ''='' # drop (Suc k) data" using k by (simp add: Cons_nth_drop_Suc [symmetric])
    then show ?thesis
      using name_reads [of ?i k data ?a] k stop assms(3) Some step by (simp add: view_def)
  next
    case None
    have upto: "foldl field_step (FIELD_NAME, ?a) (drop ?i data) =
      foldl field_step (FIELD_NAME, ?a\<lparr> field_name := field_name ?a @ slice data ?i ?stop \<rparr>) (drop ?stop data)"
      using stop find_byte_None [OF None] by (intro name_reads) auto
    show ?thesis
    proof (cases ?sep)
      case sep: None
      then show ?thesis using upto None step assms(3) by (simp add: view_def)
    next
      case sep: (Some k)
      note k = find_byte_Some [OF sep]
      have "drop k data = CHR ''&'' # drop (Suc k) data" using k by (simp add: Cons_nth_drop_Suc [symmetric])
      then show ?thesis using upto None sep step assms(3) by (simp add: view_def)
    qed
  qed
qed

lemma scan_loop_reads:
  "CHR '';'' \<notin> set data \<Longrightarrow>
     view a (snd (scan_loop False data (length data) s)) = foldl field_step (view a s) (drop (sc_pos s) data)"
proof (induction False data "length data" s rule: scan_loop.induct)
  case (1 data s)
  show ?case
  proof (cases "sc_pos s < length data")
    case True
    obtain s' where step: "scan_step False data (length data) s = Inr s'"
      using scan_step_lenient by (cases "scan_step False data (length data) s") auto
    have "foldl field_step (view a s) (drop (sc_pos s) data) = foldl field_step (view a s') (drop (sc_pos s') data)"
      using before_field_reads [OF 1(2) True _ step] field_name_reads [OF 1(2) True _ step]
        field_data_reads [OF 1(2) True _ step] by (cases "sc_state s") auto
    with 1(1) [OF True step 1(2)] True step show ?thesis
      by (simp add: scan_loop.simps [of False data "length data" s])
  next
    case False
    then show ?thesis by (simp add: scan_loop.simps [of False data "length data" s])
  qed
qed

text \<open>The parser FormParser builds: not strict and without a bound.\<close>

definition form_parser :: "querystring_parser \<Rightarrow> bool" where
  "form_parser p \<longleftrightarrow> \<not> qp_strict_parsing p \<and> qp_max_size p = None"

lemma querystring_write_lenient:
  assumes "form_parser p"
  obtains p' ms' where "querystring_write p ms data = (Inr (length data), p', ms')" and "form_parser p'"
proof -
  obtain s where "scan_loop False data (length data)
      \<lparr> sc_pos = 0, sc_state = qp_state p, sc_found_sep = qp_found_sep p, sc_messages = ms \<rparr> = (None, s)"
    using scan_loop_lenient by (metis prod.collapse)
  then show ?thesis
    using assms that by (simp add: querystring_write_def internal_write_def form_parser_def)
qed

lemma querystring_write_reads:
  assumes "form_parser p" and "CHR '';'' \<notin> set data"
    and "querystring_write p [] data = (r, p', ms')"
  shows "(qp_state p', foldl handle_message a ms') = foldl field_step (qp_state p, a) data"
proof -
  let ?s = "\<lparr> sc_pos = 0, sc_state = qp_state p, sc_found_sep = qp_found_sep p, sc_messages = [] \<rparr>"
  obtain s where s: "scan_loop False data (length data) ?s = (None, s)"
    using scan_loop_lenient by (metis prod.collapse)
  have "p' = p\<lparr> qp_state := sc_state s, qp_found_sep := sc_found_sep s,
      qp_current_size := qp_current_size p + length data \<rparr>" "ms' = sc_messages s"
    using assms(1,3) s by (auto simp: querystring_write_def internal_write_def form_parser_def)
  then show ?thesis
    using scan_loop_reads [OF assms(2), of a ?s] s by (simp add: view_def)
qed

lemma parse_chunks_reads:
  assumes "form_parser p" and "\<forall>c \<in> set cs. c \<noteq> [] \<and> CHR '';'' \<notin> set c"
  shows "parse_chunks p a (cs @ [[]]) = Inr (finish_fields (foldl field_step (qp_state p, a) (concat cs)))"
  using assms
proof (induction cs arbitrary: p a)
  case Nil
  then show ?case by (simp add: finish_fields_def querystring_finalize_def notify_def)
next
  case (Cons c cs)
  obtain p' ms' where w: "querystring_write p [] c = (Inr (length c), p', ms')" and p': "form_parser p'"
    using querystring_write_lenient [OF Cons.prems(1)] .
  have "(qp_state p', foldl handle_message a ms') = foldl field_step (qp_state p, a) c"
    using querystring_write_reads [OF Cons.prems(1) _ w] Cons.prems(2) by simp
  with w Cons.IH [OF p', of "foldl handle_message a ms'"] Cons.prems(2) show ?case by simp
qed

text \<open>With semicolons the fields differ, but the parser still returns.\<close>

lemma parse_chunks_lenient: "form_parser p \<Longrightarrow> \<exists>b. parse_chunks p a cs = Inr b"
proof (induction cs arbitrary: p a)
  case (Cons c cs)
  obtain p' ms' where "querystring_write p [] c = (Inr (length c), p', ms')" "form_parser p'"
    using querystring_write_lenient [OF Cons.prems] .
  with Cons.IH Cons.prems show ?case by (cases "c = []") simp_all
qed simp

subsection \<open>The automaton cuts the body at its ampersands\<close>

lemma fields_update_swap:
  "a\<lparr> field_name := n, field_value := v \<rparr> = a\<lparr> field_value := v, field_name := n \<rparr>"
  by simp

lemma part_reads:
  assumes "CHR ''&'' \<notin> set w" and "w \<noteq> []"
  obtains st b where "foldl field_step (BEFORE_FIELD, a) w = (st, b)"
    "st = (if CHR ''='' \<in> set w then FIELD_DATA else FIELD_NAME)" "items b = items a"
    "(decode_form_text (field_name b), decode_form_text (field_value b)) = field_of w"
proof -
  let ?a = "a\<lparr> field_value := [], field_name := [] \<rparr>"
  have start: "foldl field_step (BEFORE_FIELD, a) w = foldl field_step (FIELD_NAME, ?a) w"
    using assms by (cases w) (auto simp: fields_update_swap [where v = "[]"])
  show ?thesis
  proof (cases "CHR ''='' \<in> set w")
    case True
    then obtain n v where w: "w = n @ CHR ''='' # v" and n: "CHR ''='' \<notin> set n"
      by (meson split_list_first)
    have read: "foldl field_step (FIELD_NAME, ?a) w =
        (FIELD_DATA, a\<lparr> field_name := n, field_value := v \<rparr>)"
      using assms(1) n by (simp add: w fold_field_name fold_field_data)
    have "takeWhile (\<lambda>c. c \<noteq> CHR ''='') w = n" "tl (dropWhile (\<lambda>c. c \<noteq> CHR ''='') w) = v"
      using n by (auto simp: w takeWhile_append dropWhile_append)
    then show ?thesis
      by (intro that [of FIELD_DATA "a\<lparr> field_name := n, field_value := v \<rparr>"])
        (simp_all add: start read True field_of_def)
  next
    case False
    then have read: "foldl field_step (FIELD_NAME, ?a) w = (FIELD_NAME, a\<lparr> field_value := [], field_name := w \<rparr>)"
      using assms(1) by (simp add: fold_field_name)
    have whole: "takeWhile (\<lambda>c. c \<noteq> CHR ''='') w = w" and none: "dropWhile (\<lambda>c. c \<noteq> CHR ''='') w = []"
      using False by (auto simp: takeWhile_eq_all_conv dropWhile_eq_Nil_conv)
    have "field_of w = (decode_form_text w, decode_form_text [])"
      unfolding field_of_def whole none by simp
    then show ?thesis
      by (intro that [of FIELD_NAME "a\<lparr> field_value := [], field_name := w \<rparr>"])
        (simp_all add: start read False)
  qed
qed

lemma parts_read:
  "\<forall>p \<in> set ps. CHR ''&'' \<notin> set p \<Longrightarrow>
     items (finish_fields (foldl field_step (BEFORE_FIELD, a) (join_with (CHR ''&'') ps))) = items a @ form_fields ps"
proof (induction ps arbitrary: a rule: form_fields.induct)
  case 1
  show ?case by (simp add: finish_fields_def)
next
  case (2 w)
  show ?case
  proof (cases "w = []")
    case True
    then show ?thesis by (simp add: finish_fields_def)
  next
    case False
    with 2 obtain st b where "foldl field_step (BEFORE_FIELD, a) w = (st, b)"
      "st = (if CHR ''='' \<in> set w then FIELD_DATA else FIELD_NAME)" "items b = items a"
      "(decode_form_text (field_name b), decode_form_text (field_value b)) = field_of w"
      using part_reads [of w a] by auto
    then show ?thesis by (simp add: finish_fields_def)
  qed
next
  case (3 w v ws)
  show ?case
  proof (cases "w = []")
    case True
    then show ?thesis using 3 by simp
  next
    case False
    with 3 obtain st b where r: "foldl field_step (BEFORE_FIELD, a) w = (st, b)"
      "st = (if CHR ''='' \<in> set w then FIELD_DATA else FIELD_NAME)" "items b = items a"
      "(decode_form_text (field_name b), decode_form_text (field_value b)) = field_of w"
      using part_reads [of w a] by auto
    then have "field_step (st, b) (CHR ''&'') = (BEFORE_FIELD, handle_message b (MSG_FIELD_END, []))" by simp
    then show ?thesis
      using 3 r False by simp
  qed
qed

lemma stream_shape:
  "request_stream ms = (chunks, Finished) \<Longrightarrow> \<exists>cs. chunks = cs @ [[]] \<and> (\<forall>c \<in> set cs. c \<noteq> [])"
proof (induction ms arbitrary: chunks rule: request_stream.induct)
  case (3 body more_body ms)
  show ?case
  proof (cases more_body)
    case True
    obtain rest e where rest: "request_stream ms = (rest, e)" by fastforce
    with 3 True have e: "e = Finished" and chunks: "chunks = (if body = [] then rest else body # rest)"
      by auto
    obtain cs where "rest = cs @ [[]]" "\<forall>c \<in> set cs. c \<noteq> []"
      using 3(1) [OF True] rest e by blast
    then have "chunks = (if body = [] then cs else body # cs) @ [[]] \<and>
        (\<forall>c \<in> set (if body = [] then cs else body # cs). c \<noteq> [])" using chunks by auto
    then show ?thesis by (rule exI)
  next
    case False
    then have "chunks = (if body = [] then [] else [body]) @ [[]] \<and>
        (\<forall>c \<in> set (if body = [] then [] else [body]). c \<noteq> [])" using 3 by auto
    then show ?thesis by (rule exI)
  qed
qed auto

lemma split_on_parts: "p \<in> set (split_on c s) \<Longrightarrow> c \<notin> set p"
  by (induction s arbitrary: p) (auto split: if_splits list.splits)

lemma form_split:
  assumes "request_stream received = (chunks, Finished)" and "CHR '';'' \<notin> set (concat chunks)"
  shows "parse_form received = Some (Inr (form_fields (split_on (CHR ''&'') (concat chunks))))"
proof -
  obtain cs where cs: "chunks = cs @ [[]]" "\<forall>c \<in> set cs. c \<noteq> []"
    using stream_shape [OF assms(1)] by blast
  let ?p = "\<lparr> qp_state = BEFORE_FIELD, qp_found_sep = False, qp_max_size = None, qp_current_size = 0,
      qp_strict_parsing = False \<rparr>"
  have "parse_chunks ?p initial_fields chunks =
      Inr (finish_fields (foldl field_step (BEFORE_FIELD, initial_fields) (concat chunks)))"
    using parse_chunks_reads [of ?p cs initial_fields] cs assms(2) by (simp add: form_parser_def)
  moreover have "items (finish_fields (foldl field_step (BEFORE_FIELD, initial_fields) (concat chunks))) =
      form_fields (split_on (CHR ''&'') (concat chunks))"
    using parts_read [of "split_on (CHR ''&'') (concat chunks)" initial_fields]
    by (simp add: join_split initial_fields_def split_on_parts)
  ultimately show ?thesis
    by (simp add: parse_form_def assms(1) QuerystringParser_def)
qed

text \<open>
  C23: however a form body without semicolons is cut into messages, parsing it gives the fields of
  the body cut at its ampersands: empty fields are skipped, a field is cut at its first equals sign
  and its two halves are percent-decoded, a field without an equals sign has the empty value, and
  it is lost when it is the last one.
\<close>

theorem form_is_split_at_ampersands:
  assumes "request_stream received = (chunks, Finished)" and "CHR '';'' \<notin> set (concat chunks)"
  shows "parse_form received = Some (Inr (form_fields (split_on (CHR ''&'') (concat chunks))))"
  using assms by (rule form_split)

theorem form_is_split_at_ampersands_witness:
  "parse_form [http_request ''a=1&b=x%2'' True, http_request [] True, http_request ''6+y&&c'' False] =
     Some (Inr [(points ''a'', points ''1''), (points ''b'', points ''x& y'')])"
proof -
  have "form_fields (split_on (CHR ''&'') ''a=1&b=x%26+y&&c'') =
      [(points ''a'', points ''1''), (points ''b'', points ''x& y'')]" by code_simp
  then show ?thesis
    using form_is_split_at_ampersands
      [of "[http_request ''a=1&b=x%2'' True, http_request [] True, http_request ''6+y&&c'' False]"
        "[''a=1&b=x%2'', ''6+y&&c'', []]"]
    by simp
qed

definition stream_items :: "asgi_message list \<Rightarrow> form_items" where
  "stream_items received =
     (case QuerystringParser False None of
        Inl _ \<Rightarrow> []
      | Inr p \<Rightarrow>
          (case parse_chunks p initial_fields (fst (request_stream received)) of
             Inl _ \<Rightarrow> [] | Inr a \<Rightarrow> items a))"

lemma parse_form_returns:
  "parse_form received = (case snd (request_stream received) of
      Finished \<Rightarrow> Some (Inr (stream_items received))
    | Disconnected \<Rightarrow> Some (Inl ClientDisconnect)
    | Waiting \<Rightarrow> None)"
proof -
  let ?p = "\<lparr> qp_state = BEFORE_FIELD, qp_found_sep = False, qp_max_size = None, qp_current_size = 0,
      qp_strict_parsing = False \<rparr>"
  have "form_parser ?p" by (simp add: form_parser_def)
  then obtain b where "parse_chunks ?p initial_fields (fst (request_stream received)) = Inr b"
    using parse_chunks_lenient by blast
  moreover from this have "stream_items received = items b"
    by (simp add: stream_items_def QuerystringParser_def)
  ultimately show ?thesis
    by (cases "request_stream received") (simp add: parse_form_def QuerystringParser_def split: stream_end.splits)
qed

text \<open>
  Two bodies whose fields a reader would not expect.  A semicolon separates fields only when no
  ampersand follows it in the same chunk, so that the fields depend on how the body was cut; and a
  field without an equals sign is kept before another field and lost at the end.
\<close>

lemma semicolon_depends_on_cut:
  "parse_form [http_request ''a=1;b=2&c=3'' False] =
     Some (Inr [(points ''a'', points ''1;b=2''), (points ''c'', points ''3'')])"
  "parse_form [http_request ''a=1;b=2'' True, http_request ''&c=3'' False] =
     Some (Inr [(points ''a'', points ''1''), (points ''b'', points ''2''), (points ''c'', points ''3'')])"
  by code_simp+

lemma last_bare_field_lost:
  "parse_form [http_request ''b&a=1'' False] = Some (Inr [(points ''b'', []), (points ''a'', points ''1'')])"
  "parse_form [http_request ''a=1&b'' False] = Some (Inr [(points ''a'', points ''1'')])"
  by code_simp+

end
