(* ===== verification/Login.thy ===== *)
theory Login
  imports Forms Auth
begin

text \<open>
  POST /login from the bytes of the request: the content type (multipart/multipart.py,
  parse_options_header), the form of the request (starlette/requests.py), the two form fields the
  endpoint declares (fastapi/dependencies/utils.py, fastapi/routing.py) and the endpoint of
  oauth.py inside its database session.  The parser of multipart/form-data bodies is an argument,
  \<open>multipart\<close>; it is not modelled.
\<close>

section \<open>The content type\<close>

text \<open>
  \<open>message.get_params()\<close> cuts the header at the semicolons outside double quotes; the first part
  loses what follows an equals sign and then its white space.
\<close>

fun escaped_quotes :: "string \<Rightarrow> nat" where
  "escaped_quotes (a # b # s) =
     (if a = CHR 0x5C \<and> b = CHR 0x22 then Suc (escaped_quotes s) else escaped_quotes (b # s))"
| "escaped_quotes s = 0"

definition open_quote :: "string \<Rightarrow> bool" where
  "open_quote s \<longleftrightarrow> odd (int (length (filter (\<lambda>c. c = CHR 0x22) s)) - int (escaped_quotes s))"

definition first_parameter :: "string \<Rightarrow> string" where
  "first_parameter s =
     (case List.find (\<lambda>k. s ! k = CHR '';'' \<and> (k = 0 \<or> \<not> open_quote (take k s))) [0..<length s] of
        Some k \<Rightarrow> take k s
      | None \<Rightarrow> s)"

definition parameter_name :: "string \<Rightarrow> string" where
  "parameter_name p =
     (if CHR ''='' \<in> set p then lower (strip (takeWhile (\<lambda>c. c \<noteq> CHR ''='') p)) else strip p)"

definition content_type_of :: "string option \<Rightarrow> string" where
  "content_type_of header =
     (case header of
        None \<Rightarrow> []
      | Some v \<Rightarrow>
          if v = [] then []
          else if CHR '';'' \<notin> set v then strip (lower v)
          else parameter_name (first_parameter v))"

section \<open>The form\<close>

definition URLENCODED :: string where
  "URLENCODED = ''application/x-www-form-urlencoded''"

definition get_form ::
    "(asgi_message list \<Rightarrow> (form_error + form_items) option) \<Rightarrow> string option \<Rightarrow> asgi_message list \<Rightarrow>
      (form_error + form_items) option" where
  "get_form multipart content_type received =
     (let t = content_type_of content_type
      in if t = ''multipart/form-data'' then multipart received
         else if t = URLENCODED then parse_form received
         else Some (Inr []))"

text \<open>\<open>ImmutableMultiDict\<close>: the dictionary holds the last value of a key, the list all of them.\<close>

definition multidict_get :: "('k \<times> 'v) list \<Rightarrow> 'k \<Rightarrow> 'v option" where
  "multidict_get kvs key = map_of (rev kvs) key"

definition multidict_getlist :: "('k \<times> 'v) list \<Rightarrow> 'k \<Rightarrow> 'v list" where
  "multidict_getlist kvs key = map snd (filter (\<lambda>kv. fst kv = key) kvs)"

text \<open>
  \<open>request_body_to_args\<close> for required string fields declared with \<open>Form(...)\<close>: a field that is
  absent or empty is reported missing.
\<close>

fun request_body_to_args :: "string list \<Rightarrow> form_items \<Rightarrow> (string \<times> ustring) list \<times> string list" where
  "request_body_to_args [] form = ([], [])"
| "request_body_to_args (alias # aliases) form =
     (case request_body_to_args aliases form of
        (values, errors) \<Rightarrow>
          (case multidict_get form (points alias) of
             None \<Rightarrow> (values, alias # errors)
           | Some v \<Rightarrow> if v = [] then (values, alias # errors) else ((alias, v) # values, errors)))"

text \<open>The 422 answer; its detail names the fields.\<close>

definition RequestValidationError :: "string list \<Rightarrow> exn" where
  "RequestValidationError errors = HTTPException 422 (join_with (CHR '','') errors)"

definition unreadable_body :: exn where
  "unreadable_body = HTTPException 400 ''There was an error parsing the body''"

text \<open>
  The request handler of an endpoint whose body is a form: \<open>None\<close> while the body has not arrived.
  The body is read before the dependencies are solved, the fields after the session is open.
\<close>

definition form_endpoint ::
    "string list \<Rightarrow> ((string \<times> ustring) list \<Rightarrow> 'a handler) \<Rightarrow>
      (form_error + form_items) option \<Rightarrow> 'a handler option" where
  "form_endpoint aliases endpoint form =
     (case form of
        None \<Rightarrow> None
      | Some (Inl e) \<Rightarrow> Some (raise unreadable_body)
      | Some (Inr kvs) \<Rightarrow>
          Some (get_db
            (case request_body_to_args aliases kvs of
               (values, errors) \<Rightarrow>
                 if errors \<noteq> [] then raise (RequestValidationError errors) else endpoint values)))"

text \<open>
  The login endpoint, on the texts of a form, with any code points: the address is compared with
  the stored ones, the password is measured in characters and hashed as UTF-8.
\<close>

definition login_fields :: "string list" where
  "login_fields = [''username'', ''password'']"

definition utf8_text :: "ustring \<Rightarrow> string" where
  "utf8_text ps = chars (concat (map utf8_bytes ps))"

definition verify_points :: "ustring \<Rightarrow> string \<Rightarrow> bool result" where
  "verify_points plain hashed =
     (if identify hashed then encoded_verify (length plain) (utf8_text plain) hashed
      else Inl (ValueError ''UnknownHashError: hash could not be identified''))"

definition login_points ::
    "(json \<Rightarrow> string \<Rightarrow> jwk_key result) \<Rightarrow> ustring \<Rightarrow> ustring \<Rightarrow> TokenResponse handler" where
  "login_points foreign username password =
     bindE (find_user (\<lambda>u. points (usr_email u) = username)) (\<lambda>user.
       case user of
         None \<Rightarrow> raise (Unauthorized ''Invalid credentials'')
       | Some u \<Rightarrow>
           bindE (lift (verify_points password (usr_hashed_password u))) (\<lambda>ok.
             if \<not> ok then raise (Unauthorized ''Invalid credentials'')
             else bindE (create_access_token foreign (usr_id u)) (\<lambda>t.
                    ret \<lparr> access_token = t, token_type = ''bearer'' \<rparr>)))"

text \<open>On texts whose code points are below 256 this is the login of theory \<open>Auth\<close>.\<close>

lemma points_inject: "points s = points t \<longleftrightarrow> s = t"
  by (simp add: points_def inj_map_eq_map inj_def)

lemma utf8_char_points: "chars (utf8_bytes (of_char c)) = utf8_char c"
proof -
  have "(of_char c :: nat) < 256" by (rule nat_of_char_less_256)
  then have "(of_char c :: nat) < 0x800" "(of_char c :: nat) < 0x10000" by linarith+
  then show ?thesis by (auto simp: utf8_bytes_def chars_def utf8_char_def Let_def)
qed

lemma utf8_text_points: "utf8_text (points s) = encode_utf8 s"
  by (induction s) (simp_all add: utf8_text_def points_def encode_utf8_def utf8_char_points [symmetric] chars_def)

lemma verify_points_eq: "verify_points (points p) hashed = verify_password p hashed"
  by (simp add: verify_points_def verify_password_def context_verify_def handler_verify_def utf8_text_points)
    (simp add: points_def)

lemma login_points_eq: "login_points foreign (points u) (points p) = login foreign u p"
proof (rule ext)
  fix w
  show "login_points foreign (points u) (points p) w = login foreign u p w"
    unfolding login_points_def login_def authenticate_def verify_points_eq points_inject
    by (auto simp: bindE_run split: prod.splits sum.splits option.splits)
qed

definition login_values ::
    "(json \<Rightarrow> string \<Rightarrow> jwk_key result) \<Rightarrow> (string \<times> ustring) list \<Rightarrow> TokenResponse handler" where
  "login_values foreign values =
     login_points foreign (the (map_of values ''username'')) (the (map_of values ''password''))"

definition post_login ::
    "(asgi_message list \<Rightarrow> (form_error + form_items) option) \<Rightarrow> (json \<Rightarrow> string \<Rightarrow> jwk_key result) \<Rightarrow>
      string option \<Rightarrow> asgi_message list \<Rightarrow> TokenResponse handler option" where
  "post_login multipart foreign content_type received =
     form_endpoint login_fields (login_values foreign) (get_form multipart content_type received)"

section \<open>What a client sends\<close>

text \<open>\<open>urlencode\<close> of the standard library.\<close>

definition urlencode :: "form_items \<Rightarrow> string" where
  "urlencode kvs =
     join_with (CHR ''&'') (map (\<lambda>(k, v). chars (quote_plus k) @ CHR ''='' # chars (quote_plus v)) kvs)"

lemma points_empty: "points s = [] \<longleftrightarrow> s = []"
  by (simp add: points_def)

lemma points_chars_ascii: "\<forall>p \<in> set ps. p < 128 \<Longrightarrow> points (chars ps) = ps"
  by (induction ps) (auto simp: points_def chars_def)

lemma chars_quote_plus:
  assumes "\<forall>p \<in> set ps. scalar_value p" and "c \<in> set (chars (quote_plus ps))"
  shows "c \<noteq> CHR ''&'' \<and> c \<noteq> CHR '';'' \<and> c \<noteq> CHR ''=''"
proof -
  from assms(2) obtain p where p: "p \<in> set (quote_plus ps)" "c = char_of p"
    by (auto simp: chars_def)
  have "p < 128 \<and> p \<noteq> 38 \<and> p \<noteq> 59 \<and> p \<noteq> 61" using quote_plus_ascii [OF assms(1) p(1)] .
  then have "of_char c = p" "p \<noteq> 38" "p \<noteq> 59" "p \<noteq> 61" by (simp_all add: p(2))
  then show ?thesis by auto
qed

lemma decode_quoted:
  "\<forall>p \<in> set ps. scalar_value p \<Longrightarrow> decode_form_text (chars (quote_plus ps)) = ps"
  by (simp add: decode_form_text_def points_chars_ascii quote_plus_ascii unquote_quote_plus)

definition encodable :: "form_items \<Rightarrow> bool" where
  "encodable kvs \<longleftrightarrow> (\<forall>(k, v) \<in> set kvs. (\<forall>p \<in> set k. scalar_value p) \<and> (\<forall>p \<in> set v. scalar_value p))"

lemma field_of_encoded:
  assumes "\<forall>p \<in> set k. scalar_value p" and "\<forall>p \<in> set v. scalar_value p"
  shows "field_of (chars (quote_plus k) @ CHR ''='' # chars (quote_plus v)) = (k, v)"
proof -
  have "takeWhile (\<lambda>c. c \<noteq> CHR ''='') (chars (quote_plus k) @ CHR ''='' # chars (quote_plus v)) = chars (quote_plus k)"
    "tl (dropWhile (\<lambda>c. c \<noteq> CHR ''='') (chars (quote_plus k) @ CHR ''='' # chars (quote_plus v))) = chars (quote_plus v)"
    using chars_quote_plus [OF assms(1)] by (auto simp: takeWhile_append dropWhile_append)
  then show ?thesis by (simp add: field_of_def decode_quoted assms)
qed

lemma form_fields_keyed:
  "\<forall>w \<in> set ws. CHR ''='' \<in> set w \<Longrightarrow> form_fields ws = map field_of ws"
  by (induction ws rule: form_fields.induct) auto

lemma join_with_set: "set (join_with c ws) \<subseteq> insert c (\<Union> (set ` set ws))"
  by (induction c ws rule: join_with.induct) auto

lemma form_roundtrip:
  assumes "encodable kvs" and "request_stream received = (chunks, Finished)"
    and "concat chunks = urlencode kvs"
  shows "parse_form received = Some (Inr kvs)"
proof -
  let ?parts = "map (\<lambda>(k, v). chars (quote_plus k) @ CHR ''='' # chars (quote_plus v)) kvs"
  have safe: "c \<noteq> CHR ''&'' \<and> c \<noteq> CHR '';''" if "w \<in> set ?parts" "c \<in> set w" for w c
    using that assms(1) chars_quote_plus by (fastforce simp: encodable_def)
  have "CHR '';'' \<notin> set (join_with (CHR ''&'') ?parts)"
  proof
    assume "CHR '';'' \<in> set (join_with (CHR ''&'') ?parts)"
    then have "CHR '';'' \<in> insert (CHR ''&'') (\<Union> (set ` set ?parts))" by (rule subsetD [OF join_with_set])
    then obtain w where "w \<in> set ?parts" "CHR '';'' \<in> set w" by fastforce
    then show False using safe by blast
  qed
  then have "CHR '';'' \<notin> set (concat chunks)" by (simp add: assms(3) urlencode_def)
  then have "parse_form received = Some (Inr (form_fields (split_on (CHR ''&'') (urlencode kvs))))"
    using form_split [OF assms(2)] assms(3) by simp
  moreover have "form_fields (split_on (CHR ''&'') (urlencode kvs)) = kvs"
  proof (cases "kvs = []")
    case True
    then show ?thesis by (simp add: urlencode_def)
  next
    case False
    have "split_on (CHR ''&'') (urlencode kvs) = ?parts"
      unfolding urlencode_def using False safe by (intro split_join) (blast | simp)+
    moreover have "form_fields ?parts = map field_of ?parts"
      by (rule form_fields_keyed) auto
    moreover have "map field_of ?parts = kvs"
      using assms(1) unfolding map_map
      by (intro map_idI) (auto simp: encodable_def field_of_encoded)
    ultimately show ?thesis by simp
  qed
  ultimately show ?thesis by simp
qed

text \<open>
  C18: A form survives its way over the wire: whatever texts a client puts into the fields, with
  any code points, encoding them with \<open>urlencode\<close>, cutting the body into messages anywhere, and
  parsing the messages gives the same fields in the same order.
\<close>

theorem urlencoded_form_roundtrip:
  assumes "encodable kvs" and "request_stream received = (chunks, Finished)"
    and "concat chunks = urlencode kvs"
  shows "parse_form received = Some (Inr kvs)"
  using assms by (rule form_roundtrip)

theorem urlencoded_form_roundtrip_witness:
  "parse_form [http_request ''q=%F0%9F'' True, http_request ''%98%80+%3B&=%C3%A9'' False] =
     Some (Inr [(points ''q'', [0x1F600, 32, 59]), ([], [0xE9])])"
proof -
  let ?kvs = "[(points ''q'', [0x1F600, 32, 59]), ([], [0xE9])]"
  let ?received = "[http_request ''q=%F0%9F'' True, http_request ''%98%80+%3B&=%C3%A9'' False]"
  have fields: "encodable ?kvs" by (simp add: encodable_def points_def scalar_value_def)
  have stream: "request_stream ?received = ([''q=%F0%9F'', ''%98%80+%3B&=%C3%A9'', []], Finished)" by simp
  have body: "concat [''q=%F0%9F'', ''%98%80+%3B&=%C3%A9'', []] = urlencode ?kvs"
    by (simp add: urlencode_def quote_plus_def utf8_bytes_def quote_byte_def always_safe_def upper_hex_def
        chars_def points_def char_of_def bit_Suc_0_iff)
  show ?thesis by (rule urlencoded_form_roundtrip [OF fields stream body])
qed

section \<open>Logging in\<close>

lemma multidict_get_last: "multidict_get (kvs @ [(k, v)]) k = Some v"
  by (simp add: multidict_get_def)

lemma multidict_getlist_last:
  "multidict_get kvs k = (if multidict_getlist kvs k = [] then None else Some (last (multidict_getlist kvs k)))"
  by (induction kvs rule: rev_induct) (auto simp: multidict_get_def multidict_getlist_def)

definition given :: "form_items \<Rightarrow> string \<Rightarrow> bool" where
  "given kvs alias \<longleftrightarrow> (\<exists>v. multidict_get kvs (points alias) = Some v \<and> v \<noteq> [])"

lemma given_code [code]:
  "given kvs alias = (case multidict_get kvs (points alias) of None \<Rightarrow> False | Some v \<Rightarrow> v \<noteq> [])"
  by (auto simp: given_def split: option.splits)

lemma form_errors: "snd (request_body_to_args aliases kvs) = filter (\<lambda>x. \<not> given kvs x) aliases"
  by (induction aliases) (auto simp: given_def split: prod.splits option.splits)

lemma form_values:
  "fst (request_body_to_args aliases kvs) =
     map (\<lambda>x. (x, the (multidict_get kvs (points x)))) (filter (given kvs) aliases)"
  by (induction aliases) (auto simp: given_def split: prod.splits option.splits)

definition posted :: "form_items \<Rightarrow> string \<Rightarrow> ustring" where
  "posted kvs alias = the (multidict_get kvs (points alias))"

lemma post_login_form:
  assumes "content_type_of content_type = URLENCODED" and "parse_form received = Some (Inr kvs)"
  shows "post_login multipart foreign content_type received =
    Some (get_db
      (if given kvs ''username'' \<and> given kvs ''password''
       then login_points foreign (posted kvs ''username'') (posted kvs ''password'')
       else raise (RequestValidationError (filter (\<lambda>x. \<not> given kvs x) login_fields))))"
proof -
  have form: "get_form multipart content_type received = Some (Inr kvs)"
    using assms by (simp add: get_form_def URLENCODED_def)
  show ?thesis
    using form_errors [of login_fields kvs] form_values [of login_fields kvs]
    by (auto simp: post_login_def form_endpoint_def form login_fields_def login_values_def posted_def
        split: prod.splits)
qed

text \<open>
  C21: A login posted as a form logs in with exactly the texts the user typed: for every user name
  and password with code points below 256, put into a form with any other fields, encoded and cut
  into messages anywhere, the request runs the login of those two texts in a database session; if
  one of them is empty it is answered 422 naming the empty fields.  A repeated field counts with
  its last value.
\<close>

theorem posted_login:
  assumes "content_type_of content_type = URLENCODED"
    and "request_stream received = (chunks, Finished)" and "concat chunks = urlencode kvs" and "encodable kvs"
    and "multidict_getlist kvs (points ''username'') = us @ [points u]"
    and "multidict_getlist kvs (points ''password'') = ps @ [points p]"
  shows "post_login multipart foreign content_type received =
    Some (get_db
      (if u \<noteq> [] \<and> p \<noteq> [] then login foreign u p
       else raise (RequestValidationError
         ((if u = [] then [''username''] else []) @ (if p = [] then [''password''] else [])))))"
proof -
  have "multidict_get kvs (points ''username'') = Some (points u)"
    "multidict_get kvs (points ''password'') = Some (points p)"
    by (simp_all add: multidict_getlist_last assms(5,6))
  then have "given kvs ''username'' \<longleftrightarrow> u \<noteq> []" "given kvs ''password'' \<longleftrightarrow> p \<noteq> []"
    "posted kvs ''username'' = points u" "posted kvs ''password'' = points p"
    by (simp_all add: given_def posted_def points_empty)
  then show ?thesis
    using post_login_form [OF assms(1) form_roundtrip [OF assms(4,2,3)]]
    by (simp add: login_fields_def login_points_eq)
qed

theorem posted_login_witness:
  "\<forall>m foreign. post_login m foreign (Some ''application/x-www-form-urlencoded'')
       [http_request ''username=a%40x&password'' True, http_request ''=p+%26'' False] =
     Some (get_db (login foreign ''a@x'' ''p &''))"
proof (intro allI)
  fix m foreign
  let ?kvs = "[(points ''username'', points ''a@x''), (points ''password'', points ''p &'')]"
  let ?received = "[http_request ''username=a%40x&password'' True, http_request ''=p+%26'' False]"
  have type: "content_type_of (Some ''application/x-www-form-urlencoded'') = URLENCODED" by code_simp
  have stream: "request_stream ?received = ([''username=a%40x&password'', ''=p+%26'', []], Finished)" by simp
  have body: "concat [''username=a%40x&password'', ''=p+%26'', []] = urlencode ?kvs"
    by (simp add: urlencode_def quote_plus_def utf8_bytes_def quote_byte_def always_safe_def upper_hex_def
        chars_def points_def char_of_def bit_Suc_0_iff)
  have fields: "encodable ?kvs" by (simp add: encodable_def points_def scalar_value_def)
  have "multidict_getlist ?kvs (points ''username'') = [] @ [points ''a@x'']"
    "multidict_getlist ?kvs (points ''password'') = [] @ [points ''p &'']"
    by (simp_all add: multidict_getlist_def points_def)
  from posted_login [OF type stream body fields this, of m foreign] show "post_login m foreign (Some ''application/x-www-form-urlencoded'')
         [http_request ''username=a%40x&password'' True, http_request ''=p+%26'' False] =
       Some (get_db (login foreign ''a@x'' ''p &''))"
    by simp
qed

text \<open>
  C22: Every login posted with the content type of an urlencoded form is answered as soon as its body
  has arrived, however malformed the body is: a client that disconnects is answered 400 and the
  request never opens a database session; otherwise the fields found, texts with any code points
  (ill-formed UTF-8 as U+FFFD), decide between the login of the last user name and password and a
  422 that names the fields that are missing or empty.
\<close>

theorem login_answers:
  assumes "content_type_of content_type = URLENCODED" and "kvs = stream_items received"
  shows "post_login multipart foreign content_type received =
    (case snd (request_stream received) of
       Waiting \<Rightarrow> None
     | Disconnected \<Rightarrow> Some (raise unreadable_body)
     | Finished \<Rightarrow> Some (get_db
         (if given kvs ''username'' \<and> given kvs ''password''
          then login_points foreign (posted kvs ''username'') (posted kvs ''password'')
          else raise (RequestValidationError (filter (\<lambda>x. \<not> given kvs x) login_fields)))))"
proof -
  have form: "get_form multipart content_type received = parse_form received"
    using assms(1) by (simp add: get_form_def URLENCODED_def)
  show ?thesis
  proof (cases "snd (request_stream received)")
    case Finished
    then show ?thesis
      using post_login_form [OF assms(1), of received kvs] assms(2) by (simp add: parse_form_returns)
  qed (use form in \<open>simp_all add: post_login_def form_endpoint_def parse_form_returns\<close>)
qed

theorem login_answers_witness:
  "\<forall>m foreign. post_login m foreign (Some ''Application/X-WWW-Form-URLencoded '')
       [http_request '';;&a;=%&username=a'' True, http_request ''@x;'' False] =
     Some (get_db (raise (HTTPException 422 ''password'')))"
proof (intro allI)
  fix m foreign
  let ?received = "[http_request '';;&a;=%&username=a'' True, http_request ''@x;'' False]"
  have type: "content_type_of (Some ''Application/X-WWW-Form-URLencoded '') = URLENCODED" by code_simp
  let ?kvs = "[(points ''a;'', points ''%''), (points ''username'', points ''a@x'')]"
  have kvs: "?kvs = stream_items ?received"
    by code_simp
  have missing: "given ?kvs ''username''" "\<not> given ?kvs ''password''"
    by (simp_all add: given_def multidict_get_def points_def)
  then have "filter (\<lambda>x. \<not> given ?kvs x) login_fields = [''password'']"
    by (simp add: login_fields_def)
  with missing show "post_login m foreign (Some ''Application/X-WWW-Form-URLencoded '')
         [http_request '';;&a;=%&username=a'' True, http_request ''@x;'' False] =
       Some (get_db (raise (HTTPException 422 ''password'')))"
    using login_answers [OF type kvs, of m foreign] by (simp add: RequestValidationError_def)
qed

end
