(* ===== verification/Matcher.thy ===== *)
theory Matcher
  imports Usage
begin

text \<open>
  The topic filters of an MQTT client (paho/mqtt/matcher.py and the parts of paho/mqtt/client.py
  that use them): a prefix tree of subscriptions, its four operations, and the dispatch of a
  message to the callbacks of the filters that match its topic.  The tree refines a dictionary from
  filters to values, and \<open>iter_match\<close> is compared with the matching relation of the protocol.
\<close>

section \<open>paho/mqtt/matcher.py\<close>

text \<open>A node: the children in insertion order and the content, \<open>None\<close> for no content.\<close>

datatype 'v node = Node (children: "(string \<times> 'v node) list") (content: "'v option")

definition empty_node :: "'v node" where
  "empty_node = Node [] None"

text \<open>\<open>node._children.setdefault(sym, self.Node())\<close>\<close>

definition child_or_new :: "(string \<times> 'v node) list \<Rightarrow> string \<Rightarrow> 'v node" where
  "child_or_new cs part = (case map_of cs part of None \<Rightarrow> empty_node | Some n \<Rightarrow> n)"

fun set_path :: "string list \<Rightarrow> 'v option \<Rightarrow> 'v node \<Rightarrow> 'v node" where
  "set_path [] v (Node cs c) = Node cs v"
| "set_path (part # parts) v (Node cs c) =
     Node (AList.update part (set_path parts v (child_or_new cs part)) cs) c"

fun get_path :: "string list \<Rightarrow> 'v node \<Rightarrow> 'v option" where
  "get_path [] (Node cs c) = c"
| "get_path (part # parts) (Node cs c) =
     (case map_of cs part of None \<Rightarrow> None | Some n \<Rightarrow> get_path parts n)"

text \<open>
  Deleting: \<open>None\<close> is the \<open>KeyError\<close> of a path that does not exist.  On the way back a node with
  neither children nor content is unlinked; the first other node ends that.
\<close>

fun delete_path :: "string list \<Rightarrow> 'v node \<Rightarrow> 'v node option" where
  "delete_path [] (Node cs c) = Some (Node cs None)"
| "delete_path (part # parts) (Node cs c) =
     (case map_of cs part of
        None \<Rightarrow> None
      | Some n \<Rightarrow>
          (case delete_path parts n of
             None \<Rightarrow> None
           | Some n' \<Rightarrow>
               if children n' \<noteq> [] \<or> content n' \<noteq> None then Some (Node (AList.update part n' cs) c)
               else Some (Node (AList.delete part cs) c)))"

definition levels :: "string \<Rightarrow> string list" where
  "levels key = split_on (CHR ''/'') key"

definition matcher_setitem :: "'v node \<Rightarrow> string \<Rightarrow> 'v option \<Rightarrow> 'v node" where
  "matcher_setitem tree key v = set_path (levels key) v tree"

definition matcher_getitem :: "'v node \<Rightarrow> string \<Rightarrow> 'v result" where
  "matcher_getitem tree key =
     (case get_path (levels key) tree of None \<Rightarrow> Inl (KeyError key) | Some v \<Rightarrow> Inr v)"

definition matcher_delitem :: "'v node \<Rightarrow> string \<Rightarrow> 'v node result" where
  "matcher_delitem tree key =
     (case delete_path (levels key) tree of None \<Rightarrow> Inl (KeyError key) | Some n \<Rightarrow> Inr n)"

text \<open>
  \<open>rec\<close> of \<open>iter_match\<close>: \<open>wild\<close> is \<open>normal or i > 0\<close>, whether wildcards apply at this level.
\<close>

definition content_list :: "'v node \<Rightarrow> 'v list" where
  "content_list n = (case content n of None \<Rightarrow> [] | Some v \<Rightarrow> [v])"

definition hash_match :: "bool \<Rightarrow> (string \<times> 'v node) list \<Rightarrow> 'v list" where
  "hash_match wild cs =
     (if wild then case map_of cs ''#'' of None \<Rightarrow> [] | Some n \<Rightarrow> content_list n else [])"

fun match_rec :: "bool \<Rightarrow> string list \<Rightarrow> 'v node \<Rightarrow> 'v list" where
  "match_rec wild [] (Node cs c) = content_list (Node cs c) @ hash_match wild cs"
| "match_rec wild (part # parts) (Node cs c) =
     (case map_of cs part of None \<Rightarrow> [] | Some n \<Rightarrow> match_rec True parts n) @
     (if wild then case map_of cs ''+'' of None \<Rightarrow> [] | Some n \<Rightarrow> match_rec True parts n else []) @
     hash_match wild cs"

definition iter_match :: "'v node \<Rightarrow> string \<Rightarrow> 'v list" where
  "iter_match tree topic = match_rec (\<not> starts_with ''$'' topic) (levels topic) tree"

section \<open>paho/mqtt/client.py\<close>

definition topic_matches_sub :: "string \<Rightarrow> string \<Rightarrow> bool" where
  "topic_matches_sub sub topic = (iter_match (matcher_setitem empty_node sub (Some True)) topic \<noteq> [])"

definition message_callback_add :: "'v node \<Rightarrow> string \<Rightarrow> 'v \<Rightarrow> 'v node" where
  "message_callback_add tree sub callback = matcher_setitem tree sub (Some callback)"

definition message_callback_remove :: "'v node \<Rightarrow> string \<Rightarrow> 'v node" where
  "message_callback_remove tree sub = (case matcher_delitem tree sub of Inl _ \<Rightarrow> tree | Inr n \<Rightarrow> n)"

text \<open>
  \<open>_handle_on_message\<close> with \<open>suppress_exceptions\<close> off: the callbacks of the matching filters run in
  order and the first exception leaves; \<open>on_message\<close> runs when there is none.  A topic that is not
  UTF-8 is \<open>None\<close>.
\<close>

definition handle_on_message ::
    "('m \<Rightarrow> ('s, unit) prog) node \<Rightarrow> ('m \<Rightarrow> ('s, unit) prog) option \<Rightarrow> string option \<Rightarrow> 'm \<Rightarrow>
      ('s, unit) prog" where
  "handle_on_message filtered fallback topic message =
     (let callbacks = (case topic of None \<Rightarrow> [] | Some t \<Rightarrow> iter_match filtered t)
      in if callbacks = []
         then (case fallback of None \<Rightarrow> ret () | Some f \<Rightarrow> f message)
         else andThen (forEach (\<lambda>f. f message) callbacks) (ret ()))"

section \<open>The tree is a dictionary\<close>

lemma get_path_empty [simp]: "get_path p empty_node = None"
  by (cases p) (simp_all add: empty_node_def)

lemma get_path_child: "get_path (s # p) (Node cs c) = get_path p (child_or_new cs s)"
  by (simp add: child_or_new_def split: option.splits)

lemma child_or_new_update [simp]:
  "child_or_new (AList.update k n cs) s = (if s = k then n else child_or_new cs s)"
  by (simp add: child_or_new_def update_conv')

lemma child_or_new_delete [simp]:
  "child_or_new (AList.delete k cs) s = (if s = k then empty_node else child_or_new cs s)"
  by (simp add: child_or_new_def delete_conv')

lemma get_set_path: "get_path q (set_path p v n) = (if q = p then v else get_path q n)"
proof (induction p v n arbitrary: q rule: set_path.induct)
  case (1 v cs c)
  show ?case by (cases q) simp_all
next
  case (2 s p v cs c)
  show ?case
    by (cases q) (simp_all add: get_path_child 2 del: get_path.simps(2))
qed

lemma get_delete_path:
  "delete_path p n = Some n' \<Longrightarrow> get_path q n' = (if q = p then None else get_path q n)"
proof (induction p n arbitrary: q n' rule: delete_path.induct)
  case (1 cs c)
  then show ?case by (cases q) auto
next
  case (2 s p cs c)
  obtain n m where n: "map_of cs s = Some n" and m: "delete_path p n = Some m"
    using 2(2) by (auto split: option.splits)
  note IH = 2(1) [OF n m]
  show ?case
  proof (cases "children m \<noteq> [] \<or> content m \<noteq> None")
    case True
    with 2(2) n m have "n' = Node (AList.update s m cs) c" by simp
    then show ?thesis using IH n by (cases q) (auto simp: update_conv')
  next
    case False
    then have "m = empty_node" by (cases m) (simp add: empty_node_def)
    with IH have none: "get_path r n = None" if "r \<noteq> p" for r using that [symmetric] by (metis get_path_empty)
    from False 2(2) n m have "n' = Node (AList.delete s cs) c" by simp
    then show ?thesis using none n by (cases q) (auto simp: delete_conv' split: option.splits)
  qed
qed

lemma delete_path_missing: "delete_path p n = None \<Longrightarrow> get_path p n = None"
  by (induction p n rule: delete_path.induct) (auto split: option.splits if_splits)

text \<open>
  A dictionary: what a lookup gives after an assignment and a removal.  A history of both leaves
  the entries that updating a map in the same order leaves.
\<close>

datatype 'v change = Assign string 'v | Remove string

locale dictionary =
  fixes lookup :: "'d \<Rightarrow> string \<Rightarrow> 'v option"
    and assign :: "'d \<Rightarrow> string \<Rightarrow> 'v \<Rightarrow> 'd"
    and remove :: "'d \<Rightarrow> string \<Rightarrow> 'd"
  assumes lookup_assign: "lookup (assign d k v) = (lookup d)(k \<mapsto> v)"
    and lookup_remove: "lookup (remove d k) = (lookup d)(k := None)"
begin

definition apply_change :: "'d \<Rightarrow> 'v change \<Rightarrow> 'd" where
  "apply_change d c = (case c of Assign k v \<Rightarrow> assign d k v | Remove k \<Rightarrow> remove d k)"

definition map_change :: "(string \<Rightarrow> 'v option) \<Rightarrow> 'v change \<Rightarrow> string \<Rightarrow> 'v option" where
  "map_change m c = (case c of Assign k v \<Rightarrow> m(k \<mapsto> v) | Remove k \<Rightarrow> m(k := None))"

lemma lookup_history: "lookup (foldl apply_change d cs) = foldl map_change (lookup d) cs"
  by (induction cs arbitrary: d)
    (simp_all add: apply_change_def map_change_def lookup_assign lookup_remove split: change.splits)

lemma untouched:
  "\<forall>c \<in> set cs. c \<noteq> Remove k \<and> (\<forall>v. c \<noteq> Assign k v) \<Longrightarrow>
     lookup (foldl apply_change d cs) k = lookup d k"
  by (induction cs arbitrary: d)
    (auto simp: apply_change_def lookup_assign lookup_remove split: change.splits)

end

text \<open>The value registered under a filter.\<close>

definition subscribed :: "'v node \<Rightarrow> string \<Rightarrow> 'v option" where
  "subscribed tree sub = get_path (levels sub) tree"

lemma levels_inj: "levels a = levels b \<longleftrightarrow> a = b"
  unfolding levels_def by (metis join_split)

interpretation callbacks: dictionary subscribed message_callback_add message_callback_remove
proof
  fix d :: "'v node" and k v
  show "subscribed (message_callback_add d k v) = (subscribed d)(k \<mapsto> v)"
    by (rule ext) (simp add: subscribed_def message_callback_add_def matcher_setitem_def get_set_path levels_inj)
  show "subscribed (message_callback_remove d k) = (subscribed d)(k := None)"
    by (rule ext)
      (auto simp: subscribed_def message_callback_remove_def matcher_delitem_def get_delete_path levels_inj
        delete_path_missing split: option.splits)
qed

section \<open>Matching\<close>

text \<open>
  The matching relation on levels: a plus sign stands for one level, a number sign at the end for
  any number of them; \<open>wild\<close> is false at the first level of a topic that starts with a dollar sign.
\<close>

fun filter_matches :: "bool \<Rightarrow> string list \<Rightarrow> string list \<Rightarrow> bool" where
  "filter_matches wild [] ts = (ts = [])"
| "filter_matches wild (f # fs) [] = (wild \<and> f = ''#'' \<and> fs = [])"
| "filter_matches wild (f # fs) (t # ts) =
     ((f = t \<or> wild \<and> f = ''+'') \<and> filter_matches True fs ts \<or> wild \<and> f = ''#'' \<and> fs = [])"

definition sub_matches :: "string \<Rightarrow> string \<Rightarrow> bool" where
  "sub_matches sub topic = filter_matches (\<not> starts_with ''$'' topic) (levels sub) (levels topic)"

text \<open>The matches with the paths of the filters they come from.\<close>

definition entry_at :: "'v node \<Rightarrow> (string list \<times> 'v) list" where
  "entry_at n = map (Pair []) (content_list n)"

definition below :: "string \<Rightarrow> (string list \<times> 'v) list \<Rightarrow> (string list \<times> 'v) list" where
  "below part es = map (\<lambda>(p, v). (part # p, v)) es"

fun entries :: "bool \<Rightarrow> string list \<Rightarrow> 'v node \<Rightarrow> (string list \<times> 'v) list" where
  "entries wild [] (Node cs c) =
     entry_at (Node cs c) @ (if wild then below ''#'' (entry_at (child_or_new cs ''#'')) else [])"
| "entries wild (part # parts) (Node cs c) =
     below part (case map_of cs part of None \<Rightarrow> [] | Some n \<Rightarrow> entries True parts n) @
     (if wild then below ''+'' (case map_of cs ''+'' of None \<Rightarrow> [] | Some n \<Rightarrow> entries True parts n) else []) @
     (if wild then below ''#'' (entry_at (child_or_new cs ''#'')) else [])"

lemma content_list_empty [simp]: "content_list empty_node = []"
  by (simp add: content_list_def empty_node_def)

lemma hash_match_child: "hash_match wild cs = (if wild then content_list (child_or_new cs ''#'') else [])"
  by (simp add: hash_match_def child_or_new_def split: option.splits)

lemma below_values [simp]: "map snd (below p es) = map snd es"
  by (simp add: below_def comp_def case_prod_beta)

lemma below_paths [simp]: "map fst (below p es) = map ((#) p) (map fst es)"
  by (simp add: below_def comp_def case_prod_beta)

lemma below_iff [simp]: "(f, v) \<in> set (below part es) \<longleftrightarrow> (\<exists>p. f = part # p \<and> (p, v) \<in> set es)"
  by (auto simp: below_def image_iff intro: bexI [rotated])

lemma below_distinct [simp]: "distinct (map fst (below p es)) = distinct (map fst es)"
  unfolding below_paths by (subst distinct_map) simp

lemma below_heads [simp]: "fst ` set (below p es) = (#) p ` fst ` set es"
  unfolding set_map [symmetric] below_paths ..

lemma entry_at_values [simp]: "map snd (entry_at n) = content_list n"
  by (simp add: entry_at_def comp_def)

lemma entry_at_iff [simp]: "(f, v) \<in> set (entry_at n) \<longleftrightarrow> f = [] \<and> content n = Some v"
  by (auto simp: entry_at_def content_list_def split: option.splits)

lemma entries_values: "map snd (entries wild parts n) = match_rec wild parts n"
  by (induction wild parts n rule: entries.induct) (auto simp: hash_match_child split: option.splits)

lemma get_path_content: "get_path [] n = content n"
  by (cases n) simp

lemma entries_iff: "(f, v) \<in> set (entries wild parts n) \<longleftrightarrow> get_path f n = Some v \<and> filter_matches wild f parts"
proof (induction wild parts n arbitrary: f rule: entries.induct)
  case (1 wild cs c)
  show ?case
    by (cases f) (auto simp: get_path_child get_path_content simp del: get_path.simps(2))
next
  case (2 wild part parts cs c)
  have child: "(f, v) \<in> set (case map_of cs s of None \<Rightarrow> [] | Some n \<Rightarrow> entries True parts n) \<longleftrightarrow>
      get_path (s # f) (Node cs c) = Some v \<and> filter_matches True f parts"
    if "s = part \<or> s = ''+'' \<and> wild" for s f
    using 2 that by (auto split: option.splits)
  show ?case
  proof (cases f)
    case (Cons s p)
    have hash: "(p, v) \<in> set (entry_at (child_or_new cs s)) \<longleftrightarrow> p = [] \<and> get_path (s # p) (Node cs c) = Some v" for s
      by (auto simp: get_path_child get_path_content simp del: get_path.simps(2))
    show ?thesis
      using child [of s p] hash by (auto simp: Cons simp del: get_path.simps(2) entry_at_iff)
  qed auto
qed

lemma entry_at_distinct: "distinct (map fst (entry_at n))"
  by (simp add: entry_at_def content_list_def split: option.splits)

lemma entries_distinct:
  "''+'' \<notin> set parts \<Longrightarrow> ''#'' \<notin> set parts \<Longrightarrow> distinct (map fst (entries wild parts n))"
proof (induction wild parts n rule: entries.induct)
  case (1 wild cs c)
  show ?case by (auto simp: entry_at_distinct simp del: below_paths)
next
  case (2 wild part parts cs c)
  have child: "distinct (map fst (case map_of cs s of None \<Rightarrow> [] | Some n \<Rightarrow> entries True parts n))"
    if "s = part \<or> s = ''+'' \<and> wild" for s
    using 2 that by (auto split: option.splits)
  show ?case
    using child [of part] child [of "''+''"] entry_at_distinct [of "child_or_new cs ''#''"] 2(3,4)
    by (auto simp del: below_paths)
qed

section \<open>Histories of a client\<close>

text \<open>Callbacks added and removed in any order, on the tree and on a dictionary of filters.\<close>

definition change_callback :: "'v node \<Rightarrow> 'v change \<Rightarrow> 'v node" where
  "change_callback n c =
     (case c of Assign k v \<Rightarrow> message_callback_add n k v | Remove k \<Rightarrow> message_callback_remove n k)"

definition register_all :: "'v change list \<Rightarrow> 'v node" where
  "register_all history = foldl change_callback empty_node history"

lemma change_callback_apply: "change_callback = callbacks.apply_change"
  by (intro ext) (simp add: change_callback_def callbacks.apply_change_def)

definition registered :: "'v change list \<Rightarrow> string \<Rightarrow> 'v option" where
  "registered history =
     foldl (\<lambda>m c. case c of Assign k v \<Rightarrow> m(k \<mapsto> v) | Remove k \<Rightarrow> m(k := None)) (\<lambda>_. None) history"

lemma registered_tree:
  fixes history :: "'v change list"
  shows "subscribed (register_all history) = registered history"
proof -
  have step: "callbacks.map_change =
      (\<lambda>(m :: string \<Rightarrow> 'v option) c. case c of Assign k v \<Rightarrow> m(k \<mapsto> v) | Remove k \<Rightarrow> m(k := None))"
    by (intro ext) (simp add: callbacks.map_change_def)
  have start: "subscribed (empty_node :: 'v node) = (\<lambda>_. None)"
    by (rule ext) (simp add: subscribed_def)
  show ?thesis
    unfolding register_all_def registered_def change_callback_apply callbacks.lookup_history step start ..
qed

text \<open>Every path of the tree is that of a filter.\<close>

definition keyed :: "'v node \<Rightarrow> bool" where
  "keyed n \<longleftrightarrow> (\<forall>p v. get_path p n = Some v \<longrightarrow> p \<in> range levels)"

lemma keyed_history: "keyed n \<Longrightarrow> keyed (foldl change_callback n history)"
proof (induction history arbitrary: n)
  case (Cons c history)
  have "keyed (change_callback n c)"
    using Cons.prems
    by (auto simp: change_callback_def keyed_def message_callback_add_def matcher_setitem_def
        message_callback_remove_def matcher_delitem_def get_set_path get_delete_path
        split: change.splits option.splits if_splits)
  with Cons.IH show ?case by simp
qed simp

lemma keyed_tree: "keyed (register_all history)"
  unfolding register_all_def by (rule keyed_history) (simp add: keyed_def)

text \<open>The filters that a history leaves registered and that match a topic.\<close>

definition matching :: "'v change list \<Rightarrow> string \<Rightarrow> string set" where
  "matching history topic = {sub. registered history sub \<noteq> None \<and> sub_matches sub topic}"

lemma iter_match_filters:
  assumes "''+'' \<notin> set (levels topic)" "''#'' \<notin> set (levels topic)"
  obtains subs where "distinct subs" "set subs = matching history topic"
    "iter_match (register_all history) topic = map (\<lambda>s. the (registered history s)) subs"
proof -
  let ?t = "register_all history" and ?wild = "\<not> starts_with ''$'' topic"
  let ?es = "entries ?wild (levels topic) ?t"
  define subs where "subs = map (inv levels \<circ> fst) ?es"
  have entry: "inv levels f = s \<and> levels s = f \<and> registered history s = Some v \<and> sub_matches s topic"
    if "(f, v) \<in> set ?es" and "s = inv levels f" for f v s
  proof -
    have f: "get_path f ?t = Some v" "filter_matches ?wild f (levels topic)"
      using that(1) by (simp_all add: entries_iff)
    then have "levels s = f" using keyed_tree [of history] that(2) by (auto simp: keyed_def f_inv_into_f)
    moreover have "registered history s = Some v"
      using f(1) \<open>levels s = f\<close> by (simp add: registered_tree [symmetric] subscribed_def)
    ultimately show ?thesis using f(2) that(2) by (simp add: sub_matches_def)
  qed
  have paths: "map levels subs = map fst ?es"
    using entry by (auto simp: subs_def)
  then have "distinct (map levels subs)" using entries_distinct [OF assms] by metis
  then have "distinct subs" by (simp add: distinct_map)
  moreover have "set subs = matching history topic"
  proof (intro equalityI subsetI)
    fix s
    assume "s \<in> set subs"
    then obtain f v where "(f, v) \<in> set ?es" "s = inv levels f" by (auto simp: subs_def)
    then show "s \<in> matching history topic" using entry by (simp add: matching_def)
  next
    fix s
    assume "s \<in> matching history topic"
    then obtain v where "registered history s = Some v" "sub_matches s topic" by (auto simp: matching_def)
    then have e: "(levels s, v) \<in> set ?es"
      by (simp add: entries_iff sub_matches_def registered_tree [symmetric] subscribed_def)
    then have "levels (inv levels (levels s)) = levels s" using entry by blast
    then have "inv levels (levels s) = s" by (simp add: levels_inj)
    with e show "s \<in> set subs" by (force simp: subs_def)
  qed
  moreover have "iter_match ?t topic = map (\<lambda>s. the (registered history s)) subs"
    using entry by (auto simp: iter_match_def entries_values [symmetric] subs_def)
  ultimately show ?thesis by (rule that)
qed

text \<open>
  C20: After any history of added and removed callbacks, a message on a publishable topic is
  delivered to the last callback registered under each matching filter and still there, once for
  each filter, and to no other.
\<close>

theorem delivered_exactly:
  assumes "valid_topic topic = Inr ()"
  shows "mset (iter_match (register_all history) topic) =
    image_mset (\<lambda>sub. the (registered history sub)) (mset_set (matching history topic))"
proof -
  have "''+'' \<notin> set (levels topic)" "''#'' \<notin> set (levels topic)"
    using assms split_on_chars [of "''+''" "CHR ''/''" topic "CHR ''+''"]
      split_on_chars [of "''#''" "CHR ''/''" topic "CHR ''#''"]
    by (auto simp: valid_topic_def levels_def split: if_splits)
  then obtain subs where "distinct subs" "set subs = matching history topic"
    "iter_match (register_all history) topic = map (\<lambda>s. the (registered history s)) subs"
    by (rule iter_match_filters)
  then show ?thesis by (metis mset_map mset_set_set)
qed

definition sample_history :: "nat change list" where
  "sample_history =
     [Assign ''home/+/usage'' 1, Assign ''home/#'' 2, Assign ''#'' 3, Assign ''home/+/usage'' 4,
      Assign ''home/a/+'' 5, Remove ''home/#'', Remove ''never/added'', Assign ''+/b/usage'' 6]"

theorem delivered_exactly_witness:
  "mset (iter_match (register_all sample_history) ''home/a/usage'') = {# 3, 4, 5 #} \<and>
   image_mset (\<lambda>sub. the (registered sample_history sub)) (mset_set (matching sample_history ''home/a/usage''))
     = {# 3, 4, 5 #}"
proof -
  have "valid_topic ''home/a/usage'' = Inr ()" by code_simp
  from delivered_exactly [OF this, of sample_history]
  have "mset (iter_match (register_all sample_history) ''home/a/usage'') =
    image_mset (\<lambda>sub. the (registered sample_history sub)) (mset_set (matching sample_history ''home/a/usage''))" .
  moreover have "iter_match (register_all sample_history) ''home/a/usage'' = [5, 4, 3]"
    by code_simp
  ultimately show ?thesis by (simp add: add_mset_commute)
qed

text \<open>
  \<open>topic_matches_sub\<close> decides the matching relation of the protocol, for every subscription and
  every topic.
\<close>

theorem topic_matches_sub_spec: "topic_matches_sub sub topic \<longleftrightarrow> sub_matches sub topic"
proof -
  let ?t = "matcher_setitem empty_node sub (Some True)" and ?wild = "\<not> starts_with ''$'' topic"
  have "topic_matches_sub sub topic \<longleftrightarrow> entries ?wild (levels topic) ?t \<noteq> []"
    by (simp add: topic_matches_sub_def iter_match_def entries_values [symmetric])
  also have "\<dots> \<longleftrightarrow> (\<exists>f v. (f, v) \<in> set (entries ?wild (levels topic) ?t))"
    by (metis list.set_intros(1) neq_Nil_conv prod.exhaust empty_iff list.set(1))
  also have "\<dots> \<longleftrightarrow> filter_matches ?wild (levels sub) (levels topic)"
    by (auto simp: entries_iff matcher_setitem_def get_set_path)
  finally show ?thesis by (simp add: sub_matches_def)
qed

section \<open>No dead branches\<close>

fun node_at :: "string list \<Rightarrow> 'v node \<Rightarrow> 'v node option" where
  "node_at [] n = Some n"
| "node_at (part # parts) (Node cs c) =
     (case map_of cs part of None \<Rightarrow> None | Some n \<Rightarrow> node_at parts n)"

text \<open>Every node below the top has a child or a content.\<close>

inductive pruned :: "'v node \<Rightarrow> bool" where
  prunedI: "(\<And>s n. map_of cs s = Some n \<Longrightarrow> n \<noteq> empty_node \<and> pruned n) \<Longrightarrow> pruned (Node cs c)"

inductive_simps pruned_Node: "pruned (Node cs c)"

lemma pruned_empty: "pruned empty_node"
  by (simp add: empty_node_def pruned_Node)

lemma set_path_nonempty: "set_path p (Some v) n \<noteq> empty_node"
  by (metis get_path_empty get_set_path option.distinct(1))

lemma child_or_new_pruned: "pruned (Node cs c) \<Longrightarrow> pruned (child_or_new cs s)"
  by (auto simp: child_or_new_def pruned_Node pruned_empty split: option.splits)

lemma set_path_pruned: "pruned n \<Longrightarrow> pruned (set_path p (Some v) n)"
proof (induction p "Some v" n rule: set_path.induct)
  case (2 s p cs c)
  then show ?case
    using child_or_new_pruned [OF 2(2)]
    by (auto simp: pruned_Node update_conv' set_path_nonempty split: if_splits)
qed (simp add: pruned_Node)

lemma delete_path_pruned: "pruned n \<Longrightarrow> delete_path p n = Some n' \<Longrightarrow> pruned n'"
proof (induction p n arbitrary: n' rule: delete_path.induct)
  case (2 s p cs c)
  obtain n m where n: "map_of cs s = Some n" and m: "delete_path p n = Some m"
    using 2(3) by (auto split: option.splits)
  have "pruned m" using 2(1) [OF n _ m] 2(2) n by (simp add: pruned_Node)
  moreover have "m = empty_node" if "children m = []" "content m = None"
    using that by (cases m) (simp add: empty_node_def)
  ultimately show ?case
    using 2(2,3) n m
    by (auto simp: pruned_Node update_conv' delete_conv' empty_node_def split: if_splits)
qed (auto simp: pruned_Node)

lemma pruned_history: "pruned n \<Longrightarrow> pruned (foldl change_callback n history)"
proof (induction history arbitrary: n)
  case (Cons c history)
  have "pruned (change_callback n c)"
    using Cons.prems
    by (auto simp: change_callback_def message_callback_add_def matcher_setitem_def
        message_callback_remove_def matcher_delitem_def set_path_pruned
        intro: delete_path_pruned split: change.splits option.splits)
  with Cons.IH show ?case by simp
qed simp

lemma pruned_leads: "pruned n \<Longrightarrow> n \<noteq> empty_node \<Longrightarrow> \<exists>q v. get_path q n = Some v"
proof (induction rule: pruned.induct)
  case (prunedI cs c)
  show ?case
  proof (cases c)
    case None
    with prunedI(2) obtain s n rest where "cs = (s, n) # rest"
      by (cases cs) (auto simp: empty_node_def)
    then have "map_of cs s = Some n" by simp
    then show ?thesis using prunedI(1) by (metis get_path.simps(2) option.simps(5))
  next
    case (Some v)
    then show ?thesis by (intro exI [of _ "[]"]) simp
  qed
qed

lemma pruned_below: "pruned n \<Longrightarrow> node_at p n = Some m \<Longrightarrow> p \<noteq> [] \<Longrightarrow> m \<noteq> empty_node \<and> pruned m"
proof (induction p n rule: node_at.induct)
  case (2 s p cs c)
  then obtain n where n: "map_of cs s = Some n" "node_at p n = Some m" by (auto split: option.splits)
  with 2(2) have "n \<noteq> empty_node" "pruned n" by (auto simp: pruned_Node)
  with 2(1) [OF n(1)] n show ?case by (cases p) auto
qed simp

lemma get_path_at: "node_at p n = Some m \<Longrightarrow> get_path (p @ q) n = get_path q m"
  by (induction p n rule: node_at.induct) (auto split: option.splits)

text \<open>
  The tree holds nothing that is not needed: after any history of added and removed
  callbacks, every node below the top lies on the way to a filter that is still registered; when
  all filters have been removed the tree is the one a new client starts with.
\<close>

theorem no_dead_branches:
  assumes "node_at p (register_all history) = Some n" and "p \<noteq> []"
  shows "\<exists>sub q. registered history sub \<noteq> None \<and> levels sub = p @ q"
proof -
  have "pruned (register_all history)"
    unfolding register_all_def by (rule pruned_history) (rule pruned_empty)
  then obtain q v where "get_path q n = Some v"
    using pruned_below [OF _ assms] pruned_leads by blast
  then have path: "get_path (p @ q) (register_all history) = Some v"
    by (simp add: get_path_at [OF assms(1)])
  then obtain sub where "levels sub = p @ q"
    using keyed_tree [of history] by (auto simp: keyed_def)
  with path show ?thesis
    by (intro exI [of _ sub] exI [of _ q])
      (simp add: registered_tree [symmetric] subscribed_def)
qed

theorem no_dead_branches_witness:
  "node_at [''home'', ''+''] (register_all sample_history) \<noteq> None \<and>
   (\<exists>sub q. registered sample_history sub \<noteq> None \<and> levels sub = [''home'', ''+''] @ q) \<and>
   node_at [''never''] (register_all sample_history) = None"
proof -
  have "node_at [''home'', ''+''] (register_all sample_history) \<noteq> None" by code_simp
  then obtain n where n: "node_at [''home'', ''+''] (register_all sample_history) = Some n" by blast
  have "node_at [''never''] (register_all sample_history) = None" by code_simp
  with n no_dead_branches [OF n] show ?thesis by simp
qed

section \<open>The listener of the usage module\<close>

lemma plain_level:
  "f \<noteq> ''+'' \<Longrightarrow> f \<noteq> ''#'' \<Longrightarrow>
     filter_matches wild (f # fs) ts \<longleftrightarrow> (\<exists>ts'. ts = f # ts' \<and> filter_matches True fs ts')"
  by (cases ts) auto

lemma plus_level:
  "filter_matches True (''+'' # fs) ts \<longleftrightarrow> (\<exists>t ts'. ts = t # ts' \<and> filter_matches True fs ts')"
  by (cases ts) auto

lemma heartbeat_levels:
  "sub_matches TOPIC_HEARTBEAT topic \<longleftrightarrow> (\<exists>u i. levels topic = [''screensync'', u, i, ''heartbeat''])"
proof -
  have "levels TOPIC_HEARTBEAT = [''screensync'', ''+'', ''+'', ''heartbeat'']" by code_simp
  then show ?thesis by (auto simp: sub_matches_def plain_level plus_level)
qed

lemma usage_levels:
  "sub_matches TOPIC_USAGE topic \<longleftrightarrow>
     (\<exists>u i. levels topic = [''screensync'', u, i, ''usage'', ''report''])"
proof -
  have "levels TOPIC_USAGE = [''screensync'', ''+'', ''+'', ''usage'', ''report'']" by code_simp
  then show ?thesis by (auto simp: sub_matches_def plain_level plus_level)
qed

text \<open>The listener's client has no filtered callbacks, only \<open>on_message\<close>.\<close>

definition listener_receives :: "string \<Rightarrow> blob \<Rightarrow> unit handler" where
  "listener_receives topic payload =
     handle_on_message empty_node (Some (on_message topic)) (Some topic) payload"

lemma listener_receives_all: "listener_receives topic payload = on_message topic payload"
  by (cases "levels topic")
    (simp_all add: listener_receives_def handle_on_message_def iter_match_def empty_node_def
      hash_match_def content_list_def)

definition decoded_usage :: "string \<Rightarrow> string \<Rightarrow> blob \<Rightarrow> unit handler" where
  "decoded_usage u i payload =
     tryExcept (bindE (lift (utf8_decode payload)) (\<lambda>text. bindE (lift (json_loads text)) (handle_usage u i)))
       (\<lambda>_. ret ())"

text \<open>
  C24: What the listener subscribes to and what it handles do not fit: every message on a topic
  that matches the heartbeat subscription is delivered and dropped, whatever it carries, and
  changes nothing; a message that matches the usage subscription reaches the usage handler with
  the user and the device its topic names.
\<close>

theorem listener_subscriptions:
  "(sub_matches TOPIC_HEARTBEAT topic \<longrightarrow> listener_receives topic payload w = (Inr (), w)) \<and>
   (sub_matches TOPIC_USAGE topic \<longrightarrow>
      listener_receives topic payload = decoded_usage (levels topic ! 1) (levels topic ! 2) payload)"
proof (intro conjI impI)
  assume "sub_matches TOPIC_HEARTBEAT topic"
  then obtain u i where "split_on (CHR ''/'') topic = [''screensync'', u, i, ''heartbeat'']"
    by (auto simp: heartbeat_levels levels_def)
  then show "listener_receives topic payload w = (Inr (), w)"
    by (simp add: listener_receives_all on_message_def)
next
  assume "sub_matches TOPIC_USAGE topic"
  then obtain u i where "split_on (CHR ''/'') topic = [''screensync'', u, i, ''usage'', ''report'']"
    by (auto simp: usage_levels levels_def)
  then show "listener_receives topic payload = decoded_usage (levels topic ! 1) (levels topic ! 2) payload"
    by (simp add: listener_receives_all on_message_def decoded_usage_def levels_def)
qed

theorem listener_subscriptions_witness:
  "sub_matches TOPIC_HEARTBEAT ''screensync/a/p/heartbeat'' \<and> sub_matches TOPIC_USAGE ''screensync/a/p/usage/report'' \<and>
   (\<forall>payload w. listener_receives ''screensync/a/p/heartbeat'' payload w = (Inr (), w) \<and>
     listener_receives ''screensync/a/p/usage/report'' payload = decoded_usage ''a'' ''p'' payload)"
proof -
  have h: "sub_matches TOPIC_HEARTBEAT ''screensync/a/p/heartbeat''" by code_simp
  have u: "sub_matches TOPIC_USAGE ''screensync/a/p/usage/report''" by code_simp
  have "levels ''screensync/a/p/usage/report'' = [''screensync'', ''a'', ''p'', ''usage'', ''report'']"
    by code_simp
  with h u have "listener_receives ''screensync/a/p/heartbeat'' payload w = (Inr (), w) \<and>
      listener_receives ''screensync/a/p/usage/report'' payload = decoded_usage ''a'' ''p'' payload" for payload w
    using listener_subscriptions [of "''screensync/a/p/heartbeat''" payload w]
      listener_subscriptions [of "''screensync/a/p/usage/report''" payload w] by simp
  with h u show ?thesis by blast
qed

end
