(* ===== verification/Routing.thy ===== *)
theory Routing
  imports Login Server
begin

text \<open>
  Which endpoint a request reaches: the path templates and convertors of starlette/routing.py and
  starlette/convertors.py, a route's match, the router's choice (full match, then 405, then the
  redirect of a slash, then 404), and the routes main.py deploys.  Only requests of type http are
  modelled.
\<close>

section \<open>starlette/convertors.py\<close>

datatype convertor = StringConvertor | PathConvertor | IntegerConvertor | FloatConvertor | UUIDConvertor

definition CONVERTOR_TYPES :: "(string \<times> convertor) list" where
  "CONVERTOR_TYPES =
     [(''str'', StringConvertor), (''path'', PathConvertor), (''int'', IntegerConvertor),
      (''float'', FloatConvertor), (''uuid'', UUIDConvertor)]"

text \<open>
  The lengths of the prefixes a convertor's expression matches, in the order in which the matcher
  tries them: the longest first.
\<close>

definition run :: "(char \<Rightarrow> bool) \<Rightarrow> string \<Rightarrow> nat" where
  "run P s = length (takeWhile P s)"

definition newline :: char where
  "newline = CHR 0x0A"

definition lower_hex_digit :: "char \<Rightarrow> bool" where
  "lower_hex_digit c \<longleftrightarrow> is_digit c \<or> c \<in> set ''abcdef''"

definition uuid_text :: "string \<Rightarrow> bool" where
  "uuid_text s \<longleftrightarrow> length s = 36 \<and>
     list_all (\<lambda>k. if k \<in> {8, 13, 18, 23} then s ! k = CHR ''-'' else lower_hex_digit (s ! k)) [0..<36]"

fun convertor_lengths :: "convertor \<Rightarrow> string \<Rightarrow> nat list" where
  "convertor_lengths StringConvertor s = rev [1..<Suc (run (\<lambda>c. c \<noteq> CHR ''/'') s)]"
| "convertor_lengths PathConvertor s = rev [0..<Suc (run (\<lambda>c. c \<noteq> newline) s)]"
| "convertor_lengths IntegerConvertor s = rev [1..<Suc (run is_digit s)]"
| "convertor_lengths FloatConvertor s =
     concat (map (\<lambda>i.
       (if take 1 (drop i s) = ''.''
        then map (\<lambda>j. i + 1 + j) (rev [1..<Suc (run is_digit (drop (i + 1) s))]) else []) @ [i])
       (rev [1..<Suc (run is_digit s)]))"
| "convertor_lengths UUIDConvertor s = (if uuid_text (take 36 s) then [36] else [])"

text \<open>\<open>convert\<close>: what the endpoint gets; a float and a UUID stand for the objects built from the text.\<close>

datatype path_value = PStr string | PInt int | PFloat string | PUuid string

fun convert :: "convertor \<Rightarrow> string \<Rightarrow> path_value" where
  "convert StringConvertor v = PStr v"
| "convert PathConvertor v = PStr v"
| "convert IntegerConvertor v = PInt (signed_decimal v)"
| "convert FloatConvertor v = PFloat v"
| "convert UUIDConvertor v = PUuid v"

section \<open>starlette/routing.py: path templates\<close>

datatype segment = Literal string | Param string convertor

datatype path_error = UnknownConvertor string | DuplicatedParams "string list" | NotAPath

definition name_start :: "char \<Rightarrow> bool" where
  "name_start c \<longleftrightarrow> (let n = of_char c :: nat in 65 \<le> n \<and> n \<le> 90 \<or> 97 \<le> n \<and> n \<le> 122 \<or> n = 95)"

definition name_char :: "char \<Rightarrow> bool" where
  "name_char c \<longleftrightarrow> name_start c \<or> is_digit c"

text \<open>An identifier at the head of a text, and what follows it.\<close>

definition scan_name :: "string \<Rightarrow> (string \<times> string) option" where
  "scan_name s =
     (if s \<noteq> [] \<and> name_start (hd s) then Some (takeWhile name_char s, dropWhile name_char s) else None)"

text \<open>\<open>PARAM_REGEX\<close> after its opening brace: the name, the convertor type and the rest.\<close>

definition scan_param :: "string \<Rightarrow> (string \<times> string \<times> string) option" where
  "scan_param s =
     (case scan_name s of
        None \<Rightarrow> None
      | Some (name, r) \<Rightarrow>
          (case r of
             [] \<Rightarrow> None
           | c # r' \<Rightarrow>
               if c = CHR ''}'' then Some (name, ''str'', r')
               else if c = CHR '':'' then
                 (case scan_name r' of
                    None \<Rightarrow> None
                  | Some (ty, q) \<Rightarrow>
                      (case q of [] \<Rightarrow> None | d # q' \<Rightarrow> if d = CHR ''}'' then Some (name, ty, q') else None))
               else None))"

lemma scan_name_shrinks: "scan_name s = Some (n, r) \<Longrightarrow> length r < length s"
proof -
  assume a: "scan_name s = Some (n, r)"
  then obtain c t where s: "s = c # t" "name_start c" by (cases s) (auto simp: scan_name_def split: if_splits)
  then have "r = dropWhile name_char t" using a by (simp add: scan_name_def name_char_def)
  then show ?thesis using length_dropWhile_le [of name_char t] s by simp
qed

lemma scan_param_shrinks: "scan_param s = Some (n, ty, r) \<Longrightarrow> length r < length s"
  by (auto simp: scan_param_def split: option.splits list.splits if_splits dest!: scan_name_shrinks)

text \<open>
  The pieces of a template: the text before each parameter, the parameter, and the text after the
  last one.  \<open>acc\<close> is the text read since the last parameter.
\<close>

function template_pieces :: "string \<Rightarrow> string \<Rightarrow> (string \<times> string \<times> string) list \<times> string" where
  "template_pieces acc [] = ([], acc)"
| "template_pieces acc (c # s) =
     (case (if c = CHR ''{'' then scan_param s else None) of
        None \<Rightarrow> template_pieces (acc @ [c]) s
      | Some (name, ty, r) \<Rightarrow>
          (case template_pieces [] r of (ps, tail) \<Rightarrow> ((acc, name, ty) # ps, tail)))"
  by pat_completeness auto
termination
  by (relation "measure (\<lambda>(acc, s). length s)")
    (auto split: if_splits dest: scan_param_shrinks)

fun compile_params :: "(string \<times> string \<times> string) list \<Rightarrow> path_error + segment list" where
  "compile_params [] = Inr []"
| "compile_params ((before, name, ty) # ps) =
     (case map_of CONVERTOR_TYPES ty of
        None \<Rightarrow> Inl (UnknownConvertor ty)
      | Some c \<Rightarrow> map_sum id (\<lambda>rest. Literal before # Param name c # rest) (compile_params ps))"

definition duplicates :: "string list \<Rightarrow> string list" where
  "duplicates names = sort (remdups (filter (\<lambda>n. 1 < count_list names n) names))"

text \<open>A template that does not start with a slash is a host: the last text ends at its port.\<close>

definition compile_path :: "string \<Rightarrow> path_error + segment list" where
  "compile_path path =
     (case template_pieces [] path of
        (ps, tail) \<Rightarrow>
          (case compile_params ps of
             Inl e \<Rightarrow> Inl e
           | Inr segments \<Rightarrow>
               (let names = map (\<lambda>p. fst (snd p)) ps
                in if duplicates names \<noteq> [] then Inl (DuplicatedParams (duplicates names))
                   else Inr (segments @
                     [Literal (if starts_with ''/'' path then tail else hd (split_on (CHR '':'') tail))]))))"

text \<open>
  Matching with the compiled expression: parameters try their lengths in order; the final dollar
  sign also matches before a newline at the end.
\<close>

fun first_hit :: "('a \<Rightarrow> 'b option) \<Rightarrow> 'a list \<Rightarrow> 'b option" where
  "first_hit f [] = None"
| "first_hit f (x # xs) = (case f x of None \<Rightarrow> first_hit f xs | Some y \<Rightarrow> Some y)"

fun match_segments :: "segment list \<Rightarrow> string \<Rightarrow> (string \<times> path_value) list option" where
  "match_segments [] s = (if s = [] \<or> s = [newline] then Some [] else None)"
| "match_segments (Literal l # rest) s =
     (if starts_with l s then match_segments rest (drop (length l) s) else None)"
| "match_segments (Param name c # rest) s =
     first_hit (\<lambda>k. map_option ((#) (name, convert c (take k s))) (match_segments rest (drop k s)))
       (convertor_lengths c s)"

section \<open>starlette/routing.py and fastapi/routing.py: routes and routers\<close>

text \<open>
  A route: its compiled template, the methods it answers (none given: all) and its endpoint.  The
  methods of a declaration are written in upper case.
\<close>

record 'e route =
  rt_segments :: "segment list"
  rt_methods :: "string list option"
  rt_endpoint :: 'e

definition compiled_route :: "string list option \<Rightarrow> string \<Rightarrow> 'e \<Rightarrow> path_error + 'e route" where
  "compiled_route methods path endpoint =
     (if \<not> starts_with ''/'' path then Inl NotAPath
      else map_sum id (\<lambda>segments. \<lparr> rt_segments = segments, rt_methods = methods, rt_endpoint = endpoint \<rparr>)
        (compile_path path))"

text \<open>Starlette's \<open>Route\<close> of a function answers HEAD where it answers GET; FastAPI's does not.\<close>

definition Route :: "string list option \<Rightarrow> string \<Rightarrow> 'e \<Rightarrow> path_error + 'e route" where
  "Route methods path endpoint =
     (let ms = (case methods of None \<Rightarrow> [''GET''] | Some ms \<Rightarrow> ms)
      in compiled_route (Some (ms @ (if ''GET'' \<in> set ms then [''HEAD''] else []))) path endpoint)"

definition APIRoute :: "string list option \<Rightarrow> string \<Rightarrow> 'e \<Rightarrow> path_error + 'e route" where
  "APIRoute methods path endpoint =
     compiled_route (Some (case methods of None \<Rightarrow> [''GET''] | Some ms \<Rightarrow> ms)) path endpoint"

datatype match_result = NONE | PARTIAL "(string \<times> path_value) list" | FULL "(string \<times> path_value) list"

definition method_allowed :: "'e route \<Rightarrow> string \<Rightarrow> bool" where
  "method_allowed r meth = (case rt_methods r of None \<Rightarrow> True | Some ms \<Rightarrow> ms = [] \<or> meth \<in> set ms)"

definition route_matches :: "'e route \<Rightarrow> string \<Rightarrow> string \<Rightarrow> match_result" where
  "route_matches r meth path =
     (case match_segments (rt_segments r) path of
        None \<Rightarrow> NONE
      | Some params \<Rightarrow> if method_allowed r meth then FULL params else PARTIAL params)"

text \<open>
  What the router does with a request: run an endpoint, raise 405 with the methods of a route,
  redirect to the path with or without its final slash, or raise 404.
\<close>

datatype 'e decision =
    Endpoint 'e "(string \<times> path_value) list"
  | MethodNotAllowed "string list"
  | RedirectTo string
  | NotFound

definition route_handle :: "'e route \<Rightarrow> string \<Rightarrow> (string \<times> path_value) list \<Rightarrow> 'e decision" where
  "route_handle r meth params =
     (if method_allowed r meth then Endpoint (rt_endpoint r) params
      else MethodNotAllowed (case rt_methods r of None \<Rightarrow> [] | Some ms \<Rightarrow> ms))"

text \<open>The loop over the routes, with the first partial match so far.\<close>

fun choose_route ::
    "'e route list \<Rightarrow> string \<Rightarrow> string \<Rightarrow> ('e route \<times> (string \<times> path_value) list) option \<Rightarrow> 'e decision option" where
  "choose_route [] meth path partial =
     (case partial of None \<Rightarrow> None | Some (r, params) \<Rightarrow> Some (route_handle r meth params))"
| "choose_route (r # rs) meth path partial =
     (case route_matches r meth path of
        FULL params \<Rightarrow> Some (route_handle r meth params)
      | PARTIAL params \<Rightarrow>
          choose_route rs meth path (if partial = None then Some (r, params) else partial)
      | NONE \<Rightarrow> choose_route rs meth path partial)"

definition rstrip_slash :: "string \<Rightarrow> string" where
  "rstrip_slash s = rev (dropWhile (\<lambda>c. c = CHR ''/'') (rev s))"

definition slash_variant :: "string \<Rightarrow> string" where
  "slash_variant path = (if path \<noteq> [] \<and> last path = CHR ''/'' then rstrip_slash path else path @ ''/'')"

definition route_request :: "bool \<Rightarrow> 'e route list \<Rightarrow> string \<Rightarrow> string \<Rightarrow> 'e decision" where
  "route_request redirect_slashes routes meth path =
     (case choose_route routes meth path None of
        Some d \<Rightarrow> d
      | None \<Rightarrow>
          if redirect_slashes \<and> path \<noteq> ''/'' \<and>
             list_ex (\<lambda>r. route_matches r meth (slash_variant path) \<noteq> NONE) routes
          then RedirectTo (slash_variant path)
          else NotFound)"

text \<open>\<open>include_router\<close>: the routes of a router compiled again below a prefix.\<close>

type_synonym 'e declared = "string list option \<times> string \<times> 'e"

datatype router_error = BadPrefix | EmptyPath | BadTemplate path_error

fun add_api_routes :: "string \<Rightarrow> 'e declared list \<Rightarrow> path_error + 'e route list" where
  "add_api_routes prefix [] = Inr []"
| "add_api_routes prefix ((methods, path, endpoint) # ds) =
     (case APIRoute methods (prefix @ path) endpoint of
        Inl e \<Rightarrow> Inl e
      | Inr r \<Rightarrow> map_sum id ((#) r) (add_api_routes prefix ds))"

definition include_router :: "string \<Rightarrow> 'e declared list \<Rightarrow> router_error + 'e route list" where
  "include_router prefix ds =
     (if prefix \<noteq> [] \<and> (\<not> starts_with ''/'' prefix \<or> last prefix = CHR ''/'') then Inl BadPrefix
      else if prefix = [] \<and> list_ex (\<lambda>d. fst (snd d) = []) ds then Inl EmptyPath
      else map_sum BadTemplate id (add_api_routes prefix ds))"

section \<open>main.py and the routers it mounts\<close>

datatype endpoint =
    OpenApiSchema | SwaggerUI | SwaggerRedirect | ReDoc
  | AuthLogin | AuthRegister
  | DeviceRegister | DeviceHeartbeat | DeviceList | DeviceDeregister
  | Root | Health

text \<open>\<open>FastAPI.setup\<close>: the documentation routes come first, with their default addresses.\<close>

definition setup_routes :: "(path_error + endpoint route) list" where
  "setup_routes =
     [Route None ''/openapi.json'' OpenApiSchema, Route None ''/docs'' SwaggerUI,
      Route None ''/docs/oauth2-redirect'' SwaggerRedirect, Route None ''/redoc'' ReDoc]"

definition auth_router :: "endpoint declared list" where
  "auth_router =
     [(Some [''POST''], ''/login'', AuthLogin), (Some [''POST''], ''/register'', AuthRegister)]"

definition device_router :: "endpoint declared list" where
  "device_router =
     [(Some [''POST''], ''/register'', DeviceRegister),
      (Some [''POST''], ''/{device_id}/heartbeat'', DeviceHeartbeat),
      (Some [''GET''], ''/'', DeviceList),
      (Some [''DELETE''], ''/{device_id}'', DeviceDeregister)]"

definition main_routes :: "endpoint declared list" where
  "main_routes = [(Some [''GET''], ''/'', Root), (Some [''GET''], ''/health'', Health)]"

fun all_routes :: "(path_error + 'e route) list \<Rightarrow> router_error + 'e route list" where
  "all_routes [] = Inr []"
| "all_routes (Inl e # rs) = Inl (BadTemplate e)"
| "all_routes (Inr r # rs) = map_sum id ((#) r) (all_routes rs)"

definition join_routes :: "router_error + 'e route list \<Rightarrow> router_error + 'e route list \<Rightarrow> router_error + 'e route list" where
  "join_routes a b =
     (case a of Inl e \<Rightarrow> Inl e | Inr rs \<Rightarrow> (case b of Inl e \<Rightarrow> Inl e | Inr qs \<Rightarrow> Inr (rs @ qs)))"

definition app_routes :: "router_error + endpoint route list" where
  "app_routes =
     join_routes (all_routes setup_routes)
       (join_routes (include_router (API_PREFIX @ ''/auth'') auth_router)
         (join_routes (include_router (API_PREFIX @ ''/devices'') device_router)
           (include_router [] main_routes)))"

definition deployed_route :: "string \<Rightarrow> string list \<Rightarrow> endpoint \<Rightarrow> endpoint route" where
  "deployed_route path methods e =
     \<lparr> rt_segments = [Literal path], rt_methods = Some methods, rt_endpoint = e \<rparr>"

definition deployed_routes :: "endpoint route list" where
  "deployed_routes =
     [deployed_route ''/openapi.json'' [''GET'', ''HEAD''] OpenApiSchema,
      deployed_route ''/docs'' [''GET'', ''HEAD''] SwaggerUI,
      deployed_route ''/docs/oauth2-redirect'' [''GET'', ''HEAD''] SwaggerRedirect,
      deployed_route ''/redoc'' [''GET'', ''HEAD''] ReDoc,
      deployed_route ''/api/v1/auth/login'' [''POST''] AuthLogin,
      deployed_route ''/api/v1/auth/register'' [''POST''] AuthRegister,
      deployed_route ''/api/v1/devices/register'' [''POST''] DeviceRegister,
      \<lparr> rt_segments = [Literal ''/api/v1/devices/'', Param ''device_id'' StringConvertor, Literal ''/heartbeat''],
         rt_methods = Some [''POST''], rt_endpoint = DeviceHeartbeat \<rparr>,
      deployed_route ''/api/v1/devices/'' [''GET''] DeviceList,
      \<lparr> rt_segments = [Literal ''/api/v1/devices/'', Param ''device_id'' StringConvertor, Literal []],
         rt_methods = Some [''DELETE''], rt_endpoint = DeviceDeregister \<rparr>,
      deployed_route ''/'' [''GET''] Root,
      deployed_route ''/health'' [''GET''] Health]"

lemma app_routes_compile: "app_routes = Inr deployed_routes"
  by code_simp

section \<open>Templates\<close>

text \<open>
  The templates in use: every parameter is a text and is followed by a slash or by the end.  Such a
  template is filled with one value per parameter.
\<close>

fun separated :: "segment list \<Rightarrow> bool" where
  "separated [] = True"
| "separated (Literal l # rest) = separated rest"
| "separated (Param n c # rest) =
     (c = StringConvertor \<and>
      (case rest of
         Literal l # rest' \<Rightarrow> starts_with ''/'' l \<or> l = [] \<and> rest' = []
       | _ \<Rightarrow> False) \<and>
      separated rest)"

fun fill :: "segment list \<Rightarrow> string list \<Rightarrow> string" where
  "fill [] vs = []"
| "fill (Literal l # rest) vs = l @ fill rest vs"
| "fill (Param n c # rest) vs = hd vs @ fill rest (tl vs)"

fun param_names :: "segment list \<Rightarrow> string list" where
  "param_names [] = []"
| "param_names (Literal l # rest) = param_names rest"
| "param_names (Param n c # rest) = n # param_names rest"

definition path_text :: "string \<Rightarrow> bool" where
  "path_text v \<longleftrightarrow> v \<noteq> [] \<and> CHR ''/'' \<notin> set v"

lemma separated_follow:
  "separated (Param n c # rest) \<Longrightarrow> fill rest vs = [] \<or> starts_with ''/'' (fill rest vs)"
  by (auto simp: starts_with_iff split: list.splits segment.splits)

lemma run_value:
  assumes "path_text v" "t = [] \<or> starts_with ''/'' t"
  shows "run (\<lambda>c. c \<noteq> CHR ''/'') (v @ t) = length v"
proof -
  have "takeWhile (\<lambda>c. c \<noteq> CHR ''/'') (v @ t) = v @ takeWhile (\<lambda>c. c \<noteq> CHR ''/'') t"
    using assms(1) by (intro takeWhile_append2) (auto simp: path_text_def)
  moreover have "takeWhile (\<lambda>c. c \<noteq> CHR ''/'') t = []"
    using assms(2) by (auto simp: starts_with_iff)
  ultimately show ?thesis by (simp add: run_def)
qed

lemma match_fill:
  "separated segs \<Longrightarrow> length vs = length (param_names segs) \<Longrightarrow> \<forall>v \<in> set vs. path_text v \<Longrightarrow>
     match_segments segs (fill segs vs) = Some (zip (param_names segs) (map PStr vs))"
proof (induction segs arbitrary: vs)
  case (Cons seg rest)
  show ?case
  proof (cases seg)
    case (Literal l)
    then show ?thesis using Cons by simp
  next
    case (Param n c)
    then obtain v vs' where vs: "vs = v # vs'" using Cons.prems(2) by (cases vs) auto
    have c: "c = StringConvertor" and rest: "separated rest" using Cons.prems(1) Param by simp_all
    have v: "path_text v" using Cons.prems(3) vs by simp
    have "run (\<lambda>c. c \<noteq> CHR ''/'') (v @ fill rest vs') = length v"
      using run_value [OF v] separated_follow [of n c rest vs'] Cons.prems(1) Param by blast
    moreover have "Suc 0 \<le> length v" using v by (cases v) (simp_all add: path_text_def)
    ultimately have "convertor_lengths c (v @ fill rest vs') = length v # rev [1..<length v]"
      by (simp add: c)
    moreover have "match_segments rest (fill rest vs') = Some (zip (param_names rest) (map PStr vs'))"
      using Cons.IH [OF rest] Cons.prems(2,3) vs Param by simp
    ultimately show ?thesis by (simp add: Param vs c)
  qed
qed simp

text \<open>And only such paths match, up to a newline at the end.\<close>

lemma first_hit_Some: "first_hit f xs = Some y \<Longrightarrow> \<exists>x \<in> set xs. f x = Some y"
  by (induction xs) (auto split: option.splits)

lemma run_prefix:
  assumes "k \<le> run P s"
  shows "\<forall>c \<in> set (take k s). P c"
proof -
  have "take k s = take k (takeWhile P s)" using assms
    by (metis (no_types, lifting) append_take_drop_id min.absorb1 run_def take_append takeWhile_dropWhile_id
        append_Nil2 diff_is_0_eq take0)
  then show ?thesis by (metis in_set_takeD set_takeWhileD)
qed

lemma match_only_fill:
  "separated segs \<Longrightarrow> match_segments segs s = Some ps \<Longrightarrow>
     \<exists>vs. length vs = length (param_names segs) \<and> (\<forall>v \<in> set vs. path_text v) \<and>
       ps = zip (param_names segs) (map PStr vs) \<and> (s = fill segs vs \<or> s = fill segs vs @ [newline])"
proof (induction segs arbitrary: s ps)
  case Nil
  then show ?case by (auto split: if_splits)
next
  case (Cons seg rest)
  show ?case
  proof (cases seg)
    case (Literal l)
    with Cons.prems have "starts_with l s" "match_segments rest (drop (length l) s) = Some ps" "separated rest"
      by (auto split: if_splits)
    moreover from this(1) obtain t where "s = l @ t" by (auto simp: starts_with_iff)
    ultimately show ?thesis using Cons.IH [of t ps] Literal by auto
  next
    case (Param n c)
    then have c: "c = StringConvertor" and rest: "separated rest" using Cons.prems(1) by simp_all
    obtain k qs where k: "k \<in> set (convertor_lengths c s)" and qs: "match_segments rest (drop k s) = Some qs"
      and ps: "ps = (n, convert c (take k s)) # qs"
      using Cons.prems(2) Param by (auto dest!: first_hit_Some)
    have range: "1 \<le> k" "k \<le> run (\<lambda>c. c \<noteq> CHR ''/'') s" using k c by auto
    then have "k \<le> length s" using length_takeWhile_le [of "\<lambda>c. c \<noteq> CHR ''/''" s] by (simp add: run_def)
    then have "take k s \<noteq> []" using range(1) by (cases s) auto
    moreover have "CHR ''/'' \<notin> set (take k s)" using run_prefix [OF range(2)] by blast
    ultimately have v: "path_text (take k s)" by (simp add: path_text_def)
    obtain vs where vs: "length vs = length (param_names rest)" "\<forall>v \<in> set vs. path_text v"
      "qs = zip (param_names rest) (map PStr vs)" "drop k s = fill rest vs \<or> drop k s = fill rest vs @ [newline]"
      using Cons.IH [OF rest qs] by blast
    have whole: "s = take k s @ drop k s" by (rule append_take_drop_id [symmetric])
    from vs(4) have "s = take k s @ fill rest vs \<or> s = (take k s @ fill rest vs) @ [newline]"
    proof
      assume "drop k s = fill rest vs"
      with whole show ?thesis by metis
    next
      assume "drop k s = fill rest vs @ [newline]"
      with whole show ?thesis by (metis append_assoc)
    qed
    then show ?thesis
      using v vs(1-3) by (intro exI [of _ "take k s # vs"]) (simp add: Param c ps)
  qed
qed

declare match_segments.simps [simp del]

text \<open>
  Building a path from a template and matching it are inverse: a path without newlines matches a
  template of text parameters exactly when it is the template filled with texts that are not empty
  and contain no slash.
\<close>

lemma match_iff_fill:
  assumes "separated segs" and "newline \<notin> set path"
  shows "match_segments segs path = Some params \<longleftrightarrow>
    (\<exists>vs. length vs = length (param_names segs) \<and> (\<forall>v \<in> set vs. path_text v) \<and>
       params = zip (param_names segs) (map PStr vs) \<and> path = fill segs vs)"
  using match_only_fill [OF assms(1), of path params] match_fill [OF assms(1)] assms(2) by fastforce

section \<open>What is deployed\<close>

text \<open>The endpoints whose path has no parameter.\<close>

definition pages :: "(string \<times> string \<times> endpoint) list" where
  "pages =
     [(''GET'', ''/openapi.json'', OpenApiSchema), (''HEAD'', ''/openapi.json'', OpenApiSchema),
      (''GET'', ''/docs'', SwaggerUI), (''HEAD'', ''/docs'', SwaggerUI),
      (''GET'', ''/docs/oauth2-redirect'', SwaggerRedirect), (''HEAD'', ''/docs/oauth2-redirect'', SwaggerRedirect),
      (''GET'', ''/redoc'', ReDoc), (''HEAD'', ''/redoc'', ReDoc),
      (''POST'', ''/api/v1/auth/login'', AuthLogin), (''POST'', ''/api/v1/auth/register'', AuthRegister),
      (''POST'', ''/api/v1/devices/register'', DeviceRegister), (''GET'', ''/api/v1/devices/'', DeviceList),
      (''GET'', ''/'', Root), (''GET'', ''/health'', Health)]"

text \<open>
  The methods and paths of the endpoints, as the decorators in main.py and in the two mounted
  routers and the set-up of FastAPI state them, with their prefixes in front: what the compiled
  templates and the router have to amount to.
\<close>

definition serves :: "string \<Rightarrow> string \<Rightarrow> endpoint \<Rightarrow> (string \<times> path_value) list \<Rightarrow> bool" where
  "serves meth path e params \<longleftrightarrow>
     (meth, path, e) \<in> set pages \<and> params = [] \<or>
     (\<exists>device. path_text device \<and> params = [(''device_id'', PStr device)] \<and>
        (meth = ''POST'' \<and> path = ''/api/v1/devices/'' @ device @ ''/heartbeat'' \<and> e = DeviceHeartbeat \<or>
         meth = ''DELETE'' \<and> path = ''/api/v1/devices/'' @ device \<and> e = DeviceDeregister))"

lemma serves_unique: "serves m p e ps \<Longrightarrow> serves m p e' ps' \<Longrightarrow> e = e' \<and> ps = ps'"
proof -
  have slash: "CHR ''/'' \<in> set (v @ ''/heartbeat'')" for v by simp
  have register: "''register'' \<noteq> v @ ''/heartbeat''" for v
  proof
    assume "''register'' = v @ ''/heartbeat''"
    then have "CHR ''/'' \<in> set ''register''" using slash [of v] by metis
    then show False by simp
  qed
  assume "serves m p e ps" "serves m p e' ps'"
  then show ?thesis using register
    by (auto simp: serves_def pages_def)
qed

lemma full_match: "route_matches r meth path = FULL ps \<longleftrightarrow>
    match_segments (rt_segments r) path = Some ps \<and> method_allowed r meth"
  by (auto simp: route_matches_def split: option.splits)

lemma match_page: "newline \<notin> set path \<Longrightarrow> match_segments [Literal p] path = Some ps \<longleftrightarrow> path = p \<and> ps = []"
  using match_iff_fill [of "[Literal p]" path ps] by auto

lemma match_one_param:
  "newline \<notin> set path \<Longrightarrow> starts_with ''/'' t \<or> t = [] \<Longrightarrow>
     match_segments [Literal p, Param n StringConvertor, Literal t] path = Some ps \<longleftrightarrow>
     (\<exists>v. path_text v \<and> path = p @ v @ t \<and> ps = [(n, PStr v)])"
  using match_iff_fill [of "[Literal p, Param n StringConvertor, Literal t]" path ps]
  by (auto simp: length_Suc_conv intro: exI [of _ "[v]" for v])

lemma page_full:
  "newline \<notin> set path \<Longrightarrow> route_matches (deployed_route p ms e) meth path = FULL ps \<longleftrightarrow>
     path = p \<and> ps = [] \<and> (ms = [] \<or> meth \<in> set ms)"
  by (auto simp: full_match deployed_route_def match_page method_allowed_def)

lemma device_full:
  "newline \<notin> set path \<Longrightarrow> starts_with ''/'' t \<or> t = [] \<Longrightarrow>
     route_matches \<lparr> rt_segments = [Literal p, Param n StringConvertor, Literal t],
       rt_methods = Some [m], rt_endpoint = e \<rparr> meth path = FULL ps \<longleftrightarrow>
     meth = m \<and> (\<exists>v. path_text v \<and> path = p @ v @ t \<and> ps = [(n, PStr v)])"
  using match_one_param [of path t p n ps] by (auto simp: full_match method_allowed_def)

lemma page_endpoint: "rt_endpoint (deployed_route p ms e) = e"
  by (simp add: deployed_route_def)

lemma serves_routes:
  assumes "newline \<notin> set path"
  shows "serves meth path e ps \<longleftrightarrow>
    (\<exists>r \<in> set deployed_routes. route_matches r meth path = FULL ps \<and> rt_endpoint r = e)"
proof -
  have bex: "(\<exists>r \<in> set (x # xs). P r) \<longleftrightarrow> P x \<or> (\<exists>r \<in> set xs. P r)" for x :: "endpoint route" and xs P
    by simp
  have slash: "starts_with ''/'' ''/heartbeat'' \<or> ''/heartbeat'' = []" "starts_with ''/'' [] \<or> [] = ([] :: string)"
    by (simp_all add: starts_with_def)
  show ?thesis
    unfolding deployed_routes_def bex page_full [OF assms] page_endpoint
      device_full [OF assms slash(1)] device_full [OF assms slash(2)] serves_def pages_def
    by (cases e) auto
qed

section \<open>The router's decision\<close>

lemma choose_full:
  "\<exists>r \<in> set rs. \<exists>ps. route_matches r m p = FULL ps \<Longrightarrow>
     \<exists>r \<in> set rs. \<exists>ps. route_matches r m p = FULL ps \<and>
       choose_route rs m p partial = Some (Endpoint (rt_endpoint r) ps)"
proof (induction rs arbitrary: partial)
  case (Cons r rs)
  show ?case
  proof (cases "route_matches r m p")
    case (FULL ps)
    then have "choose_route (r # rs) m p partial = Some (Endpoint (rt_endpoint r) ps)"
      using full_match [of r m p ps] by (simp add: route_handle_def)
    with FULL show ?thesis by (intro bexI [of _ r] exI [of _ ps]) simp_all
  qed (use Cons in auto)
qed simp

lemma choose_partial:
  "\<forall>r \<in> set rs. \<forall>ps. route_matches r m p \<noteq> FULL ps \<Longrightarrow>
     choose_route rs m p partial =
       (case (case partial of None \<Rightarrow>
           first_hit (\<lambda>r. case route_matches r m p of PARTIAL ps \<Rightarrow> Some (r, ps) | _ \<Rightarrow> None) rs
         | Some x \<Rightarrow> Some x) of
          None \<Rightarrow> None | Some (r, ps) \<Rightarrow> Some (route_handle r m ps))"
proof (induction rs arbitrary: partial)
  case (Cons r rs)
  then show ?case by (cases partial; cases "route_matches r m p") auto
qed (auto split: option.splits)

lemma first_hit_None: "first_hit f xs = None \<longleftrightarrow> (\<forall>x \<in> set xs. f x = None)"
  by (induction xs) (auto split: option.splits)

lemma choose_None_iff:
  "choose_route rs m p partial = None \<longleftrightarrow> partial = None \<and> (\<forall>r \<in> set rs. route_matches r m p = NONE)"
  by (induction rs arbitrary: partial) (auto split: option.splits match_result.splits)

lemma choose_none:
  "choose_route rs m p None = None \<longleftrightarrow> (\<forall>r \<in> set rs. route_matches r m p = NONE)"
  by (simp add: choose_None_iff)

lemma choose_refused:
  assumes "\<forall>r \<in> set rs. \<forall>ps. route_matches r m p \<noteq> FULL ps" and "choose_route rs m p None = Some d"
  shows "\<exists>ms. d = MethodNotAllowed ms"
proof -
  obtain r ps where "r \<in> set rs" "route_matches r m p = PARTIAL ps" "d = route_handle r m ps"
    using assms choose_partial [OF assms(1), of None]
    by (auto split: option.splits match_result.splits dest!: first_hit_Some)
  then show ?thesis by (auto simp: route_handle_def route_matches_def split: option.splits if_splits)
qed

text \<open>A path that some method serves.\<close>

definition known_path :: "string \<Rightarrow> bool" where
  "known_path path \<longleftrightarrow> (\<exists>meth e ps. serves meth path e ps)"

lemma deployed_methods:
  "r \<in> set deployed_routes \<Longrightarrow> \<exists>m. method_allowed r m"
  by (auto simp: deployed_routes_def deployed_route_def method_allowed_def)

lemma known_routes:
  assumes "newline \<notin> set path"
  shows "known_path path \<longleftrightarrow> (\<exists>r \<in> set deployed_routes. route_matches r meth path \<noteq> NONE)"
proof -
  have "(\<exists>r \<in> set deployed_routes. route_matches r meth path \<noteq> NONE) \<longleftrightarrow>
      (\<exists>r \<in> set deployed_routes. \<exists>ps. match_segments (rt_segments r) path = Some ps)"
    by (auto simp: route_matches_def split: option.splits)
  also have "\<dots> \<longleftrightarrow> (\<exists>m ps. \<exists>r \<in> set deployed_routes. route_matches r m path = FULL ps)"
    unfolding full_match by (metis deployed_methods)
  also have "\<dots> \<longleftrightarrow> known_path path"
    unfolding known_path_def serves_routes [OF assms] by blast
  finally show ?thesis by simp
qed

lemma choose_deployed:
  assumes "newline \<notin> set path"
  shows "serves meth path e ps \<Longrightarrow> choose_route deployed_routes meth path None = Some (Endpoint e ps)"
    and "\<forall>e ps. \<not> serves meth path e ps \<Longrightarrow> known_path path \<Longrightarrow>
      \<exists>ms. choose_route deployed_routes meth path None = Some (MethodNotAllowed ms)"
    and "\<not> known_path path \<Longrightarrow> choose_route deployed_routes meth path None = None"
proof -
  assume s: "serves meth path e ps"
  then have "\<exists>r \<in> set deployed_routes. \<exists>ps. route_matches r meth path = FULL ps"
    using serves_routes [OF assms] by blast
  from choose_full [OF this, of None] obtain r qs where r: "r \<in> set deployed_routes"
    "route_matches r meth path = FULL qs"
    "choose_route deployed_routes meth path None = Some (Endpoint (rt_endpoint r) qs)" by blast
  then have "serves meth path (rt_endpoint r) qs" using serves_routes [OF assms] by blast
  with s r(3) show "choose_route deployed_routes meth path None = Some (Endpoint e ps)"
    using serves_unique by metis
next
  assume none: "\<forall>e ps. \<not> serves meth path e ps" and known: "known_path path"
  have full: "\<forall>r \<in> set deployed_routes. \<forall>ps. route_matches r meth path \<noteq> FULL ps"
    using none serves_routes [OF assms] by blast
  have "choose_route deployed_routes meth path None \<noteq> None"
    using known known_routes [OF assms, of meth] by (simp add: choose_none)
  then obtain d where "choose_route deployed_routes meth path None = Some d" by blast
  with choose_refused [OF full this] show "\<exists>ms. choose_route deployed_routes meth path None = Some (MethodNotAllowed ms)"
    by blast
next
  assume "\<not> known_path path"
  then show "choose_route deployed_routes meth path None = None"
    using known_routes [OF assms, of meth] by (simp add: choose_none)
qed

lemma slash_variant_newline: "newline \<notin> set path \<Longrightarrow> newline \<notin> set (slash_variant path)"
  by (auto simp: slash_variant_def rstrip_slash_def newline_def dest: set_dropWhileD)

lemma root_known: "known_path ''/''"
  by (auto simp: known_path_def serves_def pages_def)

text \<open>
  C19: For a path without a line feed, the deployed application answers exactly the endpoints its
  mounted routers register (\<open>serves\<close>): a request runs an endpoint precisely when the method and path
  are registered for it, with the device of the path as parameter; a registered path with another
  method is answered 405; an unregistered path that is registered with or without its final slash
  is redirected there; everything else is 404.  (A line feed at the end of a registered path is
  accepted too, see \<open>newline_matches\<close>; of the endpoints the README lists only those of the device
  registry are mounted, see \<open>unmounted_unreachable\<close>.)
\<close>

theorem deployed_decisions:
  assumes "app_routes = Inr routes" and "newline \<notin> set path"
  shows "(route_request True routes meth path = Endpoint e ps \<longleftrightarrow> serves meth path e ps) \<and>
    ((\<exists>ms. route_request True routes meth path = MethodNotAllowed ms) \<longleftrightarrow>
       (\<forall>e ps. \<not> serves meth path e ps) \<and> known_path path) \<and>
    (route_request True routes meth path = RedirectTo q \<longleftrightarrow>
       \<not> known_path path \<and> q = slash_variant path \<and> known_path q) \<and>
    (route_request True routes meth path = NotFound \<longleftrightarrow>
       \<not> known_path path \<and> \<not> known_path (slash_variant path))"
proof -
  have routes: "routes = deployed_routes" using assms(1) app_routes_compile by (metis Inr_inject)
  note choose = choose_deployed [OF assms(2)]
  consider (served) e' ps' where "serves meth path e' ps'" | (other) "\<forall>e ps. \<not> serves meth path e ps" "known_path path"
    | (unknown) "\<not> known_path path"
    by blast
  then show ?thesis
  proof cases
    case served
    then have known: "known_path path" unfolding known_path_def by blast
    have "serves meth path e ps \<longleftrightarrow> e' = e \<and> ps' = ps" for e ps
      using served serves_unique by metis
    moreover have "route_request True routes meth path = Endpoint e' ps'"
      by (simp add: route_request_def routes choose(1) [OF served])
    ultimately show ?thesis using known by simp
  next
    case other
    obtain ms where "route_request True routes meth path = MethodNotAllowed ms"
      using choose(2) [OF other] by (auto simp: route_request_def routes)
    with other show ?thesis by simp
  next
    case unknown
    have "route_request True routes meth path =
        (if known_path (slash_variant path) then RedirectTo (slash_variant path) else NotFound)"
      using choose(3) [OF unknown] unknown root_known
        known_routes [OF slash_variant_newline [OF assms(2)], of meth]
      by (auto simp: route_request_def routes list_ex_iff)
    moreover have "\<forall>e ps. \<not> serves meth path e ps" using unknown by (auto simp: known_path_def)
    ultimately show ?thesis using unknown by (cases "q = slash_variant path") auto
  qed
qed

theorem deployed_decisions_witness:
  "route_request True deployed_routes ''DELETE'' ''/api/v1/devices/register'' =
     Endpoint DeviceDeregister [(''device_id'', PStr ''register'')] \<and>
   (\<exists>ms. route_request True deployed_routes ''PUT'' ''/api/v1/devices/x/heartbeat'' = MethodNotAllowed ms) \<and>
   route_request True deployed_routes ''GET'' ''/api/v1/devices'' = RedirectTo ''/api/v1/devices/''"
proof -
  have "serves ''DELETE'' ''/api/v1/devices/register'' DeviceDeregister [(''device_id'', PStr ''register'')]"
    by (simp add: serves_def path_text_def)
  moreover have "newline \<notin> set ''/api/v1/devices/register''" "newline \<notin> set ''/api/v1/devices/x/heartbeat''"
    "newline \<notin> set ''/api/v1/devices''" by (simp_all add: newline_def)
  moreover have "serves ''POST'' ''/api/v1/devices/x/heartbeat'' DeviceHeartbeat [(''device_id'', PStr ''x'')]"
    by (auto simp: serves_def path_text_def intro: exI [of _ "''x''"])
  then have "known_path ''/api/v1/devices/x/heartbeat''" by (auto simp: known_path_def)
  moreover have "\<not> serves ''PUT'' ''/api/v1/devices/x/heartbeat'' e ps" for e ps
    by (auto simp: serves_def pages_def)
  moreover have "slash_variant ''/api/v1/devices'' = ''/api/v1/devices/''" by code_simp
  moreover have "known_path ''/api/v1/devices/''"
    by (auto simp: known_path_def serves_def pages_def)
  moreover have "\<not> known_path ''/api/v1/devices''"
    by (auto simp: known_path_def serves_def pages_def)
  ultimately show ?thesis
    using deployed_decisions [OF app_routes_compile, of "''/api/v1/devices/register''" "''DELETE''"]
      deployed_decisions [OF app_routes_compile, of "''/api/v1/devices/x/heartbeat''" "''PUT''"]
      deployed_decisions [OF app_routes_compile, of "''/api/v1/devices''" "''GET''"]
    by metis
qed

definition unmounted_prefixes :: "string list" where
  "unmounted_prefixes = map ((@) API_PREFIX) [''/usage'', ''/budget'', ''/override'', ''/fl'']"

lemma rstrip_slash_prefix:
  assumes "p \<noteq> []" "last p \<noteq> CHR ''/''"
  shows "\<exists>t. rstrip_slash (p @ s) = p @ t"
proof (induction s rule: rev_induct)
  case Nil
  have "rstrip_slash p = p" using assms by (cases p rule: rev_cases) (simp_all add: rstrip_slash_def)
  then show ?case by (intro exI [of _ "[]"]) simp
next
  case (snoc c s)
  show ?case
  proof (cases "c = CHR ''/''")
    case True
    then show ?thesis using snoc by (simp add: rstrip_slash_def)
  next
    case False
    then show ?thesis by (intro exI [of _ "s @ [c]"]) (simp add: rstrip_slash_def)
  qed
qed

lemma slash_variant_prefix:
  "p \<noteq> [] \<Longrightarrow> last p \<noteq> CHR ''/'' \<Longrightarrow> \<exists>t. slash_variant (p @ s) = p @ t"
  using rstrip_slash_prefix [of p s] by (auto simp: slash_variant_def)

lemma unmounted_unknown: "p \<in> set unmounted_prefixes \<Longrightarrow> \<not> known_path (p @ s)"
  by (auto simp: unmounted_prefixes_def API_PREFIX_def known_path_def serves_def pages_def)



text \<open>A newline at the end of a registered path is accepted, as the dollar sign matches before it.\<close>

lemma newline_matches:
  "route_request True deployed_routes ''GET'' (''/health'' @ [newline]) = Endpoint Health []"
  by code_simp

end
