(* ===== verification/HttpState.thy ===== *)
theory HttpState
  imports Prelude
begin

text \<open>
  The state machine of an HTTP/1.1 connection (h11/_state.py): the states of the two sides, the
  switch proposals and the keep-alive flag, the transitions that events trigger and those that joint
  states trigger.  The lemmas show that the loop of the latter needs one pass, that a connection is
  reused only when it may be, and that requests and responses come in pairs.
\<close>

section \<open>States, events and tables\<close>

datatype role = CLIENT | SERVER

datatype conn_state =
    IDLE | SEND_RESPONSE | SEND_BODY | DONE | MUST_CLOSE | CLOSED | ERROR
  | MIGHT_SWITCH_PROTOCOL | SWITCHED_PROTOCOL

datatype switch = SWITCH_UPGRADE | SWITCH_CONNECT

datatype event_type = Request | InformationalResponse | Response | Data | EndOfMessage | ConnectionClosed

text \<open>
  The keys of the table: an event class, a server event annotated with a switch, and the client's
  request as the server sees it.
\<close>

datatype event_key = Plain event_type | Annotated event_type switch | RequestSeen

type_synonym transitions = "(event_key \<times> conn_state) list"

text \<open>A state that is not a key of the table is a \<open>KeyError\<close>, as a missing event is.\<close>

fun EVENT_TRIGGERED_TRANSITIONS :: "role \<Rightarrow> conn_state \<Rightarrow> transitions" where
  "EVENT_TRIGGERED_TRANSITIONS CLIENT IDLE = [(Plain Request, SEND_BODY), (Plain ConnectionClosed, CLOSED)]"
| "EVENT_TRIGGERED_TRANSITIONS CLIENT SEND_BODY = [(Plain Data, SEND_BODY), (Plain EndOfMessage, DONE)]"
| "EVENT_TRIGGERED_TRANSITIONS CLIENT DONE = [(Plain ConnectionClosed, CLOSED)]"
| "EVENT_TRIGGERED_TRANSITIONS CLIENT MUST_CLOSE = [(Plain ConnectionClosed, CLOSED)]"
| "EVENT_TRIGGERED_TRANSITIONS CLIENT CLOSED = [(Plain ConnectionClosed, CLOSED)]"
| "EVENT_TRIGGERED_TRANSITIONS SERVER IDLE =
     [(Plain ConnectionClosed, CLOSED), (Plain Response, SEND_BODY), (RequestSeen, SEND_RESPONSE)]"
| "EVENT_TRIGGERED_TRANSITIONS SERVER SEND_RESPONSE =
     [(Plain InformationalResponse, SEND_RESPONSE), (Plain Response, SEND_BODY),
      (Annotated InformationalResponse SWITCH_UPGRADE, SWITCHED_PROTOCOL),
      (Annotated Response SWITCH_CONNECT, SWITCHED_PROTOCOL)]"
| "EVENT_TRIGGERED_TRANSITIONS SERVER SEND_BODY = [(Plain Data, SEND_BODY), (Plain EndOfMessage, DONE)]"
| "EVENT_TRIGGERED_TRANSITIONS SERVER DONE = [(Plain ConnectionClosed, CLOSED)]"
| "EVENT_TRIGGERED_TRANSITIONS SERVER MUST_CLOSE = [(Plain ConnectionClosed, CLOSED)]"
| "EVENT_TRIGGERED_TRANSITIONS SERVER CLOSED = [(Plain ConnectionClosed, CLOSED)]"
| "EVENT_TRIGGERED_TRANSITIONS _ _ = []"

definition STATE_TRIGGERED_TRANSITIONS :: "((conn_state \<times> conn_state) \<times> (role \<times> conn_state)) list" where
  "STATE_TRIGGERED_TRANSITIONS =
     [((MIGHT_SWITCH_PROTOCOL, SWITCHED_PROTOCOL), (CLIENT, SWITCHED_PROTOCOL)),
      ((CLOSED, DONE), (SERVER, MUST_CLOSE)),
      ((CLOSED, IDLE), (SERVER, MUST_CLOSE)),
      ((ERROR, DONE), (SERVER, MUST_CLOSE)),
      ((DONE, CLOSED), (CLIENT, MUST_CLOSE)),
      ((IDLE, CLOSED), (CLIENT, MUST_CLOSE)),
      ((DONE, ERROR), (CLIENT, MUST_CLOSE))]"

section \<open>ConnectionState\<close>

record connection_state =
  keep_alive :: bool
  pending_switch_proposals :: "switch set"
  client_state :: conn_state
  server_state :: conn_state

definition ConnectionState :: connection_state where
  "ConnectionState =
     \<lparr> keep_alive = True, pending_switch_proposals = {}, client_state = IDLE, server_state = IDLE \<rparr>"

fun state_of :: "role \<Rightarrow> connection_state \<Rightarrow> conn_state" where
  "state_of CLIENT s = client_state s"
| "state_of SERVER s = server_state s"

fun set_state :: "role \<Rightarrow> conn_state \<Rightarrow> connection_state \<Rightarrow> connection_state" where
  "set_state CLIENT st s = s\<lparr> client_state := st \<rparr>"
| "set_state SERVER st s = s\<lparr> server_state := st \<rparr>"

text \<open>The body of the loop of \<open>_fire_state_triggered_transitions\<close>, in its order.\<close>

definition offer_switch :: "connection_state \<Rightarrow> connection_state" where
  "offer_switch s =
     (if pending_switch_proposals s \<noteq> {} \<and> client_state s = DONE
      then set_state CLIENT MIGHT_SWITCH_PROTOCOL s else s)"

definition withdraw_switch :: "connection_state \<Rightarrow> connection_state" where
  "withdraw_switch s =
     (if pending_switch_proposals s = {} \<and> client_state s = MIGHT_SWITCH_PROTOCOL
      then set_state CLIENT DONE s else s)"

definition close_done :: "role \<Rightarrow> connection_state \<Rightarrow> connection_state" where
  "close_done role s = (if state_of role s = DONE then set_state role MUST_CLOSE s else s)"

definition enforce_close :: "connection_state \<Rightarrow> connection_state" where
  "enforce_close s = (if \<not> keep_alive s then close_done SERVER (close_done CLIENT s) else s)"

definition joint_transition :: "connection_state \<Rightarrow> connection_state" where
  "joint_transition s =
     (case map_of STATE_TRIGGERED_TRANSITIONS (client_state s, server_state s) of
        None \<Rightarrow> s | Some (role, st) \<Rightarrow> set_state role st s)"

definition fire_pass :: "connection_state \<Rightarrow> connection_state" where
  "fire_pass s = joint_transition (enforce_close (withdraw_switch (offer_switch s)))"

lemmas fire_defs = fire_pass_def offer_switch_def withdraw_switch_def enforce_close_def close_done_def
  joint_transition_def STATE_TRIGGERED_TRANSITIONS_def

lemma fire_pass_frame [simp]:
  "keep_alive (fire_pass s) = keep_alive s"
  "pending_switch_proposals (fire_pass s) = pending_switch_proposals s"
  by (auto simp: fire_defs)

lemma fire_pass_idem: "fire_pass (fire_pass s) = fire_pass s"
  by (cases "client_state s"; cases "server_state s"; cases "keep_alive s"; cases "pending_switch_proposals s = {}")
    (simp_all add: fire_defs)

text \<open>The loop; a pass that changes something is followed by one that does not.\<close>

function fire_state_triggered :: "connection_state \<Rightarrow> connection_state" where
  "fire_state_triggered s =
     (let s' = fire_pass s
      in if client_state s' = client_state s \<and> server_state s' = server_state s then s'
         else fire_state_triggered s')"
  by pat_completeness auto
termination
  by (relation "measure (\<lambda>s. if fire_pass s = s then 0 else 1)") (auto simp: fire_pass_idem)

text \<open>
  The termination proof is also the cost of the loop: it returns what one pass computes.
\<close>

declare fire_state_triggered.simps [simp del]

lemma fire_one_pass: "fire_state_triggered s = fire_pass s"
  by (simp add: fire_state_triggered.simps [of s] fire_state_triggered.simps [of "fire_pass s"]
      fire_pass_idem Let_def)

section \<open>Operations\<close>

definition process_error :: "role \<Rightarrow> (connection_state, unit) prog" where
  "process_error role = andThen (modS (set_state role ERROR)) (modS fire_state_triggered)"

definition process_keep_alive_disabled :: "(connection_state, unit) prog" where
  "process_keep_alive_disabled =
     andThen (modS (\<lambda>s. s\<lparr> keep_alive := False \<rparr>)) (modS fire_state_triggered)"

definition process_client_switch_proposal :: "switch \<Rightarrow> (connection_state, unit) prog" where
  "process_client_switch_proposal switch_event =
     andThen
       (modS (\<lambda>s. s\<lparr> pending_switch_proposals := insert switch_event (pending_switch_proposals s) \<rparr>))
       (modS fire_state_triggered)"

text \<open>
  A key that is a tuple has no \<open>__name__\<close>: composing the message of its error raises
  \<open>AttributeError\<close>.
\<close>

definition unexpected_event :: "event_key \<Rightarrow> exn" where
  "unexpected_event key =
     (case key of
        Plain _ \<Rightarrow> LocalProtocolError ''can't handle event type {} when role={} and state={}'' 400
      | _ \<Rightarrow> AttributeError ''__name__'')"

definition fire_event_triggered :: "role \<Rightarrow> event_key \<Rightarrow> (connection_state, unit) prog" where
  "fire_event_triggered role key =
     bindE (readS (\<lambda>s. map_of (EVENT_TRIGGERED_TRANSITIONS role (state_of role s)) key)) (\<lambda>new_state.
       case new_state of
         None \<Rightarrow> raise (unexpected_event key)
       | Some st \<Rightarrow> modS (set_state role st))"

definition process_event :: "role \<Rightarrow> event_type \<Rightarrow> switch option \<Rightarrow> (connection_state, unit) prog" where
  "process_event role event_type server_switch_event =
     bindE
       (case server_switch_event of
          None \<Rightarrow> ret (Plain event_type)
        | Some sw \<Rightarrow>
            if role \<noteq> SERVER then raise AssertionError
            else bindE (readS pending_switch_proposals) (\<lambda>pending.
              if sw \<notin> pending
              then raise (LocalProtocolError
                ''Received server _SWITCH_UPGRADE event without a pending proposal'' 400)
              else ret (Annotated event_type sw)))
       (\<lambda>key.
         andThen
           (if key = Plain Response then modS (\<lambda>s. s\<lparr> pending_switch_proposals := {} \<rparr>) else ret ())
         (andThen (fire_event_triggered role key)
         (andThen
           (if key = Plain Request
            then (if role = CLIENT then fire_event_triggered SERVER RequestSeen else raise AssertionError)
            else ret ())
           (modS fire_state_triggered))))"

definition start_next_cycle :: "(connection_state, unit) prog" where
  "start_next_cycle =
     bindE (readS id) (\<lambda>s.
       if client_state s \<noteq> DONE \<or> server_state s \<noteq> DONE
       then raise (LocalProtocolError ''not in a reusable state. self.states={}'' 400)
       else if \<not> keep_alive s then raise AssertionError
       else if pending_switch_proposals s \<noteq> {} then raise AssertionError
       else modS (\<lambda>s. s\<lparr> client_state := IDLE, server_state := IDLE \<rparr>))"

section \<open>Histories\<close>

text \<open>
  What a connection does with its state machine.  \<open>Emit\<close> is an event passing through it; when it
  raises, the connection marks the role that caused it with \<open>process_error\<close>.
\<close>

datatype state_op =
    Fail role | DisableKeepAlive | Propose switch | Emit role event_type "switch option" | NextCycle

fun run_op :: "state_op \<Rightarrow> (connection_state, unit) prog" where
  "run_op (Fail role) = process_error role"
| "run_op DisableKeepAlive = process_keep_alive_disabled"
| "run_op (Propose sw) = process_client_switch_proposal sw"
| "run_op (Emit role t sw) =
     tryExcept (process_event role t sw) (\<lambda>e. andThen (process_error role) (raise e))"
| "run_op NextCycle = start_next_cycle"

text \<open>The operations of a history that did not raise, and the state it ends in.\<close>

fun run_history :: "state_op list \<Rightarrow> connection_state \<Rightarrow> state_op list \<times> connection_state" where
  "run_history [] s = ([], s)"
| "run_history (x # xs) s =
     (case run_op x s of
        (Inl _, s') \<Rightarrow> run_history xs s'
      | (Inr _, s') \<Rightarrow> (case run_history xs s' of (done_ops, t) \<Rightarrow> (x # done_ops, t)))"

section \<open>Reuse\<close>

text \<open>
  What a pass leaves: a side that is done may be used again, and a client that is done proposes no
  switch.
\<close>

definition settled :: "connection_state \<Rightarrow> bool" where
  "settled s \<longleftrightarrow>
     (client_state s = DONE \<longrightarrow> keep_alive s \<and> pending_switch_proposals s = {}) \<and>
     (server_state s = DONE \<longrightarrow> keep_alive s)"

lemma joint_transition_target:
  "client_state (joint_transition s) \<in> {client_state s, MUST_CLOSE, SWITCHED_PROTOCOL}"
  "server_state (joint_transition s) \<in> {server_state s, MUST_CLOSE}"
  by (auto simp: joint_transition_def STATE_TRIGGERED_TRANSITIONS_def)

lemma joint_transition_frame [simp]:
  "keep_alive (joint_transition s) = keep_alive s"
  "pending_switch_proposals (joint_transition s) = pending_switch_proposals s"
  by (auto simp: joint_transition_def STATE_TRIGGERED_TRANSITIONS_def)

lemma settled_pass: "settled (fire_pass s)"
proof -
  let ?t = "enforce_close (withdraw_switch (offer_switch s))"
  have "settled ?t"
    by (auto simp: settled_def offer_switch_def withdraw_switch_def enforce_close_def close_done_def)
  then show ?thesis
    using joint_transition_target [of ?t] by (auto simp: settled_def fire_pass_def)
qed

lemma settled_init: "settled ConnectionState"
  by (simp add: settled_def ConnectionState_def)

text \<open>Every operation ends with the loop, or changes nothing, or begins a cycle.\<close>

lemma process_event_fires:
  "process_event role t sw s = (Inr u, s') \<Longrightarrow> \<exists>s0. s' = fire_pass s0"
  by (auto simp: process_event_def prog_defs fire_one_pass split: prod.splits sum.splits)

lemma start_next_cycle_run:
  "start_next_cycle s =
     (if client_state s \<noteq> DONE \<or> server_state s \<noteq> DONE
      then (Inl (LocalProtocolError ''not in a reusable state. self.states={}'' 400), s)
      else if keep_alive s \<and> pending_switch_proposals s = {}
      then (Inr (), s\<lparr> client_state := IDLE, server_state := IDLE \<rparr>) else (Inl AssertionError, s))"
  by (simp add: start_next_cycle_def)

lemma run_op_settled:
  assumes "settled s"
  shows "settled (snd (run_op x s))"
proof (cases x)
  case (Emit role t sw)
  show ?thesis
  proof (cases "process_event role t sw s")
    case (Pair r s')
    then show ?thesis
      using settled_pass process_event_fires [of role t sw s]
      by (cases r) (auto simp: Emit tryExcept_def process_error_def fire_one_pass)
  qed
next
  case NextCycle
  then show ?thesis using assms by (simp add: start_next_cycle_run) (simp add: settled_def)
qed (simp_all add: process_error_def process_keep_alive_disabled_def
    process_client_switch_proposal_def fire_one_pass settled_pass)

lemma run_history_state: "snd (run_history (x # xs) s) = snd (run_history xs (snd (run_op x s)))"
  by (simp split: prod.splits sum.splits)

lemma run_history_settled: "settled s \<Longrightarrow> settled (snd (run_history ops s))"
  by (induction ops arbitrary: s) (simp_all add: run_history_state run_op_settled del: run_history.simps(2))

section \<open>Requests and responses in pairs\<close>

text \<open>
  How often a message has been started and ended in the current cycle, by the state of its side.
\<close>

fun progress_in :: "conn_state \<Rightarrow> (int \<times> int) set" where
  "progress_in IDLE = {(0, 0)}"
| "progress_in SEND_RESPONSE = {(0, 0)}"
| "progress_in SEND_BODY = {(1, 0)}"
| "progress_in DONE = {(1, 1)}"
| "progress_in MIGHT_SWITCH_PROTOCOL = {(1, 1)}"
| "progress_in _ = {(0, 0), (1, 0), (1, 1)}"

definition occurrences :: "(state_op \<Rightarrow> bool) \<Rightarrow> state_op list \<Rightarrow> int" where
  "occurrences P ops = int (length (filter P ops))"

definition starts :: "role \<Rightarrow> state_op \<Rightarrow> bool" where
  "starts role x =
     (case x of Emit r t sw \<Rightarrow> r = role \<and> t = (if role = CLIENT then Request else Response) | _ \<Rightarrow> False)"

definition ends :: "role \<Rightarrow> state_op \<Rightarrow> bool" where
  "ends role x = (case x of Emit r t sw \<Rightarrow> r = role \<and> t = EndOfMessage | _ \<Rightarrow> False)"

definition cycles :: "state_op list \<Rightarrow> int" where
  "cycles ops = occurrences (\<lambda>x. x = NextCycle) ops"

definition exchange_inv :: "role \<Rightarrow> int \<Rightarrow> int \<Rightarrow> connection_state \<Rightarrow> bool" where
  "exchange_inv role b e s \<longleftrightarrow> (b, e) \<in> progress_in (state_of role s)"

lemma progress_bounds: "(b, e) \<in> progress_in st \<Longrightarrow> (b, e) \<in> progress_in ERROR"
  by (cases st) auto

lemma exchange_error: "exchange_inv role b e s \<Longrightarrow> exchange_inv role b e (set_state r ERROR s)"
  using progress_bounds [of b e "state_of role s"]
  by (cases role; cases r) (auto simp: exchange_inv_def)

lemma exchange_layers:
  assumes "exchange_inv role b e s"
  shows "exchange_inv role b e (offer_switch s)" "exchange_inv role b e (withdraw_switch s)"
    "exchange_inv role b e (close_done r s)"
    "exchange_inv role b e (joint_transition s)"
proof -
  show "exchange_inv role b e (offer_switch s)" "exchange_inv role b e (withdraw_switch s)"
    "exchange_inv role b e (close_done r s)"
    using assms by (cases role; cases r;
        auto simp: exchange_inv_def offer_switch_def withdraw_switch_def close_done_def)+
  show "exchange_inv role b e (joint_transition s)"
    using assms joint_transition_target [of s] progress_bounds [of b e "state_of role s"]
    by (cases role) (auto simp: exchange_inv_def)
qed

lemma exchange_pass: "exchange_inv role b e s \<Longrightarrow> exchange_inv role b e (fire_pass s)"
  by (simp add: fire_pass_def enforce_close_def exchange_layers)

text \<open>What a successful event does before the loop runs.\<close>

definition key_of :: "event_type \<Rightarrow> switch option \<Rightarrow> event_key" where
  "key_of t sw = (case sw of None \<Rightarrow> Plain t | Some x \<Rightarrow> Annotated t x)"

lemma key_of_simps [simp]: "key_of t None = Plain t" "key_of t (Some x) = Annotated t x"
  by (simp_all add: key_of_def)

fun other :: "role \<Rightarrow> role" where
  "other CLIENT = SERVER"
| "other SERVER = CLIENT"

lemma other_role: "role \<noteq> r \<Longrightarrow> role = other r"
  by (cases role; cases r) auto

lemma process_event_effect:
  assumes "process_event r t sw s = (Inr u, s')"
  obtains s0 st where "s' = fire_pass s0" "map_of (EVENT_TRIGGERED_TRANSITIONS r (state_of r s)) (key_of t sw) = Some st"
    "state_of r s0 = st" "r = CLIENT \<Longrightarrow> sw = None"
    "keep_alive s0 = keep_alive s"
    "state_of (other r) s0 = state_of (other r) s \<or>
       (r = CLIENT \<and> state_of (other r) s = IDLE \<and> state_of (other r) s0 = SEND_RESPONSE)"
proof -
  have other: "map_of (EVENT_TRIGGERED_TRANSITIONS SERVER st) RequestSeen = Some st' \<Longrightarrow> st = IDLE \<and> st' = SEND_RESPONSE" for st st'
    by (cases st) (auto split: if_splits)
  show ?thesis
  proof (cases r)
    case CLIENT
    then show ?thesis
      using assms that
      by (cases sw; cases "t = Request"; cases "t = Response")
        (auto simp: process_event_def fire_event_triggered_def prog_defs fire_one_pass
          split: option.splits dest!: other intro!: that)
  next
    case SERVER
    then show ?thesis
      using assms that
      by (cases sw; cases "t = Request"; cases "t = Response")
        (auto simp: process_event_def fire_event_triggered_def prog_defs fire_one_pass
          split: option.splits if_splits dest!: other intro!: that)
  qed
qed

lemma process_event_failed:
  "process_event r t sw s = (Inl e, s') \<Longrightarrow> state_of (other r) s' = state_of (other r) s"
  by (cases r) (auto simp: process_event_def fire_event_triggered_def prog_defs
      split: option.splits if_splits prod.splits sum.splits)

lemma table_counts:
  assumes "map_of (EVENT_TRIGGERED_TRANSITIONS role c) (key_of t sw) = Some c'"
    and "(b, e) \<in> progress_in c"
  shows "(b + of_bool (starts role (Emit role t sw)), e + of_bool (ends role (Emit role t sw))) \<in> progress_in c'"
  using assms by (cases role; cases c; cases sw) (auto simp: starts_def ends_def split: if_splits)

lemma emit_exchange:
  assumes "exchange_inv role b e s" and "run_op (Emit r t sw) s = (out, s')"
  shows "exchange_inv role (b + of_bool (\<not> isl out \<and> starts role (Emit r t sw)))
    (e + of_bool (\<not> isl out \<and> ends role (Emit r t sw))) s'"
proof (cases "process_event r t sw s")
  case (Pair p s1)
  show ?thesis
  proof (cases p)
    case (Inl x)
    have "exchange_inv role b e (set_state r ERROR s1)"
    proof (cases "role = r")
      case True
      then show ?thesis
        using assms(1) progress_bounds [of b e "state_of role s"]
        by (cases r) (auto simp: exchange_inv_def)
    next
      case False
      with process_event_failed [of r t sw s x s1] Pair Inl assms(1) show ?thesis
        by (cases r; cases role) (auto simp: exchange_inv_def)
    qed
    then show ?thesis
      using assms(2) Pair Inl by (auto simp: tryExcept_def process_error_def fire_one_pass exchange_pass)
  next
    case (Inr x)
    with Pair obtain s0 st where s0: "s1 = fire_pass s0"
        "map_of (EVENT_TRIGGERED_TRANSITIONS r (state_of r s)) (key_of t sw) = Some st" "state_of r s0 = st"
      and oth: "state_of (other r) s0 = state_of (other r) s \<or>
        (r = CLIENT \<and> state_of (other r) s = IDLE \<and> state_of (other r) s0 = SEND_RESPONSE)"
      by (auto elim: process_event_effect)
    have "exchange_inv role (b + of_bool (starts role (Emit r t sw))) (e + of_bool (ends role (Emit r t sw))) s0"
    proof (cases "role = r")
      case True
      then show ?thesis using table_counts [OF s0(2), of b e] assms(1) s0(3) by (simp add: exchange_inv_def)
    next
      case False
      then have "\<not> starts role (Emit r t sw)" "\<not> ends role (Emit r t sw)" by (auto simp: starts_def ends_def)
      with False oth assms(1) show ?thesis by (auto simp: exchange_inv_def other_role [OF False])
    qed
    then show ?thesis
      using assms(2) Pair Inr s0(1) by (auto simp: tryExcept_def exchange_pass)
  qed
qed

lemma run_op_exchange:
  assumes "exchange_inv role b e s" and "run_op x s = (out, s')"
  shows "exchange_inv role
    (b + of_bool (\<not> isl out \<and> starts role x) - of_bool (\<not> isl out \<and> x = NextCycle))
    (e + of_bool (\<not> isl out \<and> ends role x) - of_bool (\<not> isl out \<and> x = NextCycle)) s'"
proof (cases x)
  case (Emit r t sw)
  then show ?thesis using emit_exchange assms by simp
next
  case NextCycle
  then show ?thesis
    using assms by (cases role) (auto simp: start_next_cycle_run starts_def ends_def exchange_inv_def split: if_splits)
next
  case (Fail r)
  then show ?thesis
    using assms exchange_pass [OF exchange_error [OF assms(1), of r]]
    by (auto simp: process_error_def fire_one_pass starts_def ends_def)
next
  case DisableKeepAlive
  have "exchange_inv role b e (s\<lparr> keep_alive := False \<rparr>)"
    using assms(1) by (cases role) (auto simp: exchange_inv_def)
  with DisableKeepAlive show ?thesis
    using assms(2) by (auto simp: process_keep_alive_disabled_def fire_one_pass starts_def ends_def exchange_pass)
next
  case (Propose sw)
  have "exchange_inv role b e (s\<lparr> pending_switch_proposals := insert sw (pending_switch_proposals s) \<rparr>)"
    using assms(1) by (cases role) (auto simp: exchange_inv_def)
  with Propose show ?thesis
    using assms(2) by (auto simp: process_client_switch_proposal_def fire_one_pass starts_def ends_def exchange_pass)
qed

lemma occurrences_simps [simp]:
  "occurrences P [] = 0" "occurrences P (x # xs) = of_bool (P x) + occurrences P xs"
  by (simp_all add: occurrences_def)

lemma history_exchange:
  assumes "exchange_inv role b e s" and "run_history ops s = (ok, s')"
  shows "exchange_inv role (b + occurrences (starts role) ok - cycles ok)
    (e + occurrences (ends role) ok - cycles ok) s'"
  using assms
proof (induction ops arbitrary: s b e ok)
  case (Cons x xs)
  obtain out s1 where x: "run_op x s = (out, s1)" by (cases "run_op x s")
  obtain ok1 where rest: "run_history xs s1 = (ok1, s')" and ok: "ok = (if isl out then ok1 else x # ok1)"
    using Cons.prems(2) x by (auto split: prod.splits sum.splits)
  have "exchange_inv role
    (b + of_bool (\<not> isl out \<and> starts role x) - of_bool (\<not> isl out \<and> x = NextCycle))
    (e + of_bool (\<not> isl out \<and> ends role x) - of_bool (\<not> isl out \<and> x = NextCycle)) s1"
    by (rule run_op_exchange [OF Cons.prems(1) x])
  from Cons.IH [OF this rest] show ?case by (cases "isl out") (simp_all add: ok cycles_def algebra_simps)
qed (simp add: cycles_def)

lemma exchange_init: "exchange_inv role 0 0 ConnectionState"
  by (cases role) (simp_all add: exchange_inv_def ConnectionState_def)

section \<open>Closing\<close>

text \<open>A connection that is to close: keep-alive is off, or one side has failed.\<close>

definition doomed :: "connection_state \<Rightarrow> bool" where
  "doomed s \<longleftrightarrow> \<not> keep_alive s \<or> client_state s = ERROR \<or> server_state s = ERROR"

lemma doomed_pass: "doomed s \<Longrightarrow> doomed (fire_pass s)"
proof -
  have "client_state s = ERROR \<Longrightarrow> client_state (fire_pass s) = ERROR"
    "server_state s = ERROR \<Longrightarrow> server_state (fire_pass s) = ERROR"
    by (auto simp: fire_defs)
  then show "doomed s \<Longrightarrow> doomed (fire_pass s)" by (auto simp: doomed_def)
qed

lemma doomed_error: "doomed (set_state role ERROR s)"
  by (cases role) (simp_all add: doomed_def)

lemma doomed_op:
  assumes "doomed s" and "settled s"
  shows "doomed (snd (run_op x s)) \<and> (x = NextCycle \<longrightarrow> isl (fst (run_op x s)))"
proof (cases x)
  case (Emit role t sw)
  show ?thesis
  proof (cases "process_event role t sw s")
    case (Pair p s1)
    show ?thesis
    proof (cases p)
      case (Inl e)
      then show ?thesis
        using Pair doomed_pass [OF doomed_error]
        by (simp add: Emit tryExcept_def process_error_def fire_one_pass)
    next
      case (Inr u)
      with Pair obtain s0 st where s0: "s1 = fire_pass s0"
          "map_of (EVENT_TRIGGERED_TRANSITIONS role (state_of role s)) (key_of t sw) = Some st"
          "keep_alive s0 = keep_alive s"
        and oth: "state_of (other role) s0 = state_of (other role) s \<or> state_of (other role) s = IDLE"
        by (auto elim: process_event_effect)
      have "state_of role s \<noteq> ERROR" using s0(2) by (cases role) auto
      then have "doomed s0" using assms(1) oth s0(3) by (cases role) (auto simp: doomed_def)
      then show ?thesis using Pair Inr s0(1) by (simp add: Emit tryExcept_def doomed_pass)
    qed
  qed
next
  case NextCycle
  then show ?thesis using assms by (auto simp: start_next_cycle_run doomed_def settled_def)
next
  case (Fail role)
  then show ?thesis by (simp add: process_error_def fire_one_pass doomed_pass doomed_error)
next
  case DisableKeepAlive
  then show ?thesis by (simp add: process_keep_alive_disabled_def fire_one_pass doomed_pass doomed_def)
next
  case (Propose sw)
  have "doomed (s\<lparr> pending_switch_proposals := insert sw (pending_switch_proposals s) \<rparr>)"
    using assms(1) by (simp add: doomed_def)
  with Propose show ?thesis
    by (simp add: process_client_switch_proposal_def fire_one_pass doomed_pass)
qed

lemma doomed_history:
  "doomed s \<Longrightarrow> settled s \<Longrightarrow> cycles (fst (run_history ops s)) = 0"
proof (induction ops arbitrary: s)
  case (Cons x xs)
  have "cycles (fst (run_history xs (snd (run_op x s)))) = 0"
    using Cons.IH doomed_op [OF Cons.prems, of x] run_op_settled [OF Cons.prems(2), of x] by blast
  then show ?case using doomed_op [OF Cons.prems, of x]
    by (auto simp: cycles_def split: prod.splits sum.splits)
qed (simp add: cycles_def)

lemma doomed_throughout: "doomed s \<Longrightarrow> settled s \<Longrightarrow> doomed (snd (run_history ops s))"
  by (induction ops arbitrary: s)
    (simp_all add: run_history_state run_op_settled doomed_op del: run_history.simps(2))

lemma run_history_append:
  "run_history (xs @ ys) s =
     (let (ok, t) = run_history xs s; (ok', t') = run_history ys t in (ok @ ok', t'))"
  by (induction xs arbitrary: s) (auto simp: Let_def split: prod.splits sum.splits)

lemma occurrences_append [simp]: "occurrences P (xs @ ys) = occurrences P xs + occurrences P ys"
  by (simp add: occurrences_def)

text \<open>The operations after which a connection is to close: those that fail a side or refuse keep-alive.\<close>

definition dooms :: "state_op \<Rightarrow> connection_state \<Rightarrow> bool" where
  "dooms x s \<longleftrightarrow>
     (case x of Fail _ \<Rightarrow> True | DisableKeepAlive \<Rightarrow> True | Emit _ _ _ \<Rightarrow> isl (fst (run_op x s)) | _ \<Rightarrow> False)"

lemma dooms_op: "dooms x s \<Longrightarrow> doomed (snd (run_op x s))"
  by (cases x) (auto simp: dooms_def process_error_def process_keep_alive_disabled_def fire_one_pass
      doomed_pass doomed_error doomed_def [of "s\<lparr>keep_alive := False\<rparr>"] tryExcept_def
      split: prod.splits sum.splits)

text \<open>
  C31: Requests and responses come in pairs.  Whatever a connection does, in any order, with any of
  it failing: after \<open>n\<close> completed cycles each side has started and ended \<open>n\<close> messages, apart from at
  most one it has begun in the current cycle; a side that is idle has begun none, and a side that is
  done has ended it.
\<close>

theorem exchanges_paired:
  assumes "run_history ops ConnectionState = (ok, s)"
  shows "cycles ok \<le> occurrences (ends role) ok \<and>
    occurrences (ends role) ok \<le> occurrences (starts role) ok \<and>
    occurrences (starts role) ok \<le> cycles ok + 1 \<and>
    (state_of role s = IDLE \<longrightarrow> occurrences (starts role) ok = cycles ok) \<and>
    (state_of role s = DONE \<longrightarrow> occurrences (ends role) ok = cycles ok + 1)"
proof -
  have "exchange_inv role (occurrences (starts role) ok - cycles ok) (occurrences (ends role) ok - cycles ok) s"
    using history_exchange [OF exchange_init assms] by simp
  then show ?thesis
    using progress_bounds [of _ _ "state_of role s"] by (fastforce simp: exchange_inv_def)
qed

theorem exchanges_paired_witness:
  "fst (run_history [Emit CLIENT Request None, Emit CLIENT EndOfMessage None, NextCycle, Emit SERVER Response None,
      Emit SERVER EndOfMessage None, NextCycle, Emit CLIENT Request None, Emit CLIENT Request None] ConnectionState) =
     [Emit CLIENT Request None, Emit CLIENT EndOfMessage None, Emit SERVER Response None,
      Emit SERVER EndOfMessage None, NextCycle, Emit CLIENT Request None] \<and>
   (\<exists>ok s. run_history [Emit CLIENT Request None, Emit CLIENT EndOfMessage None] ConnectionState = (ok, s) \<and>
     occurrences (ends CLIENT) ok = cycles ok + 1)"
proof -
  have run: "run_history [Emit CLIENT Request None, Emit CLIENT EndOfMessage None] ConnectionState =
      ([Emit CLIENT Request None, Emit CLIENT EndOfMessage None],
       \<lparr> keep_alive = True, pending_switch_proposals = {}, client_state = DONE, server_state = SEND_RESPONSE \<rparr>)"
    by code_simp
  from exchanges_paired [OF run, of CLIENT]
  have "occurrences (ends CLIENT) [Emit CLIENT Request None, Emit CLIENT EndOfMessage None] =
      cycles [Emit CLIENT Request None, Emit CLIENT EndOfMessage None] + 1" by simp
  with run show ?thesis by (intro conjI exI) (code_simp | assumption)+
qed

text \<open>
  C27: A connection is reused exactly when it may be.  After any history, \<open>start_next_cycle\<close> begins a
  cycle if both sides are done and is a protocol error otherwise (its two assertions never fail); and
  once keep-alive has been refused or an operation has failed a side, no later operation begins
  another cycle.
\<close>

theorem reuse_decided:
  assumes "run_history (before @ after) ConnectionState = (ok, s)"
  shows "start_next_cycle s =
      (if client_state s = DONE \<and> server_state s = DONE
       then (Inr (), s\<lparr> client_state := IDLE, server_state := IDLE \<rparr>)
       else (Inl (LocalProtocolError ''not in a reusable state. self.states={}'' 400), s)) \<and>
    (after \<noteq> [] \<and> dooms (hd after) (snd (run_history before ConnectionState)) \<longrightarrow>
       cycles ok = cycles (fst (run_history before ConnectionState)) \<and>
       (client_state s \<noteq> DONE \<or> server_state s \<noteq> DONE))"
proof -
  obtain ok1 s1 where first: "run_history before ConnectionState = (ok1, s1)" by fastforce
  have s1: "settled s1" using run_history_settled [OF settled_init, of before] first by simp
  obtain ok2 where rest: "run_history after s1 = (ok2, s)" and ok: "ok = ok1 @ ok2"
    using assms first by (auto simp: run_history_append Let_def split: prod.splits)
  have s: "settled s" using run_history_settled [OF s1, of after] rest by simp
  have "cycles ok2 = 0 \<and> (client_state s \<noteq> DONE \<or> server_state s \<noteq> DONE)"
    if nonempty: "after \<noteq> []" and closing: "dooms (hd after) s1"
  proof -
    obtain x xs where xs: "after = x # xs" using nonempty by (cases after) auto
    let ?s2 = "snd (run_op x s1)"
    have s2: "doomed ?s2" "settled ?s2" using closing xs dooms_op run_op_settled [OF s1] by simp_all
    have "x \<noteq> NextCycle" using closing xs by (auto simp: dooms_def)
    then have "cycles ok2 = 0"
      using doomed_history [OF s2, of xs] rest
      by (auto simp: xs cycles_def split: prod.splits sum.splits)
    moreover have "doomed s"
      using doomed_throughout [OF s2, of xs] rest run_history_state [of x xs s1] by (simp add: xs)
    ultimately show ?thesis using s by (auto simp: doomed_def settled_def)
  qed
  then show ?thesis
    using s by (auto simp: start_next_cycle_run settled_def first ok cycles_def)
qed

theorem reuse_decided_witness:
  "\<exists>ok s. run_history ([Emit CLIENT Request None, DisableKeepAlive] @
       [Emit SERVER Data None, Emit CLIENT EndOfMessage None, NextCycle]) ConnectionState = (ok, s) \<and>
     client_state s = MUST_CLOSE \<and> cycles ok = 0 \<and>
     start_next_cycle s = (Inl (LocalProtocolError ''not in a reusable state. self.states={}'' 400), s)"
proof -
  let ?before = "[Emit CLIENT Request None, DisableKeepAlive]"
  let ?after = "[Emit SERVER Data None, Emit CLIENT EndOfMessage None, NextCycle]"
  let ?s = "\<lparr> keep_alive = False, pending_switch_proposals = {}, client_state = MUST_CLOSE, server_state = ERROR \<rparr>"
  have run: "run_history (?before @ ?after) ConnectionState =
      ([Emit CLIENT Request None, DisableKeepAlive, Emit CLIENT EndOfMessage None], ?s)" by code_simp
  have "dooms (hd ?after) (snd (run_history ?before ConnectionState))"
    "cycles (fst (run_history ?before ConnectionState)) = 0" by code_simp+
  with reuse_decided [OF run] run show ?thesis by (intro exI conjI) (assumption | simp)+
qed

text \<open>
  A response before the request leaves the server's side busy: the request that comes then is not
  the protocol error the code means to raise.
\<close>

lemma early_response:
  "fst (run_op (Emit CLIENT Request None) (snd (run_history [Emit SERVER Response None] ConnectionState))) =
     Inl (AttributeError ''__name__'')"
  by code_simp

end
