(* ===== verification/HttpHeaders.thy ===== *)
theory HttpHeaders
  imports HttpState PyValues
begin

text \<open>
  The headers of HTTP messages (h11/_headers.py, the expressions of h11/_abnf.py they are checked
  with, the event classes of h11/_events.py) and the two decisions _connection.py takes from them:
  how the body of a message is framed and whether the connection stays open.  Names and values are
  byte strings, as uvicorn passes them.
\<close>

section \<open>Bytes\<close>

definition ascii_lower_char :: "char \<Rightarrow> char" where
  "ascii_lower_char c = (let n = of_char c :: nat in if 65 \<le> n \<and> n \<le> 90 then char_of (n + 32) else c)"

definition ascii_upper_char :: "char \<Rightarrow> char" where
  "ascii_upper_char c = (let n = of_char c :: nat in if 97 \<le> n \<and> n \<le> 122 then char_of (n - 32) else c)"

definition bytes_lower :: "string \<Rightarrow> string" where
  "bytes_lower s = map ascii_lower_char s"

definition is_letter :: "char \<Rightarrow> bool" where
  "is_letter c \<longleftrightarrow> (let n = of_char c :: nat in 65 \<le> n \<and> n \<le> 90 \<or> 97 \<le> n \<and> n \<le> 122)"

text \<open>\<open>s.title()\<close>: a letter is a capital after anything but a letter.\<close>

fun title_from :: "bool \<Rightarrow> string \<Rightarrow> string" where
  "title_from inside [] = []"
| "title_from inside (c # s) =
     (if inside then ascii_lower_char c else ascii_upper_char c) # title_from (is_letter c) s"

definition bytes_title :: "string \<Rightarrow> string" where
  "bytes_title s = title_from False s"

definition bytes_space :: "char \<Rightarrow> bool" where
  "bytes_space c \<longleftrightarrow> (let n = of_char c :: nat in 9 \<le> n \<and> n \<le> 13 \<or> n = 32)"

definition bytes_strip :: "string \<Rightarrow> string" where
  "bytes_strip s = rev (dropWhile bytes_space (rev (dropWhile bytes_space s)))"

section \<open>The expressions of _abnf.py\<close>

text \<open>
  Each is matched as a whole.  White space of a bytes pattern is that of \<open>bytes_space\<close>.
\<close>

definition is_tchar :: "char \<Rightarrow> bool" where
  "is_tchar c \<longleftrightarrow> is_letter c \<or> is_digit c \<or> c \<in> set ''-!#$%&'' \<or> c = CHR 0x27 \<or> c \<in> set ''*+.^_`|~''"

definition token_re :: "string \<Rightarrow> bool" where
  "token_re s \<longleftrightarrow> s \<noteq> [] \<and> list_all is_tchar s"

definition is_ows :: "char \<Rightarrow> bool" where
  "is_ows c \<longleftrightarrow> c = CHR '' '' \<or> c = CHR 0x09"

definition field_vchar :: "char \<Rightarrow> bool" where
  "field_vchar c \<longleftrightarrow> c \<noteq> CHR 0x00 \<and> \<not> bytes_space c"

definition vchar :: "char \<Rightarrow> bool" where
  "vchar c \<longleftrightarrow> (let n = of_char c :: nat in 0x21 \<le> n \<and> n \<le> 0x7E)"

text \<open>Runs of visible characters with blanks between them, or nothing.\<close>

definition field_value_re :: "string \<Rightarrow> bool" where
  "field_value_re s \<longleftrightarrow>
     s = [] \<or> field_vchar (hd s) \<and> field_vchar (last s) \<and> list_all (\<lambda>c. field_vchar c \<or> is_ows c) s"

definition content_length_re :: "string \<Rightarrow> bool" where
  "content_length_re s \<longleftrightarrow> s \<noteq> [] \<and> list_all is_digit s"

definition request_target_re :: "string \<Rightarrow> bool" where
  "request_target_re s \<longleftrightarrow> s \<noteq> [] \<and> list_all vchar s"

definition validate :: "bool \<Rightarrow> string \<Rightarrow> unit result" where
  "validate matches msg = (if matches then Inr () else Inl (LocalProtocolError msg 400))"

section \<open>Headers\<close>

text \<open>The name as it was written, the name in lower case and the value.\<close>

type_synonym full_headers = "(string \<times> string \<times> string) list"

definition CONTENT_LENGTH_MAX_DIGITS :: nat where
  "CONTENT_LENGTH_MAX_DIGITS = 20"

text \<open>The one length a Content-Length value states.\<close>

definition stated_length :: "string \<Rightarrow> string result" where
  "stated_length value =
     (case remdups (map bytes_strip (split_on (CHR '','') value)) of
        [l] \<Rightarrow>
          if \<not> content_length_re l \<or> CONTENT_LENGTH_MAX_DIGITS < length l
          then Inl (LocalProtocolError ''bad Content-Length'' 400) else Inr l
      | _ \<Rightarrow> Inl (LocalProtocolError ''conflicting Content-Length headers'' 400))"

definition check_header :: "bool \<Rightarrow> string \<Rightarrow> string \<Rightarrow> unit result" where
  "check_header parsed name value =
     (if parsed then Inr ()
      else if \<not> token_re name then Inl (LocalProtocolError ''Illegal header name {!r}'' 400)
      else validate (field_value_re value) ''Illegal header value {!r}'')"

text \<open>
  The loop of \<open>normalize_and_validate\<close>, with its two variables \<open>seen_content_length\<close> and
  \<open>saw_transfer_encoding\<close>.
\<close>

fun normalize_loop :: "bool \<Rightarrow> string option \<Rightarrow> bool \<Rightarrow> (string \<times> string) list \<Rightarrow> full_headers result" where
  "normalize_loop parsed seen saw [] = Inr []"
| "normalize_loop parsed seen saw ((raw_name, value) # rest) =
     (case check_header parsed raw_name value of
        Inl e \<Rightarrow> Inl e
      | Inr _ \<Rightarrow>
          (let name = bytes_lower raw_name
           in if name = ''content-length''
              then (case stated_length value of
                  Inl e \<Rightarrow> Inl e
                | Inr l \<Rightarrow>
                    (case seen of
                       None \<Rightarrow> map_sum id ((#) (raw_name, name, l)) (normalize_loop parsed (Some l) saw rest)
                     | Some l' \<Rightarrow>
                         if l' \<noteq> l then Inl (LocalProtocolError ''conflicting Content-Length headers'' 400)
                         else normalize_loop parsed seen saw rest))
              else if name = ''transfer-encoding''
              then (if saw then Inl (LocalProtocolError ''multiple Transfer-Encoding headers'' 501)
                    else if bytes_lower value \<noteq> ''chunked''
                    then Inl (LocalProtocolError ''Only Transfer-Encoding: chunked is supported'' 501)
                    else map_sum id ((#) (raw_name, name, bytes_lower value)) (normalize_loop parsed seen True rest))
              else map_sum id ((#) (raw_name, name, value)) (normalize_loop parsed seen saw rest)))"

definition normalize_and_validate :: "bool \<Rightarrow> (string \<times> string) list \<Rightarrow> full_headers result" where
  "normalize_and_validate parsed headers = normalize_loop parsed None False headers"

definition comma_values :: "string \<Rightarrow> string list" where
  "comma_values value = filter (\<lambda>x. x \<noteq> []) (map bytes_strip (split_on (CHR '','') (bytes_lower value)))"

definition get_comma_header :: "full_headers \<Rightarrow> string \<Rightarrow> string list" where
  "get_comma_header headers name =
     concat (map (\<lambda>(_, found_name, value). if found_name = name then comma_values value else []) headers)"

definition set_comma_header :: "full_headers \<Rightarrow> string \<Rightarrow> string list \<Rightarrow> full_headers result" where
  "set_comma_header headers name new_values =
     normalize_and_validate False
       (map (\<lambda>(raw_name, _, value). (raw_name, value)) (filter (\<lambda>(_, found_name, _). found_name \<noteq> name) headers)
        @ map (\<lambda>new_value. (bytes_title name, new_value)) new_values)"

section \<open>Events\<close>

record http_request =
  rq_method :: string
  rq_target :: string
  rq_headers :: full_headers
  rq_http_version :: string

record http_response =
  rs_status_code :: int
  rs_headers :: full_headers
  rs_http_version :: string
  rs_reason :: string

datatype http_event =
    RequestEvent http_request
  | InformationalEvent http_response
  | ResponseEvent http_response
  | DataEvent string bool bool
  | EndEvent full_headers
  | ClosedEvent

fun type_of_event :: "http_event \<Rightarrow> event_type" where
  "type_of_event (RequestEvent _) = Request"
| "type_of_event (InformationalEvent _) = InformationalResponse"
| "type_of_event (ResponseEvent _) = Response"
| "type_of_event (DataEvent _ _ _) = Data"
| "type_of_event (EndEvent _) = EndOfMessage"
| "type_of_event ClosedEvent = ConnectionClosed"

text \<open>The constructors of the event classes.\<close>

definition make_request :: "bool \<Rightarrow> string \<Rightarrow> string \<Rightarrow> (string \<times> string) list \<Rightarrow> string \<Rightarrow> http_event result" where
  "make_request parsed method target headers http_version =
     (case normalize_and_validate parsed headers of
        Inl e \<Rightarrow> Inl e
      | Inr hs \<Rightarrow>
          (let host_count = length (filter (\<lambda>(_, name, _). name = ''host'') hs)
           in if http_version = ''1.1'' \<and> host_count = 0
              then Inl (LocalProtocolError ''Missing mandatory Host: header'' 400)
              else if host_count > 1 then Inl (LocalProtocolError ''Found multiple Host: headers'' 400)
              else if \<not> token_re method then Inl (LocalProtocolError ''Illegal method characters'' 400)
              else if \<not> request_target_re target then Inl (LocalProtocolError ''Illegal target characters'' 400)
              else Inr (RequestEvent \<lparr> rq_method = method, rq_target = target, rq_headers = hs,
                  rq_http_version = http_version \<rparr>)))"

definition make_informational :: "http_response \<Rightarrow> http_event result" where
  "make_informational r =
     (if 100 \<le> rs_status_code r \<and> rs_status_code r < 200 then Inr (InformationalEvent r)
      else Inl (LocalProtocolError
        ''InformationalResponse status_code should be in range [100, 200), not {}'' 400))"

definition make_response :: "http_response \<Rightarrow> http_event result" where
  "make_response r =
     (if 200 \<le> rs_status_code r \<and> rs_status_code r < 1000 then Inr (ResponseEvent r)
      else Inl (LocalProtocolError ''Response status_code should be in range [200, 1000), not {}'' 400))"

section \<open>Keep-alive, 100-continue and the framing of the body\<close>

fun event_headers :: "http_event \<Rightarrow> full_headers" where
  "event_headers (RequestEvent r) = rq_headers r"
| "event_headers (InformationalEvent r) = rs_headers r"
| "event_headers (ResponseEvent r) = rs_headers r"
| "event_headers (EndEvent hs) = hs"
| "event_headers _ = []"

fun event_version :: "http_event \<Rightarrow> string" where
  "event_version (RequestEvent r) = rq_http_version r"
| "event_version (InformationalEvent r) = rs_http_version r"
| "event_version (ResponseEvent r) = rs_http_version r"
| "event_version _ = ''1.1''"

definition wants_keep_alive :: "http_event \<Rightarrow> bool" where
  "wants_keep_alive event \<longleftrightarrow>
     ''close'' \<notin> set (get_comma_header (event_headers event) ''connection'') \<and>
     \<not> event_version event < ''1.1''"

definition has_expect_100_continue :: "http_request \<Rightarrow> bool" where
  "has_expect_100_continue request \<longleftrightarrow>
     \<not> rq_http_version request < ''1.1'' \<and>
     ''100-continue'' \<in> set (get_comma_header (rq_headers request) ''expect'')"

datatype framing = ContentLength int | Chunked | Http10

text \<open>The responses without a body.\<close>

definition bodiless :: "string option \<Rightarrow> http_response \<Rightarrow> bool" where
  "bodiless request_method r \<longleftrightarrow>
     rs_status_code r \<in> {204, 304} \<or> request_method = Some ''HEAD'' \<or>
     request_method = Some ''CONNECT'' \<and> 200 \<le> rs_status_code r \<and> rs_status_code r < 300"

definition framing_from_headers :: "full_headers \<Rightarrow> framing \<Rightarrow> framing result" where
  "framing_from_headers headers fallback =
     (let transfer_encodings = get_comma_header headers ''transfer-encoding'';
          content_lengths = get_comma_header headers ''content-length''
      in if transfer_encodings \<noteq> []
         then (if transfer_encodings = [''chunked''] then Inr Chunked else Inl AssertionError)
         else if content_lengths \<noteq> [] then map_sum id ContentLength (parse_int (hd content_lengths))
         else Inr fallback)"

definition body_framing :: "string option \<Rightarrow> http_event \<Rightarrow> framing result" where
  "body_framing request_method event =
     (case event of
        ResponseEvent r \<Rightarrow>
          if bodiless request_method r then Inr (ContentLength 0)
          else if rs_status_code r < 200 then Inl AssertionError
          else framing_from_headers (rs_headers r) Http10
      | RequestEvent r \<Rightarrow> framing_from_headers (rq_headers r) (ContentLength 0)
      | _ \<Rightarrow> Inl AssertionError)"

section \<open>Unambiguous framing\<close>

text \<open>The lengths the Content-Length fields of a message state, in order.\<close>

definition length_texts :: "string \<Rightarrow> string list" where
  "length_texts value = map bytes_strip (split_on (CHR '','') value)"

fun stated_lengths :: "(string \<times> string) list \<Rightarrow> string list" where
  "stated_lengths [] = []"
| "stated_lengths ((name, value) # rest) =
     (if bytes_lower name = ''content-length'' then length_texts value else []) @ stated_lengths rest"

definition has_field :: "string \<Rightarrow> (string \<times> string) list \<Rightarrow> bool" where
  "has_field name raw \<longleftrightarrow> name \<in> set (map (bytes_lower \<circ> fst) raw)"

lemma has_field_simps [simp]:
  "\<not> has_field name []"
  "has_field name ((n, v) # rest) \<longleftrightarrow> bytes_lower n = name \<or> has_field name rest"
  by (auto simp: has_field_def)

lemma digit_plain:
  assumes "is_digit c"
  shows "ascii_lower_char c = c" "\<not> bytes_space c" "c \<noteq> CHR '',''"
  using assms by (auto simp: is_digit_def ascii_lower_char_def bytes_space_def Let_def)

lemma strip_plain: "list_all (\<lambda>c. \<not> bytes_space c) s \<Longrightarrow> bytes_strip s = s"
proof -
  assume all: "list_all (\<lambda>c. \<not> bytes_space c) s"
  then have "dropWhile bytes_space s = s" by (cases s) auto
  moreover have "dropWhile bytes_space (rev s) = rev s"
    using all by (cases "rev s") (auto simp: list_all_iff dest: arg_cong [of _ _ rev])
  ultimately show "bytes_strip s = s" by (simp add: bytes_strip_def)
qed

lemma comma_values_digits: "content_length_re l \<Longrightarrow> comma_values l = [l]"
proof -
  assume l: "content_length_re l"
  then have digits: "list_all is_digit l" "l \<noteq> []" by (simp_all add: content_length_re_def)
  have "bytes_lower l = l"
    using digits(1) by (auto simp: bytes_lower_def list_all_iff digit_plain intro!: map_idI)
  moreover have "split_on (CHR '','') l = [l]"
    using digits(1) by (intro split_on_notin) (auto simp: list_all_iff dest: digit_plain)
  moreover have "bytes_strip l = l"
    using digits(1) by (intro strip_plain) (auto simp: list_all_iff dest: digit_plain)
  ultimately show ?thesis using digits(2) by (simp add: comma_values_def)
qed

lemma remdups_single: "remdups xs = [x] \<Longrightarrow> xs \<noteq> [] \<and> hd xs = x \<and> (\<forall>y \<in> set xs. y = x)"
proof -
  assume r: "remdups xs = [x]"
  then have "set xs = {x}" using set_remdups [of xs] by simp
  then show ?thesis by (cases xs) auto
qed

lemma stated_length_Inr:
  "stated_length value = Inr l \<Longrightarrow> content_length_re l \<and> length l \<le> 20 \<and>
     length_texts value \<noteq> [] \<and> (\<forall>y \<in> set (length_texts value). y = l) \<and> hd (length_texts value) = l"
  using remdups_single [of "length_texts value" l]
  by (auto simp: stated_length_def length_texts_def CONTENT_LENGTH_MAX_DIGITS_def split: list.splits if_splits)

lemma get_comma_simps [simp]:
  "get_comma_header [] name = []"
  "get_comma_header ((raw, n, v) # hs) name = (if n = name then comma_values v else []) @ get_comma_header hs name"
  by (simp_all add: get_comma_header_def)

lemma comma_values_chunked: "comma_values ''chunked'' = [''chunked'']"
  by code_simp

lemma map_sum_Inr: "map_sum id f r = Inr y \<longleftrightarrow> (\<exists>x. r = Inr x \<and> y = f x)"
  by (cases r) auto

lemma normalize_framing:
  assumes "normalize_loop parsed seen saw raw = Inr hs"
  shows "get_comma_header hs ''transfer-encoding'' =
      (if has_field ''transfer-encoding'' raw then [''chunked''] else []) \<and>
    (saw \<longrightarrow> \<not> has_field ''transfer-encoding'' raw) \<and>
    get_comma_header hs ''content-length'' =
      (if seen = None \<and> stated_lengths raw \<noteq> [] then [hd (stated_lengths raw)] else []) \<and>
    (\<forall>l \<in> set (stated_lengths raw). content_length_re l \<and> length l \<le> 20 \<and>
       l = (case seen of Some l' \<Rightarrow> l' | None \<Rightarrow> hd (stated_lengths raw)))"
  using assms
proof (induction raw arbitrary: seen saw hs)
  case (Cons h rest)
  obtain raw_name v where h: "h = (raw_name, v)" by (cases h)
  let ?name = "bytes_lower raw_name"
  consider (length) "?name = ''content-length''" | (coding) "?name = ''transfer-encoding''"
    | (other) "?name \<noteq> ''content-length''" "?name \<noteq> ''transfer-encoding''" by blast
  then show ?case
  proof cases
    case length
    obtain l where l: "stated_length v = Inr l"
      using Cons.prems length by (auto simp: h Let_def split: sum.splits)
    note sl = stated_length_Inr [OF l]
    show ?thesis
    proof (cases seen)
      case None
      obtain hs' where "normalize_loop parsed (Some l) saw rest = Inr hs'" "hs = (raw_name, ?name, l) # hs'"
        using Cons.prems length l None by (auto simp: h Let_def map_sum_Inr split: sum.splits)
      with Cons.IH [of "Some l" saw hs'] sl None length show ?thesis
        by (auto simp: h comma_values_digits)
    next
      case (Some l')
      then have "l' = l" "normalize_loop parsed seen saw rest = Inr hs"
        using Cons.prems length l by (auto simp: h Let_def split: sum.splits if_splits)
      with Cons.IH [of seen saw hs] sl Some length show ?thesis by (auto simp: h)
    qed
  next
    case coding
    obtain hs' where "normalize_loop parsed seen True rest = Inr hs'" "hs = (raw_name, ?name, ''chunked'') # hs'" "\<not> saw"
      using Cons.prems coding by (auto simp: h Let_def map_sum_Inr split: sum.splits if_splits)
    with Cons.IH [of seen True hs'] coding show ?thesis by (auto simp: h comma_values_chunked)
  next
    case other
    obtain hs' where "normalize_loop parsed seen saw rest = Inr hs'" "hs = (raw_name, ?name, v) # hs'"
      using Cons.prems other by (auto simp: h Let_def map_sum_Inr split: sum.splits)
    with Cons.IH [of seen saw hs'] other show ?thesis by (auto simp: h)
  qed
qed auto

lemma framing_of_normalized:
  assumes "normalize_and_validate parsed raw = Inr hs"
  shows "framing_from_headers hs fallback = Inr
    (if has_field ''transfer-encoding'' raw then Chunked
     else if stated_lengths raw \<noteq> [] then ContentLength (decimal (hd (stated_lengths raw))) else fallback)"
proof -
  note facts = normalize_framing [OF assms [unfolded normalize_and_validate_def]]
  have "parse_int (hd (stated_lengths raw)) = Inr (decimal (hd (stated_lengths raw)))"
    if "stated_lengths raw \<noteq> []"
    using facts that by (intro parse_int_digits) (auto simp: content_length_re_def)
  then show ?thesis using facts by (auto simp: framing_from_headers_def Let_def)
qed

text \<open>
  C28: The framing of a message is never in doubt.  For every message whose headers are accepted, the
  assertions and the conversion of \<open>_body_framing\<close> do not fail: a response that may have no body has
  none, a transfer coding wins over a length, and otherwise the length is the one all Content-Length
  fields state, in every comma-separated part of them; without either a request has no body and a
  response lasts until the connection is closed.
\<close>

theorem framing_decided:
  assumes "normalize_and_validate parsed raw = Inr (event_headers event)"
    and "event = RequestEvent rq \<or> event = ResponseEvent rs \<and> 200 \<le> rs_status_code rs"
  shows "body_framing request_method event = Inr
      (if type_of_event event = Response \<and> bodiless request_method rs then ContentLength 0
       else if has_field ''transfer-encoding'' raw then Chunked
       else if stated_lengths raw \<noteq> [] then ContentLength (decimal (hd (stated_lengths raw)))
       else if type_of_event event = Request then ContentLength 0 else Http10) \<and>
    (\<forall>l \<in> set (stated_lengths raw). l = hd (stated_lengths raw) \<and> content_length_re l)"
proof -
  note facts = normalize_framing [OF assms(1) [unfolded normalize_and_validate_def]]
  show ?thesis
    using assms(2) facts framing_of_normalized [OF assms(1)] by (auto simp: body_framing_def)
qed

theorem framing_decided_witness:
  "\<exists>event. make_request False ''POST'' ''/login'' [(''Host'', ''x''), (''Content-Length'', ''7, 7''), (''CONTENT-LENGTH'', ''7'')] ''1.1'' = Inr event \<and>
     body_framing None event = Inr (ContentLength 7) \<and>
   normalize_and_validate False [(''Content-Length'', ''7, 8'')] = Inl (LocalProtocolError ''conflicting Content-Length headers'' 400)"
proof -
  let ?raw = "[(''Host'', ''x''), (''Content-Length'', ''7, 7''), (''CONTENT-LENGTH'', ''7'')]"
  let ?rq = "\<lparr> rq_method = ''POST'', rq_target = ''/login'',
    rq_headers = [(''Host'', ''host'', ''x''), (''Content-Length'', ''content-length'', ''7'')], rq_http_version = ''1.1'' \<rparr>"
  have made: "make_request False ''POST'' ''/login'' ?raw ''1.1'' = Inr (RequestEvent ?rq)" by code_simp
  have accepted: "normalize_and_validate False ?raw = Inr (event_headers (RequestEvent ?rq))" by code_simp
  have "\<not> has_field ''transfer-encoding'' ?raw" "stated_lengths ?raw = [''7'', ''7'', ''7'']" "decimal ''7'' = 7"
    by code_simp+
  with framing_decided [OF accepted, of ?rq _ None] have "body_framing None (RequestEvent ?rq) = Inr (ContentLength 7)" by simp
  moreover have "normalize_and_validate False [(''Content-Length'', ''7, 8'')] =
      Inl (LocalProtocolError ''conflicting Content-Length headers'' 400)" by code_simp
  ultimately show ?thesis using made by blast
qed

end
