(* ===== verification/HttpBody.thy ===== *)
theory HttpBody
  imports HttpHeaders Codec
begin

text \<open>
  Reading and writing the bytes of an HTTP message: the receive buffer with its resumed searches
  (h11/_receivebuffer.py), the readers (h11/_readers.py) and the writers (h11/_writers.py).  The
  lemmas show that a resumed search finds what a search from the beginning finds, and that a body is
  read back as it was written, for each framing and however its bytes arrive.
\<close>

section \<open>ReceiveBuffer\<close>

record receive_buffer =
  rb_data :: string
  next_line_search :: nat
  multiple_lines_search :: nat

definition ReceiveBuffer :: receive_buffer where
  "ReceiveBuffer = \<lparr> rb_data = [], next_line_search = 0, multiple_lines_search = 0 \<rparr>"

definition CRLF :: string where
  "CRLF = [CHR 0x0D, CHR 0x0A]"

text \<open>\<open>buf += bytes\<close>\<close>

definition buffer_add :: "string \<Rightarrow> receive_buffer \<Rightarrow> receive_buffer" where
  "buffer_add bytes buf = buf\<lparr> rb_data := rb_data buf @ bytes \<rparr>"

definition extract_bytes :: "nat \<Rightarrow> receive_buffer \<Rightarrow> string \<times> receive_buffer" where
  "extract_bytes n buf =
     (take n (rb_data buf),
      \<lparr> rb_data = drop n (rb_data buf), next_line_search = 0, multiple_lines_search = 0 \<rparr>)"

definition maybe_extract_at_most :: "nat \<Rightarrow> receive_buffer \<Rightarrow> string option \<times> receive_buffer" where
  "maybe_extract_at_most n buf =
     (if take n (rb_data buf) = [] then (None, buf) else apfst Some (extract_bytes n buf))"

text \<open>\<open>data.find(b"\r\n", start)\<close>\<close>

definition find_crlf :: "string \<Rightarrow> nat \<Rightarrow> nat option" where
  "find_crlf data start = List.find (\<lambda>k. starts_with CRLF (drop k data)) [start..<length data]"

definition maybe_extract_next_line :: "receive_buffer \<Rightarrow> string option \<times> receive_buffer" where
  "maybe_extract_next_line buf =
     (case find_crlf (rb_data buf) (next_line_search buf - 1) of
        None \<Rightarrow> (None, buf\<lparr> next_line_search := length (rb_data buf) \<rparr>)
      | Some partial_idx \<Rightarrow> apfst Some (extract_bytes (partial_idx + 2) buf))"

text \<open>The expression for a blank line, tried at one position: the length of the match.\<close>

definition blank_line_at :: "string \<Rightarrow> nat \<Rightarrow> nat option" where
  "blank_line_at data k =
     (if starts_with [CHR 0x0A, CHR 0x0A] (drop k data) then Some 2
      else if starts_with (CHR 0x0A # CRLF) (drop k data) then Some 3
      else None)"

text \<open>The end of the first blank line from a position on.\<close>

definition find_blank_line :: "string \<Rightarrow> nat \<Rightarrow> nat option" where
  "find_blank_line data start =
     map_option (\<lambda>k. k + the (blank_line_at data k))
       (List.find (\<lambda>k. blank_line_at data k \<noteq> None) [start..<length data])"

definition drop_cr :: "string \<Rightarrow> string" where
  "drop_cr line = (if line \<noteq> [] \<and> last line = CHR 0x0D then butlast line else line)"

definition maybe_extract_lines :: "receive_buffer \<Rightarrow> string list option result \<times> receive_buffer" where
  "maybe_extract_lines buf =
     (if take 1 (rb_data buf) = [CHR 0x0A] then (Inr (Some []), snd (extract_bytes 1 buf))
      else if take 2 (rb_data buf) = CRLF then (Inr (Some []), snd (extract_bytes 2 buf))
      else (case find_blank_line (rb_data buf) (multiple_lines_search buf) of
          None \<Rightarrow> (Inr None, buf\<lparr> multiple_lines_search := length (rb_data buf) - 2 \<rparr>)
        | Some idx \<Rightarrow>
            (case extract_bytes idx buf of
               (out, buf') \<Rightarrow>
                 let lines = map drop_cr (split_on (CHR 0x0A) out)
                 in if drop (length lines - 2) lines = [[], []]
                    then (Inr (Some (take (length lines - 2) lines)), buf')
                    else (Inl AssertionError, buf'))))"

definition obviously_invalid_request_line :: "receive_buffer \<Rightarrow> bool" where
  "obviously_invalid_request_line buf =
     (case rb_data buf of [] \<Rightarrow> False | c # _ \<Rightarrow> (of_char c :: nat) < 0x21)"

section \<open>Readers\<close>

text \<open>Obsolete folding: a line that starts with blanks continues the one before it.\<close>

fun obsolete_line_fold :: "string option \<Rightarrow> string list \<Rightarrow> string list result" where
  "obsolete_line_fold prev [] = Inr (case prev of None \<Rightarrow> [] | Some l \<Rightarrow> [l])"
| "obsolete_line_fold prev (line # rest) =
     (if line \<noteq> [] \<and> is_ows (hd line)
      then (case prev of
          None \<Rightarrow> Inl (LocalProtocolError ''continuation line at start of headers'' 400)
        | Some l \<Rightarrow> obsolete_line_fold (Some (l @ '' '' @ dropWhile is_ows line)) rest)
      else map_sum id (\<lambda>ls. (case prev of None \<Rightarrow> ls | Some l \<Rightarrow> l # ls)) (obsolete_line_fold (Some line) rest))"

definition rstrip_ows :: "string \<Rightarrow> string" where
  "rstrip_ows s = rev (dropWhile is_ows (rev s))"

text \<open>The two groups of the expression for a header field.\<close>

definition header_field_groups :: "string \<Rightarrow> (string \<times> string) option" where
  "header_field_groups line =
     (case dropWhile is_tchar line of
        c # rest \<Rightarrow>
          (let name = takeWhile is_tchar line; value = rstrip_ows (dropWhile is_ows rest)
           in if c = CHR '':'' \<and> name \<noteq> [] \<and> field_value_re value then Some (name, value) else None)
      | [] \<Rightarrow> None)"

fun decode_folded_lines :: "string list \<Rightarrow> (string \<times> string) list result" where
  "decode_folded_lines [] = Inr []"
| "decode_folded_lines (line # rest) =
     (case header_field_groups line of
        None \<Rightarrow> Inl (LocalProtocolError ''illegal header line: {!r}'' 400)
      | Some h \<Rightarrow> map_sum id ((#) h) (decode_folded_lines rest))"

definition decode_header_lines :: "string list \<Rightarrow> (string \<times> string) list result" where
  "decode_header_lines lines =
     (case obsolete_line_fold None lines of Inl e \<Rightarrow> Inl e | Inr ls \<Rightarrow> decode_folded_lines ls)"

text \<open>The three groups of a request line; \<open>http_version\<close> is the part after \<open>HTTP/\<close>.\<close>

definition version_text :: "string \<Rightarrow> bool" where
  "version_text s \<longleftrightarrow> length s = 3 \<and> is_digit (s ! 0) \<and> s ! 1 = CHR ''.'' \<and> is_digit (s ! 2)"

definition request_line_groups :: "string \<Rightarrow> (string \<times> string \<times> string) option" where
  "request_line_groups line =
     (let method = takeWhile is_tchar line; rest = dropWhile is_tchar line;
          target = takeWhile vchar (drop 1 rest); rest' = dropWhile vchar (drop 1 rest)
      in if method \<noteq> [] \<and> take 1 rest = '' '' \<and> target \<noteq> [] \<and> starts_with '' HTTP/'' rest' \<and>
            version_text (drop 6 rest')
         then Some (method, target, drop 6 rest') else None)"

definition read_request :: "receive_buffer \<Rightarrow> http_event option result \<times> receive_buffer" where
  "read_request buf =
     (case maybe_extract_lines buf of
        (Inl e, buf') \<Rightarrow> (Inl e, buf')
      | (Inr None, buf') \<Rightarrow>
          (if obviously_invalid_request_line buf' then Inl (LocalProtocolError ''illegal request line'' 400)
           else Inr None, buf')
      | (Inr (Some []), buf') \<Rightarrow> (Inl (LocalProtocolError ''no request line received'' 400), buf')
      | (Inr (Some (line # headers)), buf') \<Rightarrow>
          ((case request_line_groups line of
              None \<Rightarrow> Inl (LocalProtocolError ''illegal request line: {!r}'' 400)
            | Some (method, target, http_version) \<Rightarrow>
                (case decode_header_lines headers of
                   Inl e \<Rightarrow> Inl e
                 | Inr hs \<Rightarrow> map_sum id Some (make_request True method target hs http_version))), buf'))"

text \<open>The three groups of a status line; the reason is optional.\<close>

definition status_line_groups :: "string \<Rightarrow> (string \<times> string \<times> string option) option" where
  "status_line_groups line =
     (let version = take 3 (drop 5 line); code = take 3 (drop 9 line); rest = drop 12 line
      in if starts_with ''HTTP/'' line \<and> version_text version \<and> take 1 (drop 8 line) = '' '' \<and>
            length code = 3 \<and> list_all is_digit code \<and>
            (rest = [] \<or> hd rest = CHR '' '' \<and> list_all (\<lambda>c. is_ows c \<or> field_vchar c) (tl rest))
         then Some (version, code, if rest = [] then None else Some (tl rest)) else None)"

definition read_response :: "receive_buffer \<Rightarrow> http_event option result \<times> receive_buffer" where
  "read_response buf =
     (case maybe_extract_lines buf of
        (Inl e, buf') \<Rightarrow> (Inl e, buf')
      | (Inr None, buf') \<Rightarrow>
          (if obviously_invalid_request_line buf' then Inl (LocalProtocolError ''illegal request line'' 400)
           else Inr None, buf')
      | (Inr (Some []), buf') \<Rightarrow> (Inl (LocalProtocolError ''no response line received'' 400), buf')
      | (Inr (Some (line # headers)), buf') \<Rightarrow>
          ((case status_line_groups line of
              None \<Rightarrow> Inl (LocalProtocolError ''illegal status line: {!r}'' 400)
            | Some (http_version, status_code, reason) \<Rightarrow>
                (case decode_header_lines headers of
                   Inl e \<Rightarrow> Inl e
                 | Inr raw \<Rightarrow>
                     (case normalize_and_validate True raw of
                        Inl e \<Rightarrow> Inl e
                      | Inr hs \<Rightarrow>
                          (let r = \<lparr> rs_status_code = decimal status_code, rs_headers = hs,
                                rs_http_version = http_version,
                                rs_reason = (case reason of None \<Rightarrow> [] | Some t \<Rightarrow> t) \<rparr>
                           in map_sum id Some
                                (if decimal status_code < 200 then make_informational r else make_response r))))),
           buf'))"

datatype body_reader =
    ContentLengthReader nat nat
  | ChunkedReader nat string bool
  | Http10Reader

definition is_hexdig :: "char \<Rightarrow> bool" where
  "is_hexdig c \<longleftrightarrow> hex_value c \<noteq> None"

definition hexadecimal :: "string \<Rightarrow> nat" where
  "hexadecimal s = foldl (\<lambda>n c. 16 * n + the (hex_value c)) 0 s"

text \<open>The size in a chunk header, which ends with CRLF.\<close>

definition chunk_size :: "string \<Rightarrow> nat option" where
  "chunk_size line =
     (let size = takeWhile is_hexdig line; rest = dropWhile is_hexdig line; ext = take (length rest - 2) rest
      in if 1 \<le> length size \<and> length size \<le> 20 \<and> drop (length rest - 2) rest = CRLF \<and>
            (if take 1 ext = '';'' then CHR 0x0A \<notin> set ext else list_all is_ows ext)
         then Some (hexadecimal size) else None)"

definition read_trailer :: "receive_buffer \<Rightarrow> http_event option result \<times> receive_buffer" where
  "read_trailer buf =
     (case maybe_extract_lines buf of
        (Inl e, buf') \<Rightarrow> (Inl e, buf')
      | (Inr None, buf') \<Rightarrow> (Inr None, buf')
      | (Inr (Some lines), buf') \<Rightarrow>
          ((case decode_header_lines lines of
              Inl e \<Rightarrow> Inl e
            | Inr hs \<Rightarrow> map_sum id (\<lambda>hs'. Some (EndEvent hs')) (normalize_and_validate False hs)), buf'))"

text \<open>The rest of \<open>ChunkedReader.__call__\<close>, once nothing is left to discard.\<close>

definition read_chunk_data :: "bool \<Rightarrow> nat \<Rightarrow> receive_buffer \<Rightarrow> http_event option result \<times> body_reader \<times> receive_buffer" where
  "read_chunk_data chunk_start in_chunk buf =
     (case maybe_extract_at_most in_chunk buf of
        (None, buf') \<Rightarrow> (Inr None, ChunkedReader in_chunk [] False, buf')
      | (Some data, buf') \<Rightarrow>
          (let left = in_chunk - length data
           in (Inr (Some (DataEvent data chunk_start (left = 0))),
               ChunkedReader left (if left = 0 then CRLF else []) False, buf')))"

definition read_chunk :: "nat \<Rightarrow> receive_buffer \<Rightarrow> http_event option result \<times> body_reader \<times> receive_buffer" where
  "read_chunk in_chunk buf =
     (if in_chunk = 0
      then (case maybe_extract_next_line buf of
          (None, buf') \<Rightarrow> (Inr None, ChunkedReader 0 [] False, buf')
        | (Some line, buf') \<Rightarrow>
            (case chunk_size line of
               None \<Rightarrow> (Inl (LocalProtocolError ''illegal chunk header: {!r}'' 400), ChunkedReader 0 [] False, buf')
             | Some n \<Rightarrow>
                 if n = 0
                 then (case read_trailer buf' of (r, buf'') \<Rightarrow> (r, ChunkedReader 0 [] True, buf''))
                 else read_chunk_data True n buf'))
      else read_chunk_data False in_chunk buf)"

fun read_body :: "body_reader \<Rightarrow> receive_buffer \<Rightarrow> http_event option result \<times> body_reader \<times> receive_buffer" where
  "read_body (ContentLengthReader len remaining) buf =
     (if remaining = 0 then (Inr (Some (EndEvent [])), ContentLengthReader len remaining, buf)
      else (case maybe_extract_at_most remaining buf of
          (None, buf') \<Rightarrow> (Inr None, ContentLengthReader len remaining, buf')
        | (Some data, buf') \<Rightarrow>
            (Inr (Some (DataEvent data False False)), ContentLengthReader len (remaining - length data), buf')))"
| "read_body (ChunkedReader in_chunk discard reading_trailer) buf =
     (if reading_trailer
      then (case read_trailer buf of (r, buf') \<Rightarrow> (r, ChunkedReader in_chunk discard True, buf'))
      else if discard \<noteq> []
      then (case maybe_extract_at_most (length discard) buf of
          (None, buf') \<Rightarrow> (Inr None, ChunkedReader in_chunk discard False, buf')
        | (Some data, buf') \<Rightarrow>
            if data \<noteq> take (length data) discard
            then (Inl (LocalProtocolError ''malformed chunk footer: {data!r} (expected {self._bytes_to_discard!r})'' 400),
              ChunkedReader in_chunk discard False, buf')
            else if drop (length data) discard \<noteq> []
            then (Inr None, ChunkedReader in_chunk (drop (length data) discard) False, buf')
            else read_chunk in_chunk buf')
      else read_chunk in_chunk buf)"
| "read_body Http10Reader buf =
     (case maybe_extract_at_most 999999999 buf of
        (None, buf') \<Rightarrow> (Inr None, Http10Reader, buf')
      | (Some data, buf') \<Rightarrow> (Inr (Some (DataEvent data False False)), Http10Reader, buf'))"

text \<open>\<open>read_eof\<close>\<close>

fun read_eof :: "body_reader \<Rightarrow> http_event result" where
  "read_eof (ContentLengthReader _ _) = Inl (RemoteProtocolError
     ''peer closed connection without sending complete message body (received {} bytes, expected {})'' 400)"
| "read_eof (ChunkedReader _ _ _) = Inl (RemoteProtocolError
     ''peer closed connection without sending complete message body (incomplete chunked read)'' 400)"
| "read_eof Http10Reader = Inr (EndEvent [])"

definition expect_nothing :: "receive_buffer \<Rightarrow> unit result" where
  "expect_nothing buf =
     (if rb_data buf \<noteq> [] then Inl (LocalProtocolError ''Got data when expecting EOF'' 400) else Inr ())"

definition body_reader_of :: "framing \<Rightarrow> body_reader" where
  "body_reader_of f =
     (case f of ContentLength n \<Rightarrow> ContentLengthReader (nat n) (nat n) | Chunked \<Rightarrow> ChunkedReader 0 [] False
      | Http10 \<Rightarrow> Http10Reader)"

section \<open>Writers\<close>

text \<open>What is written is the list of the arguments of \<open>write\<close>, put together.\<close>

definition header_line :: "string \<times> string \<times> string \<Rightarrow> string" where
  "header_line h = (case h of (raw_name, _, value) \<Rightarrow> raw_name @ '': '' @ value @ CRLF)"

definition write_headers :: "full_headers \<Rightarrow> string" where
  "write_headers hs =
     concat (map header_line (filter (\<lambda>(_, name, _). name = ''host'') hs)) @
     concat (map header_line (filter (\<lambda>(_, name, _). name \<noteq> ''host'') hs)) @ CRLF"

definition write_request :: "http_request \<Rightarrow> string result" where
  "write_request r =
     (if rq_http_version r \<noteq> ''1.1'' then Inl (LocalProtocolError ''I only send HTTP/1.1'' 400)
      else Inr (rq_method r @ '' '' @ rq_target r @ '' HTTP/1.1'' @ CRLF @ write_headers (rq_headers r)))"

definition write_any_response :: "http_response \<Rightarrow> string result" where
  "write_any_response r =
     (if rs_http_version r \<noteq> ''1.1'' then Inl (LocalProtocolError ''I only send HTTP/1.1'' 400)
      else Inr (''HTTP/1.1 '' @ show_int (rs_status_code r) @ '' '' @ rs_reason r @ CRLF @ write_headers (rs_headers r)))"

datatype body_writer = ContentLengthWriter int | ChunkedWriter | Http10Writer

fun hex_digits :: "nat \<Rightarrow> string" where
  "hex_digits n = (if n < 16 then [hex_char n] else hex_digits (n div 16) @ [hex_char (n mod 16)])"

declare hex_digits.simps [simp del]

fun send_data :: "body_writer \<Rightarrow> string \<Rightarrow> string result \<times> body_writer" where
  "send_data (ContentLengthWriter n) data =
     (let n' = n - int (length data)
      in (if n' < 0 then Inl (LocalProtocolError ''Too much data for declared Content-Length'' 400) else Inr data,
          ContentLengthWriter n'))"
| "send_data ChunkedWriter data =
     (Inr (if data = [] then [] else hex_digits (length data) @ CRLF @ data @ CRLF), ChunkedWriter)"
| "send_data Http10Writer data = (Inr data, Http10Writer)"

fun send_eom :: "body_writer \<Rightarrow> full_headers \<Rightarrow> string result" where
  "send_eom (ContentLengthWriter n) hs =
     (if n \<noteq> 0 then Inl (LocalProtocolError ''Too little data for declared Content-Length'' 400)
      else if hs \<noteq> [] then Inl (LocalProtocolError ''Content-Length and trailers don't mix'' 400)
      else Inr [])"
| "send_eom ChunkedWriter hs = Inr (''0'' @ CRLF @ write_headers hs)"
| "send_eom Http10Writer hs =
     (if hs \<noteq> [] then Inl (LocalProtocolError ''can't send trailers to HTTP/1.0 client'' 400) else Inr [])"

definition body_writer_of :: "framing \<Rightarrow> body_writer" where
  "body_writer_of f =
     (case f of ContentLength n \<Rightarrow> ContentLengthWriter n | Chunked \<Rightarrow> ChunkedWriter | Http10 \<Rightarrow> Http10Writer)"

section \<open>Resumed searches\<close>

text \<open>Searching from the beginning.\<close>

definition plain_next_line :: "string \<Rightarrow> string option \<times> string" where
  "plain_next_line data =
     (case find_crlf data 0 of None \<Rightarrow> (None, data) | Some k \<Rightarrow> (Some (take (k + 2) data), drop (k + 2) data))"

definition plain_lines :: "string \<Rightarrow> string list option \<times> string" where
  "plain_lines data =
     (if take 1 data = [CHR 0x0A] then (Some [], drop 1 data)
      else if take 2 data = CRLF then (Some [], drop 2 data)
      else (case List.find (\<lambda>k. blank_line_at data k \<noteq> None) [0..<length data] of
          None \<Rightarrow> (None, data)
        | Some k \<Rightarrow> (Some (map drop_cr (split_on (CHR 0x0A) (take k data))),
            drop (k + the (blank_line_at data k)) data)))"

text \<open>What the search positions record: no separator starts before them, whatever follows.\<close>

definition buffer_inv :: "receive_buffer \<Rightarrow> bool" where
  "buffer_inv buf \<longleftrightarrow>
     next_line_search buf \<le> length (rb_data buf) \<and>
     (\<forall>k < next_line_search buf - 1. \<not> starts_with CRLF (drop k (rb_data buf))) \<and>
     multiple_lines_search buf \<le> length (rb_data buf) - 2 \<and>
     (\<forall>k < multiple_lines_search buf. blank_line_at (rb_data buf) k = None)"

lemma find_upt_skip: "\<forall>k < s. \<not> P k \<Longrightarrow> List.find P [s..<l] = List.find P [0..<l]"
proof -
  assume none: "\<forall>k < s. \<not> P k"
  show ?thesis
  proof (cases "s \<le> l")
    case True
    then have "[0..<l] = [0..<s] @ [s..<l]" using upt_add_eq_append [of 0 s "l - s"] by simp
    moreover have "List.find P [0..<s] = None" using none by (simp add: find_None_iff)
    moreover have "List.find P (xs @ ys) = List.find P ys" if "List.find P xs = None" for xs ys
      using that by (induction xs) (auto split: if_splits)
    ultimately show ?thesis by simp
  next
    case False
    then have "List.find P [0..<l] = None" using none by (simp add: find_None_iff)
    then show ?thesis using False by simp
  qed
qed

lemma starts_with_take: "length p \<le> length s \<Longrightarrow> starts_with p (s @ t) \<longleftrightarrow> starts_with p s"
  by (simp add: starts_with_def)

lemma starts_with_length: "starts_with p s \<Longrightarrow> length p \<le> length s"
  by (auto simp: starts_with_iff)

lemma starts_with_drop_append:
  "k + length p \<le> length s \<Longrightarrow> starts_with p (drop k (s @ t)) \<longleftrightarrow> starts_with p (drop k s)"
  using starts_with_take [of p "drop k s" t] by simp

lemma blank_line_append: "k + 3 \<le> length s \<Longrightarrow> blank_line_at (s @ t) k = blank_line_at s k"
  using starts_with_drop_append [of k "[CHR 0x0A, CHR 0x0A]" s t]
    starts_with_drop_append [of k "CHR 0x0A # CRLF" s t]
  by (simp add: blank_line_at_def CRLF_def)

lemma buffer_inv_init: "buffer_inv ReceiveBuffer"
  by (simp add: buffer_inv_def ReceiveBuffer_def)

lemma buffer_inv_fresh: "buffer_inv \<lparr> rb_data = d, next_line_search = 0, multiple_lines_search = 0 \<rparr>"
  by (simp add: buffer_inv_def)

lemma buffer_inv_add: "buffer_inv buf \<Longrightarrow> buffer_inv (buffer_add bytes buf)"
proof -
  assume inv: "buffer_inv buf"
  have "\<not> starts_with CRLF (drop k (rb_data buf @ bytes))" if "k < next_line_search buf - 1" for k
    using inv that starts_with_drop_append [of k CRLF "rb_data buf" bytes]
    by (auto simp: buffer_inv_def CRLF_def)
  moreover have "blank_line_at (rb_data buf @ bytes) k = None" if "k < multiple_lines_search buf" for k
    using inv that blank_line_append [of k "rb_data buf" bytes] by (auto simp: buffer_inv_def)
  ultimately show ?thesis using inv by (auto simp: buffer_inv_def buffer_add_def)
qed

lemma at_most_run:
  assumes "buffer_inv buf"
  shows "fst (maybe_extract_at_most n buf) = (if take n (rb_data buf) = [] then None else Some (take n (rb_data buf)))"
    "rb_data (snd (maybe_extract_at_most n buf)) = drop n (rb_data buf)"
    "buffer_inv (snd (maybe_extract_at_most n buf))"
  using assms buffer_inv_fresh [of "drop n (rb_data buf)"]
  by (auto simp: maybe_extract_at_most_def extract_bytes_def)

lemma next_line_run:
  assumes "buffer_inv buf"
  shows "fst (maybe_extract_next_line buf) = fst (plain_next_line (rb_data buf))"
    "rb_data (snd (maybe_extract_next_line buf)) = snd (plain_next_line (rb_data buf))"
    "buffer_inv (snd (maybe_extract_next_line buf))"
proof -
  have find: "find_crlf (rb_data buf) (next_line_search buf - 1) = find_crlf (rb_data buf) 0"
    using assms find_upt_skip [of "next_line_search buf - 1" "\<lambda>k. starts_with CRLF (drop k (rb_data buf))"]
    by (simp add: find_crlf_def buffer_inv_def)
  note find = find [unfolded One_nat_def]
  show "fst (maybe_extract_next_line buf) = fst (plain_next_line (rb_data buf))"
    "rb_data (snd (maybe_extract_next_line buf)) = snd (plain_next_line (rb_data buf))"
    by (simp_all add: maybe_extract_next_line_def find plain_next_line_def extract_bytes_def split: option.split)
  show "buffer_inv (snd (maybe_extract_next_line buf))"
  proof (cases "find_crlf (rb_data buf) 0")
    case None
    then have "\<forall>k < length (rb_data buf). \<not> starts_with CRLF (drop k (rb_data buf))"
      by (auto simp: find_crlf_def find_None_iff)
    then show ?thesis using assms None by (auto simp: maybe_extract_next_line_def find buffer_inv_def)
  next
    case (Some k)
    then show ?thesis
      using buffer_inv_fresh by (simp add: maybe_extract_next_line_def find extract_bytes_def)
  qed
qed

lemma split_on_mid: "split_on c (xs @ c # ys) = split_on c xs @ split_on c ys"
  by (induction xs) (auto split: list.splits)

text \<open>A blank line ends the lines before it: the assertion holds.\<close>

lemma blank_line_split:
  assumes "blank_line_at data k = Some n"
  shows "map drop_cr (split_on (CHR 0x0A) (take (k + n) data)) =
    map drop_cr (split_on (CHR 0x0A) (take k data)) @ [[], []]"
proof -
  consider r where "drop k data = [CHR 0x0A, CHR 0x0A] @ r" "n = 2"
    | r where "drop k data = (CHR 0x0A # CRLF) @ r" "n = 3"
    using assms by (auto simp: blank_line_at_def starts_with_iff split: if_splits)
  then show ?thesis
    unfolding take_add by cases (simp_all add: split_on_mid drop_cr_def CRLF_def)
qed

lemma lines_run:
  assumes "buffer_inv buf"
  shows "fst (maybe_extract_lines buf) = Inr (fst (plain_lines (rb_data buf)))"
    "rb_data (snd (maybe_extract_lines buf)) = snd (plain_lines (rb_data buf))"
    "buffer_inv (snd (maybe_extract_lines buf))"
proof -
  let ?P = "\<lambda>k. blank_line_at (rb_data buf) k \<noteq> None"
  have find: "find_blank_line (rb_data buf) (multiple_lines_search buf) =
      map_option (\<lambda>k. k + the (blank_line_at (rb_data buf) k)) (List.find ?P [0..<length (rb_data buf)])"
    using assms find_upt_skip [of "multiple_lines_search buf" ?P "length (rb_data buf)"]
    by (simp add: find_blank_line_def buffer_inv_def)
  have all: "fst (maybe_extract_lines buf) = Inr (fst (plain_lines (rb_data buf))) \<and>
    rb_data (snd (maybe_extract_lines buf)) = snd (plain_lines (rb_data buf)) \<and>
    buffer_inv (snd (maybe_extract_lines buf))"
  proof (cases "take 1 (rb_data buf) = [CHR 0x0A] \<or> take 2 (rb_data buf) = CRLF")
    case True
    then show ?thesis
      using buffer_inv_fresh by (auto simp: maybe_extract_lines_def plain_lines_def extract_bytes_def)
  next
    case False
    show ?thesis
    proof (cases "List.find ?P [0..<length (rb_data buf)]")
      case None
      then have "\<forall>k < length (rb_data buf). blank_line_at (rb_data buf) k = None"
        by (auto simp: find_None_iff)
      then have "buffer_inv (buf\<lparr> multiple_lines_search := length (rb_data buf) - 2 \<rparr>)"
        using assms by (auto simp: buffer_inv_def)
      then show ?thesis
        using None False by (simp add: maybe_extract_lines_def plain_lines_def find)
    next
      case (Some k)
      then have "blank_line_at (rb_data buf) k \<noteq> None" by (auto simp: find_Some_iff)
      then obtain n where n: "blank_line_at (rb_data buf) k = Some n" by blast
      have "length (split_on (CHR 0x0A) (take (k + n) (rb_data buf))) =
          Suc (Suc (length (split_on (CHR 0x0A) (take k (rb_data buf)))))"
        using arg_cong [OF blank_line_split [OF n], of length] by simp
      then show ?thesis
        using Some False n buffer_inv_fresh
        by (simp add: maybe_extract_lines_def plain_lines_def find extract_bytes_def blank_line_split [OF n] Let_def)
    qed
  qed
  then show "fst (maybe_extract_lines buf) = Inr (fst (plain_lines (rb_data buf)))"
    "rb_data (snd (maybe_extract_lines buf)) = snd (plain_lines (rb_data buf))"
    "buffer_inv (snd (maybe_extract_lines buf))" by auto
qed

text \<open>What a connection does with its buffer.\<close>

datatype buffer_op = Add string | AtMost nat | NextLine | Lines

datatype buffer_out = Added | Bytes "string option" | LineList "string list option result"

fun buffer_step :: "buffer_op \<Rightarrow> receive_buffer \<Rightarrow> buffer_out \<times> receive_buffer" where
  "buffer_step (Add d) buf = (Added, buffer_add d buf)"
| "buffer_step (AtMost n) buf = apfst Bytes (maybe_extract_at_most n buf)"
| "buffer_step NextLine buf = apfst Bytes (maybe_extract_next_line buf)"
| "buffer_step Lines buf = apfst LineList (maybe_extract_lines buf)"

fun plain_step :: "buffer_op \<Rightarrow> string \<Rightarrow> buffer_out \<times> string" where
  "plain_step (Add d) data = (Added, data @ d)"
| "plain_step (AtMost n) data = (Bytes (if take n data = [] then None else Some (take n data)), drop n data)"
| "plain_step NextLine data = apfst Bytes (plain_next_line data)"
| "plain_step Lines data = apfst (\<lambda>x. LineList (Inr x)) (plain_lines data)"

fun run_ops :: "(buffer_op \<Rightarrow> 's \<Rightarrow> buffer_out \<times> 's) \<Rightarrow> buffer_op list \<Rightarrow> 's \<Rightarrow> buffer_out list" where
  "run_ops f [] s = []"
| "run_ops f (x # xs) s = fst (f x s) # run_ops f xs (snd (f x s))"

lemma buffer_step_plain:
  assumes "buffer_inv buf"
  shows "fst (buffer_step x buf) = fst (plain_step x (rb_data buf))"
    "rb_data (snd (buffer_step x buf)) = snd (plain_step x (rb_data buf))"
    "buffer_inv (snd (buffer_step x buf))"
proof -
  have "fst (buffer_step x buf) = fst (plain_step x (rb_data buf)) \<and>
      rb_data (snd (buffer_step x buf)) = snd (plain_step x (rb_data buf)) \<and> buffer_inv (snd (buffer_step x buf))"
  proof (cases x)
    case (Add d)
    then show ?thesis using buffer_inv_add [OF assms] by (simp add: buffer_add_def)
  next
    case (AtMost n)
    then show ?thesis using at_most_run [OF assms] by simp
  next
    case NextLine
    then show ?thesis using next_line_run [OF assms] by simp
  next
    case Lines
    then show ?thesis using lines_run [OF assms] by simp
  qed
  then show "fst (buffer_step x buf) = fst (plain_step x (rb_data buf))"
    "rb_data (snd (buffer_step x buf)) = snd (plain_step x (rb_data buf))"
    "buffer_inv (snd (buffer_step x buf))" by auto
qed

lemma run_ops_plain: "buffer_inv buf \<Longrightarrow> run_ops buffer_step ops buf = run_ops plain_step ops (rb_data buf)"
  by (induction ops arbitrary: buf) (simp_all add: buffer_step_plain)

text \<open>
  C29: The receive buffer may resume its searches where the last ones stopped: whatever bytes are
  added and whatever is taken out in between, in any order, every line, every block of lines and
  every run of bytes it gives is the one a buffer would give that searches from its beginning each
  time, and the assertion on the blank line that ends a block never fails.
\<close>

theorem resumed_search_exact:
  "run_ops buffer_step ops ReceiveBuffer = run_ops plain_step ops []"
  using run_ops_plain [OF buffer_inv_init, of ops] by (simp add: ReceiveBuffer_def)

section \<open>Chunks\<close>

lemma hex_char_value:
  assumes "k < 16"
  shows "hex_value (hex_char k) = Some k" "hex_char k \<noteq> CHR 0x0D" "hex_char k \<noteq> CHR '';''"
proof -
  show v: "hex_value (hex_char k) = Some k" using assms by simp
  show "hex_char k \<noteq> CHR 0x0D" "hex_char k \<noteq> CHR '';''"
    using v by (auto simp: hex_value_def)
qed

lemma hex_digits_all: "c \<in> set (hex_digits n) \<Longrightarrow> is_hexdig c \<and> c \<noteq> CHR 0x0D"
proof (induction n rule: hex_digits.induct)
  case (1 n)
  then show ?case
    using hex_char_value [of n] hex_char_value [of "n mod 16"]
    by (subst (asm) hex_digits.simps) (auto simp: is_hexdig_def split: if_splits)
qed

lemma hex_digits_zero: "hex_digits 0 = ''0''"
  by code_simp

lemma hexadecimal_digits: "hexadecimal (hex_digits n) = n"
proof (induction n rule: hex_digits.induct)
  case (1 n)
  show ?case
  proof (cases "n < 16")
    case True
    then show ?thesis using hex_char_value(1) [of n] by (simp add: hex_digits.simps hexadecimal_def)
  next
    case False
    have "hexadecimal (hex_digits n) = 16 * hexadecimal (hex_digits (n div 16)) + n mod 16"
      using False hex_char_value(1) [of "n mod 16"] by (subst hex_digits.simps) (simp add: hexadecimal_def)
    also have "\<dots> = n" using 1 False by simp
    finally show ?thesis .
  qed
qed

lemma hex_digits_length: "n < 16 ^ k \<Longrightarrow> 0 < k \<Longrightarrow> 1 \<le> length (hex_digits n) \<and> length (hex_digits n) \<le> k"
proof (induction n arbitrary: k rule: hex_digits.induct)
  case (1 n)
  show ?case
  proof (cases "n < 16")
    case True
    then show ?thesis using 1(3) by (simp add: hex_digits.simps)
  next
    case False
    obtain j where k: "k = Suc j" using 1(3) by (cases k) auto
    have j: "0 < j" using 1(2) False k by (cases j) auto
    have "n div 16 < 16 ^ j" using 1(2) by (simp add: k less_mult_imp_div_less mult.commute)
    from 1(1) [OF False this j] show ?thesis
      by (subst hex_digits.simps, subst hex_digits.simps) (simp add: False k)
  qed
qed

lemma CRLF_not_hex: "\<not> is_hexdig (CHR 0x0D)"
  by (simp add: is_hexdig_def hex_value_def)

lemma chunk_size_header: "n < 16 ^ 20 \<Longrightarrow> chunk_size (hex_digits n @ CRLF) = Some n"
proof -
  assume n: "n < 16 ^ 20"
  have "takeWhile is_hexdig (hex_digits n @ CRLF) = hex_digits n" "dropWhile is_hexdig (hex_digits n @ CRLF) = CRLF"
    using hex_digits_all CRLF_not_hex by (auto simp: CRLF_def takeWhile_append dropWhile_append)
  then show ?thesis
    using hex_digits_length [OF n] by (simp add: chunk_size_def hexadecimal_digits CRLF_def Let_def)
qed

text \<open>The bytes of a list of chunks, and those after the last one.\<close>

definition chunk_bytes :: "string \<Rightarrow> string" where
  "chunk_bytes c = hex_digits (length c) @ CRLF @ c @ CRLF"

definition LAST_CHUNK :: string where
  "LAST_CHUNK = ''0'' @ CRLF @ CRLF"

definition sendable :: "string list \<Rightarrow> bool" where
  "sendable cs \<longleftrightarrow> (\<forall>c \<in> set cs. c \<noteq> [] \<and> length c < 16 ^ 20)"

text \<open>
  What a reader still has to be given, \<open>bytes\<close>, for the part \<open>payload\<close> of the body it has not
  handed on.
\<close>

fun expects :: "body_reader \<Rightarrow> string \<Rightarrow> string \<Rightarrow> bool" where
  "expects (ContentLengthReader len remaining) payload bytes \<longleftrightarrow>
     bytes = payload \<and> length payload = remaining"
| "expects (ChunkedReader in_chunk discard True) payload bytes \<longleftrightarrow> payload = [] \<and> bytes = CRLF"
| "expects (ChunkedReader in_chunk discard False) payload bytes \<longleftrightarrow>
     (\<exists>x cs. length x = in_chunk \<and> (in_chunk = 0 \<or> discard = []) \<and> discard \<in> {[], [CHR 0x0A], CRLF} \<and>
        sendable cs \<and> payload = x @ concat cs \<and>
        bytes = discard @ (if in_chunk = 0 then [] else x @ CRLF) @ concat (map chunk_bytes cs) @ LAST_CHUNK)"
| "expects Http10Reader payload bytes \<longleftrightarrow> False"

text \<open>A line of which a part has arrived.\<close>

lemma starts_with_CRLF_iff:
  "starts_with CRLF (drop k data) \<longleftrightarrow> k + 1 < length data \<and> data ! k = CHR 0x0D \<and> data ! (k + 1) = CHR 0x0A"
proof -
  have "starts_with CRLF (drop k data) \<longleftrightarrow> (\<exists>r. drop k data = CHR 0x0D # CHR 0x0A # r)"
    by (simp add: starts_with_iff CRLF_def)
  also have "\<dots> \<longleftrightarrow> k + 1 < length data \<and> data ! k = CHR 0x0D \<and> data ! (k + 1) = CHR 0x0A"
  proof
    assume "\<exists>r. drop k data = CHR 0x0D # CHR 0x0A # r"
    then obtain r where r: "drop k data = CHR 0x0D # CHR 0x0A # r" by blast
    have "length data - k = length r + 2" using arg_cong [OF r, of length] by simp
    then have len: "k + 1 < length data" by linarith
    have "data ! k = drop k data ! 0" "data ! (k + 1) = drop k data ! 1" using len by simp_all
    then show "k + 1 < length data \<and> data ! k = CHR 0x0D \<and> data ! (k + 1) = CHR 0x0A"
      using len by (simp add: r)
  next
    assume a: "k + 1 < length data \<and> data ! k = CHR 0x0D \<and> data ! (k + 1) = CHR 0x0A"
    then have "drop k data = data ! k # drop (Suc k) data" "drop (Suc k) data = data ! Suc k # drop (Suc (Suc k)) data"
      using Cons_nth_drop_Suc [of k data] Cons_nth_drop_Suc [of "Suc k" data] by auto
    with a show "\<exists>r. drop k data = CHR 0x0D # CHR 0x0A # r" by auto
  qed
  finally show ?thesis .
qed

lemma find_crlf_line:
  assumes "data @ future = line @ CRLF @ t" and "CHR 0x0D \<notin> set line"
  shows "find_crlf data 0 = (if length line + 2 \<le> length data then Some (length line) else None)"
proof -
  have nth: "data ! k = (line @ CRLF @ t) ! k" if "k < length data" for k
    using that by (simp add: assms(1) [symmetric] nth_append)
  have before: "\<not> starts_with CRLF (drop k data)" if "k < length line" for k
  proof
    assume "starts_with CRLF (drop k data)"
    then have "k < length data" "data ! k = CHR 0x0D" by (simp_all add: starts_with_CRLF_iff)
    then have "line ! k = CHR 0x0D" using nth [of k] that by (simp add: nth_append)
    then show False using assms(2) that by (metis nth_mem)
  qed
  show ?thesis
  proof (cases "length line + 2 \<le> length data")
    case True
    have "starts_with CRLF (drop (length line) data)"
      unfolding starts_with_CRLF_iff
      using True nth [of "length line"] nth [of "length line + 1"] by (simp add: nth_append CRLF_def)
    then have "List.find (\<lambda>k. starts_with CRLF (drop k data)) [0..<length data] = Some (length line)"
      unfolding find_Some_iff using True before by (intro exI [of _ "length line"]) auto
    then show ?thesis using True by (simp add: find_crlf_def)
  next
    case False
    have "\<not> starts_with CRLF (drop k data)" if "k < length data" for k
      using before [of k] False that by (cases "k < length line") (auto simp: starts_with_CRLF_iff)
    then show ?thesis using False by (auto simp: find_crlf_def find_None_iff)
  qed
qed

lemma next_line_arrives:
  assumes "buffer_inv buf" and "rb_data buf @ future = line @ CRLF @ t" and "CHR 0x0D \<notin> set line"
  shows "(\<exists>buf'. maybe_extract_next_line buf = (Some (line @ CRLF), buf') \<and> buffer_inv buf' \<and> rb_data buf' @ future = t \<and>
       length (rb_data buf') < length (rb_data buf)) \<or>
    (\<exists>buf'. maybe_extract_next_line buf = (None, buf') \<and> buffer_inv buf' \<and> rb_data buf' = rb_data buf \<and> future \<noteq> [] \<and>
       length (rb_data buf) < length line + 2)"
proof (cases "length line + 2 \<le> length (rb_data buf)")
  case True
  have "take (length line + 2) (rb_data buf @ future) = take (length line + 2) (rb_data buf)"
    "drop (length line + 2) (rb_data buf @ future) = drop (length line + 2) (rb_data buf) @ future"
    using True by simp_all
  then have "take (length line + 2) (rb_data buf) = line @ CRLF" "drop (length line + 2) (rb_data buf) @ future = t"
    unfolding assms(2) by (simp_all add: CRLF_def)
  then show ?thesis
    using next_line_run [OF assms(1)] find_crlf_line [OF assms(2,3)] True
    by (intro disjI1 exI [of _ "snd (maybe_extract_next_line buf)"])
      (auto simp: plain_next_line_def prod_eq_iff)
next
  case False
  have "future \<noteq> []" using False arg_cong [OF assms(2), of length] by (auto simp: CRLF_def)
  then show ?thesis
    using next_line_run [OF assms(1)] find_crlf_line [OF assms(2,3)] False
    by (intro disjI2 exI [of _ "snd (maybe_extract_next_line buf)"])
      (auto simp: plain_next_line_def prod_eq_iff)
qed

lemma at_most_arrives:
  assumes "buffer_inv buf" and "rb_data buf @ future = x @ t" and "0 < length x"
  shows "(\<exists>d x' buf'. maybe_extract_at_most (length x) buf = (Some d, buf') \<and> d \<noteq> [] \<and> x = d @ x' \<and>
       buffer_inv buf' \<and> rb_data buf' @ future = x' @ t \<and> length (rb_data buf') < length (rb_data buf) \<and>
       (x' \<noteq> [] \<longrightarrow> future \<noteq> [] \<and> rb_data buf' = [])) \<or>
    (maybe_extract_at_most (length x) buf = (None, buf) \<and> future \<noteq> [] \<and> rb_data buf = [])"
proof (cases "rb_data buf = []")
  case True
  then show ?thesis using assms(2,3) by (auto simp: maybe_extract_at_most_def)
next
  case False
  then have run: "maybe_extract_at_most (length x) buf =
      (Some (take (length x) (rb_data buf)),
       \<lparr> rb_data = drop (length x) (rb_data buf), next_line_search = 0, multiple_lines_search = 0 \<rparr>)"
    using assms(3) by (simp add: maybe_extract_at_most_def extract_bytes_def)
  consider us where "rb_data buf = x @ us" "us @ future = t" | us where "x = rb_data buf @ us" "future = us @ t"
    using assms(2) unfolding append_eq_append_conv2 by blast
  then show ?thesis
  proof cases
    case (1 us)
    then show ?thesis using run assms(3) buffer_inv_fresh by (intro disjI1 exI [of _ x] exI [of _ "[]"]) auto
  next
    case (2 us)
    then show ?thesis
      using run False buffer_inv_fresh by (intro disjI1 exI [of _ "rb_data buf"] exI [of _ us]) auto
  qed
qed

text \<open>
  One call of a reader whose message is under way: it hands on data, ends the message or, when the
  bytes have not all come, asks for more.
\<close>

definition advances :: "string \<Rightarrow> string \<Rightarrow> nat \<Rightarrow> string \<Rightarrow> http_event option result \<times> body_reader \<times> receive_buffer \<Rightarrow> bool" where
  "advances rest future len payload outcome \<longleftrightarrow>
     (case outcome of (res, r, buf) \<Rightarrow>
        buffer_inv buf \<and> length (rb_data buf) \<le> len \<and>
        (res = Inr None \<and> future \<noteq> [] \<and> length (rb_data buf) \<le> 22 \<and>
           (\<exists>b. expects r payload b \<and> rb_data buf @ future = b @ rest) \<or>
         (\<exists>d s e p'. res = Inr (Some (DataEvent d s e)) \<and> d \<noteq> [] \<and> payload = d @ p' \<and> length (rb_data buf) < len \<and>
            (\<exists>b. expects r p' b \<and> rb_data buf @ future = b @ rest)) \<or>
         res = Inr (Some (EndEvent [])) \<and> payload = [] \<and> rb_data buf @ future = rest))"

lemma trailer_advances:
  assumes "buffer_inv buf" and "rb_data buf @ future = CRLF @ rest"
  shows "advances rest future (length (rb_data buf)) [] (case read_trailer buf of (res, buf') \<Rightarrow> (res, ChunkedReader n d True, buf'))"
proof (cases "2 \<le> length (rb_data buf)")
  case True
  have "take 2 (rb_data buf @ future) = take 2 (rb_data buf)" "drop 2 (rb_data buf @ future) = drop 2 (rb_data buf) @ future"
    using True by simp_all
  then have t: "take 2 (rb_data buf) = CRLF" "drop 2 (rb_data buf) @ future = rest"
    unfolding assms(2) using True by (simp_all add: CRLF_def min_absorb2)
  then have "take 1 (rb_data buf) \<noteq> [CHR 0x0A]" by (cases "rb_data buf") (auto simp: CRLF_def numeral_2_eq_2)
  with t show ?thesis
    by (simp add: read_trailer_def maybe_extract_lines_def extract_bytes_def decode_header_lines_def
        normalize_and_validate_def advances_def buffer_inv_fresh)
next
  case False
  then have "rb_data buf = [] \<or> rb_data buf = [CHR 0x0D]" "future \<noteq> []"
    using assms(2) by (cases "rb_data buf"; cases "tl (rb_data buf)"; auto simp: CRLF_def)+
  then have plain: "plain_lines (rb_data buf) = (None, rb_data buf)"
    by (auto simp: plain_lines_def CRLF_def blank_line_at_def starts_with_def find_None_iff)
  obtain out buf' where out: "maybe_extract_lines buf = (out, buf')" by (cases "maybe_extract_lines buf")
  with lines_run [OF assms(1)] plain have "out = Inr None" "rb_data buf' = rb_data buf" "buffer_inv buf'" by simp_all
  then show ?thesis
    using assms(2) \<open>future \<noteq> []\<close> False by (simp add: read_trailer_def out advances_def)
qed

lemma chunk_data_advances:
  assumes "buffer_inv buf" and "rb_data buf @ future = x @ CRLF @ concat (map chunk_bytes cs) @ LAST_CHUNK @ rest"
    and "x \<noteq> []" and "sendable cs"
  shows "advances rest future (length (rb_data buf)) (x @ concat cs) (read_chunk_data start (length x) buf)"
  using at_most_arrives [OF assms(1,2) assms(3) [folded length_greater_0_conv]]
proof (elim disjE exE conjE)
  fix d x' buf'
  assume d: "maybe_extract_at_most (length x) buf = (Some d, buf')" "d \<noteq> []" "x = d @ x'" "buffer_inv buf'"
    "rb_data buf' @ future = x' @ CRLF @ concat (map chunk_bytes cs) @ LAST_CHUNK @ rest"
    "length (rb_data buf') < length (rb_data buf)" "x' \<noteq> [] \<longrightarrow> future \<noteq> [] \<and> rb_data buf' = []"
  let ?r = "ChunkedReader (length x') (if x' = [] then CRLF else []) False"
  have "expects ?r (x' @ concat cs) (x' @ CRLF @ concat (map chunk_bytes cs) @ LAST_CHUNK)"
    using assms(4) by (auto intro!: exI [of _ x'] exI [of _ cs])
  then show ?thesis
    using d by (auto simp: read_chunk_data_def advances_def Let_def
        intro!: exI [of _ "x' @ concat cs"] exI [of _ "x' @ CRLF @ concat (map chunk_bytes cs) @ LAST_CHUNK"])
next
  assume n: "maybe_extract_at_most (length x) buf = (None, buf)" "future \<noteq> []" "rb_data buf = []"
  have "expects (ChunkedReader (length x) [] False) (x @ concat cs) (x @ CRLF @ concat (map chunk_bytes cs) @ LAST_CHUNK)"
    using assms(3,4) by (auto intro!: exI [of _ x] exI [of _ cs])
  then show ?thesis
    using n assms(1,2) by (auto simp: read_chunk_data_def advances_def
        intro!: exI [of _ "x @ CRLF @ concat (map chunk_bytes cs) @ LAST_CHUNK"])
qed

lemma advances_mono: "advances rest future l p out \<Longrightarrow> l \<le> l' \<Longrightarrow> advances rest future l' p out"
  by (auto simp: advances_def)

lemma read_chunk_advances:
  assumes "buffer_inv buf" and "sendable cs"
    and "rb_data buf @ future = (if x = [] then [] else x @ CRLF) @ concat (map chunk_bytes cs) @ LAST_CHUNK @ rest"
  shows "advances rest future (length (rb_data buf)) (x @ concat cs) (read_chunk (length x) buf)"
proof (cases "x = []")
  case False
  then show ?thesis using chunk_data_advances [OF assms(1) _ False assms(2)] assms(3) by (simp add: read_chunk_def)
next
  case True
  show ?thesis
  proof (cases cs)
    case Nil
    have line: "rb_data buf @ future = hex_digits 0 @ CRLF @ CRLF @ rest"
      using assms(3) True Nil by (simp add: LAST_CHUNK_def hex_digits_zero)
    have "CHR 0x0D \<notin> set (hex_digits 0)" using hex_digits_all by blast
    from next_line_arrives [OF assms(1) line this] show ?thesis
    proof (elim disjE exE conjE)
      fix buf'
      assume b: "maybe_extract_next_line buf = (Some (hex_digits 0 @ CRLF), buf')" "buffer_inv buf'"
        "rb_data buf' @ future = CRLF @ rest" "length (rb_data buf') < length (rb_data buf)"
      show ?thesis
        using b chunk_size_header [of 0]
          advances_mono [OF trailer_advances [OF b(2,3), of 0 "[]"], of "length (rb_data buf)"]
        by (simp add: read_chunk_def True Nil)
    next
      fix buf'
      assume b: "maybe_extract_next_line buf = (None, buf')" "buffer_inv buf'" "rb_data buf' = rb_data buf" "future \<noteq> []"
        "length (rb_data buf) < length (hex_digits 0) + 2"
      have "expects (ChunkedReader 0 [] False) [] LAST_CHUNK" by (auto intro!: exI [of _ "[]"] simp: sendable_def)
      then show ?thesis
        using b assms(3) hex_digits_zero
        by (auto simp: read_chunk_def True Nil advances_def intro!: exI [of _ LAST_CHUNK])
    qed
  next
    case (Cons c cs')
    have c: "c \<noteq> []" "length c < 16 ^ 20" "sendable cs'" using assms(2) by (simp_all add: Cons sendable_def)
    have line: "rb_data buf @ future =
        hex_digits (length c) @ CRLF @ c @ CRLF @ concat (map chunk_bytes cs') @ LAST_CHUNK @ rest"
      using assms(3) True Cons by (simp add: chunk_bytes_def)
    have "CHR 0x0D \<notin> set (hex_digits (length c))" using hex_digits_all by blast
    from next_line_arrives [OF assms(1) line this] show ?thesis
    proof (elim disjE exE conjE)
      fix buf'
      assume b: "maybe_extract_next_line buf = (Some (hex_digits (length c) @ CRLF), buf')" "buffer_inv buf'"
        "rb_data buf' @ future = c @ CRLF @ concat (map chunk_bytes cs') @ LAST_CHUNK @ rest"
        "length (rb_data buf') < length (rb_data buf)"
      show ?thesis
        using b chunk_size_header [OF c(2)] c(1)
          advances_mono [OF chunk_data_advances [OF b(2,3) c(1,3), of True], of "length (rb_data buf)"]
        by (simp add: read_chunk_def True Cons)
    next
      fix buf'
      assume b: "maybe_extract_next_line buf = (None, buf')" "buffer_inv buf'" "rb_data buf' = rb_data buf" "future \<noteq> []"
        "length (rb_data buf) < length (hex_digits (length c)) + 2"
      have "expects (ChunkedReader 0 [] False) (concat cs) (concat (map chunk_bytes cs) @ LAST_CHUNK)"
        using assms(2) by (auto intro!: exI [of _ "[]"] exI [of _ cs])
      then show ?thesis
        using b assms(3) hex_digits_length [OF c(2)] by (auto simp: read_chunk_def True advances_def
            intro!: exI [of _ "concat (map chunk_bytes cs) @ LAST_CHUNK"])
    qed
  qed
qed

lemma read_body_advances:
  assumes "buffer_inv buf" and "expects r payload b" and "rb_data buf @ future = b @ rest"
  shows "advances rest future (length (rb_data buf)) payload (read_body r buf)"
proof (cases r)
  case (ContentLengthReader len remaining)
  then have b: "b = payload" "remaining = length payload" using assms(2) by simp_all
  show ?thesis
  proof (cases "payload = []")
    case True
    then show ?thesis using assms b by (simp add: ContentLengthReader advances_def)
  next
    case False
    then have "0 < length payload" by simp
    from at_most_arrives [OF assms(1) assms(3) [unfolded b(1)] this] show ?thesis
    proof (elim disjE exE conjE)
      fix d x' buf'
      assume d: "maybe_extract_at_most (length payload) buf = (Some d, buf')" "d \<noteq> []" "payload = d @ x'" "buffer_inv buf'"
        "rb_data buf' @ future = x' @ rest" "length (rb_data buf') < length (rb_data buf)" "x' \<noteq> [] \<longrightarrow> future \<noteq> [] \<and> rb_data buf' = []"
      then have "length payload - length d = length x'" by simp
      with d False show ?thesis by (auto simp: ContentLengthReader b(2) advances_def)
    next
      assume "maybe_extract_at_most (length payload) buf = (None, buf)" "future \<noteq> []" "rb_data buf = []"
      with False assms show ?thesis by (simp add: ContentLengthReader b advances_def)
    qed
  qed
next
  case (ChunkedReader in_chunk discard trailer)
  show ?thesis
  proof (cases trailer)
    case True
    then show ?thesis
      using assms trailer_advances [OF assms(1), of future rest in_chunk discard] by (simp add: ChunkedReader)
  next
    case False
    then obtain x cs where x: "length x = in_chunk" "in_chunk = 0 \<or> discard = []" "discard \<in> {[], [CHR 0x0A], CRLF}"
        "sendable cs" "payload = x @ concat cs"
        "b = discard @ (if in_chunk = 0 then [] else x @ CRLF) @ concat (map chunk_bytes cs) @ LAST_CHUNK"
      using assms(2) by (auto simp: ChunkedReader)
    let ?tail = "(if x = [] then [] else x @ CRLF) @ concat (map chunk_bytes cs) @ LAST_CHUNK @ rest"
    have all: "rb_data buf @ future = discard @ ?tail" using assms(3) x by auto
    show ?thesis
    proof (cases "discard = []")
      case True
      then show ?thesis
        using read_chunk_advances [OF assms(1) x(4), of future x rest] all False x(1,5)
        by (simp add: ChunkedReader)
    next
      case nonempty: False
      then have x0: "x = []" "in_chunk = 0" using x(1,2) by auto
      from at_most_arrives [OF assms(1) all nonempty [folded length_greater_0_conv]] show ?thesis
      proof (elim disjE exE conjE)
        fix d d' buf'
        assume d: "maybe_extract_at_most (length discard) buf = (Some d, buf')" "d \<noteq> []" "discard = d @ d'" "buffer_inv buf'"
          "rb_data buf' @ future = d' @ ?tail" "length (rb_data buf') < length (rb_data buf)" "d' \<noteq> [] \<longrightarrow> future \<noteq> [] \<and> rb_data buf' = []"
        show ?thesis
        proof (cases "d' = []")
          case True
          with d x0 have "rb_data buf' @ future = (if x = [] then [] else x @ CRLF) @ concat (map chunk_bytes cs) @ LAST_CHUNK @ rest"
            by simp
          from advances_mono [OF read_chunk_advances [OF d(4) x(4) this], of "length (rb_data buf)"]
          show ?thesis using d True False nonempty x(5) x0 by (simp add: ChunkedReader)
        next
          case left: False
          have "d' \<in> {[], [CHR 0x0A], CRLF}"
            using x(3) d(2) d(3) [symmetric] left by (auto simp: CRLF_def append_eq_Cons_conv)
          then have "expects (ChunkedReader 0 d' False) payload (d' @ concat (map chunk_bytes cs) @ LAST_CHUNK)"
            using x(4,5) x0 by (auto intro!: exI [of _ cs])
          then show ?thesis
            using d left False nonempty x0 by (auto simp: ChunkedReader advances_def
                intro!: exI [of _ "d' @ concat (map chunk_bytes cs) @ LAST_CHUNK"])
        qed
      next
        assume "maybe_extract_at_most (length discard) buf = (None, buf)" "future \<noteq> []" "rb_data buf = []"
        with nonempty False assms show ?thesis by (auto simp: ChunkedReader advances_def)
      qed
    qed
  qed
qed (use assms(2) in simp)

section \<open>A body, read as it arrives\<close>

lemma at_most_shrinks:
  "maybe_extract_at_most n buf = (Some d, buf') \<Longrightarrow> length (rb_data buf') < length (rb_data buf)"
  by (auto simp: maybe_extract_at_most_def extract_bytes_def split: if_splits)

lemma next_line_shrinks:
  "maybe_extract_next_line buf = (out, buf') \<Longrightarrow> length (rb_data buf') \<le> length (rb_data buf)"
  by (auto simp: maybe_extract_next_line_def extract_bytes_def split: option.splits)

lemma read_body_shrinks:
  assumes "read_body r buf = (Inr (Some (DataEvent d s e)), r', buf')"
  shows "length (rb_data buf') < length (rb_data buf)"
proof -
  have data: "read_chunk_data st n b = (Inr (Some (DataEvent d s e)), r', buf') \<Longrightarrow> length (rb_data buf') < length (rb_data b)" for st n b
    by (auto simp: read_chunk_data_def Let_def dest: at_most_shrinks split: prod.splits option.splits)
  have no_trailer: "\<not> (\<exists>b. read_trailer b0 = (Inr (Some (DataEvent d s e)), b))" for b0
    by (auto simp: read_trailer_def map_sum_Inr split: prod.splits sum.splits option.splits)
  have chunk: "read_chunk n b = (Inr (Some (DataEvent d s e)), r', buf') \<Longrightarrow> length (rb_data buf') < length (rb_data b)" for n b
    using no_trailer
    by (auto simp: read_chunk_def dest!: data next_line_shrinks split: prod.splits option.splits if_splits)
  show ?thesis
    using assms no_trailer
    by (cases r) (auto dest!: chunk at_most_shrinks split: prod.splits option.splits if_splits)
qed

fun is_data :: "http_event \<Rightarrow> bool" where
  "is_data (DataEvent _ _ _) = True"
| "is_data _ = False"

lemma is_dataE: "is_data event \<Longrightarrow> \<exists>d s e. event = DataEvent d s e"
  by (cases event) auto

text \<open>The events of what has arrived: the reader is asked until it needs more or the message ends.\<close>

datatype arrival = Incomplete body_reader receive_buffer | Complete receive_buffer | Failed exn

function drain :: "body_reader \<Rightarrow> receive_buffer \<Rightarrow> http_event list \<times> arrival" where
  "drain r buf =
     (case read_body r buf of
        (Inl e, r', buf') \<Rightarrow> ([], Failed e)
      | (Inr None, r', buf') \<Rightarrow> ([], Incomplete r' buf')
      | (Inr (Some event), r', buf') \<Rightarrow>
          if is_data event then apfst ((#) event) (drain r' buf') else ([event], Complete buf'))"
  by pat_completeness auto
termination
  by (relation "measure (\<lambda>(r, buf). length (rb_data buf))") (auto dest!: is_dataE dest: read_body_shrinks [OF sym])

declare drain.simps [simp del]

fun event_data :: "http_event \<Rightarrow> string" where
  "event_data (DataEvent d _ _) = d"
| "event_data _ = []"

definition body_of :: "http_event list \<Rightarrow> string" where
  "body_of events = concat (map event_data events)"

text \<open>The bytes arrive in pieces, each added to the buffer when the reader has asked for more.\<close>

fun receive :: "body_reader \<Rightarrow> receive_buffer \<Rightarrow> string list \<Rightarrow> http_event list \<times> arrival" where
  "receive r buf [] = drain r buf"
| "receive r buf (a # arrivals) =
     (case drain r buf of
        (events, Incomplete r' buf') \<Rightarrow> apfst ((@) events) (receive r' (buffer_add a buf') arrivals)
      | (events, Complete buf') \<Rightarrow> (events, Complete (fold buffer_add (a # arrivals) buf'))
      | (events, Failed e) \<Rightarrow> (events, Failed e))"

lemma body_of_simps [simp]:
  "body_of [] = []" "body_of (e # es) = event_data e @ body_of es" "body_of (es @ es') = body_of es @ body_of es'"
  by (simp_all add: body_of_def)

lemma drain_advances:
  assumes "buffer_inv buf" and "expects r payload b" and "rb_data buf @ future = b @ rest"
  shows "(\<exists>events r' buf' p' b'. drain r buf = (events, Incomplete r' buf') \<and> list_all is_data events \<and>
       payload = body_of events @ p' \<and> buffer_inv buf' \<and> expects r' p' b' \<and> rb_data buf' @ future = b' @ rest \<and> future \<noteq> []) \<or>
    (\<exists>events buf'. drain r buf = (events @ [EndEvent []], Complete buf') \<and> list_all is_data events \<and>
       payload = body_of events \<and> buffer_inv buf' \<and> rb_data buf' @ future = rest)"
  using assms
proof (induction "length (rb_data buf)" arbitrary: r buf payload b rule: less_induct)
  case less
  obtain res r1 buf1 where call: "read_body r buf = (res, r1, buf1)" by (cases "read_body r buf")
  from read_body_advances [OF less.prems] have adv: "buffer_inv buf1"
    "res = Inr None \<and> future \<noteq> [] \<and> length (rb_data buf1) \<le> 22 \<and> (\<exists>b. expects r1 payload b \<and> rb_data buf1 @ future = b @ rest) \<or>
     (\<exists>d s e p'. res = Inr (Some (DataEvent d s e)) \<and> d \<noteq> [] \<and> payload = d @ p' \<and>
        length (rb_data buf1) < length (rb_data buf) \<and> (\<exists>b. expects r1 p' b \<and> rb_data buf1 @ future = b @ rest)) \<or>
     res = Inr (Some (EndEvent [])) \<and> payload = [] \<and> rb_data buf1 @ future = rest"
    by (simp_all add: advances_def call)
  from adv(2) show ?case
  proof (elim disjE)
    assume "res = Inr None \<and> future \<noteq> [] \<and> length (rb_data buf1) \<le> 22 \<and> (\<exists>b. expects r1 payload b \<and> rb_data buf1 @ future = b @ rest)"
    then show ?thesis using adv(1) call by (intro disjI1) (auto simp: drain.simps [of r buf])
  next
    assume "\<exists>d s e p'. res = Inr (Some (DataEvent d s e)) \<and> d \<noteq> [] \<and> payload = d @ p' \<and>
        length (rb_data buf1) < length (rb_data buf) \<and> (\<exists>b. expects r1 p' b \<and> rb_data buf1 @ future = b @ rest)"
    then obtain d s e p' b1 where d: "res = Inr (Some (DataEvent d s e))" "payload = d @ p'"
        "length (rb_data buf1) < length (rb_data buf)" "expects r1 p' b1" "rb_data buf1 @ future = b1 @ rest" by blast
    have step: "drain r buf = apfst ((#) (DataEvent d s e)) (drain r1 buf1)"
      using call d(1) by (simp add: drain.simps [of r buf])
    from less.hyps [OF d(3) adv(1) d(4,5)] show ?thesis
    proof (elim disjE exE conjE)
      fix events r' buf' p'' b'
      assume "drain r1 buf1 = (events, Incomplete r' buf')" "list_all is_data events" "p' = body_of events @ p''"
        "buffer_inv buf'" "expects r' p'' b'" "rb_data buf' @ future = b' @ rest" "future \<noteq> []"
      then show ?thesis
        using step d(2) by (intro disjI1 exI [of _ "DataEvent d s e # events"] exI [of _ r'] exI [of _ buf']
            exI [of _ p''] exI [of _ b']) simp
    next
      fix events buf'
      assume "drain r1 buf1 = (events @ [EndEvent []], Complete buf')" "list_all is_data events" "p' = body_of events"
        "buffer_inv buf'" "rb_data buf' @ future = rest"
      then show ?thesis
        using step d(2) by (intro disjI2 exI [of _ "DataEvent d s e # events"] exI [of _ buf']) simp
    qed
  next
    assume "res = Inr (Some (EndEvent [])) \<and> payload = [] \<and> rb_data buf1 @ future = rest"
    then show ?thesis
      using adv(1) call by (intro disjI2 exI [of _ "[]"] exI [of _ buf1]) (simp add: drain.simps [of r buf])
  qed
qed

lemma fold_add_data: "rb_data (fold buffer_add as buf) = rb_data buf @ concat as"
  by (induction as arbitrary: buf) (simp_all add: buffer_add_def)

lemma receive_complete:
  assumes "buffer_inv buf" and "expects r payload b" and "rb_data buf @ concat arrivals = b @ rest"
  shows "\<exists>events buf'. receive r buf arrivals = (events @ [EndEvent []], Complete buf') \<and> list_all is_data events \<and>
    body_of events = payload \<and> rb_data buf' = rest"
  using assms
proof (induction arrivals arbitrary: r buf payload b)
  case Nil
  then show ?case using drain_advances [of buf r payload b "[]" rest] by auto
next
  case (Cons a arrivals)
  from drain_advances [OF Cons.prems] show ?case
  proof (elim disjE exE conjE)
    fix events r' buf' p' b'
    assume d: "drain r buf = (events, Incomplete r' buf')" "list_all is_data events" "payload = body_of events @ p'"
      "buffer_inv buf'" "expects r' p' b'" "rb_data buf' @ concat (a # arrivals) = b' @ rest"
    have "rb_data (buffer_add a buf') @ concat arrivals = b' @ rest" using d(6) by (simp add: buffer_add_def)
    from Cons.IH [OF buffer_inv_add [OF d(4)] d(5) this] obtain events2 buf2 where
      "receive r' (buffer_add a buf') arrivals = (events2 @ [EndEvent []], Complete buf2)" "list_all is_data events2"
      "body_of events2 = p'" "rb_data buf2 = rest" by blast
    with d(1-3) show ?thesis by (intro exI [of _ "events @ events2"] exI [of _ buf2]) simp
  next
    fix events buf'
    assume d: "drain r buf = (events @ [EndEvent []], Complete buf')" "list_all is_data events" "payload = body_of events"
      "rb_data buf' @ concat (a # arrivals) = rest"
    then show ?thesis
      by (intro exI [of _ events] exI [of _ "fold buffer_add (a # arrivals) buf'"])
        (simp add: fold_add_data buffer_add_def)
  qed
qed

text \<open>The pieces of a body and its end, written one after the other.\<close>

fun write_pieces :: "body_writer \<Rightarrow> string list \<Rightarrow> string result" where
  "write_pieces w [] = send_eom w []"
| "write_pieces w (d # ds) =
     (case send_data w d of
        (Inl e, w') \<Rightarrow> Inl e
      | (Inr bytes, w') \<Rightarrow> map_sum id ((@) bytes) (write_pieces w' ds))"

lemma write_chunked:
  "write_pieces ChunkedWriter ds = Inr (concat (map chunk_bytes (filter (\<lambda>d. d \<noteq> []) ds)) @ LAST_CHUNK)"
  by (induction ds) (auto simp: chunk_bytes_def LAST_CHUNK_def write_headers_def)

lemma write_counted:
  "write_pieces (ContentLengthWriter n) ds = Inr bytes \<Longrightarrow> bytes = concat ds \<and> n = int (length bytes)"
  by (induction ds arbitrary: n bytes) (auto simp: Let_def map_sum_Inr split: if_splits)

lemma concat_filter_nonempty: "concat (filter (\<lambda>d. d \<noteq> []) ds) = concat ds"
  by (induction ds) auto

lemma expects_written:
  assumes "write_pieces (body_writer_of f) ds = Inr bytes" and "f \<noteq> Http10" and "\<forall>d \<in> set ds. length d < 16 ^ 20"
  shows "expects (body_reader_of f) (concat ds) bytes"
proof (cases f)
  case (ContentLength n)
  then show ?thesis using assms(1) write_counted [of n ds bytes] by (simp add: body_writer_of_def body_reader_of_def)
next
  case Chunked
  have "sendable (filter (\<lambda>d. d \<noteq> []) ds)" using assms(3) by (simp add: sendable_def)
  then show ?thesis
    using assms(1) Chunked write_chunked [of ds]
    by (auto simp: body_writer_of_def body_reader_of_def concat_filter_nonempty
        intro!: exI [of _ "filter (\<lambda>d. d \<noteq> []) ds"])
qed (use assms(2) in simp)

text \<open>
  C32: A body survives its way over the wire.  Whatever pieces a sender writes, empty ones included,
  with a declared length or in chunks (pieces below 16 ^ 20 bytes: a chunk header has room for 20
  digits), and however the bytes are cut on their way, mid-header and
  mid-footer included: the receiver is given the same bytes in order and then the end of the message,
  as soon as they have all come, and what follows the message stays in the buffer untouched.
\<close>

theorem body_roundtrip:
  assumes "write_pieces (body_writer_of f) ds = Inr bytes" and "f \<noteq> Http10" and "\<forall>d \<in> set ds. length d < 16 ^ 20"
    and "concat arrivals = bytes @ rest"
  shows "\<exists>events buf. receive (body_reader_of f) ReceiveBuffer arrivals = (events @ [EndEvent []], Complete buf) \<and>
    list_all is_data events \<and> body_of events = concat ds \<and> rb_data buf = rest"
proof -
  have "rb_data ReceiveBuffer @ concat arrivals = bytes @ rest" using assms(4) by (simp add: ReceiveBuffer_def)
  from receive_complete [OF buffer_inv_init expects_written [OF assms(1-3)] this] show ?thesis .
qed

theorem body_roundtrip_witness:
  "\<exists>events buf. receive (body_reader_of Chunked) ReceiveBuffer
      [''3'', CRLF @ ''ab'', ''c'' @ [CHR 0x0D], [CHR 0x0A] @ ''0'' @ CRLF, CRLF @ ''GET''] = (events @ [EndEvent []], Complete buf) \<and>
    body_of events = ''abc'' \<and> rb_data buf = ''GET''"
proof -
  have three: "hex_digits (Suc (Suc (Suc 0))) = ''3''" by (simp add: hex_digits.simps hex_char_def char_of_def bit_Suc_0_iff)
  have written: "write_pieces (body_writer_of Chunked) [''abc'', []] = Inr (''3'' @ CRLF @ ''abc'' @ CRLF @ ''0'' @ CRLF @ CRLF)"
    by (simp add: body_writer_of_def write_headers_def three)
  have arrives: "concat [''3'', CRLF @ ''ab'', ''c'' @ [CHR 0x0D], [CHR 0x0A] @ ''0'' @ CRLF, CRLF @ ''GET''] =
      (''3'' @ CRLF @ ''abc'' @ CRLF @ ''0'' @ CRLF @ CRLF) @ ''GET''" by (simp add: CRLF_def)
  obtain events buf where "receive (body_reader_of Chunked) ReceiveBuffer
      [''3'', CRLF @ ''ab'', ''c'' @ [CHR 0x0D], [CHR 0x0A] @ ''0'' @ CRLF, CRLF @ ''GET''] = (events @ [EndEvent []], Complete buf)"
    "body_of events = concat [''abc'', []]" "rb_data buf = ''GET''"
    using body_roundtrip [OF written _ _ arrives] by auto
  then show ?thesis by (intro exI [of _ events] exI [of _ buf]) simp
qed

end
