(* ===== verification/HttpConnection.thy ===== *)
theory HttpConnection
  imports HttpBody
begin

text \<open>
  The connection object of h11 (h11/_connection.py): the events of both sides pass through the state
  machine, the readers and writers follow its states, and the headers of a response are cleaned up
  before it is sent.  The lemmas show how a response is framed.
\<close>

section \<open>The connection\<close>

datatype reader_object = ReadRequest | ReadResponse | ExpectNothing | ReadBody body_reader

datatype writer_object = WriteRequest | WriteResponse | WriteBody body_writer

record connection =
  our_role :: role
  max_incomplete_event_size :: nat
  cstate :: connection_state
  writer :: "writer_object option"
  reader :: "reader_object option"
  recv_buffer :: receive_buffer
  recv_closed :: bool
  their_http_version :: "string option"
  conn_request_method :: "string option"
  waiting_for_100_continue :: bool

type_synonym 'a conn_op = "(connection, 'a) prog"

definition their_role :: "connection \<Rightarrow> role" where
  "their_role c = other (our_role c)"

definition our_state :: "connection \<Rightarrow> conn_state" where
  "our_state c = state_of (our_role c) (cstate c)"

definition their_state :: "connection \<Rightarrow> conn_state" where
  "their_state c = state_of (their_role c) (cstate c)"

text \<open>The tables \<open>READERS\<close> and \<open>WRITERS\<close> for the states other than \<open>SEND_BODY\<close>.\<close>

fun READERS :: "role \<Rightarrow> conn_state \<Rightarrow> reader_object option" where
  "READERS CLIENT IDLE = Some ReadRequest"
| "READERS SERVER IDLE = Some ReadResponse"
| "READERS SERVER SEND_RESPONSE = Some ReadResponse"
| "READERS _ DONE = Some ExpectNothing"
| "READERS _ MUST_CLOSE = Some ExpectNothing"
| "READERS _ CLOSED = Some ExpectNothing"
| "READERS _ _ = None"

fun WRITERS :: "role \<Rightarrow> conn_state \<Rightarrow> writer_object option" where
  "WRITERS CLIENT IDLE = Some WriteRequest"
| "WRITERS SERVER IDLE = Some WriteResponse"
| "WRITERS SERVER SEND_RESPONSE = Some WriteResponse"
| "WRITERS _ _ = None"

text \<open>
  \<open>_get_io_object\<close>: entering \<open>SEND_BODY\<close> needs the event whose headers decide the framing; without
  one (or with another event) its assertion fails.
\<close>

definition framing_for :: "connection \<Rightarrow> http_event option \<Rightarrow> framing result" where
  "framing_for c event =
     (case event of None \<Rightarrow> Inl AssertionError | Some e \<Rightarrow> body_framing (conn_request_method c) e)"

definition get_reader :: "connection \<Rightarrow> role \<Rightarrow> http_event option \<Rightarrow> reader_object option result" where
  "get_reader c role event =
     (if state_of role (cstate c) = SEND_BODY
      then map_sum id (\<lambda>f. Some (ReadBody (body_reader_of f))) (framing_for c event)
      else Inr (READERS role (state_of role (cstate c))))"

definition get_writer :: "connection \<Rightarrow> role \<Rightarrow> http_event option \<Rightarrow> writer_object option result" where
  "get_writer c role event =
     (if state_of role (cstate c) = SEND_BODY
      then map_sum id (\<lambda>f. Some (WriteBody (body_writer_of f))) (framing_for c event)
      else Inr (WRITERS role (state_of role (cstate c))))"

text \<open>\<open>_respond_to_state_changes\<close>\<close>

definition respond_to_state_changes :: "connection_state \<Rightarrow> http_event option \<Rightarrow> unit conn_op" where
  "respond_to_state_changes old event =
     andThen
       (bindE (readS id) (\<lambda>c.
          if our_state c \<noteq> state_of (our_role c) old
          then bindE (lift (get_writer c (our_role c) event)) (\<lambda>w. modS (\<lambda>c. c\<lparr> writer := w \<rparr>))
          else ret ()))
       (bindE (readS id) (\<lambda>c.
          if their_state c \<noteq> state_of (their_role c) old
          then bindE (lift (get_reader c (their_role c) event)) (\<lambda>r. modS (\<lambda>c. c\<lparr> reader := r \<rparr>))
          else ret ()))"

text \<open>An operation on the state machine inside the connection.\<close>

definition on_cstate :: "(connection_state, 'a) prog \<Rightarrow> 'a conn_op" where
  "on_cstate f = (\<lambda>c. case f (cstate c) of (r, s) \<Rightarrow> (r, c\<lparr> cstate := s \<rparr>))"

definition Connection :: "role \<Rightarrow> nat \<Rightarrow> connection" where
  "Connection role max_size =
     \<lparr> our_role = role, max_incomplete_event_size = max_size, cstate = ConnectionState,
       writer = WRITERS role IDLE, reader = READERS (other role) IDLE,
       recv_buffer = ReceiveBuffer, recv_closed = False,
       their_http_version = None, conn_request_method = None, waiting_for_100_continue = False \<rparr>"

definition DEFAULT_MAX_INCOMPLETE_EVENT_SIZE :: nat where
  "DEFAULT_MAX_INCOMPLETE_EVENT_SIZE = 16 * 1024"

definition conn_start_next_cycle :: "unit conn_op" where
  "conn_start_next_cycle =
     bindE (readS cstate) (\<lambda>old.
     andThen (on_cstate start_next_cycle)
     (andThen (modS (\<lambda>c. c\<lparr> conn_request_method := None \<rparr>))
     (bindE (readS waiting_for_100_continue) (\<lambda>waiting.
       if waiting then raise AssertionError else respond_to_state_changes old None))))"

definition conn_process_error :: "role \<Rightarrow> unit conn_op" where
  "conn_process_error role =
     bindE (readS cstate) (\<lambda>old.
     andThen (on_cstate (process_error role)) (respond_to_state_changes old None))"

definition server_switch_event :: "connection_state \<Rightarrow> http_event \<Rightarrow> switch option" where
  "server_switch_event s event =
     (case event of
        InformationalEvent r \<Rightarrow> if rs_status_code r = 101 then Some SWITCH_UPGRADE else None
      | ResponseEvent r \<Rightarrow>
          if SWITCH_CONNECT \<in> pending_switch_proposals s \<and> 200 \<le> rs_status_code r \<and> rs_status_code r < 300
          then Some SWITCH_CONNECT else None
      | _ \<Rightarrow> None)"

text \<open>The switches a client's request proposes.\<close>

definition propose_switches :: "http_event \<Rightarrow> unit conn_op" where
  "propose_switches event =
     (case event of
        RequestEvent r \<Rightarrow>
          andThen (if rq_method r = ''CONNECT'' then on_cstate (process_client_switch_proposal SWITCH_CONNECT) else ret ())
            (if get_comma_header (rq_headers r) ''upgrade'' \<noteq> []
             then on_cstate (process_client_switch_proposal SWITCH_UPGRADE) else ret ())
      | _ \<Rightarrow> ret ())"

fun event_method :: "http_event \<Rightarrow> string option" where
  "event_method (RequestEvent r) = Some (rq_method r)"
| "event_method _ = None"

definition expects_continue :: "http_event \<Rightarrow> bool" where
  "expects_continue event = (case event of RequestEvent r \<Rightarrow> has_expect_100_continue r | _ \<Rightarrow> False)"

text \<open>What \<open>_process_event\<close> records of an event once the state machine has taken it.\<close>

definition note_event :: "role \<Rightarrow> http_event \<Rightarrow> connection \<Rightarrow> connection" where
  "note_event role event c =
     (let t = type_of_event event;
          c1 = (if t = Request then c\<lparr> conn_request_method := event_method event \<rparr> else c)
      in if role = their_role c \<and> t \<in> {Request, Response, InformationalResponse}
         then c1\<lparr> their_http_version := Some (event_version event) \<rparr> else c1)"

definition note_continue :: "role \<Rightarrow> http_event \<Rightarrow> connection \<Rightarrow> connection" where
  "note_continue role event c =
     (let t = type_of_event event;
          c1 = (if expects_continue event then c\<lparr> waiting_for_100_continue := True \<rparr> else c);
          c2 = (if t \<in> {InformationalResponse, Response} then c1\<lparr> waiting_for_100_continue := False \<rparr> else c1)
      in if role = CLIENT \<and> t \<in> {Data, EndOfMessage} then c2\<lparr> waiting_for_100_continue := False \<rparr> else c2)"

definition conn_process_event :: "role \<Rightarrow> http_event \<Rightarrow> unit conn_op" where
  "conn_process_event role event =
     bindE (readS cstate) (\<lambda>old.
     andThen (if role = CLIENT then propose_switches event else ret ())
     (bindE (readS (\<lambda>c. if role = SERVER then server_switch_event (cstate c) event else None)) (\<lambda>sw.
     andThen (on_cstate (process_event role (type_of_event event) sw))
     (andThen (modS (note_event role event))
     (andThen
       (if type_of_event event \<in> {Request, Response} \<and> \<not> wants_keep_alive event
        then on_cstate process_keep_alive_disabled else ret ())
     (andThen (modS (note_continue role event))
       (respond_to_state_changes old (Some event))))))))"

section \<open>Receiving\<close>

definition receive_data :: "string \<Rightarrow> unit conn_op" where
  "receive_data data =
     (if data \<noteq> []
      then bindE (readS recv_closed) (\<lambda>closed.
        if closed then raise (RuntimeError ''received close, then received more data?'')
        else modS (\<lambda>c. c\<lparr> recv_buffer := buffer_add data (recv_buffer c) \<rparr>))
      else modS (\<lambda>c. c\<lparr> recv_closed := True \<rparr>))"

datatype next_result = NextEvent http_event | NEED_DATA | PAUSED

fun run_reader :: "reader_object \<Rightarrow> receive_buffer \<Rightarrow> http_event option result \<times> reader_object \<times> receive_buffer" where
  "run_reader ReadRequest buf = (case read_request buf of (r, buf') \<Rightarrow> (r, ReadRequest, buf'))"
| "run_reader ReadResponse buf = (case read_response buf of (r, buf') \<Rightarrow> (r, ReadResponse, buf'))"
| "run_reader ExpectNothing buf = (map_sum id (\<lambda>_. None) (expect_nothing buf), ExpectNothing, buf)"
| "run_reader (ReadBody b) buf = (case read_body b buf of (r, b', buf') \<Rightarrow> (r, ReadBody b', buf'))"

text \<open>Only the readers of a body have \<open>read_eof\<close>.\<close>

fun reader_eof :: "reader_object \<Rightarrow> http_event result" where
  "reader_eof (ReadBody b) = read_eof b"
| "reader_eof _ = Inr ClosedEvent"

definition call_reader :: "http_event option conn_op" where
  "call_reader = (\<lambda>c.
     case reader c of
       None \<Rightarrow> (Inl AssertionError, c)
     | Some r \<Rightarrow> (case run_reader r (recv_buffer c) of
         (res, r', buf) \<Rightarrow> (res, c\<lparr> reader := Some r', recv_buffer := buf \<rparr>)))"

definition extract_next_receive_event :: "next_result conn_op" where
  "extract_next_receive_event =
     bindE (readS id) (\<lambda>c.
       if their_state c = DONE \<and> rb_data (recv_buffer c) \<noteq> [] then ret PAUSED
       else if their_state c = MIGHT_SWITCH_PROTOCOL \<or> their_state c = SWITCHED_PROTOCOL then ret PAUSED
       else bindE call_reader (\<lambda>event.
         case event of
           Some e \<Rightarrow> ret (NextEvent e)
         | None \<Rightarrow>
             bindE (readS id) (\<lambda>c.
               if rb_data (recv_buffer c) = [] \<and> recv_closed c
               then bindE (lift (reader_eof (the (reader c)))) (\<lambda>e. ret (NextEvent e))
               else ret NEED_DATA)))"

definition reraised :: "exn \<Rightarrow> exn" where
  "reraised e = (case e of LocalProtocolError msg hint \<Rightarrow> RemoteProtocolError msg hint | _ \<Rightarrow> e)"

definition checked_next_event :: "next_result conn_op" where
  "checked_next_event =
     bindE extract_next_receive_event (\<lambda>result.
     andThen
       (case result of
          NextEvent e \<Rightarrow> bindE (readS their_role) (\<lambda>role. conn_process_event role e)
        | NEED_DATA \<Rightarrow>
            bindE (readS id) (\<lambda>c.
              if max_incomplete_event_size c < length (rb_data (recv_buffer c))
              then raise (RemoteProtocolError ''Receive buffer too long'' 431)
              else if recv_closed c then raise (RemoteProtocolError ''peer unexpectedly closed connection'' 400)
              else ret ())
        | PAUSED \<Rightarrow> ret ())
       (ret result))"

definition next_event :: "next_result conn_op" where
  "next_event =
     bindE (readS id) (\<lambda>c.
       if their_state c = ERROR
       then raise (RemoteProtocolError ''Can't receive data when peer state is ERROR'' 400)
       else tryExcept checked_next_event
         (\<lambda>e. andThen (conn_process_error (their_role c)) (raise (reraised e))))"

section \<open>Sending\<close>

definition connection_close_values :: "full_headers \<Rightarrow> string list" where
  "connection_close_values headers =
     sort (remdups (filter (\<lambda>v. v \<noteq> ''keep-alive'') (get_comma_header headers ''connection'') @ [''close'']))"

text \<open>
  The framing headers of a response whose body has no stated length: the peer's version decides.
  The second result is \<open>need_close\<close>.
\<close>

definition choose_framing :: "connection \<Rightarrow> full_headers \<Rightarrow> (full_headers \<times> bool) result" where
  "choose_framing c headers =
     (case set_comma_header headers ''content-length'' [] of
        Inl e \<Rightarrow> Inl e
      | Inr hs \<Rightarrow>
          if their_http_version c = None \<or> the (their_http_version c) < ''1.1''
          then map_sum id (\<lambda>hs'. (hs', conn_request_method c \<noteq> Some ''HEAD''))
            (set_comma_header hs ''transfer-encoding'' [])
          else map_sum id (\<lambda>hs'. (hs', False)) (set_comma_header hs ''transfer-encoding'' [''chunked'']))"

definition clean_up_response :: "connection \<Rightarrow> http_response \<Rightarrow> http_response result" where
  "clean_up_response c r =
     (let method = (if conn_request_method c = Some ''HEAD'' then Some ''GET'' else conn_request_method c)
      in case body_framing method (ResponseEvent r) of
           Inl e \<Rightarrow> Inl e
         | Inr f \<Rightarrow>
             (case (if f \<in> {Chunked, Http10} then choose_framing c (rs_headers r) else Inr (rs_headers r, False)) of
                Inl e \<Rightarrow> Inl e
              | Inr (hs, need_close) \<Rightarrow>
                  map_sum id (\<lambda>hs'. r\<lparr> rs_headers := hs' \<rparr>)
                    (if \<not> keep_alive (cstate c) \<or> need_close
                     then set_comma_header hs ''connection'' (connection_close_values hs) else Inr hs)))"

text \<open>
  A writer and the writer afterwards: the one for a declared length counts what is sent.  An event
  of another kind than the writer expects fails, but the state machine lets none through.
\<close>

fun run_writer :: "writer_object \<Rightarrow> http_event \<Rightarrow> string result \<times> writer_object" where
  "run_writer WriteRequest (RequestEvent r) = (write_request r, WriteRequest)"
| "run_writer WriteResponse (ResponseEvent r) = (write_any_response r, WriteResponse)"
| "run_writer WriteResponse (InformationalEvent r) = (write_any_response r, WriteResponse)"
| "run_writer (WriteBody w) (DataEvent d _ _) = (case send_data w d of (res, w') \<Rightarrow> (res, WriteBody w'))"
| "run_writer (WriteBody w) (EndEvent hs) = (send_eom w hs, WriteBody w)"
| "run_writer (WriteBody w) _ = (Inl AssertionError, WriteBody w)"
| "run_writer w _ = (Inl (AttributeError ''http_version''), w)"

definition write_event :: "writer_object option \<Rightarrow> http_event \<Rightarrow> string conn_op" where
  "write_event w event =
     (case w of
        None \<Rightarrow> raise AssertionError
      | Some w \<Rightarrow>
          (case run_writer w event of
             (res, w') \<Rightarrow>
               andThen (modS (\<lambda>c. if type_of_event event = Data then c\<lparr> writer := Some w' \<rparr> else c)) (lift res)))"

definition send_checked :: "http_event \<Rightarrow> string option conn_op" where
  "send_checked event =
     bindE (case event of
         ResponseEvent r \<Rightarrow> bindE (readS id) (\<lambda>c. lift (map_sum id ResponseEvent (clean_up_response c r)))
       | _ \<Rightarrow> ret event) (\<lambda>event.
     bindE (readS writer) (\<lambda>w.
     bindE (readS our_role) (\<lambda>role.
     andThen (conn_process_event role event)
       (if event = ClosedEvent then ret None else bindE (write_event w event) (\<lambda>bytes. ret (Some bytes))))))"

definition send_event :: "http_event \<Rightarrow> string option conn_op" where
  "send_event event =
     bindE (readS id) (\<lambda>c.
       if our_state c = ERROR then raise (LocalProtocolError ''Can't send data when our state is ERROR'' 400)
       else tryExcept (send_checked event)
         (\<lambda>e. andThen (conn_process_error (our_role c)) (raise e)))"

definition send_failed :: "unit conn_op" where
  "send_failed = bindE (readS our_role) conn_process_error"

section \<open>Well-formed headers\<close>

text \<open>What \<open>normalize_and_validate\<close> returns, and what it leaves as it is.\<close>

definition header_wf :: "full_headers \<Rightarrow> bool" where
  "header_wf hs \<longleftrightarrow>
     (\<forall>(raw_name, name, v) \<in> set hs.
        token_re raw_name \<and> name = bytes_lower raw_name \<and> field_value_re v \<and>
        (name = ''content-length'' \<longrightarrow> content_length_re v \<and> length v \<le> 20) \<and>
        (name = ''transfer-encoding'' \<longrightarrow> v = ''chunked'')) \<and>
     length (filter (\<lambda>h. fst (snd h) = ''content-length'') hs) \<le> 1 \<and>
     length (filter (\<lambda>h. fst (snd h) = ''transfer-encoding'') hs) \<le> 1"

definition raw_headers :: "full_headers \<Rightarrow> (string \<times> string) list" where
  "raw_headers hs = map (\<lambda>(raw_name, _, v). (raw_name, v)) hs"

lemma raw_headers_simps [simp]:
  "raw_headers [] = []" "raw_headers ((raw_name, n, v) # hs) = (raw_name, v) # raw_headers hs"
  "raw_headers (hs @ hs') = raw_headers hs @ raw_headers hs'"
  by (simp_all add: raw_headers_def)

lemma digits_value: "content_length_re l \<Longrightarrow> field_value_re l"
proof -
  assume l: "content_length_re l"
  have "field_vchar c" if "is_digit c" for c
    using that by (auto simp: is_digit_def field_vchar_def bytes_space_def Let_def)
  with l show "field_value_re l"
    by (auto simp: content_length_re_def field_value_re_def list_all_iff)
qed

lemma stated_length_digits: "content_length_re l \<Longrightarrow> length l \<le> 20 \<Longrightarrow> stated_length l = Inr l"
proof -
  assume l: "content_length_re l" "length l \<le> 20"
  have "split_on (CHR '','') l = [l]"
    using l(1) by (intro split_on_notin) (auto simp: content_length_re_def list_all_iff dest: digit_plain)
  moreover have "bytes_strip l = l"
    using l(1) by (intro strip_plain) (auto simp: content_length_re_def list_all_iff dest: digit_plain)
  ultimately show ?thesis using l by (simp add: stated_length_def CONTENT_LENGTH_MAX_DIGITS_def)
qed

lemma chunked_value: "field_value_re ''chunked''" "bytes_lower ''chunked'' = ''chunked''"
  by code_simp+

lemma normalize_loop_wf:
  assumes "normalize_loop False seen saw raw = Inr hs"
  shows "header_wf hs \<and> (seen \<noteq> None \<longrightarrow> filter (\<lambda>h. fst (snd h) = ''content-length'') hs = []) \<and>
    (saw \<longrightarrow> filter (\<lambda>h. fst (snd h) = ''transfer-encoding'') hs = [])"
  using assms
proof (induction raw arbitrary: seen saw hs)
  case Nil
  then show ?case by (simp add: header_wf_def)
next
  case (Cons h rest)
  obtain raw_name v where h: "h = (raw_name, v)" by (cases h)
  let ?name = "bytes_lower raw_name"
  have ok: "token_re raw_name" "field_value_re v"
    using Cons.prems by (auto simp: h check_header_def validate_def split: if_splits)
  then have checked: "check_header False raw_name v = Inr ()" by (simp add: check_header_def validate_def)
  consider (length) "?name = ''content-length''" | (coding) "?name = ''transfer-encoding''"
    | (other) "?name \<noteq> ''content-length''" "?name \<noteq> ''transfer-encoding''" by blast
  then show ?case
  proof cases
    case length
    obtain l where l: "stated_length v = Inr l"
      using Cons.prems length by (auto simp: h Let_def split: sum.splits)
    note sl = stated_length_Inr [OF l]
    show ?thesis
    proof (cases seen)
      case None
      obtain hs' where "normalize_loop False (Some l) saw rest = Inr hs'" "hs = (raw_name, ?name, l) # hs'"
        using Cons.prems length l None checked by (auto simp: h map_sum_Inr)
      with Cons.IH [of "Some l" saw hs'] sl None length ok show ?thesis
        by (auto simp: header_wf_def digits_value)
    next
      case (Some l')
      then have "normalize_loop False seen saw rest = Inr hs"
        using Cons.prems length l checked by (auto simp: h split: if_splits)
      then show ?thesis by (rule Cons.IH)
    qed
  next
    case coding
    obtain hs' where "normalize_loop False seen True rest = Inr hs'" "hs = (raw_name, ?name, ''chunked'') # hs'" "\<not> saw"
      using Cons.prems coding checked by (auto simp: h map_sum_Inr split: if_splits)
    with Cons.IH [of seen True hs'] coding ok chunked_value show ?thesis by (auto simp: header_wf_def)
  next
    case other
    obtain hs' where "normalize_loop False seen saw rest = Inr hs'" "hs = (raw_name, ?name, v) # hs'"
      using Cons.prems other checked by (auto simp: h map_sum_Inr)
    with Cons.IH [of seen saw hs'] other ok show ?thesis by (auto simp: header_wf_def)
  qed
qed

lemma normalize_wf: "normalize_and_validate False raw = Inr hs \<Longrightarrow> header_wf hs"
  using normalize_loop_wf by (simp add: normalize_and_validate_def)

lemma normalize_loop_id:
  assumes "header_wf hs"
    and "seen \<noteq> None \<Longrightarrow> filter (\<lambda>h. fst (snd h) = ''content-length'') hs = []"
    and "saw \<Longrightarrow> filter (\<lambda>h. fst (snd h) = ''transfer-encoding'') hs = []"
  shows "normalize_loop parsed seen saw (raw_headers hs) = Inr hs"
  using assms
proof (induction hs arbitrary: seen saw)
  case (Cons h hs)
  obtain raw_name n v where h: "h = (raw_name, n, v)" by (cases h)
  have ok: "token_re raw_name" "n = bytes_lower raw_name" "field_value_re v" "header_wf hs"
    using Cons.prems(1) by (auto simp: h header_wf_def split: if_splits)
  then have checked: "check_header parsed raw_name v = Inr ()" by (simp add: check_header_def validate_def)
  consider (length) "n = ''content-length''" | (coding) "n = ''transfer-encoding''"
    | (other) "n \<noteq> ''content-length''" "n \<noteq> ''transfer-encoding''" by blast
  then show ?case
  proof cases
    case length
    then have "seen = None" using Cons.prems(2) by (cases seen) (auto simp: h)
    moreover have "stated_length v = Inr v"
      using Cons.prems(1) length by (intro stated_length_digits) (auto simp: h header_wf_def)
    moreover have "normalize_loop parsed (Some v) saw (raw_headers hs) = Inr hs"
      using Cons.prems length by (intro Cons.IH ok(4)) (auto simp: h header_wf_def split: if_splits)
    ultimately show ?thesis using length ok(2) checked by (simp add: h)
  next
    case coding
    then have "\<not> saw" using Cons.prems(3) by (auto simp: h)
    moreover have "v = ''chunked''" using Cons.prems(1) coding by (auto simp: h header_wf_def)
    moreover have "normalize_loop parsed seen True (raw_headers hs) = Inr hs"
      using Cons.prems coding by (intro Cons.IH ok(4)) (auto simp: h header_wf_def split: if_splits)
    ultimately show ?thesis using coding ok(2) checked chunked_value by (simp add: h)
  next
    case other
    have "normalize_loop parsed seen saw (raw_headers hs) = Inr hs"
      using Cons.prems other by (intro Cons.IH ok(4)) (auto simp: h split: if_splits)
    then show ?thesis using other ok(2) checked by (simp add: h)
  qed
qed simp

lemma normalize_id: "header_wf hs \<Longrightarrow> normalize_and_validate parsed (raw_headers hs) = Inr hs"
  using normalize_loop_id [of hs None False parsed] by (simp add: normalize_and_validate_def)

lemma header_wf_filter: "header_wf hs \<Longrightarrow> header_wf (filter P hs)"
proof -
  have "length (filter Q (filter P hs)) \<le> length (filter Q hs)" for Q :: "string \<times> string \<times> string \<Rightarrow> bool"
    by (induction hs) auto
  then show "header_wf hs \<Longrightarrow> header_wf (filter P hs)"
    unfolding header_wf_def by (auto intro: order_trans simp del: filter_filter)
qed

lemma set_comma_run:
  assumes "header_wf (filter (\<lambda>(_, found_name, _). found_name \<noteq> name) hs @ map (\<lambda>v. (bytes_title name, name, v)) vs)"
  shows "set_comma_header hs name vs =
    Inr (filter (\<lambda>(_, found_name, _). found_name \<noteq> name) hs @ map (\<lambda>v. (bytes_title name, name, v)) vs)"
proof -
  have "map (\<lambda>v. (bytes_title name, v)) vs = raw_headers (map (\<lambda>v. (bytes_title name, name, v)) vs)"
    by (induction vs) simp_all
  then show ?thesis
    using normalize_id [OF assms, of False] by (simp add: set_comma_header_def raw_headers_def comp_def)
qed

lemma get_comma_append [simp]:
  "get_comma_header (hs @ hs') n = get_comma_header hs n @ get_comma_header hs' n"
  by (simp add: get_comma_header_def)

lemma get_comma_filter [simp]:
  "get_comma_header (filter (\<lambda>(_, found_name, _). found_name \<noteq> name) hs) n = (if n = name then [] else get_comma_header hs n)"
  by (induction hs) auto

lemma get_comma_added [simp]:
  "get_comma_header (map (\<lambda>v. (t, name, v)) vs) n = (if n = name then concat (map comma_values vs) else [])"
  by (induction vs) auto

lemma get_comma_wf:
  assumes "header_wf hs"
  shows "get_comma_header hs ''transfer-encoding'' \<in> {[], [''chunked'']}"
    "get_comma_header hs ''content-length'' = [] \<or>
     (\<exists>l. get_comma_header hs ''content-length'' = [l] \<and> content_length_re l)"
proof -
  have none: "filter (\<lambda>h. fst (snd h) = n) hs = [] \<Longrightarrow> get_comma_header hs n = []" for n and hs :: full_headers
    by (induction hs) (auto split: if_splits)
  have "get_comma_header hs ''transfer-encoding'' \<in> {[], [''chunked'']} \<and>
    (get_comma_header hs ''content-length'' = [] \<or>
     (\<exists>l. get_comma_header hs ''content-length'' = [l] \<and> content_length_re l))"
    using assms
  proof (induction hs)
    case (Cons h hs)
    obtain raw_name n v where h: "h = (raw_name, n, v)" by (cases h)
    have wf: "header_wf hs" using Cons.prems by (auto simp: h header_wf_def split: if_splits)
    note IH = Cons.IH [OF wf]
    consider (length) "n = ''content-length''" | (coding) "n = ''transfer-encoding''"
      | (other) "n \<noteq> ''content-length''" "n \<noteq> ''transfer-encoding''" by blast
    then show ?case
    proof cases
      case length
      then have "content_length_re v" "filter (\<lambda>h. fst (snd h) = ''content-length'') hs = []"
        using Cons.prems unfolding h header_wf_def by auto
      with none [of "''content-length''" hs] IH length show ?thesis by (simp add: h comma_values_digits)
    next
      case coding
      then have "v = ''chunked''" "filter (\<lambda>h. fst (snd h) = ''transfer-encoding'') hs = []"
        using Cons.prems unfolding h header_wf_def by auto
      with none [of "''transfer-encoding''" hs] IH coding show ?thesis by (simp add: h comma_values_chunked)
    qed (use IH in \<open>simp add: h\<close>)
  qed simp
  then show "get_comma_header hs ''transfer-encoding'' \<in> {[], [''chunked'']}"
    "get_comma_header hs ''content-length'' = [] \<or>
     (\<exists>l. get_comma_header hs ''content-length'' = [l] \<and> content_length_re l)" by auto
qed

lemma char_classes:
  "is_ows c \<longleftrightarrow> (of_char c :: nat) = 32 \<or> (of_char c :: nat) = 9"
  "field_vchar c \<longleftrightarrow> (of_char c :: nat) \<noteq> 0 \<and> \<not> (9 \<le> (of_char c :: nat) \<and> (of_char c :: nat) \<le> 13) \<and> (of_char c :: nat) \<noteq> 32"
  using of_char_eq_iff [of c "CHR '' ''", where ?'a = nat] of_char_eq_iff [of c "CHR 0x09", where ?'a = nat]
    of_char_eq_iff [of c "CHR 0x00", where ?'a = nat]
  by (auto simp: is_ows_def field_vchar_def bytes_space_def Let_def)

lemma lower_char_class: "field_vchar (ascii_lower_char c) = field_vchar c" "is_ows (ascii_lower_char c) = is_ows c"
proof -
  let ?n = "of_char c :: nat"
  have "(of_char (ascii_lower_char c) :: nat) = (if 65 \<le> ?n \<and> ?n \<le> 90 then ?n + 32 else ?n)"
    by (simp add: ascii_lower_char_def Let_def)
  then show "field_vchar (ascii_lower_char c) = field_vchar c" "is_ows (ascii_lower_char c) = is_ows c"
    by (auto simp: char_classes)
qed

lemma strip_ends: "bytes_strip s \<noteq> [] \<Longrightarrow> \<not> bytes_space (hd (bytes_strip s)) \<and> \<not> bytes_space (last (bytes_strip s))"
proof -
  let ?t = "dropWhile bytes_space s"
  let ?u = "dropWhile bytes_space (rev ?t)"
  assume "bytes_strip s \<noteq> []"
  then have u: "?u \<noteq> []" by (simp add: bytes_strip_def)
  have "last (bytes_strip s) = hd ?u" using u by (simp add: bytes_strip_def last_rev)
  moreover have "\<not> bytes_space (hd ?u)" using u by (rule hd_dropWhile)
  moreover have "hd (bytes_strip s) = last ?u" using u by (simp add: bytes_strip_def hd_rev)
  moreover have "last ?u = last (rev ?t)"
    using u by (metis dropWhile_eq_drop last_drop drop_eq_Nil not_le)
  moreover have "last (rev ?t) = hd ?t" using u by (cases ?t) auto
  moreover have "?t \<noteq> []" using u by (cases ?t) auto
  then have "\<not> bytes_space (hd ?t)" by (rule hd_dropWhile)
  ultimately show ?thesis by simp
qed

lemma strip_subset: "set (bytes_strip s) \<subseteq> set s"
proof -
  have "set (dropWhile P xs) \<subseteq> set xs" for P and xs :: string by (induction xs) auto
  from this [of bytes_space "rev (dropWhile bytes_space s)"] this [of bytes_space s] show ?thesis
    unfolding bytes_strip_def by auto
qed

lemma comma_values_valid:
  assumes "field_value_re value" and "x \<in> set (comma_values value)"
  shows "field_value_re x"
proof -
  obtain p where p: "p \<in> set (split_on (CHR '','') (bytes_lower value))" "x = bytes_strip p" "x \<noteq> []"
    using assms(2) by (auto simp: comma_values_def)
  have classes: "field_vchar c \<or> is_ows c" if "c \<in> set x" for c
  proof -
    have "c \<in> set (bytes_lower value)"
      using that p(2) strip_subset split_on_chars [OF p(1)] by blast
    then show ?thesis
      using assms(1) by (auto simp: bytes_lower_def field_value_re_def list_all_iff lower_char_class)
  qed
  have "\<not> is_ows (hd x)" "\<not> is_ows (last x)"
    using strip_ends [of p] p(2,3) by (auto simp: is_ows_def bytes_space_def)
  then have "field_vchar (hd x)" "field_vchar (last x)" using classes [of "hd x"] classes [of "last x"] p(3) by auto
  with classes show ?thesis by (auto simp: field_value_re_def list_all_iff)
qed

lemma get_comma_valid: "header_wf hs \<Longrightarrow> x \<in> set (get_comma_header hs n) \<Longrightarrow> field_value_re x"
  by (auto simp: get_comma_header_def header_wf_def comma_values_valid split: if_splits)

section \<open>The response that is sent\<close>

lemma set_connection:
  assumes "header_wf hs"
  shows "\<exists>hs'. set_comma_header hs ''connection'' (connection_close_values hs) = Inr hs' \<and>
    ''close'' \<in> set (get_comma_header hs' ''connection'') \<and>
    get_comma_header hs' ''content-length'' = get_comma_header hs ''content-length'' \<and>
    get_comma_header hs' ''transfer-encoding'' = get_comma_header hs ''transfer-encoding''"
proof -
  have close: "field_value_re ''close''" "comma_values ''close'' = [''close'']" "token_re (bytes_title ''connection'')"
    "bytes_lower (bytes_title ''connection'') = ''connection''" by code_simp+
  have "header_wf (filter (\<lambda>(_, found_name, _). found_name \<noteq> ''connection'') hs @
      map (\<lambda>v. (bytes_title ''connection'', ''connection'', v)) (connection_close_values hs))"
    using header_wf_filter [OF assms] get_comma_valid [OF assms] close
    by (auto simp: header_wf_def connection_close_values_def comp_def)
  from set_comma_run [OF this] show ?thesis
    using close by (auto simp: connection_close_values_def)
qed

definition peer_speaks_11 :: "connection \<Rightarrow> bool" where
  "peer_speaks_11 c \<longleftrightarrow> (case their_http_version c of None \<Rightarrow> False | Some v \<Rightarrow> \<not> v < ''1.1'')"

lemma choose_framing_run:
  assumes "header_wf hs"
  shows "\<exists>hs'. choose_framing c hs = Inr (hs', \<not> peer_speaks_11 c \<and> conn_request_method c \<noteq> Some ''HEAD'') \<and>
    header_wf hs' \<and> get_comma_header hs' ''content-length'' = [] \<and>
    get_comma_header hs' ''transfer-encoding'' = (if peer_speaks_11 c then [''chunked''] else []) \<and>
    get_comma_header hs' ''connection'' = get_comma_header hs ''connection''"
proof -
  let ?hs = "filter (\<lambda>(_, found_name, _). found_name \<noteq> ''content-length'') hs"
  let ?te = "filter (\<lambda>(_, found_name, _). found_name \<noteq> ''transfer-encoding'') ?hs"
  have wf: "header_wf ?hs" "header_wf ?te" using assms by (auto intro!: header_wf_filter simp del: filter_filter)
  have cl: "set_comma_header hs ''content-length'' [] = Inr ?hs"
    using set_comma_run [of "''content-length''" hs "[]"] wf(1) by simp
  have none: "set_comma_header ?hs ''transfer-encoding'' [] = Inr ?te"
    using set_comma_run [of "''transfer-encoding''" ?hs "[]"] wf(2) by (simp del: filter_filter)
  have te: "token_re (bytes_title ''transfer-encoding'')" "bytes_lower (bytes_title ''transfer-encoding'') = ''transfer-encoding''"
    by code_simp+
  have "filter (\<lambda>h. fst (snd h) = ''transfer-encoding'') ?te = []" by (auto simp: filter_empty_conv)
  then have wf_chunked: "header_wf (?te @ [(bytes_title ''transfer-encoding'', ''transfer-encoding'', ''chunked'')])"
    using wf(2) te chunked_value unfolding header_wf_def by (simp del: filter_filter)
  have chunked: "set_comma_header ?hs ''transfer-encoding'' [''chunked''] =
      Inr (?te @ [(bytes_title ''transfer-encoding'', ''transfer-encoding'', ''chunked'')])"
    using set_comma_run [of "''transfer-encoding''" ?hs "[''chunked'']"] wf_chunked by (simp del: filter_filter)
  have choose: "choose_framing c hs =
      (if peer_speaks_11 c then map_sum id (\<lambda>hs'. (hs', False)) (set_comma_header ?hs ''transfer-encoding'' [''chunked''])
       else map_sum id (\<lambda>hs'. (hs', conn_request_method c \<noteq> Some ''HEAD'')) (set_comma_header ?hs ''transfer-encoding'' []))"
    unfolding choose_framing_def cl by (cases "their_http_version c") (simp_all add: peer_speaks_11_def)
  show ?thesis
  proof (cases "peer_speaks_11 c")
    case True
    then show ?thesis
      unfolding choose chunked using wf_chunked by (simp add: comma_values_chunked del: filter_filter)
  next
    case False
    then show ?thesis unfolding choose none using wf(2) by (simp del: filter_filter)
  qed
qed

text \<open>What the framing of a response depends on.\<close>

lemma body_framing_response:
  "200 \<le> rs_status_code r \<Longrightarrow> body_framing m (ResponseEvent r) =
     (if bodiless m r then Inr (ContentLength 0) else framing_from_headers (rs_headers r) Http10)"
  by (simp add: body_framing_def)

lemma framing_cong:
  "get_comma_header hs ''transfer-encoding'' = get_comma_header hs' ''transfer-encoding'' \<Longrightarrow>
   get_comma_header hs ''content-length'' = get_comma_header hs' ''content-length'' \<Longrightarrow>
   framing_from_headers hs f = framing_from_headers hs' f"
  by (simp add: framing_from_headers_def)

lemma bodiless_cong: "bodiless m (r\<lparr> rs_headers := hs \<rparr>) = bodiless m r"
  by (simp add: bodiless_def)

text \<open>The framing a response is sent with, after its headers have been cleaned up.\<close>

definition sent_framing :: "connection \<Rightarrow> http_response \<Rightarrow> framing" where
  "sent_framing c r =
     (if bodiless (conn_request_method c) r then ContentLength 0
      else (case framing_from_headers (rs_headers r) Http10 of
          Inr (ContentLength n) \<Rightarrow> ContentLength n
        | _ \<Rightarrow> if peer_speaks_11 c then Chunked else Http10))"

lemma framing_wf:
  assumes "header_wf hs"
  shows "\<exists>f. framing_from_headers hs Http10 = Inr f"
  using get_comma_wf [OF assms] parse_int_digits
  by (auto simp: framing_from_headers_def content_length_re_def Let_def)

lemma cleaned_response:
  assumes wf: "header_wf (rs_headers r)" and status: "200 \<le> rs_status_code r"
  shows "\<exists>hs. clean_up_response c r = Inr (r\<lparr> rs_headers := hs \<rparr>) \<and>
    body_framing (conn_request_method c) (ResponseEvent (r\<lparr> rs_headers := hs \<rparr>)) = Inr (sent_framing c r) \<and>
    (wants_keep_alive (ResponseEvent (r\<lparr> rs_headers := hs \<rparr>)) \<longrightarrow>
       keep_alive (cstate c) \<and> wants_keep_alive (ResponseEvent r) \<and> sent_framing c r \<noteq> Http10)"
proof -
  let ?m = "if conn_request_method c = Some ''HEAD'' then Some ''GET'' else conn_request_method c"
  let ?head = "conn_request_method c = Some ''HEAD''"
  obtain f0 where f0: "framing_from_headers (rs_headers r) Http10 = Inr f0" using framing_wf [OF wf] by blast
  define f where "f = (if bodiless ?m r then ContentLength 0 else f0)"
  have f: "body_framing ?m (ResponseEvent r) = Inr f" by (simp add: body_framing_response [OF status] f_def f0)
  have bodiless: "bodiless (conn_request_method c) r \<longleftrightarrow> ?head \<or> bodiless ?m r" by (auto simp: bodiless_def)
  \<comment> \<open>the framing headers\<close>
  have "\<exists>hs nc. (if f \<in> {Chunked, Http10} then choose_framing c (rs_headers r) else Inr (rs_headers r, False)) = Inr (hs, nc) \<and>
      header_wf hs \<and> get_comma_header hs ''connection'' = get_comma_header (rs_headers r) ''connection'' \<and>
      (\<not> bodiless (conn_request_method c) r \<longrightarrow> framing_from_headers hs Http10 = Inr (sent_framing c r)) \<and>
      (sent_framing c r = Http10 \<longrightarrow> nc)"
  proof (cases "f \<in> {Chunked, Http10}")
    case True
    then have plain: "\<not> bodiless ?m r" "f0 \<in> {Chunked, Http10}" by (auto simp: f_def split: if_splits)
    from choose_framing_run [OF wf, of c] obtain hs where hs:
      "choose_framing c (rs_headers r) = Inr (hs, \<not> peer_speaks_11 c \<and> \<not> ?head)" "header_wf hs"
      "get_comma_header hs ''content-length'' = []"
      "get_comma_header hs ''transfer-encoding'' = (if peer_speaks_11 c then [''chunked''] else [])"
      "get_comma_header hs ''connection'' = get_comma_header (rs_headers r) ''connection''" by auto
    have framing: "framing_from_headers hs Http10 = Inr (if peer_speaks_11 c then Chunked else Http10)"
      using hs(3,4) by (simp add: framing_from_headers_def)
    have sent: "sent_framing c r = (if ?head then ContentLength 0 else if peer_speaks_11 c then Chunked else Http10)"
    proof (cases ?head)
      case True
      then show ?thesis by (simp add: sent_framing_def bodiless_def)
    next
      case False
      then have "\<not> bodiless (conn_request_method c) r" using plain(1) bodiless by blast
      then show ?thesis using plain(2) False by (auto simp: sent_framing_def f0)
    qed
    show ?thesis
      unfolding if_P [OF True] hs(1)
    proof (intro exI [of _ hs] exI [of _ "\<not> peer_speaks_11 c \<and> \<not> ?head"] conjI impI)
      show "header_wf hs" "get_comma_header hs ''connection'' = get_comma_header (rs_headers r) ''connection''"
        by (fact hs)+
      show "framing_from_headers hs Http10 = Inr (sent_framing c r)" if "\<not> bodiless (conn_request_method c) r"
      proof -
        have "\<not> ?head" using that bodiless by blast
        then show ?thesis using framing sent by simp
      qed
      show "\<not> peer_speaks_11 c" "\<not> ?head" if "sent_framing c r = Http10"
        using that sent by (auto split: if_splits)
    qed (rule refl)
  next
    case False
    then obtain n where n: "f = ContentLength n" by (cases f) auto
    have sent: "f0 = ContentLength n \<and> sent_framing c r = ContentLength n" if "\<not> bodiless (conn_request_method c) r"
    proof -
      have "\<not> bodiless ?m r" using that bodiless by blast
      then have "f0 = ContentLength n" using n by (simp only: f_def if_False)
      then show ?thesis using that by (simp add: sent_framing_def f0)
    qed
    then have "sent_framing c r \<noteq> Http10"
      by (cases "bodiless (conn_request_method c) r") (simp_all add: sent_framing_def)
    then show ?thesis
      unfolding if_not_P [OF False] using wf sent f0 by (intro exI [of _ "rs_headers r"] exI [of _ False]) simp
  qed
  then obtain hs nc where framed:
    "(if f \<in> {Chunked, Http10} then choose_framing c (rs_headers r) else Inr (rs_headers r, False)) = Inr (hs, nc)"
    "header_wf hs" "get_comma_header hs ''connection'' = get_comma_header (rs_headers r) ''connection''"
    "\<not> bodiless (conn_request_method c) r \<Longrightarrow> framing_from_headers hs Http10 = Inr (sent_framing c r)"
    "sent_framing c r = Http10 \<Longrightarrow> nc" by blast
  from set_connection [OF framed(2)] obtain hs' where hs':
    "set_comma_header hs ''connection'' (connection_close_values hs) = Inr hs'"
    "''close'' \<in> set (get_comma_header hs' ''connection'')"
    "get_comma_header hs' ''content-length'' = get_comma_header hs ''content-length''"
    "get_comma_header hs' ''transfer-encoding'' = get_comma_header hs ''transfer-encoding''" by blast
  let ?hs = "if \<not> keep_alive (cstate c) \<or> nc then hs' else hs"
  have run: "clean_up_response c r = Inr (r\<lparr> rs_headers := ?hs \<rparr>)"
    unfolding clean_up_response_def Let_def f sum.case framed(1) prod.case using hs'(1) by simp
  have "framing_from_headers ?hs Http10 = framing_from_headers hs Http10"
    using framing_cong [OF hs'(4,3)] by simp
  then have frame: "body_framing (conn_request_method c) (ResponseEvent (r\<lparr> rs_headers := ?hs \<rparr>)) = Inr (sent_framing c r)"
    using framed(4) body_framing_response [of "r\<lparr> rs_headers := ?hs \<rparr>" "conn_request_method c"] status
    by (simp add: bodiless_cong) (simp add: sent_framing_def)
  have "keep_alive (cstate c) \<and> wants_keep_alive (ResponseEvent r) \<and> sent_framing c r \<noteq> Http10"
    if "wants_keep_alive (ResponseEvent (r\<lparr> rs_headers := ?hs \<rparr>))"
  proof -
    have stay: "keep_alive (cstate c)" "\<not> nc"
      using that hs'(2) by (auto simp: wants_keep_alive_def split: if_splits)
    then have "?hs = hs" by simp
    then show ?thesis using that stay framed(3,5) by (auto simp: wants_keep_alive_def)
  qed
  then show ?thesis using run frame by blast
qed

text \<open>
  C30: The answer is framed in a way its receiver can follow.  Whatever headers the application gives
  a response, it is sent: without a body where there must be none, with the declared length if there
  is one, else in chunks to a peer that speaks HTTP/1.1 and up to the end of the connection to any
  other; and the connection is announced to stay open only if it will, that is if the request let it,
  the application did and the body has an end of its own.
\<close>

theorem response_framed:
  assumes "normalize_and_validate False raw = Inr (rs_headers r)" and "make_response r = Inr event"
  shows "\<exists>hs. clean_up_response c r = Inr (r\<lparr> rs_headers := hs \<rparr>) \<and>
    body_framing (conn_request_method c) (ResponseEvent (r\<lparr> rs_headers := hs \<rparr>)) = Inr
      (if bodiless (conn_request_method c) r then ContentLength 0
       else if \<not> has_field ''transfer-encoding'' raw \<and> stated_lengths raw \<noteq> []
       then ContentLength (decimal (hd (stated_lengths raw)))
       else if peer_speaks_11 c then Chunked else Http10) \<and>
    (wants_keep_alive (ResponseEvent (r\<lparr> rs_headers := hs \<rparr>)) \<longrightarrow>
       keep_alive (cstate c) \<and> wants_keep_alive (ResponseEvent r) \<and>
       (bodiless (conn_request_method c) r \<or> peer_speaks_11 c \<or>
        \<not> has_field ''transfer-encoding'' raw \<and> stated_lengths raw \<noteq> []))"
proof -
  have status: "200 \<le> rs_status_code r" using assms(2) by (auto simp: make_response_def split: if_splits)
  have "framing_from_headers (rs_headers r) Http10 = Inr
      (if has_field ''transfer-encoding'' raw then Chunked
       else if stated_lengths raw \<noteq> [] then ContentLength (decimal (hd (stated_lengths raw))) else Http10)"
    using framing_of_normalized [OF assms(1)] by simp
  then have "sent_framing c r =
      (if bodiless (conn_request_method c) r then ContentLength 0
       else if \<not> has_field ''transfer-encoding'' raw \<and> stated_lengths raw \<noteq> []
       then ContentLength (decimal (hd (stated_lengths raw)))
       else if peer_speaks_11 c then Chunked else Http10)"
    by (simp add: sent_framing_def)
  then show ?thesis
    using cleaned_response [OF normalize_wf [OF assms(1)] status, of c] by (auto split: if_splits)
qed

theorem response_framed_witness:
  "let c = (Connection SERVER 100)\<lparr> their_http_version := Some ''1.0'', conn_request_method := Some ''GET'' \<rparr>;
     r = \<lparr> rs_status_code = 200, rs_headers = [(''Server'', ''server'', ''x'')], rs_http_version = ''1.1'', rs_reason = ''OK'' \<rparr>
   in \<exists>hs. clean_up_response c r = Inr (r\<lparr> rs_headers := hs \<rparr>) \<and>
     body_framing (conn_request_method c) (ResponseEvent (r\<lparr> rs_headers := hs \<rparr>)) = Inr Http10 \<and>
     \<not> wants_keep_alive (ResponseEvent (r\<lparr> rs_headers := hs \<rparr>))"
proof -
  let ?c = "(Connection SERVER 100)\<lparr> their_http_version := Some ''1.0'', conn_request_method := Some ''GET'' \<rparr>"
  let ?raw = "[(''Server'', ''x'')]"
  let ?r = "\<lparr> rs_status_code = 200, rs_headers = [(''Server'', ''server'', ''x'')], rs_http_version = ''1.1'', rs_reason = ''OK'' \<rparr>"
  have accepted: "normalize_and_validate False ?raw = Inr (rs_headers ?r)" by code_simp
  have made: "make_response ?r = Inr (ResponseEvent ?r)" by (simp add: make_response_def)
  have facts: "\<not> bodiless (conn_request_method ?c) ?r" "\<not> has_field ''transfer-encoding'' ?raw" "stated_lengths ?raw = []"
    by code_simp+
  have old: "\<not> peer_speaks_11 ?c" by (simp add: peer_speaks_11_def)
  from response_framed [OF accepted made, of ?c] facts old show ?thesis
    unfolding Let_def by auto
qed

end
