(* ===== verification/HttpHead.thy ===== *)
theory HttpHead
  imports HttpConnection
begin

text \<open>
  The head of a request, read as it arrives: what the request writer writes (the request line, the
  field lines with the Host first, a blank line) is what the request reader reads, once all of it
  has come and not before.
\<close>

section \<open>The head of a request, read as it arrives\<close>

text \<open>Lines as they stand in a head: not empty, without line feeds, starting and ending with neither.\<close>

definition line_ok :: "string \<Rightarrow> bool" where
  "line_ok l \<longleftrightarrow> l \<noteq> [] \<and> CHR 0x0A \<notin> set l \<and> hd l \<noteq> CHR 0x0D \<and> last l \<noteq> CHR 0x0D"

definition lines_bytes :: "string list \<Rightarrow> string" where
  "lines_bytes ls = concat (map (\<lambda>l. l @ CRLF) ls)"

lemma lines_bytes_simps [simp]:
  "lines_bytes [] = []" "lines_bytes (l # ls) = l @ CRLF @ lines_bytes ls" "lines_bytes (ls @ ls') = lines_bytes ls @ lines_bytes ls'"
  by (simp_all add: lines_bytes_def)

lemma lines_bytes_hd: "ls \<noteq> [] \<Longrightarrow> \<forall>l \<in> set ls. line_ok l \<Longrightarrow> lines_bytes ls ! 0 \<notin> {CHR 0x0A, CHR 0x0D}"
proof (cases ls)
  case (Cons l ls')
  assume "\<forall>l \<in> set ls. line_ok l"
  then obtain x l' where "l = x # l'" "x \<noteq> CHR 0x0A" "x \<noteq> CHR 0x0D"
    using Cons by (cases l) (auto simp: line_ok_def)
  then show ?thesis by (simp add: Cons)
qed simp

text \<open>A line feed inside is followed by the start of a line.\<close>

lemma inner_line_feed:
  assumes "\<forall>l \<in> set ls. line_ok l" and "k < length (lines_bytes ls)" and "lines_bytes ls ! k = CHR 0x0A"
  shows "k + 1 = length (lines_bytes ls) \<or>
    (k + 1 < length (lines_bytes ls) \<and> lines_bytes ls ! (k + 1) \<notin> {CHR 0x0A, CHR 0x0D})"
  using assms
proof (induction ls arbitrary: k)
  case (Cons l ls)
  have ok: "CHR 0x0A \<notin> set l" "\<forall>l \<in> set ls. line_ok l" using Cons.prems(1) by (auto simp: line_ok_def)
  consider "k < length l" | "k = length l" | "k = length l + 1" | k' where "k = length l + 2 + k'"
    by (metis One_nat_def Suc_1 add_Suc_right add_0_right less_antisym less_imp_Suc_add linorder_less_linear add.commute)
  then show ?case
  proof cases
    case 1
    then have "l ! k = CHR 0x0A" using Cons.prems(3) by (simp add: nth_append)
    then show ?thesis using ok(1) 1 by (metis nth_mem)
  next
    case 2
    then show ?thesis using Cons.prems(3) by (simp add: nth_append CRLF_def)
  next
    case 3
    then show ?thesis
      using lines_bytes_hd [OF _ ok(2)] by (cases ls) (auto simp: nth_append CRLF_def)
  next
    case (4 k')
    have "lines_bytes (l # ls) ! k = lines_bytes ls ! k'" "lines_bytes (l # ls) ! (k + 1) = lines_bytes ls ! (k' + 1)"
      by (simp_all add: 4 nth_append CRLF_def)
    then show ?thesis using Cons.IH [OF ok(2), of k'] Cons.prems(2,3) by (simp add: 4 CRLF_def)
  qed
qed simp

lemma blank_line_nth:
  assumes "blank_line_at data k = Some n"
  shows "n = 2 \<and> k + 1 < length data \<and> data ! k = CHR 0x0A \<and> data ! (k + 1) = CHR 0x0A \<or>
    n = 3 \<and> k + 2 < length data \<and> data ! k = CHR 0x0A \<and> data ! (k + 1) = CHR 0x0D"
proof -
  have at: "data ! (k + i) = (e @ r) ! i \<and> k + length e \<le> length data" if "drop k data = e @ r" "i < length e" for e r i
  proof -
    have "length data - k = length e + length r" using arg_cong [OF that(1), of length] by simp
    then have "k + length e \<le> length data" using that(2) by linarith
    then show ?thesis using that by (simp add: that(1) [symmetric])
  qed
  consider r where "drop k data = [CHR 0x0A, CHR 0x0A] @ r" "n = 2"
    | r where "drop k data = (CHR 0x0A # CRLF) @ r" "n = 3"
    using assms by (auto simp: blank_line_at_def starts_with_iff split: if_splits)
  then show ?thesis
  proof cases
    case (1 r)
    then show ?thesis using at [OF 1(1), of 0] at [OF 1(1), of 1] by simp
  next
    case (2 r)
    then show ?thesis using at [OF 2(1), of 0] at [OF 2(1), of 1] by (simp add: CRLF_def)
  qed
qed

lemma split_lines:
  assumes "\<forall>l \<in> set ls. line_ok l" and "ls \<noteq> []"
  shows "map drop_cr (split_on (CHR 0x0A) (butlast (lines_bytes ls))) = ls"
  using assms
proof (induction ls)
  case (Cons l ls)
  have l: "CHR 0x0A \<notin> set (l @ [CHR 0x0D])" "drop_cr (l @ [CHR 0x0D]) = l"
    using Cons.prems(1) by (auto simp: line_ok_def drop_cr_def)
  show ?case
  proof (cases "ls = []")
    case True
    have "butlast (lines_bytes (l # ls)) = l @ [CHR 0x0D]" by (simp add: True CRLF_def butlast_append)
    then show ?thesis using l True split_on_notin [OF l(1)] by (simp del: split_on.simps)
  next
    case False
    then have "butlast (lines_bytes (l # ls)) = (l @ [CHR 0x0D]) @ CHR 0x0A # butlast (lines_bytes ls)"
      by (cases ls) (auto simp: CRLF_def butlast_append lines_bytes_def)
    then show ?thesis
      using l Cons False split_on_append [OF l(1)] by (simp del: split_on.simps append_assoc)
  qed
qed simp

lemma lines_arrive:
  assumes ok: "\<forall>l \<in> set ls. line_ok l" and ne: "ls \<noteq> []" and data: "data @ future = lines_bytes ls @ CRLF @ t"
  shows "plain_lines data =
    (if length (lines_bytes ls) + 2 \<le> length data then (Some ls, drop (length (lines_bytes ls) + 2) data) else (None, data))"
proof -
  let ?b = "lines_bytes ls"
  have "3 \<le> length ?b" using ok ne by (cases ls) (auto simp: line_ok_def CRLF_def Suc_le_eq)
  then obtain k0 where len: "length ?b = Suc k0" "2 \<le> k0" by (cases "length ?b") auto
  have nth: "data ! k = (?b @ CRLF @ t) ! k" if "k < length data" for k
    using that by (simp add: data [symmetric] nth_append)
  have first: "data ! 0 \<notin> {CHR 0x0A, CHR 0x0D}" if "data \<noteq> []"
    using nth [of 0] that lines_bytes_hd [OF ne ok] len by (auto simp: nth_append)
  have start: "take 1 data \<noteq> [CHR 0x0A]" "take 2 data \<noteq> CRLF"
    using first by (cases data; auto simp: CRLF_def take_Cons')+
  have before: "blank_line_at data k = None" if "k < k0" for k
  proof (rule ccontr)
    assume "blank_line_at data k \<noteq> None"
    then obtain n where "blank_line_at data k = Some n" by blast
    from blank_line_nth [OF this] have f: "k + 1 < length data" "data ! k = CHR 0x0A" "data ! (k + 1) \<in> {CHR 0x0A, CHR 0x0D}" by auto
    have bounds: "k < length ?b" "k + 1 < length ?b" using that len(1) by simp_all
    have "?b ! k = CHR 0x0A" "?b ! (k + 1) \<in> {CHR 0x0A, CHR 0x0D}"
      using f nth [of k] nth [of "k + 1"] bounds by (auto simp: nth_append)
    then show False using inner_line_feed [OF ok, of k] that bounds by auto
  qed
  have "last ?b = CHR 0x0A" using ne by (cases ls rule: rev_cases) (auto simp: CRLF_def)
  then have last: "?b ! k0 = CHR 0x0A" using len by (subst (asm) last_conv_nth) auto
  show ?thesis
  proof (cases "length ?b + 2 \<le> length data")
    case True
    have chars: "data ! k0 = CHR 0x0A" "data ! (k0 + 1) = CHR 0x0D" "data ! (k0 + 2) = CHR 0x0A"
      using nth [of k0] nth [of "k0 + 1"] nth [of "k0 + 2"] True len last by (simp_all add: nth_append CRLF_def)
    have "drop k0 data = data ! k0 # data ! (k0 + 1) # data ! (k0 + 2) # drop (k0 + 3) data"
      using True len by (simp add: Cons_nth_drop_Suc Suc_diff_le numeral_3_eq_3)
    then have blank: "blank_line_at data k0 = Some 3"
      unfolding chars by (simp add: blank_line_at_def starts_with_def CRLF_def)
    have found: "List.find (\<lambda>k. blank_line_at data k \<noteq> None) [0..<length data] = Some k0"
      unfolding find_Some_iff using True len blank before by (intro exI [of _ k0]) auto
    have "take k0 data = take k0 (data @ future)" using True len by simp
    also have "\<dots> = butlast ?b" by (simp add: data butlast_conv_take len)
    finally show ?thesis
      using True len start found blank split_lines [OF ok ne] by (simp add: plain_lines_def numeral_3_eq_3)
  next
    case False
    have "blank_line_at data k = None" if "k < length data" for k
    proof (cases "k < k0")
      case ge: False
      show ?thesis
      proof (rule ccontr)
        assume "blank_line_at data k \<noteq> None"
        then obtain n where n: "blank_line_at data k = Some n" by blast
        note f = blank_line_nth [OF n]
        have "k = k0 \<or> k = k0 + 1" using f ge False len by linarith
        then show False
        proof
          assume "k = k0"
          then have "data ! (k + 1) = CHR 0x0D" if "k + 1 < length data"
            using nth [OF that] len by (simp add: nth_append CRLF_def)
          then show False using f False len \<open>k = k0\<close> by auto
        next
          assume "k = k0 + 1"
          then have "data ! k = CHR 0x0D" using nth [OF \<open>k < length data\<close>] len by (simp add: nth_append CRLF_def)
          then show False using f by auto
        qed
      qed
    qed (rule before)
    then have "List.find (\<lambda>k. blank_line_at data k \<noteq> None) [0..<length data] = None" by (auto simp: find_None_iff)
    then show ?thesis using False start by (simp add: plain_lines_def)
  qed
qed

text \<open>Field lines.\<close>

lemma tchar_facts:
  assumes "is_tchar c"
  shows "c \<noteq> CHR '':''" "c \<noteq> CHR 0x0A" "c \<noteq> CHR 0x0D" "\<not> is_ows c" "\<not> (of_char c :: nat) < 0x21" "c \<noteq> CHR '' ''"
proof -
  have "(of_char c :: nat) \<in> {33, 35, 36, 37, 38, 39, 42, 43, 45, 46, 94, 95, 96, 124, 126} \<or>
      48 \<le> (of_char c :: nat) \<and> (of_char c :: nat) \<le> 57 \<or> is_letter c"
    using assms by (auto simp: is_tchar_def is_digit_def)
  then have "(of_char c :: nat) > 32 \<and> (of_char c :: nat) \<noteq> 58"
    by (auto simp: is_letter_def Let_def)
  then show "c \<noteq> CHR '':''" "c \<noteq> CHR 0x0A" "c \<noteq> CHR 0x0D" "\<not> is_ows c" "\<not> (of_char c :: nat) < 0x21" "c \<noteq> CHR '' ''"
    by (auto simp: char_classes)
qed

lemma value_facts:
  assumes "field_value_re v"
  shows "CHR 0x0A \<notin> set v" "v \<noteq> [] \<Longrightarrow> last v \<noteq> CHR 0x0D" "dropWhile is_ows v = v" "rstrip_ows v = v"
proof -
  have classes: "field_vchar c \<or> is_ows c" if "c \<in> set v" for c
    using assms that by (auto simp: field_value_re_def list_all_iff)
  have nl: "\<not> field_vchar (CHR 0x0A)" "\<not> is_ows (CHR 0x0A)" "\<not> field_vchar (CHR 0x0D)"
    by (simp_all add: char_classes)
  show "CHR 0x0A \<notin> set v" using classes nl by blast
  show "last v \<noteq> CHR 0x0D" if "v \<noteq> []" using assms that nl by (auto simp: field_value_re_def)
  have disjoint: "field_vchar c \<Longrightarrow> \<not> is_ows c" for c by (auto simp: char_classes)
  show "dropWhile is_ows v = v" using assms disjoint by (cases v) (auto simp: field_value_re_def)
  have "dropWhile is_ows (rev v) = rev v"
    using assms disjoint by (cases v rule: rev_cases) (auto simp: field_value_re_def)
  then show "rstrip_ows v = v" by (simp add: rstrip_ows_def)
qed

definition field_line :: "string \<times> string \<Rightarrow> string" where
  "field_line h = fst h @ '': '' @ snd h"

lemma token_run:
  assumes "token_re n" and "\<not> is_tchar c"
  shows "takeWhile is_tchar (n @ c # s) = n" "dropWhile is_tchar (n @ c # s) = c # s"
  using assms by (auto simp: token_re_def list_all_iff takeWhile_append dropWhile_append)

lemma colon_blank: "\<not> is_tchar (CHR '':'')" "\<not> is_tchar (CHR '' '')" "is_ows (CHR '' '')" "\<not> vchar (CHR '' '')"
  using tchar_facts(1) [of "CHR '':''"] tchar_facts(6) [of "CHR '' ''"] by (auto simp: is_ows_def vchar_def)

lemma field_line_groups:
  "token_re n \<Longrightarrow> field_value_re v \<Longrightarrow> header_field_groups (field_line (n, v)) = Some (n, v)"
  using token_run [of n "CHR '':''" "CHR '' '' # v"] value_facts [of v] colon_blank
  by (simp add: header_field_groups_def field_line_def token_re_def)

lemma field_line_ok:
  assumes "token_re n" and "field_value_re v"
  shows "line_ok (field_line (n, v))" "\<not> is_ows (hd (field_line (n, v)))"
proof -
  obtain c n' where n: "n = c # n'" "is_tchar c" using assms(1) by (cases n) (auto simp: token_re_def)
  have "\<forall>x \<in> set n. x \<noteq> CHR 0x0A" using assms(1) tchar_facts by (auto simp: token_re_def list_all_iff)
  then show "line_ok (field_line (n, v))" "\<not> is_ows (hd (field_line (n, v)))"
    using n value_facts [OF assms(2)] tchar_facts [OF n(2)]
    by (auto simp: line_ok_def field_line_def)
qed

lemma fold_plain:
  "\<forall>l \<in> set ls. l = [] \<or> \<not> is_ows (hd l) \<Longrightarrow>
     obsolete_line_fold prev ls = Inr ((case prev of None \<Rightarrow> [] | Some p \<Rightarrow> [p]) @ ls)"
  by (induction ls arbitrary: prev) (auto split: option.splits)

lemma decode_fields:
  assumes "header_wf hs"
  shows "decode_header_lines (map field_line (raw_headers hs)) = Inr (raw_headers hs)"
proof -
  have ok: "token_re n \<and> field_value_re v" if "(n, v) \<in> set (raw_headers hs)" for n v
    using assms that by (auto simp: raw_headers_def header_wf_def)
  have "decode_folded_lines (map field_line kvs) = Inr kvs" if "\<forall>(n, v) \<in> set kvs. token_re n \<and> field_value_re v" for kvs
    using that by (induction kvs) (auto simp: field_line_groups)
  then show ?thesis
    using ok field_line_ok by (subst decode_header_lines_def, subst fold_plain) fastforce+
qed

section \<open>A request, read as it arrives\<close>

text \<open>The headers in the order in which they are written: the Host first.\<close>

definition host_first :: "full_headers \<Rightarrow> full_headers" where
  "host_first hs = filter (\<lambda>(_, name, _). name = ''host'') hs @ filter (\<lambda>(_, name, _). name \<noteq> ''host'') hs"

lemma host_first_wf: "header_wf hs \<Longrightarrow> header_wf (host_first hs)"
proof -
  have "length (filter Q (host_first hs)) = length (filter Q hs)" for Q
    by (induction hs) (auto simp: host_first_def)
  moreover have "set (host_first hs) = set hs" by (auto simp: host_first_def)
  ultimately show "header_wf hs \<Longrightarrow> header_wf (host_first hs)" by (simp add: header_wf_def)
qed

lemma write_headers_lines: "write_headers hs = lines_bytes (map field_line (raw_headers (host_first hs))) @ CRLF"
proof -
  have "concat (map header_line hs) = lines_bytes (map field_line (raw_headers hs))" for hs
    by (induction hs) (auto simp: header_line_def field_line_def raw_headers_def)
  then show ?thesis by (simp add: write_headers_def host_first_def)
qed

definition valid_request :: "http_request \<Rightarrow> bool" where
  "valid_request r \<longleftrightarrow> token_re (rq_method r) \<and> request_target_re (rq_target r) \<and> rq_http_version r = ''1.1'' \<and>
     header_wf (rq_headers r) \<and> length (filter (\<lambda>(_, name, _). name = ''host'') (rq_headers r)) = 1"

lemma make_request_valid:
  assumes "make_request False method target raw ''1.1'' = Inr (RequestEvent r)"
  shows "valid_request r"
proof -
  obtain hs where hs: "normalize_and_validate False raw = Inr hs"
    using assms by (auto simp: make_request_def split: sum.splits)
  have "length xs = 1" if "xs \<noteq> []" "\<not> Suc 0 < length xs" for xs :: full_headers
    using that by (cases xs) auto
  with assms normalize_wf [OF hs] hs show ?thesis
    by (auto simp: make_request_def valid_request_def Let_def split: if_splits)
qed

definition request_line :: "http_request \<Rightarrow> string" where
  "request_line r = rq_method r @ '' '' @ rq_target r @ '' HTTP/1.1''"

lemma request_line_read:
  assumes "valid_request r"
  shows "request_line_groups (request_line r) = Some (rq_method r, rq_target r, ''1.1'')" "line_ok (request_line r)"
proof -
  have m: "token_re (rq_method r)" and t: "rq_target r \<noteq> []" "list_all vchar (rq_target r)"
    using assms by (auto simp: valid_request_def request_target_re_def)
  have v: "takeWhile vchar (rq_target r @ CHR '' '' # s) = rq_target r"
    "dropWhile vchar (rq_target r @ CHR '' '' # s) = CHR '' '' # s" for s
    using t colon_blank by (auto simp: list_all_iff takeWhile_append dropWhile_append)
  have "version_text ''1.1''" by code_simp
  then show "request_line_groups (request_line r) = Some (rq_method r, rq_target r, ''1.1'')"
    using token_run [OF m colon_blank(2), of "rq_target r @ '' HTTP/1.1''"] v [of "''HTTP/1.1''"] m t
    by (simp add: request_line_groups_def request_line_def token_re_def starts_with_def)
  obtain c n where n: "rq_method r = c # n" "is_tchar c" using m by (cases "rq_method r") (auto simp: token_re_def)
  have "\<forall>x \<in> set (rq_method r). x \<noteq> CHR 0x0A" using m tchar_facts by (auto simp: token_re_def list_all_iff)
  moreover have "\<forall>x \<in> set (rq_target r). x \<noteq> CHR 0x0A" using t(2) by (auto simp: list_all_iff vchar_def)
  ultimately show "line_ok (request_line r)"
    using n tchar_facts [OF n(2)] by (auto simp: line_ok_def request_line_def)
qed

definition head_lines :: "http_request \<Rightarrow> string list" where
  "head_lines r = request_line r # map field_line (raw_headers (host_first (rq_headers r)))"

definition head_bytes :: "http_request \<Rightarrow> string" where
  "head_bytes r = lines_bytes (head_lines r) @ CRLF"

lemma write_request_head: "valid_request r \<Longrightarrow> write_request r = Inr (head_bytes r)"
  by (simp add: write_request_def valid_request_def head_bytes_def head_lines_def write_headers_lines request_line_def)

lemma request_made:
  assumes "valid_request r"
  shows "make_request True (rq_method r) (rq_target r) (raw_headers (host_first (rq_headers r))) ''1.1'' =
    Inr (RequestEvent (r\<lparr> rq_headers := host_first (rq_headers r) \<rparr>))"
proof -
  have wf: "header_wf (rq_headers r)" using assms by (simp add: valid_request_def)
  have "length (filter (\<lambda>(_, name, _). name = ''host'') (host_first hs)) =
      length (filter (\<lambda>(_, name, _). name = ''host'') hs)" for hs
    by (induction hs) (auto simp: host_first_def)
  then show ?thesis
    using assms normalize_id [OF host_first_wf [OF wf], of True]
    by (simp add: make_request_def valid_request_def)
qed

lemma read_request_arrives:
  assumes r: "valid_request r" and inv: "buffer_inv buf" and data: "rb_data buf @ future = head_bytes r @ t"
  shows "(\<exists>buf'. read_request buf = (Inr (Some (RequestEvent (r\<lparr> rq_headers := host_first (rq_headers r) \<rparr>))), buf') \<and>
       buffer_inv buf' \<and> rb_data buf' @ future = t) \<or>
    (\<exists>buf'. read_request buf = (Inr None, buf') \<and> buffer_inv buf' \<and> rb_data buf' = rb_data buf \<and>
       length (rb_data buf) < length (head_bytes r) \<and> future \<noteq> [])"
proof -
  have wf: "header_wf (host_first (rq_headers r))" using r by (simp add: valid_request_def host_first_wf)
  have ok: "\<forall>l \<in> set (head_lines r). line_ok l"
  proof -
    have "token_re n \<and> field_value_re v" if "(n, v) \<in> set (raw_headers (host_first (rq_headers r)))" for n v
      using wf that by (auto simp: raw_headers_def header_wf_def)
    then show ?thesis using request_line_read(2) [OF r] field_line_ok(1) by (auto simp: head_lines_def)
  qed
  have ne: "head_lines r \<noteq> []" by (simp add: head_lines_def)
  have data': "rb_data buf @ future = lines_bytes (head_lines r) @ CRLF @ t"
    using data by (simp add: head_bytes_def)
  note plain = lines_arrive [OF ok ne data']
  have len: "length (head_bytes r) = length (lines_bytes (head_lines r)) + 2" by (simp add: head_bytes_def CRLF_def)
  obtain out buf' where out: "maybe_extract_lines buf = (out, buf')" by (cases "maybe_extract_lines buf")
  note run = lines_run [OF inv, unfolded out fst_conv snd_conv]
  show ?thesis
  proof (cases "length (head_bytes r) \<le> length (rb_data buf)")
    case True
    have "drop (length (head_bytes r)) (rb_data buf @ future) = drop (length (head_bytes r)) (rb_data buf) @ future"
      using True by simp
    then have "drop (length (head_bytes r)) (rb_data buf) @ future = t" by (simp add: data)
    moreover have o: "out = Inr (Some (head_lines r))" "rb_data buf' = drop (length (head_bytes r)) (rb_data buf)"
      using run plain True len by simp_all
    moreover have "read_request buf = (Inr (Some (RequestEvent (r\<lparr> rq_headers := host_first (rq_headers r) \<rparr>))), buf')"
      using o(1) request_line_read(1) [OF r] decode_fields [OF wf] request_made [OF r]
      by (simp add: read_request_def out head_lines_def)
    ultimately show ?thesis using run(3) by blast
  next
    case False
    then have o: "out = Inr None" "rb_data buf' = rb_data buf" using run plain len by simp_all
    obtain c s where c: "head_bytes r = c # s" "is_tchar c"
      using r by (cases "rq_method r")
        (auto simp: valid_request_def token_re_def head_bytes_def head_lines_def request_line_def)
    have "\<not> obviously_invalid_request_line buf'"
    proof (cases "rb_data buf")
      case (Cons x xs)
      then have "x = c" using data c(1) by simp
      then show ?thesis using tchar_facts(5) [OF c(2)] Cons o(2) by (simp add: obviously_invalid_request_line_def)
    qed (simp add: obviously_invalid_request_line_def o(2))
    then have "read_request buf = (Inr None, buf')" by (simp add: read_request_def out o(1))
    moreover have "future \<noteq> []" using False arg_cong [OF data, of length] by auto
    ultimately show ?thesis using run(3) o(2) False by auto
  qed
qed

end
