(* ===== verification/HttpExchange.thy ===== *)
theory HttpExchange
  imports HttpHead
begin

text \<open>
  A request from one connection to another: what a client connection sends, a server connection
  receives, however the network cuts the bytes.  The head is read by lines, the body by the reader
  its framing selects; the server asks for events as uvicorn does, until the connection needs data or
  pauses.
\<close>

section \<open>A server that reads\<close>

text \<open>
  The loop around \<open>next_event\<close> (uvicorn's \<open>handle_events\<close> without what it does with the events), and
  the arrival of data; \<open>None\<close> is a loop that does not end.
\<close>

partial_function (option) read_events :: "connection \<Rightarrow> (http_event list \<times> next_result result \<times> connection) option" where
  "read_events c =
     (case next_event c of
        (Inl e, c') \<Rightarrow> Some ([], Inl e, c')
      | (Inr NEED_DATA, c') \<Rightarrow> Some ([], Inr NEED_DATA, c')
      | (Inr PAUSED, c') \<Rightarrow> Some ([], Inr PAUSED, c')
      | (Inr (NextEvent event), c') \<Rightarrow>
          Option.bind (read_events c') (\<lambda>(events, out). Some (event # events, out)))"

fun deliver :: "string list \<Rightarrow> connection \<Rightarrow> (http_event list \<times> next_result result \<times> connection) option" where
  "deliver [] c = Some ([], Inr NEED_DATA, c)"
| "deliver (a # arrivals) c =
     (case receive_data a c of
        (Inl e, c') \<Rightarrow> Some ([], Inl e, c')
      | (Inr _, c') \<Rightarrow>
          Option.bind (read_events c') (\<lambda>(events, out, c'').
            if isl out \<or> arrivals = [] then Some (events, out, c'')
            else map_option (apfst ((@) events)) (deliver arrivals c'')))"

lemma read_events_stop:
  "next_event c = (Inr NEED_DATA, c') \<Longrightarrow> read_events c = Some ([], Inr NEED_DATA, c')"
  "next_event c = (Inr PAUSED, c') \<Longrightarrow> read_events c = Some ([], Inr PAUSED, c')"
  by (simp_all add: read_events.simps [of c])

lemma read_events_step:
  "next_event c = (Inr (NextEvent e), c') \<Longrightarrow> read_events c' = Some (es, out) \<Longrightarrow> read_events c = Some (e # es, out)"
  by (simp add: read_events.simps [of c])

text \<open>The server while the client's side is idle or sending a body.\<close>

definition listening :: "connection \<Rightarrow> bool" where
  "listening c \<longleftrightarrow> our_role c = SERVER \<and> \<not> recv_closed c \<and> buffer_inv (recv_buffer c) \<and> 22 \<le> max_incomplete_event_size c"

lemma next_event_none:
  assumes "listening c" and "client_state (cstate c) \<in> {IDLE, SEND_BODY}" and "reader c = Some r"
    and "run_reader r (recv_buffer c) = (Inr None, r', buf)" and "length (rb_data buf) \<le> max_incomplete_event_size c"
  shows "next_event c = (Inr NEED_DATA, c\<lparr> reader := Some r', recv_buffer := buf \<rparr>)"
  using assms
  by (auto simp: next_event_def checked_next_event_def extract_next_receive_event_def call_reader_def
      their_state_def their_role_def listening_def prog_defs)

lemma next_event_some:
  assumes "listening c" and "client_state (cstate c) \<in> {IDLE, SEND_BODY}" and "reader c = Some r"
    and "run_reader r (recv_buffer c) = (Inr (Some e), r', buf)"
    and "conn_process_event CLIENT e (c\<lparr> reader := Some r', recv_buffer := buf \<rparr>) = (Inr (), c')"
  shows "next_event c = (Inr (NextEvent e), c')"
  using assms
  by (auto simp: next_event_def checked_next_event_def extract_next_receive_event_def call_reader_def
      their_state_def their_role_def listening_def prog_defs)

text \<open>The three events of a request, passing through the server's connection.\<close>

lemma process_request:
  assumes "our_role c = SERVER" and "cstate c = ConnectionState"
    and "body_framing (Some (rq_method r)) (RequestEvent r) = Inr f"
  shows "\<exists>c'. conn_process_event CLIENT (RequestEvent r) c = (Inr (), c') \<and>
    our_role c' = SERVER \<and> recv_closed c' = recv_closed c \<and> recv_buffer c' = recv_buffer c \<and>
    max_incomplete_event_size c' = max_incomplete_event_size c \<and>
    client_state (cstate c') = SEND_BODY \<and> server_state (cstate c') = SEND_RESPONSE \<and>
    reader c' = Some (ReadBody (body_reader_of f))"
  using assms
  by (auto simp: conn_process_event_def propose_switches_def on_cstate_def process_event_def fire_event_triggered_def
      process_client_switch_proposal_def process_keep_alive_disabled_def fire_one_pass fire_defs ConnectionState_def
      note_event_def note_continue_def respond_to_state_changes_def get_reader_def get_writer_def framing_for_def
      our_state_def their_state_def their_role_def prog_defs Let_def)

lemma process_body_event:
  assumes "our_role c = SERVER" and "client_state (cstate c) = SEND_BODY" and "server_state (cstate c) = SEND_RESPONSE"
  shows "\<exists>c'. conn_process_event CLIENT (DataEvent d s e) c = (Inr (), c') \<and>
    our_role c' = SERVER \<and> recv_closed c' = recv_closed c \<and> recv_buffer c' = recv_buffer c \<and>
    max_incomplete_event_size c' = max_incomplete_event_size c \<and>
    client_state (cstate c') = SEND_BODY \<and> server_state (cstate c') = SEND_RESPONSE \<and> reader c' = reader c"
  using assms
  by (auto simp: conn_process_event_def propose_switches_def on_cstate_def process_event_def fire_event_triggered_def
      fire_one_pass fire_defs note_event_def note_continue_def expects_continue_def respond_to_state_changes_def
      our_state_def their_state_def their_role_def prog_defs Let_def)

lemma process_end_event:
  assumes "our_role c = SERVER" and "client_state (cstate c) = SEND_BODY" and "server_state (cstate c) = SEND_RESPONSE"
  shows "\<exists>c'. conn_process_event CLIENT (EndEvent []) c = (Inr (), c') \<and>
    our_role c' = SERVER \<and> recv_closed c' = recv_closed c \<and> recv_buffer c' = recv_buffer c \<and>
    max_incomplete_event_size c' = max_incomplete_event_size c \<and> server_state (cstate c') = SEND_RESPONSE \<and>
    (client_state (cstate c') = MIGHT_SWITCH_PROTOCOL \<or>
     client_state (cstate c') \<in> {DONE, MUST_CLOSE} \<and> reader c' = Some ExpectNothing)"
  using assms
  by (auto simp: conn_process_event_def propose_switches_def on_cstate_def process_event_def fire_event_triggered_def
      fire_one_pass fire_defs note_event_def note_continue_def expects_continue_def respond_to_state_changes_def
      get_reader_def our_state_def their_state_def their_role_def prog_defs Let_def)

text \<open>The server while a body arrives: what it still expects, and what it has of it.\<close>

definition receiving :: "connection \<Rightarrow> string \<Rightarrow> string \<Rightarrow> bool" where
  "receiving c payload b \<longleftrightarrow> listening c \<and> client_state (cstate c) = SEND_BODY \<and> server_state (cstate c) = SEND_RESPONSE \<and>
     (\<exists>rd. reader c = Some (ReadBody rd) \<and> expects rd payload b)"

text \<open>The server once the request has come: nothing is left over.\<close>

definition received :: "next_result result \<Rightarrow> connection \<Rightarrow> bool" where
  "received out c \<longleftrightarrow> out \<in> {Inr NEED_DATA, Inr PAUSED} \<and> rb_data (recv_buffer c) = [] \<and>
     client_state (cstate c) \<in> {DONE, MUST_CLOSE, MIGHT_SWITCH_PROTOCOL}"

lemma read_after_end:
  assumes "listening c" and "rb_data (recv_buffer c) = []"
    and "client_state (cstate c) = MIGHT_SWITCH_PROTOCOL \<or>
      client_state (cstate c) \<in> {DONE, MUST_CLOSE} \<and> reader c = Some ExpectNothing"
  shows "\<exists>out c'. read_events c = Some ([], out, c') \<and> received out c'"
  using assms(3)
proof
  assume "client_state (cstate c) = MIGHT_SWITCH_PROTOCOL"
  then have "next_event c = (Inr PAUSED, c)"
    using assms(1) by (simp add: next_event_def checked_next_event_def extract_next_receive_event_def
        their_state_def their_role_def listening_def tryExcept_def)
  then show ?thesis
    using read_events_stop(2) assms(2) \<open>client_state (cstate c) = MIGHT_SWITCH_PROTOCOL\<close>
    by (auto simp: received_def)
next
  assume a: "client_state (cstate c) \<in> {DONE, MUST_CLOSE} \<and> reader c = Some ExpectNothing"
  then have "next_event c = (Inr NEED_DATA, c)"
    using assms(1,2)
    by (auto simp: next_event_def checked_next_event_def extract_next_receive_event_def call_reader_def expect_nothing_def
        their_state_def their_role_def listening_def prog_defs)
  then show ?thesis using read_events_stop(1) assms(2) a by (auto simp: received_def)
qed

lemma read_body_events:
  assumes "receiving c payload b" and "rb_data (recv_buffer c) @ future = b"
  shows "(\<exists>events c' p' b'. read_events c = Some (events, Inr NEED_DATA, c') \<and> list_all is_data events \<and>
       payload = body_of events @ p' \<and> receiving c' p' b' \<and> rb_data (recv_buffer c') @ future = b' \<and> future \<noteq> []) \<or>
    (\<exists>events out c'. read_events c = Some (events @ [EndEvent []], out, c') \<and> list_all is_data events \<and>
       payload = body_of events \<and> received out c' \<and> future = [])"
  using assms
proof (induction "length (rb_data (recv_buffer c))" arbitrary: c payload b rule: less_induct)
  case less
  obtain rd where c: "listening c" "client_state (cstate c) = SEND_BODY" "server_state (cstate c) = SEND_RESPONSE"
      "reader c = Some (ReadBody rd)" "expects rd payload b"
    using less.prems(1) by (auto simp: receiving_def)
  obtain res rd1 buf1 where call: "read_body rd (recv_buffer c) = (res, rd1, buf1)" by (cases "read_body rd (recv_buffer c)")
  then have run: "run_reader (ReadBody rd) (recv_buffer c) = (res, ReadBody rd1, buf1)" by simp
  let ?c1 = "c\<lparr> reader := Some (ReadBody rd1), recv_buffer := buf1 \<rparr>"
  have data: "rb_data (recv_buffer c) @ future = b @ []" using less.prems(2) by simp
  have inv: "buffer_inv (recv_buffer c)" using c(1) by (simp add: listening_def)
  from read_body_advances [OF inv c(5) data] have adv: "buffer_inv buf1"
    "res = Inr None \<and> future \<noteq> [] \<and> length (rb_data buf1) \<le> 22 \<and> (\<exists>b. expects rd1 payload b \<and> rb_data buf1 @ future = b @ []) \<or>
     (\<exists>d s e p'. res = Inr (Some (DataEvent d s e)) \<and> d \<noteq> [] \<and> payload = d @ p' \<and>
        length (rb_data buf1) < length (rb_data (recv_buffer c)) \<and> (\<exists>b. expects rd1 p' b \<and> rb_data buf1 @ future = b @ [])) \<or>
     res = Inr (Some (EndEvent [])) \<and> payload = [] \<and> rb_data buf1 @ future = []"
    unfolding advances_def call by auto
  have c1: "listening ?c1" using c(1) adv(1) by (simp add: listening_def)
  have state: "client_state (cstate c) \<in> {IDLE, SEND_BODY}" using c(2) by simp
  have role: "our_role ?c1 = SERVER" "client_state (cstate ?c1) = SEND_BODY" "server_state (cstate ?c1) = SEND_RESPONSE"
    using c by (simp_all add: listening_def)
  from adv(2) show ?case
  proof (elim disjE exE conjE)
    fix b1
    assume r: "res = Inr None" "future \<noteq> []" "length (rb_data buf1) \<le> 22" "expects rd1 payload b1" "rb_data buf1 @ future = b1 @ []"
    have "next_event c = (Inr NEED_DATA, ?c1)"
      using run r(1,3) c(1) by (intro next_event_none [OF c(1) state c(4)]) (auto simp: listening_def)
    then have "read_events c = Some ([], Inr NEED_DATA, ?c1)" by (rule read_events_stop)
    moreover have "receiving ?c1 payload b1" using c1 c r(4) by (simp add: receiving_def)
    ultimately show ?thesis using r by (intro disjI1 exI [of _ "[]"] exI [of _ ?c1] exI [of _ payload] exI [of _ b1]) simp
  next
    fix d s e p' b1
    assume r: "res = Inr (Some (DataEvent d s e))" "payload = d @ p'" "length (rb_data buf1) < length (rb_data (recv_buffer c))"
      "expects rd1 p' b1" "rb_data buf1 @ future = b1 @ []"
    from process_body_event [OF role, of d s e] obtain c2 where
      c2: "conn_process_event CLIENT (DataEvent d s e) ?c1 = (Inr (), c2)" "our_role c2 = SERVER"
        "recv_closed c2 = recv_closed c" "recv_buffer c2 = buf1" "max_incomplete_event_size c2 = max_incomplete_event_size c"
        "client_state (cstate c2) = SEND_BODY" "server_state (cstate c2) = SEND_RESPONSE" "reader c2 = Some (ReadBody rd1)"
      by auto
    have step: "next_event c = (Inr (NextEvent (DataEvent d s e)), c2)"
      using run r(1) c2(1) by (intro next_event_some [OF c(1) state c(4)]) simp_all
    have rec: "receiving c2 p' b1" using c1 c2 c(1) r(4) adv(1) by (auto simp: receiving_def listening_def)
    have "length (rb_data (recv_buffer c2)) < length (rb_data (recv_buffer c))" "rb_data (recv_buffer c2) @ future = b1"
      using r(3,5) c2(4) by simp_all
    from less.hyps [OF this(1) rec this(2)] show ?thesis
    proof (elim disjE exE conjE)
      fix events c' p'' b'
      assume "read_events c2 = Some (events, Inr NEED_DATA, c')" "list_all is_data events" "p' = body_of events @ p''"
        "receiving c' p'' b'" "rb_data (recv_buffer c') @ future = b'" "future \<noteq> []"
      then show ?thesis
        using read_events_step [OF step, of events] r(2)
        by (intro disjI1 exI [of _ "DataEvent d s e # events"] exI [of _ c'] exI [of _ p''] exI [of _ b']) simp
    next
      fix events out c'
      assume "read_events c2 = Some (events @ [EndEvent []], out, c')" "list_all is_data events" "p' = body_of events"
        "received out c'" "future = []"
      then show ?thesis
        using read_events_step [OF step, of "events @ [EndEvent []]"] r(2)
        by (intro disjI2 exI [of _ "DataEvent d s e # events"] exI [of _ out] exI [of _ c']) simp
    qed
  next
    assume r: "res = Inr (Some (EndEvent []))" "payload = []" "rb_data buf1 @ future = []"
    from process_end_event [OF role] obtain c2 where
      c2: "conn_process_event CLIENT (EndEvent []) ?c1 = (Inr (), c2)" "our_role c2 = SERVER"
        "recv_closed c2 = recv_closed c" "recv_buffer c2 = buf1" "max_incomplete_event_size c2 = max_incomplete_event_size c"
        "client_state (cstate c2) = MIGHT_SWITCH_PROTOCOL \<or>
         client_state (cstate c2) \<in> {DONE, MUST_CLOSE} \<and> reader c2 = Some ExpectNothing"
      by auto
    have step: "next_event c = (Inr (NextEvent (EndEvent [])), c2)"
      using run r(1) c2(1) by (intro next_event_some [OF c(1) state c(4)]) simp_all
    have "listening c2" using c2 c(1) adv(1) by (auto simp: listening_def)
    moreover have "rb_data (recv_buffer c2) = []" using r(3) c2(4) by simp
    ultimately obtain out c' where "read_events c2 = Some ([], out, c')" "received out c'"
      using read_after_end [of c2] c2(6) by blast
    then show ?thesis
      using read_events_step [OF step] r by (intro disjI2 exI [of _ "[]"] exI [of _ out] exI [of _ c']) simp
  qed
qed

lemma receive_run:
  "listening c \<Longrightarrow> a \<noteq> [] \<Longrightarrow> receive_data a c = (Inr (), c\<lparr> recv_buffer := buffer_add a (recv_buffer c) \<rparr>)"
  by (simp add: receive_data_def listening_def)

lemma listening_add: "listening c \<Longrightarrow> listening (c\<lparr> recv_buffer := buffer_add a (recv_buffer c) \<rparr>)"
  by (simp add: listening_def buffer_inv_add)

text \<open>Delivering what is left of a body.\<close>

lemma deliver_body:
  assumes "receiving c payload b" and "rb_data (recv_buffer c) @ concat arrivals = b" and "arrivals \<noteq> []" and "[] \<notin> set arrivals"
  shows "\<exists>events out c'. deliver arrivals c = Some (events @ [EndEvent []], out, c') \<and> list_all is_data events \<and>
    body_of events = payload \<and> received out c'"
  using assms
proof (induction arrivals arbitrary: c payload b)
  case (Cons a arrivals)
  let ?c1 = "c\<lparr> recv_buffer := buffer_add a (recv_buffer c) \<rparr>"
  have a: "a \<noteq> []" "[] \<notin> set arrivals" and lst: "listening c" using Cons.prems by (auto simp: receiving_def)
  have rec: "receiving ?c1 payload b" using Cons.prems(1) listening_add by (simp add: receiving_def)
  have data: "rb_data (recv_buffer ?c1) @ concat arrivals = b" using Cons.prems(2) by (simp add: buffer_add_def)
  from read_body_events [OF rec data] show ?case
  proof (elim disjE exE conjE)
    fix events c' p' b'
    assume r: "read_events ?c1 = Some (events, Inr NEED_DATA, c')" "list_all is_data events" "payload = body_of events @ p'"
      "receiving c' p' b'" "rb_data (recv_buffer c') @ concat arrivals = b'" "concat arrivals \<noteq> []"
    then have "arrivals \<noteq> []" by auto
    from Cons.IH [OF r(4,5) this a(2)] obtain events2 out c2 where
      "deliver arrivals c' = Some (events2 @ [EndEvent []], out, c2)" "list_all is_data events2" "body_of events2 = p'" "received out c2"
      by blast
    with r \<open>arrivals \<noteq> []\<close> show ?thesis
      by (intro exI [of _ "events @ events2"] exI [of _ out] exI [of _ c2]) (simp add: receive_run [OF lst a(1)])
  next
    fix events out c'
    assume r: "read_events ?c1 = Some (events @ [EndEvent []], out, c')" "list_all is_data events" "payload = body_of events"
      "received out c'" "concat arrivals = []"
    then have "arrivals = []" using a(2) by (cases arrivals) auto
    with r show ?thesis
      by (intro exI [of _ events] exI [of _ out] exI [of _ c']) (simp add: receive_run [OF lst a(1)])
  qed
qed simp

section \<open>The events of a request\<close>

lemma get_comma_header_host_first:
  assumes "name \<noteq> ''host''"
  shows "get_comma_header (host_first hs) name = get_comma_header hs name"
proof -
  have "concat (map (\<lambda>(_, n, v). if n = name then comma_values v else []) (filter (\<lambda>(_, n, _). n = ''host'') hs)) = []"
    for hs :: full_headers using assms by (induction hs) auto
  moreover have "concat (map (\<lambda>(_, n, v). if n = name then comma_values v else []) (filter (\<lambda>(_, n, _). n \<noteq> ''host'') hs)) =
      concat (map (\<lambda>(_, n, v). if n = name then comma_values v else []) hs)" for hs :: full_headers
    using assms by (induction hs) auto
  ultimately show ?thesis by (simp add: get_comma_header_def host_first_def)
qed

lemma framing_host_first:
  "framing_from_headers (host_first hs) fallback = framing_from_headers hs fallback"
  by (simp add: framing_from_headers_def get_comma_header_host_first)

text \<open>The request as the server's connection gives it: the Host first.\<close>

definition as_received :: "http_request \<Rightarrow> http_request" where
  "as_received r = r\<lparr> rq_headers := host_first (rq_headers r) \<rparr>"

text \<open>The server before the request: what it has of the head, and the body that follows.\<close>

definition awaiting :: "connection \<Rightarrow> http_request \<Rightarrow> bool" where
  "awaiting c r \<longleftrightarrow> listening c \<and> cstate c = ConnectionState \<and> reader c = Some ReadRequest \<and>
     length (head_bytes r) \<le> max_incomplete_event_size c"

lemma read_head_events:
  assumes "awaiting c r" and r: "valid_request r"
    and framing: "framing_from_headers (rq_headers r) (ContentLength 0) = Inr f"
    and body: "expects (body_reader_of f) payload b" and data: "rb_data (recv_buffer c) @ future = head_bytes r @ b"
  shows "(\<exists>c'. read_events c = Some ([], Inr NEED_DATA, c') \<and> awaiting c' r \<and>
       rb_data (recv_buffer c') @ future = head_bytes r @ b \<and> future \<noteq> []) \<or>
    (\<exists>events c' p' b'. read_events c = Some (RequestEvent (as_received r) # events, Inr NEED_DATA, c') \<and>
       list_all is_data events \<and> payload = body_of events @ p' \<and> receiving c' p' b' \<and>
       rb_data (recv_buffer c') @ future = b' \<and> future \<noteq> []) \<or>
    (\<exists>events out c'. read_events c = Some (RequestEvent (as_received r) # events @ [EndEvent []], out, c') \<and>
       list_all is_data events \<and> payload = body_of events \<and> received out c' \<and> future = [])"
proof -
  have c: "listening c" "cstate c = ConnectionState" "reader c = Some ReadRequest"
      "length (head_bytes r) \<le> max_incomplete_event_size c" and inv: "buffer_inv (recv_buffer c)"
    using assms(1) by (auto simp: awaiting_def listening_def)
  have idle: "client_state (cstate c) \<in> {IDLE, SEND_BODY}" by (simp add: c(2) ConnectionState_def)
  from read_request_arrives [OF r inv data] show ?thesis
  proof (elim disjE exE conjE)
    fix buf
    assume b: "read_request (recv_buffer c) = (Inr None, buf)" "buffer_inv buf" "rb_data buf = rb_data (recv_buffer c)"
      "length (rb_data (recv_buffer c)) < length (head_bytes r)" "future \<noteq> []"
    let ?c1 = "c\<lparr> reader := Some ReadRequest, recv_buffer := buf \<rparr>"
    have "next_event c = (Inr NEED_DATA, ?c1)"
      using b c(4) by (intro next_event_none [OF c(1) idle c(3)]) simp_all
    then have "read_events c = Some ([], Inr NEED_DATA, ?c1)" by (rule read_events_stop)
    moreover have "awaiting ?c1 r" using c b(2) by (simp add: awaiting_def listening_def)
    ultimately show ?thesis using b data by (intro disjI1 exI [of _ ?c1]) simp
  next
    fix buf
    assume b: "read_request (recv_buffer c) =
        (Inr (Some (RequestEvent (r\<lparr> rq_headers := host_first (rq_headers r) \<rparr>))), buf)" "buffer_inv buf" "rb_data buf @ future = b"
    let ?c1 = "c\<lparr> reader := Some ReadRequest, recv_buffer := buf \<rparr>"
    have "body_framing (Some (rq_method (as_received r))) (RequestEvent (as_received r)) = Inr f"
      using framing by (simp add: body_framing_def as_received_def framing_host_first)
    from process_request [OF _ _ this, of ?c1] obtain c2 where
      c2: "conn_process_event CLIENT (RequestEvent (as_received r)) ?c1 = (Inr (), c2)" "our_role c2 = SERVER"
        "recv_closed c2 = recv_closed c" "recv_buffer c2 = buf" "max_incomplete_event_size c2 = max_incomplete_event_size c"
        "client_state (cstate c2) = SEND_BODY" "server_state (cstate c2) = SEND_RESPONSE"
        "reader c2 = Some (ReadBody (body_reader_of f))"
      using c by (auto simp: listening_def)
    have step: "next_event c = (Inr (NextEvent (RequestEvent (as_received r))), c2)"
      using b(1) c2(1) by (intro next_event_some [OF c(1) idle c(3)]) (simp_all add: as_received_def)
    have rec: "receiving c2 payload b" using c2 c(1) b(2) body by (auto simp: receiving_def listening_def)
    have "rb_data (recv_buffer c2) @ future = b" using b(3) c2(4) by simp
    from read_body_events [OF rec this] show ?thesis
    proof (elim disjE exE conjE)
      fix events c' p' b'
      assume "read_events c2 = Some (events, Inr NEED_DATA, c')" "list_all is_data events" "payload = body_of events @ p'"
        "receiving c' p' b'" "rb_data (recv_buffer c') @ future = b'" "future \<noteq> []"
      then show ?thesis
        using read_events_step [OF step, of events]
        by (intro disjI2 disjI1 exI [of _ events] exI [of _ c'] exI [of _ p'] exI [of _ b']) simp
    next
      fix events out c'
      assume "read_events c2 = Some (events @ [EndEvent []], out, c')" "list_all is_data events" "payload = body_of events"
        "received out c'" "future = []"
      then show ?thesis
        using read_events_step [OF step, of "events @ [EndEvent []]"]
        by (intro disjI2 exI [of _ events] exI [of _ out] exI [of _ c']) simp
    qed
  qed
qed

lemma deliver_request:
  assumes "awaiting c r" and "valid_request r"
    and "framing_from_headers (rq_headers r) (ContentLength 0) = Inr f" and "expects (body_reader_of f) payload b"
    and "rb_data (recv_buffer c) @ concat arrivals = head_bytes r @ b" and "arrivals \<noteq> []" and "[] \<notin> set arrivals"
  shows "\<exists>events out c'. deliver arrivals c = Some (RequestEvent (as_received r) # events @ [EndEvent []], out, c') \<and>
    list_all is_data events \<and> body_of events = payload \<and> received out c'"
  using assms(1,5-7)
proof (induction arrivals arbitrary: c)
  case (Cons a arrivals)
  let ?c1 = "c\<lparr> recv_buffer := buffer_add a (recv_buffer c) \<rparr>"
  have a: "a \<noteq> []" "[] \<notin> set arrivals" and lst: "listening c" using Cons.prems by (auto simp: awaiting_def)
  have wait: "awaiting ?c1 r" using Cons.prems(1) listening_add by (simp add: awaiting_def)
  have data: "rb_data (recv_buffer ?c1) @ concat arrivals = head_bytes r @ b" using Cons.prems(2) by (simp add: buffer_add_def)
  from read_head_events [OF wait assms(2-4) data] show ?case
  proof (elim disjE exE conjE)
    fix c'
    assume h: "read_events ?c1 = Some ([], Inr NEED_DATA, c')" "awaiting c' r"
      "rb_data (recv_buffer c') @ concat arrivals = head_bytes r @ b" "concat arrivals \<noteq> []"
    then have "arrivals \<noteq> []" by auto
    from Cons.IH [OF h(2,3) this a(2)] obtain events out c2 where
      "deliver arrivals c' = Some (RequestEvent (as_received r) # events @ [EndEvent []], out, c2)"
      "list_all is_data events" "body_of events = payload" "received out c2"
      by blast
    with h \<open>arrivals \<noteq> []\<close> show ?thesis
      by (intro exI [of _ events] exI [of _ out] exI [of _ c2]) (simp add: receive_run [OF lst a(1)])
  next
    fix events c' p' b'
    assume h: "read_events ?c1 = Some (RequestEvent (as_received r) # events, Inr NEED_DATA, c')" "list_all is_data events"
      "payload = body_of events @ p'" "receiving c' p' b'" "rb_data (recv_buffer c') @ concat arrivals = b'" "concat arrivals \<noteq> []"
    then have "arrivals \<noteq> []" by auto
    from deliver_body [OF h(4,5) this a(2)] obtain events2 out c2 where
      "deliver arrivals c' = Some (events2 @ [EndEvent []], out, c2)" "list_all is_data events2" "body_of events2 = p'" "received out c2"
      by blast
    with h \<open>arrivals \<noteq> []\<close> show ?thesis
      by (intro exI [of _ "events @ events2"] exI [of _ out] exI [of _ c2]) (simp add: receive_run [OF lst a(1)])
  next
    fix events out c'
    assume h: "read_events ?c1 = Some (RequestEvent (as_received r) # events @ [EndEvent []], out, c')" "list_all is_data events"
      "payload = body_of events" "received out c'" "concat arrivals = []"
    then have "arrivals = []" using a(2) by (cases arrivals) auto
    with h show ?thesis
      by (intro exI [of _ events] exI [of _ out] exI [of _ c']) (simp add: receive_run [OF lst a(1)])
  qed
qed simp

section \<open>A client that sends\<close>

text \<open>The bytes of events sent one after the other.\<close>

fun send_all :: "http_event list \<Rightarrow> connection \<Rightarrow> string result" where
  "send_all [] c = Inr []"
| "send_all (event # events) c =
     (case send_event event c of
        (Inl e, c') \<Rightarrow> Inl e
      | (Inr bytes, c') \<Rightarrow> map_sum id ((@) (case bytes of None \<Rightarrow> [] | Some b \<Rightarrow> b)) (send_all events c'))"

text \<open>The client while it sends the body of its request.\<close>

definition sending :: "connection \<Rightarrow> body_writer \<Rightarrow> bool" where
  "sending c w \<longleftrightarrow> our_role c = CLIENT \<and> client_state (cstate c) = SEND_BODY \<and> server_state (cstate c) = SEND_RESPONSE \<and>
     writer c = Some (WriteBody w)"

lemma send_piece:
  assumes "sending c w" and "send_data w d = (res, w')"
  shows "\<exists>r c'. send_event (DataEvent d False False) c = (r, c') \<and>
    (case res of Inl e \<Rightarrow> isl r | Inr bytes \<Rightarrow> r = Inr (Some bytes) \<and> sending c' w')"
proof -
  let ?e = "DataEvent d False False"
  have "\<exists>c1. conn_process_event CLIENT ?e c = (Inr (), c1) \<and> sending c1 w"
    using assms(1)
    by (auto simp: sending_def conn_process_event_def propose_switches_def on_cstate_def process_event_def
        fire_event_triggered_def fire_one_pass fire_defs note_event_def note_continue_def expects_continue_def
        respond_to_state_changes_def our_state_def their_state_def their_role_def prog_defs Let_def)
  then obtain c1 where c1: "conn_process_event CLIENT ?e c = (Inr (), c1)" "sending c1 w" by blast
  then show ?thesis
    using assms by (cases res)
      (auto simp: send_event_def send_checked_def write_event_def sending_def our_state_def prog_defs split: sum.splits prod.splits)
qed

lemma send_end:
  assumes "sending c w"
  shows "\<exists>r c'. send_event (EndEvent []) c = (r, c') \<and>
    (case send_eom w [] of Inl e \<Rightarrow> isl r | Inr bytes \<Rightarrow> r = Inr (Some bytes))"
proof -
  have "\<exists>c1. conn_process_event CLIENT (EndEvent []) c = (Inr (), c1)"
    using assms
    by (auto simp: sending_def conn_process_event_def propose_switches_def on_cstate_def process_event_def
        fire_event_triggered_def fire_one_pass fire_defs note_event_def note_continue_def expects_continue_def
        respond_to_state_changes_def get_writer_def get_reader_def our_state_def their_state_def their_role_def prog_defs Let_def)
  then show ?thesis
    using assms by (cases "send_eom w []")
      (auto simp: send_event_def send_checked_def write_event_def sending_def our_state_def prog_defs split: sum.splits prod.splits)
qed

lemma send_body:
  assumes "sending c w" and "send_all (map (\<lambda>d. DataEvent d False False) ds @ [EndEvent []]) c = Inr bytes"
  shows "write_pieces w ds = Inr bytes"
  using assms
proof (induction ds arbitrary: c w bytes)
  case Nil
  then show ?case using send_end [OF Nil(1)] by (cases "send_eom w []") (auto simp: isl_def)
next
  case (Cons d ds)
  obtain res w' where d: "send_data w d = (res, w')" by (cases "send_data w d")
  obtain r c' where s: "send_event (DataEvent d False False) c = (r, c')"
      "case res of Inl e \<Rightarrow> isl r | Inr b \<Rightarrow> r = Inr (Some b) \<and> sending c' w'"
    using send_piece [OF Cons.prems(1) d] by blast
  with Cons.prems(2) obtain b bs where b: "res = Inr b" "bytes = b @ bs" "sending c' w'"
      "send_all (map (\<lambda>d. DataEvent d False False) ds @ [EndEvent []]) c' = Inr bs"
    by (cases res) (auto simp: isl_def map_sum_Inr)
  from Cons.IH [OF b(3,4)] show ?case by (simp add: d b)
qed

lemma send_request:
  assumes "valid_request r" and "framing_from_headers (rq_headers r) (ContentLength 0) = Inr f"
  shows "\<exists>c'. send_event (RequestEvent r) (Connection CLIENT n) = (Inr (Some (head_bytes r)), c') \<and> sending c' (body_writer_of f)"
proof -
  let ?c = "Connection CLIENT n"
  have "\<exists>c1. conn_process_event CLIENT (RequestEvent r) ?c = (Inr (), c1) \<and> sending c1 (body_writer_of f)"
    using assms(2)
    by (auto simp: Connection_def sending_def conn_process_event_def propose_switches_def on_cstate_def process_event_def
        fire_event_triggered_def process_client_switch_proposal_def process_keep_alive_disabled_def fire_one_pass fire_defs
        ConnectionState_def note_event_def note_continue_def respond_to_state_changes_def get_reader_def get_writer_def
        framing_for_def body_framing_def our_state_def their_state_def their_role_def prog_defs Let_def)
  then obtain c1 where "conn_process_event CLIENT (RequestEvent r) ?c = (Inr (), c1)" "sending c1 (body_writer_of f)" by blast
  moreover have "our_role ?c = CLIENT" "writer ?c = Some WriteRequest" "our_state ?c = IDLE"
    by (simp_all add: Connection_def our_state_def ConnectionState_def)
  ultimately show ?thesis
    using write_request_head [OF assms(1)]
    by (auto simp: send_event_def send_checked_def write_event_def prog_defs)
qed


text \<open>
  C26: The request a client connection sends is the request a server connection receives.  Take any
  request the library accepts, its body in whatever pieces, with a declared length or in chunks, and
  any cutting of the bytes sent, in the middle of a line, a chunk header or a CRLF.  If the head fits
  the server's limit then the server's loop ends, without an error, and gives exactly: the same
  request, its headers in the order they are written (the Host first), data events that make up the
  same body, and the end of the message; nothing is left in the buffer and the client's side is done.
\<close>

theorem request_received:
  assumes "make_request False method target raw ''1.1'' = Inr (RequestEvent r)"
    and "send_all (RequestEvent r # map (\<lambda>d. DataEvent d False False) ds @ [EndEvent []]) (Connection CLIENT n) = Inr (concat arrivals)"
    and "[] \<notin> set arrivals" and "\<forall>d \<in> set ds. length d < 16 ^ 20"
    and "write_request r = Inr head" and "length head \<le> m" and "22 \<le> m"
  shows "\<exists>events out c. deliver arrivals (Connection SERVER m) = Some (RequestEvent (as_received r) # events @ [EndEvent []], out, c) \<and>
    list_all is_data events \<and> body_of events = concat ds \<and> received out c"
proof -
  have r: "valid_request r" by (rule make_request_valid [OF assms(1)])
  have head: "head = head_bytes r" using write_request_head [OF r] assms(5) by simp
  have "normalize_and_validate False raw = Inr (rq_headers r)"
    using assms(1) by (auto simp: make_request_def Let_def split: sum.splits if_splits)
  from framing_of_normalized [OF this, of "ContentLength 0"] obtain f where
    f: "framing_from_headers (rq_headers r) (ContentLength 0) = Inr f" "f \<noteq> Http10" by (auto split: if_splits)
  from send_request [OF r f(1), of n] obtain c where
    c: "send_event (RequestEvent r) (Connection CLIENT n) = (Inr (Some (head_bytes r)), c)" "sending c (body_writer_of f)" by blast
  then obtain b where b: "concat arrivals = head_bytes r @ b"
      "send_all (map (\<lambda>d. DataEvent d False False) ds @ [EndEvent []]) c = Inr b"
    using assms(2) by (auto simp: map_sum_Inr)
  have "expects (body_reader_of f) (concat ds) b"
    by (rule expects_written [OF send_body [OF c(2) b(2)] f(2) assms(4)])
  moreover have "awaiting (Connection SERVER m) r"
    using assms(6,7) by (simp add: awaiting_def listening_def Connection_def ConnectionState_def buffer_inv_init head)
  moreover have "arrivals \<noteq> []" using b(1) by (auto simp: head_bytes_def CRLF_def)
  moreover have "rb_data (recv_buffer (Connection SERVER m)) @ concat arrivals = head_bytes r @ b"
    by (simp add: b(1) Connection_def ReceiveBuffer_def)
  ultimately show ?thesis using deliver_request [OF _ r f(1)] assms(3) by blast
qed


theorem request_received_witness:
  "\<exists>r events out c. make_request False ''POST'' ''/login'' [(''Content-Length'', ''2''), (''Host'', ''x'')] ''1.1'' = Inr (RequestEvent r) \<and>
     deliver [''POST /lo'', ''gin HTTP/1.1'' @ [CHR 0x0D], [CHR 0x0A] @ ''Host: x'' @ CRLF @ ''Content-Length: 2'' @ CRLF @ CRLF @ ''a'', ''b'']
       (Connection SERVER 100) = Some (RequestEvent (as_received r) # events @ [EndEvent []], out, c) \<and> body_of events = ''ab''"
proof -
  let ?r = "\<lparr> rq_method = ''POST'', rq_target = ''/login'',
    rq_headers = [(''Content-Length'', ''content-length'', ''2''), (''Host'', ''host'', ''x'')], rq_http_version = ''1.1'' \<rparr>"
  let ?as = "[''POST /lo'', ''gin HTTP/1.1'' @ [CHR 0x0D], [CHR 0x0A] @ ''Host: x'' @ CRLF @ ''Content-Length: 2'' @ CRLF @ CRLF @ ''a'', ''b'']"
  let ?head = "''POST /login HTTP/1.1'' @ CRLF @ ''Host: x'' @ CRLF @ ''Content-Length: 2'' @ CRLF @ CRLF"
  have made: "make_request False ''POST'' ''/login'' [(''Content-Length'', ''2''), (''Host'', ''x'')] ''1.1'' = Inr (RequestEvent ?r)"
    by code_simp
  have written: "write_request ?r = Inr ?head" by code_simp
  have sent: "send_all (RequestEvent ?r # map (\<lambda>d. DataEvent d False False) [''ab''] @ [EndEvent []]) (Connection CLIENT 100) = Inr (concat ?as)"
    by code_simp
  have "length ?head \<le> 100" by (simp add: CRLF_def)
  from request_received [OF made sent _ _ written this] obtain events out c where
    "deliver ?as (Connection SERVER 100) = Some (RequestEvent (as_received ?r) # events @ [EndEvent []], out, c)"
    "body_of events = concat [''ab'']"
    by auto
  with made show ?thesis by (intro exI [of _ ?r] exI [of _ events] exI [of _ out] exI [of _ c]) simp
qed

end
