(* ===== verification/Spec2Isabelle.thy ===== *)
theory Spec2Isabelle
  imports System Server Locking Drift Login Matcher Routing HttpExchange
begin

text \<open>
  The ScreenSync backend: a service that shares one daily allowance of screen time between the
  devices of a user (src/backend/app), with the vendored code (src/backend/.pydeps) that decides
  its behaviour.

  \<^bold>\<open>The program and its parts.\<close>
  A device registers with the device registry and reports usage, over REST or over an MQTT topic.
  The ingestion stores the event and hands it to the decision engine, which reads the budget of the
  device from the budget manager, weighs the duration by the category of the application, asks the
  rule engine for an action, deducts the cost and publishes the action to the device.  A request
  for extra time goes to the override service: validators vote, two equal votes decide, an approval
  is granted to the budget and the signed decision is published.  The sync engine takes the state
  events of the devices of a user one at a time, under a lock in Redis, resolves conflicts with the
  stored snapshot and broadcasts the state of the family; an event found locked is retried.  The
  learning worker averages the gradients of a round in Redis and flags the devices that drift, whose
  flag the decision engine stores.  Requests come in over HTTP/1.1, which uvicorn leaves to h11, and
  reach the handlers through the CORS middleware, the router, the form parser (for a login) and the authentication of a bearer token.

  \<^bold>\<open>How the code is modelled.\<close>
  A handler is a function from a world (the record of theory \<open>World\<close>: settings, committed
  tables, the session's tables, the Redis server, the broker, the clock) to an exception or a result
  and the next world (\<open>'a handler\<close>); \<open>await\<close> is sequencing, \<open>raise\<close> is the
  left result, a session that ends with an exception is rolled back.  Tables are lists of records in
  insertion order, JSON and Python values are datatypes, times are microseconds, floats are
  rationals rounded to 53 bits after every operation (the values computed stay far from overflow).

  \<^item> \<open>Prelude\<close>: exceptions, handlers, their weakest preconditions and the
    preservation of an invariant, dictionaries, strings, instants.
  \<^item> \<open>World\<close>, \<open>Database\<close>: app/config.py, app/database.py and the models.py files; queries,
    constraints, cascades, sessions, \<open>to_async_database_url\<close>; the invariant \<open>db_wf\<close> of the tables.
  \<^item> \<open>PyFloat\<close>, \<open>PyValues\<close>: floats, \<open>int\<close>, \<open>bool\<close> and \<open>float\<close> of a JSON value.
  \<^item> \<open>RedisClient\<close>: app/shared/redis_client.py over redis-py's encoder and a server with expiry
    (\<open>get\<close>, \<open>set\<close> with \<open>nx\<close>/\<open>ex\<close>, \<open>delete\<close>, lists, sets, streams); the null object and the wrapper
    that swallows errors.
  \<^item> \<open>MqttClient\<close>: app/shared/mqtt_client.py and the checks of paho's \<open>publish\<close>.
  \<^item> \<open>Devices\<close>, \<open>Usage\<close>: app/modules/device_registry and usage_ingestion with the MQTT listener.
  \<^item> \<open>Rules\<close>, \<open>Budgets\<close>, \<open>Engine\<close>: app/modules/decision_engine.
  \<^item> \<open>Override\<close>: app/modules/override_service/quorum.py.
  \<^item> \<open>Conflict\<close>, \<open>SyncEngine\<close>, \<open>Locking\<close>: app/modules/sync_engine; the last one interleaves any
    number of workers command by command on the lock of one user.
  \<^item> \<open>Aggregator\<close>, \<open>Drift\<close>: app/modules/fl_worker over numpy.
  \<^item> \<open>Codec\<close>, \<open>Hashing\<close>, \<open>Jose\<close>, \<open>Passlib\<close>, \<open>Auth\<close>: app/modules/auth_service down to base64,
    JSON texts, SHA-2, HMAC and PBKDF2 on words of 32 and 64 bits.
  \<^item> \<open>Urlencode\<close>, \<open>Forms\<close>, \<open>Login\<close>: a posted form from its bytes to the login endpoint.
  \<^item> \<open>Headers\<close>, \<open>Cors\<close>, \<open>Routing\<close>, \<open>Server\<close>: app/main.py with the starlette middleware and router.
  \<^item> \<open>Matcher\<close>: paho's tree of topic filters and the dispatch of a message to its callbacks.
  \<^item> \<open>HttpState\<close>, \<open>HttpHeaders\<close>, \<open>HttpBody\<close>, \<open>HttpConnection\<close>: h11, bottom up: the state machine
    (_state.py), headers, events and framing (_headers.py, _abnf.py, _events.py), the receive buffer,
    the readers and the writers, and the connection (_connection.py).
  \<^item> \<open>HttpHead\<close>, \<open>HttpExchange\<close>: the head of a request as it arrives, and a client connection that
    sends to a server connection, whose loop over \<open>next_event\<close> is that of uvicorn.
  \<^item> \<open>System\<close>: the steps of the whole service, one handler or one act of the environment at a time.

  \<^bold>\<open>What the lemmas show.\<close>
  Each theory first shows what its operations do on every branch, errors included, as lemmas about
  runs; the properties rest on these.  The contracts between components are locales, interpreted on
  the model's own definitions: a store with expiry (the Redis server), ordered rules (the rule
  engine), a dictionary (the callbacks of the MQTT client), the statements on the shared tables (the
  requests of the service, with the invariants of the tables, of decided overrides and of an
  account).
  The properties are about the program as it is, with the Redis client it creates and the names its
  modules define, so several of them state an error: the budget module calls a method the Redis
  wrapper lacks, app.database lacks two classes, a client that decodes replies is asked to decode.
  What the same algorithms do where these calls return is stated by lemmas beside them, over a
  cache invalidation or a lookup given as an argument, or over the client that returns bytes.
  \<^item> Budgets and decisions: the first budget of a day is created once; a report is charged exactly
    its integer cost and then fails, a rebalancing fails or leaves every total as it is; the table of
    the rules, and that their float comparisons are the integer ones.
  \<^item> Overrides: the outcome of a vote on every path, the bounds of a request, and that a decision is
    final in every reachable world.
  \<^item> Accounts: registering, logging in and authenticating is a round trip through the
    hashing and the token; only a signed, unexpired token authenticates; an account lasts.
  \<^item> Synchronisation: the lock excludes for its three seconds, stays until they are over because
    its release raises, and is then free again, also after a crash; an event's ingestion stores the
    merged snapshot and fails; an event found locked is handled in the end while a consumer runs; the
    winner of a conflict does not depend on the order of the events.
  \<^item> The edge: the form of every pair of texts is read back as those texts, however
    the body is cut into chunks; which endpoint a method and path reach; a message reaches exactly the
    callbacks whose filters match; only listed origins are granted.
  \<^item> HTTP: the framing of an accepted message is never in doubt, requests and responses are
    paired, a connection is reused exactly when it may be, the resumed searches of the receive buffer
    are exact, a response is framed so that its receiver can follow, and a request sent by a client
    connection is the request a server connection gives, however the network cuts its bytes.
  \<^item> Devices and usage: failed requests change nothing, requests of one user leave the rows of
    the others alone, a device can be removed with all that was recorded of it, the daily summary.
  \<^item> Learning: the vote of the detectors; and, as the module of the table is missing, that
    submission and aggregation raise, with what they would do if it were there.

  \<^bold>\<open>Bounds and fuel.\<close>
  Two definitions run on fuel.  The JSON reader takes one more than the length of the text, and
  every recursive call is on a shorter one; \<open>str.replace\<close> takes the length of the text, and
  every step consumes a character.  The consumer of retried events, which never ends, is run for a
  number of turns, and a property of theory \<open>Locking\<close> shows that three seconds divided by the time
  between two turns, and one more, are enough for an event.  The other recursions over bytes, chunks and templates terminate
  by the length of what is left.  The server's loop over the events of a connection is a partial
  function into an option, and the round trip of a request shows that it ends.

  \<^bold>\<open>Parameters.\<close>
  numpy (with the laws \<open>numpy_ok\<close> of its documentation), the validator of mail addresses (a package
  the repository does not contain), the keyed hash of the override decisions, the random number of a
  salt, the keys of other signature algorithms, the compiled origin pattern of the CORS middleware
  and the parser of multipart bodies are arguments.  The database is PostgreSQL's where it matters
  (the numbering of usage events, the text of a category).  Each property with a hypothesis on one of them
  has a witness at a concrete function.

  \<^bold>\<open>Not modelled.\<close>
  SQLAlchemy's engine and the SQL it emits, alembic, pydantic's core (compiled code), the sockets
  and event loops of uvicorn, redis-py and paho, and the other packages under .pydeps: they are
  third-party and the application's behaviour does not hang on their branches; what it relies on is
  written into the world.  Of the vendored packages that are modelled, jose's asymmetric keys and
  JWE, passlib's other schemes and policies, starlette's websockets, mounts and multipart forms, and
  fastapi's generated schemas, h11's conversion of text arguments and uvicorn's protocol class are left out, as the service does not use them.  The interleaving of
  two handlers inside one handler is modelled for the user lock only.  The page under src/frontend
  and the files under src/infra contain no Python.
\<close>

end
